(* ===== verification/Rerun_Prelude.thy ===== *)
theory Rerun_Prelude
  imports Main "HOL-Library.Word"
begin

text \<open>
  Shared vocabulary of the development: the machine integers of the Rust code as words,
  the saturating and checked operations of the standard library on them, and the generic
  lemmas on lists, options and words that several components use.
\<close>

unbundle bit_operations_syntax

named_theorems i64_simps \<open>signed readings of the 64-bit operations\<close>

section \<open>Machine integers\<close>

type_synonym u8 = "8 word"
type_synonym u16 = "16 word"
type_synonym u32 = "32 word"
type_synonym u64 = "64 word"
type_synonym i64 = "64 word"

definition i64_min :: i64 where
  "i64_min = 0x8000000000000000"

definition i64_max :: i64 where
  "i64_max = 0x7FFFFFFFFFFFFFFF"

lemma sint_i64_min [i64_simps]: "sint i64_min = - (2 ^ 63)"
  by (simp add: i64_min_def)

lemma sint_i64_max [i64_simps]: "sint i64_max = 2 ^ 63 - 1"
  by (simp add: i64_max_def)

lemma sint_i64_lower: "- (2 ^ 63) \<le> sint (w :: i64)"
  using sint_ge [of w] by simp

lemma sint_i64_upper: "sint (w :: i64) \<le> 2 ^ 63 - 1"
  using sint_lt [of w] by simp

lemma sint_i64_of_int:
  "- (2 ^ 63) \<le> x \<Longrightarrow> x \<le> 2 ^ 63 - 1 \<Longrightarrow> sint (word_of_int x :: i64) = x"
  by (simp add: signed_take_bit_int_eq_self_iff sint_sbintrunc' signed_take_bit_int_eq_self)

text \<open>Rust's saturating operations compute the exact result and clamp it to the type.\<close>

definition clamp_i64 :: "int \<Rightarrow> i64" where
  "clamp_i64 x =
     (if x < - (2 ^ 63) then i64_min else if 2 ^ 63 - 1 < x then i64_max else word_of_int x)"

lemma sint_clamp_i64 [i64_simps]:
  "sint (clamp_i64 x) = max (- (2 ^ 63)) (min (2 ^ 63 - 1) x)"
  by (auto simp: clamp_i64_def i64_simps sint_i64_of_int)

definition saturating_add_i64 :: "i64 \<Rightarrow> i64 \<Rightarrow> i64" where
  "saturating_add_i64 a b = clamp_i64 (sint a + sint b)"

definition saturating_sub_i64 :: "i64 \<Rightarrow> i64 \<Rightarrow> i64" where
  "saturating_sub_i64 a b = clamp_i64 (sint a - sint b)"

definition saturating_mul_i64 :: "i64 \<Rightarrow> i64 \<Rightarrow> i64" where
  "saturating_mul_i64 a b = clamp_i64 (sint a * sint b)"

text \<open>Rust's \<open>/\<close> on signed integers truncates towards zero.\<close>

definition trunc_div :: "int \<Rightarrow> int \<Rightarrow> int" where
  "trunc_div a b = sgn a * sgn b * (\<bar>a\<bar> div \<bar>b\<bar>)"

text \<open>\<open>i64::midpoint\<close>: the exact average, rounded towards zero.\<close>

definition midpoint_i64 :: "i64 \<Rightarrow> i64 \<Rightarrow> i64" where
  "midpoint_i64 a b = word_of_int (trunc_div (sint a + sint b) 2)"

text \<open>\<open>i64::abs_diff\<close>, an unsigned result that cannot overflow.\<close>

definition abs_diff_i64 :: "i64 \<Rightarrow> i64 \<Rightarrow> u64" where
  "abs_diff_i64 a b = word_of_int \<bar>sint a - sint b\<bar>"

lemma sint_inject_i64: "sint (a :: i64) = sint b \<longleftrightarrow> a = b"
  by (auto intro: signed_word_eqI)

lemma trunc_div2_bounds:
  assumes "l \<le> 0" "0 \<le> u" "2 * l \<le> x" "x \<le> 2 * u"
  shows "l \<le> trunc_div x 2 \<and> trunc_div x 2 \<le> u"
  using assms by (auto simp: trunc_div_def sgn_if)

lemma sint_midpoint_i64 [i64_simps]:
  "sint (midpoint_i64 a b) = trunc_div (sint a + sint b) 2"
proof -
  have "- (2 ^ 63) \<le> trunc_div (sint a + sint b) 2 \<and> trunc_div (sint a + sint b) 2 \<le> 2 ^ 63 - 1"
    by (rule trunc_div2_bounds)
      (use sint_i64_lower [of a] sint_i64_lower [of b] sint_i64_upper [of a]
        sint_i64_upper [of b] in auto)
  then show ?thesis
    by (simp add: midpoint_i64_def sint_i64_of_int)
qed

lemma uint_abs_diff_i64 [i64_simps]: "uint (abs_diff_i64 a b) = \<bar>sint a - sint b\<bar>"
proof -
  have "\<bar>sint a - sint b\<bar> < 2 ^ 64"
    using sint_i64_lower [of a] sint_i64_lower [of b] sint_i64_upper [of a] sint_i64_upper [of b]
    by auto
  then show ?thesis
    by (simp add: abs_diff_i64_def uint_word_of_int)
qed

section \<open>Options and results\<close>

text \<open>
  A fallible function returns \<open>error + 'a\<close>; \<open>bind_res\<close> is the \<open>?\<close> operator.
\<close>

definition bind_res :: "'e + 'a \<Rightarrow> ('a \<Rightarrow> 'e + 'b) \<Rightarrow> 'e + 'b" where
  "bind_res r f = (case r of Inl e \<Rightarrow> Inl e | Inr x \<Rightarrow> f x)"

lemma bind_res_simps [simp]:
  "bind_res (Inl e) f = Inl e" "bind_res (Inr x) f = f x"
  by (simp_all add: bind_res_def)

lemma bind_res_Inr_iff: "bind_res r f = Inr y \<longleftrightarrow> (\<exists>x. r = Inr x \<and> f x = Inr y)"
  by (cases r) auto

lemma bind_res_cong [fundef_cong]:
  "r = r' \<Longrightarrow> (\<And>x. r' = Inr x \<Longrightarrow> f x = g x) \<Longrightarrow> bind_res r f = bind_res r' g"
  by (cases r') auto

section \<open>Slices\<close>

text \<open>
  \<open>partition_point\<close> on a slice that the predicate partitions: the length of the prefix that
  satisfies it.
\<close>

definition partition_point :: "('a \<Rightarrow> bool) \<Rightarrow> 'a list \<Rightarrow> nat" where
  "partition_point P xs = length (takeWhile P xs)"

end
