(* ===== verification/Ordered_Map.thy ===== *)
theory Ordered_Map
  imports Rerun_Prelude
begin

text \<open>
  The ordered maps of the Rust standard library (\<open>BTreeMap\<close>), as association lists sorted by
  a comparison function, and the comparison functions the code derives or writes for its
  keys. The locale \<open>total_cmp\<close> is the contract of \<open>Ord\<close>; the laws of the map hold in it.
\<close>

section \<open>Comparison functions\<close>

datatype ordering = Less | Equal | Greater

fun then_cmp :: "ordering \<Rightarrow> ordering \<Rightarrow> ordering" where
  "then_cmp Equal o2 = o2"
| "then_cmp o1 o2 = o1"

lemma then_cmp_Equal_right [simp]: "then_cmp a Equal = a"
  by (cases a) auto

text \<open>The order a type class instance derives.\<close>

definition lin_cmp :: "'a :: linorder \<Rightarrow> 'a \<Rightarrow> ordering" where
  "lin_cmp x y = (if x < y then Less else if x = y then Equal else Greater)"

text \<open>Slices and vectors compare lexicographically, a strict prefix first.\<close>

fun list_cmp :: "('a \<Rightarrow> 'a \<Rightarrow> ordering) \<Rightarrow> 'a list \<Rightarrow> 'a list \<Rightarrow> ordering" where
  "list_cmp c [] [] = Equal"
| "list_cmp c [] (y # ys) = Less"
| "list_cmp c (x # xs) [] = Greater"
| "list_cmp c (x # xs) (y # ys) = then_cmp (c x y) (list_cmp c xs ys)"

fun pair_cmp ::
  "('a \<Rightarrow> 'a \<Rightarrow> ordering) \<Rightarrow> ('b \<Rightarrow> 'b \<Rightarrow> ordering) \<Rightarrow> 'a \<times> 'b \<Rightarrow> 'a \<times> 'b \<Rightarrow> ordering" where
  "pair_cmp c d (a, b) (a', b') = then_cmp (c a a') (d b b')"

text \<open>
  \<open>Ord\<close>: a total preorder whose \<open>Equal\<close> is a congruence. Keys that compare equal may still
  differ (a rule keeps its source text, which its comparison ignores).
\<close>

locale total_cmp =
  fixes cmp :: "'k \<Rightarrow> 'k \<Rightarrow> ordering"
  assumes cmp_refl: "cmp x x = Equal"
    and cmp_flip: "cmp x y = Less \<Longrightarrow> cmp y x = Greater"
    and cmp_flip': "cmp x y = Greater \<Longrightarrow> cmp y x = Less"
    and cmp_equal: "cmp x y = Equal \<Longrightarrow> cmp x z = cmp y z"
    and cmp_trans: "cmp x y = Less \<Longrightarrow> cmp y z = Less \<Longrightarrow> cmp x z = Less"
begin

lemma cmp_sym: "cmp x y = Equal \<Longrightarrow> cmp y x = Equal"
  by (metis cmp_equal cmp_refl)

lemma cmp_not_Less: "cmp x y \<noteq> Less \<longleftrightarrow> cmp y x = Less \<or> cmp x y = Equal"
  by (metis cmp_flip cmp_flip' ordering.distinct ordering.exhaust)

lemma cmp_equal_right: "cmp x y = Equal \<Longrightarrow> cmp z x = cmp z y"
  by (metis cmp_equal cmp_flip cmp_flip' cmp_sym ordering.exhaust)

lemma cmp_Less_irrefl: "cmp x x \<noteq> Less"
  by (simp add: cmp_refl)

end

section \<open>Sorted association lists\<close>

type_synonym ('k, 'v) omap = "('k \<times> 'v) list"

text \<open>Inserting at a key that is present replaces the value and keeps the stored key.\<close>

fun om_insert :: "('k \<Rightarrow> 'k \<Rightarrow> ordering) \<Rightarrow> 'k \<Rightarrow> 'v \<Rightarrow> ('k, 'v) omap \<Rightarrow> ('k, 'v) omap" where
  "om_insert cmp k v [] = [(k, v)]"
| "om_insert cmp k v ((k', v') # m) =
     (case cmp k k' of
        Less \<Rightarrow> (k, v) # (k', v') # m
      | Equal \<Rightarrow> (k', v) # m
      | Greater \<Rightarrow> (k', v') # om_insert cmp k v m)"

fun om_get :: "('k \<Rightarrow> 'k \<Rightarrow> ordering) \<Rightarrow> ('k, 'v) omap \<Rightarrow> 'k \<Rightarrow> 'v option" where
  "om_get cmp [] k = None"
| "om_get cmp ((k', v') # m) k = (if cmp k k' = Equal then Some v' else om_get cmp m k)"

definition om_remove :: "('k \<Rightarrow> 'k \<Rightarrow> ordering) \<Rightarrow> 'k \<Rightarrow> ('k, 'v) omap \<Rightarrow> ('k, 'v) omap" where
  "om_remove cmp k m = filter (\<lambda>(k', v). cmp k k' \<noteq> Equal) m"

text \<open>\<open>entry(k).or_insert(v)\<close>\<close>

definition om_or_insert :: "('k \<Rightarrow> 'k \<Rightarrow> ordering) \<Rightarrow> 'k \<Rightarrow> 'v \<Rightarrow> ('k, 'v) omap \<Rightarrow> ('k, 'v) omap" where
  "om_or_insert cmp k v m = (case om_get cmp m k of None \<Rightarrow> om_insert cmp k v m | Some _ \<Rightarrow> m)"

text \<open>\<open>collect()\<close> and \<open>extend()\<close> insert one pair after the other.\<close>

definition om_extend :: "('k \<Rightarrow> 'k \<Rightarrow> ordering) \<Rightarrow> ('k, 'v) omap \<Rightarrow> ('k \<times> 'v) list \<Rightarrow> ('k, 'v) omap" where
  "om_extend cmp m kvs = fold (\<lambda>(k, v). om_insert cmp k v) kvs m"

definition om_sorted :: "('k \<Rightarrow> 'k \<Rightarrow> ordering) \<Rightarrow> ('k, 'v) omap \<Rightarrow> bool" where
  "om_sorted cmp m \<longleftrightarrow> sorted_wrt (\<lambda>a b. cmp (fst a) (fst b) = Less) m"

lemma om_sorted_Nil [simp]: "om_sorted cmp []"
  by (simp add: om_sorted_def)

lemma om_sorted_Cons:
  "om_sorted cmp (p # m) \<longleftrightarrow> (\<forall>q\<in>set m. cmp (fst p) (fst q) = Less) \<and> om_sorted cmp m"
  by (simp add: om_sorted_def)

lemma om_sorted_filter: "om_sorted cmp m \<Longrightarrow> om_sorted cmp (filter P m)"
  by (simp add: om_sorted_def sorted_wrt_filter)

lemma om_sorted_remove: "om_sorted cmp m \<Longrightarrow> om_sorted cmp (om_remove cmp k m)"
  by (simp add: om_remove_def om_sorted_filter)

lemma om_insert_keys:
  "p \<in> set (om_insert cmp k v m) \<Longrightarrow> p \<in> set m \<or> snd p = v \<and> (cmp k (fst p) = Equal \<or> fst p = k)"
  by (induction m) (auto split: ordering.splits)

lemma set_om_insert_new:
  assumes "\<And>k' v'. (k', v') \<in> set m \<Longrightarrow> cmp k k' \<noteq> Equal"
  shows "set (om_insert cmp k v m) = insert (k, v) (set m)"
  using assms
proof (induction m)
  case (Cons p m)
  then have "cmp k (fst p) \<noteq> Equal" by (cases p) auto
  with Cons show ?case by (cases p) (auto split: ordering.splits)
qed simp

lemma om_insert_fst_snd:
  "p \<in> set (om_insert cmp k v m) \<Longrightarrow>
     fst p \<in> insert k (fst ` set m) \<and> snd p \<in> insert v (snd ` set m)"
  by (induction m) (auto split: ordering.splits)

lemma om_extend_keys:
  "p \<in> set (om_extend cmp m kvs) \<Longrightarrow>
     fst p \<in> fst ` set m \<union> fst ` set kvs \<and> snd p \<in> snd ` set m \<union> snd ` set kvs"
proof (induction kvs arbitrary: m)
  case (Cons kv kvs)
  obtain k v where kv: "kv = (k, v)" by (cases kv)
  have "p \<in> set (om_extend cmp (om_insert cmp k v m) kvs)"
    using Cons.prems by (simp add: om_extend_def kv)
  moreover have "fst ` set (om_insert cmp k v m) \<subseteq> insert k (fst ` set m)"
    "snd ` set (om_insert cmp k v m) \<subseteq> insert v (snd ` set m)"
    using om_insert_fst_snd [of _ cmp k v m] by blast+
  ultimately show ?case using Cons.IH [of "om_insert cmp k v m"] by (auto simp: kv)
qed (simp add: om_extend_def)

context total_cmp begin

lemma om_sorted_insert: "om_sorted cmp m \<Longrightarrow> om_sorted cmp (om_insert cmp k v m)"
proof (induction m)
  case Nil
  then show ?case by (simp add: om_sorted_def)
next
  case (Cons p m)
  obtain k' v' where p: "p = (k', v')" by (cases p)
  have tail: "om_sorted cmp m" and less: "\<forall>q\<in>set m. cmp k' (fst q) = Less"
    using Cons.prems by (auto simp: om_sorted_Cons p)
  show ?case
  proof (cases "cmp k k'")
    case Less
    then show ?thesis using tail less by (auto simp: om_sorted_Cons p intro: cmp_trans)
  next
    case Equal
    then show ?thesis using tail less by (auto simp: om_sorted_Cons p)
  next
    case Greater
    then have "cmp k' k = Less" by (rule cmp_flip')
    then have "\<forall>q\<in>set (om_insert cmp k v m). cmp k' (fst q) = Less"
      using less by (auto dest!: om_insert_keys simp: cmp_equal_right [of k, symmetric])
    then show ?thesis using Cons.IH [OF tail] Greater by (simp add: om_sorted_Cons p)
  qed
qed

lemma om_get_insert_same: "om_get cmp (om_insert cmp k v m) k = Some v"
  by (induction m) (auto simp: cmp_refl split: ordering.splits)

lemma om_get_insert_other:
  assumes "cmp k k2 \<noteq> Equal"
  shows "om_get cmp (om_insert cmp k v m) k2 = om_get cmp m k2"
proof -
  have sym: "cmp k2 k \<noteq> Equal" using assms by (metis cmp_sym)
  have diff: "cmp k2 a \<noteq> Equal" if "cmp k a = Equal" for a
    using assms that by (metis cmp_equal_right cmp_sym)
  show ?thesis using sym diff by (induction m) (auto split: ordering.splits)
qed

lemma om_get_equal: "cmp k k2 = Equal \<Longrightarrow> om_get cmp m k = om_get cmp m k2"
  by (induction m) (auto simp: cmp_equal [of k k2])

lemma om_get_insert:
  "om_get cmp (om_insert cmp k v m) k2 = (if cmp k k2 = Equal then Some v else om_get cmp m k2)"
  by (metis om_get_insert_same om_get_insert_other om_get_equal)

lemma om_get_remove:
  "om_get cmp (om_remove cmp k m) k2 = (if cmp k k2 = Equal then None else om_get cmp m k2)"
proof (cases "cmp k k2 = Equal")
  case True
  then have "cmp k2 a = cmp k a" for a by (rule cmp_equal [symmetric])
  then show ?thesis using True by (induction m) (auto simp: om_remove_def)
next
  case False
  then have "cmp k2 a \<noteq> Equal" if "cmp k a = Equal" for a
    using that by (metis cmp_equal_right cmp_sym)
  then show ?thesis using False by (induction m) (auto simp: om_remove_def)
qed

lemma om_sorted_or_insert: "om_sorted cmp m \<Longrightarrow> om_sorted cmp (om_or_insert cmp k v m)"
  by (simp add: om_or_insert_def om_sorted_insert split: option.splits)

lemma om_get_or_insert:
  "om_get cmp (om_or_insert cmp k v m) k2 =
     (if cmp k k2 = Equal \<and> om_get cmp m k = None then Some v else om_get cmp m k2)"
  by (auto simp: om_or_insert_def om_get_insert split: option.splits)

lemma om_sorted_extend: "om_sorted cmp m \<Longrightarrow> om_sorted cmp (om_extend cmp m kvs)"
  unfolding om_extend_def
  by (induction kvs arbitrary: m) (auto simp: om_sorted_insert)

lemma om_get_Some_in: "om_get cmp m k = Some v \<Longrightarrow> \<exists>k'. (k', v) \<in> set m \<and> cmp k k' = Equal"
  by (induction m) (auto split: if_splits)

lemma om_get_in_Some:
  "om_sorted cmp m \<Longrightarrow> (k', v) \<in> set m \<Longrightarrow> cmp k k' = Equal \<Longrightarrow> om_get cmp m k = Some v"
proof (induction m)
  case (Cons p m)
  show ?case
  proof (cases "p = (k', v)")
    case False
    then have "cmp (fst p) k' = Less" using Cons.prems by (auto simp: om_sorted_Cons)
    then have "cmp k (fst p) \<noteq> Equal"
      using Cons.prems(3) by (metis cmp_equal cmp_equal_right cmp_sym ordering.distinct(1))
    then show ?thesis using Cons False by (cases p) (auto simp: om_sorted_Cons)
  qed (use Cons.prems in auto)
qed simp

end

section \<open>The comparison functions meet the contract\<close>

interpretation lin: total_cmp "lin_cmp :: 'a :: linorder \<Rightarrow> 'a \<Rightarrow> ordering"
  by unfold_locales (auto simp: lin_cmp_def split: if_splits)

lemma then_cmp_Equal_iff [simp]: "then_cmp a b = Equal \<longleftrightarrow> a = Equal \<and> b = Equal"
  by (cases a) auto

lemma then_cmp_Less_iff: "then_cmp a b = Less \<longleftrightarrow> a = Less \<or> a = Equal \<and> b = Less"
  by (cases a) auto

lemma then_cmp_Greater_iff: "then_cmp a b = Greater \<longleftrightarrow> a = Greater \<or> a = Equal \<and> b = Greater"
  by (cases a) auto

lemmas then_cmp_iffs = then_cmp_Equal_iff then_cmp_Less_iff then_cmp_Greater_iff

lemma list_cmp_Equal:
  assumes "total_cmp c"
  shows "list_cmp c xs ys = Equal \<Longrightarrow> list_cmp c xs zs = list_cmp c ys zs"
proof (induction xs ys arbitrary: zs rule: list_induct2')
  case (4 x xs y ys)
  then have "c x a = c y a" for a by (simp add: total_cmp.cmp_equal [OF assms])
  with 4 show ?case by (cases zs) auto
qed auto

lemma list_cmp_trans:
  assumes "total_cmp c"
  shows "list_cmp c xs ys = Less \<Longrightarrow> list_cmp c ys zs = Less \<Longrightarrow> list_cmp c xs zs = Less"
proof (induction xs arbitrary: ys zs)
  case Nil
  then show ?case by (cases ys; cases zs) auto
next
  case (Cons x xs)
  then obtain y ys' z zs' where eqs: "ys = y # ys'" "zs = z # zs'"
    by (cases ys; cases zs) auto
  show ?case
    using Cons total_cmp.cmp_trans [OF assms, of x y z] total_cmp.cmp_equal [OF assms, of x y z]
      total_cmp.cmp_equal_right [OF assms, of y z x]
    by (auto simp: eqs then_cmp_Less_iff)
qed

lemma list_cmp_flip:
  assumes "total_cmp c"
  shows "list_cmp c xs ys = Less \<longleftrightarrow> list_cmp c ys xs = Greater"
proof (induction xs ys rule: list_induct2')
  case (4 x xs y ys)
  show ?case
  proof (cases "c x y")
    case Less
    with total_cmp.cmp_flip [OF assms this] show ?thesis by simp
  next
    case Equal
    with total_cmp.cmp_sym [OF assms this] 4 show ?thesis by simp
  next
    case Greater
    with total_cmp.cmp_flip' [OF assms this] show ?thesis by simp
  qed
qed auto

lemma total_cmp_list:
  assumes "total_cmp c"
  shows "total_cmp (list_cmp c)"
proof
  show "list_cmp c x x = Equal" for x
    by (induction x) (simp_all add: total_cmp.cmp_refl [OF assms])
  show "list_cmp c y x = Greater" if "list_cmp c x y = Less" for x y
    using that list_cmp_flip [OF assms] by blast
  show "list_cmp c y x = Less" if "list_cmp c x y = Greater" for x y
    using that list_cmp_flip [OF assms] by blast
  show "list_cmp c x z = list_cmp c y z" if "list_cmp c x y = Equal" for x y z
    using assms that by (rule list_cmp_Equal)
  show "list_cmp c x z = Less" if "list_cmp c x y = Less" "list_cmp c y z = Less" for x y z
    using assms that by (rule list_cmp_trans)
qed

lemma total_cmp_pair:
  assumes "total_cmp c" "total_cmp d"
  shows "total_cmp (pair_cmp c d)"
proof
  fix x y z :: "'a \<times> 'b"
  obtain a b a' b' a'' b'' where xyz: "x = (a, b)" "y = (a', b')" "z = (a'', b'')"
    by (cases x; cases y; cases z)
  show "pair_cmp c d x x = Equal"
    by (simp add: xyz total_cmp.cmp_refl [OF assms(1)] total_cmp.cmp_refl [OF assms(2)])
  show "pair_cmp c d x y = Less \<Longrightarrow> pair_cmp c d y x = Greater"
    using total_cmp.cmp_flip [OF assms(1), of a a'] total_cmp.cmp_flip [OF assms(2), of b b']
      total_cmp.cmp_sym [OF assms(1), of a a'] by (auto simp: xyz then_cmp_iffs)
  show "pair_cmp c d x y = Greater \<Longrightarrow> pair_cmp c d y x = Less"
    using total_cmp.cmp_flip' [OF assms(1), of a a'] total_cmp.cmp_flip' [OF assms(2), of b b']
      total_cmp.cmp_sym [OF assms(1), of a a'] by (auto simp: xyz then_cmp_iffs)
  show "pair_cmp c d x y = Equal \<Longrightarrow> pair_cmp c d x z = pair_cmp c d y z"
    using total_cmp.cmp_equal [OF assms(1), of a a' a''] total_cmp.cmp_equal [OF assms(2), of b b' b'']
    by (simp add: xyz)
  show "pair_cmp c d x y = Less \<Longrightarrow> pair_cmp c d y z = Less \<Longrightarrow> pair_cmp c d x z = Less"
    using total_cmp.cmp_trans [OF assms(1), of a a' a''] total_cmp.cmp_trans [OF assms(2), of b b' b'']
      total_cmp.cmp_equal [OF assms(1), of a a' a''] total_cmp.cmp_equal_right [OF assms(1), of a' a'' a]
    by (auto simp: xyz then_cmp_Less_iff)
qed

text \<open>Comparing by a key.\<close>

lemma total_cmp_image:
  assumes "total_cmp c"
  shows "total_cmp (\<lambda>x y. c (f x) (f y))"
  by unfold_locales (blast intro: total_cmp.cmp_refl [OF assms] total_cmp.cmp_flip [OF assms]
      total_cmp.cmp_flip' [OF assms] total_cmp.cmp_equal [OF assms] total_cmp.cmp_trans [OF assms])+

lemma list_cmp_eq_iff:
  assumes "\<And>x y. c x y = Equal \<longleftrightarrow> x = y"
  shows "list_cmp c xs ys = Equal \<longleftrightarrow> xs = ys"
  using assms by (induction c xs ys rule: list_cmp.induct) auto

text \<open>A strict extension of a list is greater, whatever the order of the elements.\<close>

lemma list_cmp_extension:
  assumes "total_cmp c"
  shows "list_cmp c xs (xs @ y # ys) = Less"
  by (induction xs) (simp_all add: total_cmp.cmp_refl [OF assms])

text \<open>Strings are compared by their code points, as their UTF-8 bytes would be.\<close>

definition str_cmp :: "nat list \<Rightarrow> nat list \<Rightarrow> ordering" where
  "str_cmp = list_cmp lin_cmp"

lemma lin_cmp_eq_iff [simp]: "lin_cmp x y = Equal \<longleftrightarrow> x = y"
  by (auto simp: lin_cmp_def)

lemma str_cmp_eq_iff [simp]: "str_cmp s t = Equal \<longleftrightarrow> s = t"
  by (simp add: str_cmp_def list_cmp_eq_iff)

text \<open>The order of strings that an external natural-order comparison provides.\<close>

locale natural_order = total_cmp natcmp for natcmp :: "nat list \<Rightarrow> nat list \<Rightarrow> ordering" +
  assumes natcmp_eq: "natcmp a b = Equal \<longleftrightarrow> a = b"

interpretation str: natural_order str_cmp
  using total_cmp_list [OF lin.total_cmp_axioms]
  by (simp add: natural_order_def natural_order_axioms_def) (simp add: str_cmp_def)

end
