(* ===== verification/Rust_Char.thy ===== *)
theory Rust_Char
  imports Rerun_Prelude
begin

text \<open>
  Characters and strings of the Rust code: a character is its code point, a string the list
  of its characters. The predicates and the number conversions of the standard library that
  the components use, with the lemmas that reading a printed number gives it back. The
  Unicode table behind \<open>char::is_alphanumeric\<close> is the argument \<open>ualnum\<close>, consulted above
  ASCII only.
\<close>

section \<open>Characters\<close>

type_synonym rchar = nat
type_synonym rstr = "rchar list"

abbreviation "c_newline \<equiv> (10 :: rchar)"
abbreviation "c_return \<equiv> (13 :: rchar)"
abbreviation "c_tab \<equiv> (9 :: rchar)"
abbreviation "c_space \<equiv> (32 :: rchar)"
abbreviation "c_hash \<equiv> (35 :: rchar)"
abbreviation "c_dollar \<equiv> (36 :: rchar)"
abbreviation "c_star \<equiv> (42 :: rchar)"
abbreviation "c_plus \<equiv> (43 :: rchar)"
abbreviation "c_minus \<equiv> (45 :: rchar)"
abbreviation "c_dot \<equiv> (46 :: rchar)"
abbreviation "c_slash \<equiv> (47 :: rchar)"
abbreviation "c_zero \<equiv> (48 :: rchar)"
abbreviation "c_colon \<equiv> (58 :: rchar)"
abbreviation "c_lbracket \<equiv> (91 :: rchar)"
abbreviation "c_backslash \<equiv> (92 :: rchar)"
abbreviation "c_rbracket \<equiv> (93 :: rchar)"
abbreviation "c_underscore \<equiv> (95 :: rchar)"
abbreviation "c_n \<equiv> (110 :: rchar)"
abbreviation "c_r \<equiv> (114 :: rchar)"
abbreviation "c_t \<equiv> (116 :: rchar)"
abbreviation "c_u \<equiv> (117 :: rchar)"
abbreviation "c_lbrace \<equiv> (123 :: rchar)"
abbreviation "c_rbrace \<equiv> (125 :: rchar)"

definition is_char :: "rchar \<Rightarrow> bool" where
  "is_char c \<longleftrightarrow> c < 0xD800 \<or> 0xE000 \<le> c \<and> c < 0x110000"

definition is_ascii_punctuation :: "rchar \<Rightarrow> bool" where
  "is_ascii_punctuation c \<longleftrightarrow>
     33 \<le> c \<and> c \<le> 47 \<or> 58 \<le> c \<and> c \<le> 64 \<or> 91 \<le> c \<and> c \<le> 96 \<or> 123 \<le> c \<and> c \<le> 126"

definition is_ascii_alphanumeric :: "rchar \<Rightarrow> bool" where
  "is_ascii_alphanumeric c \<longleftrightarrow>
     48 \<le> c \<and> c \<le> 57 \<or> 65 \<le> c \<and> c \<le> 90 \<or> 97 \<le> c \<and> c \<le> 122"

definition is_alphanumeric :: "(rchar \<Rightarrow> bool) \<Rightarrow> rchar \<Rightarrow> bool" where
  "is_alphanumeric ualnum c \<longleftrightarrow> (if c < 128 then is_ascii_alphanumeric c else ualnum c)"

text \<open>\<open>char::is_whitespace\<close>: the Unicode property \<open>White_Space\<close>.\<close>

definition is_whitespace :: "rchar \<Rightarrow> bool" where
  "is_whitespace c \<longleftrightarrow> 9 \<le> c \<and> c \<le> 13 \<or> 0x2000 \<le> c \<and> c \<le> 0x200A
     \<or> c \<in> {0x20, 0x85, 0xA0, 0x1680, 0x2028, 0x2029, 0x202F, 0x205F, 0x3000}"

definition utf8_len_char :: "rchar \<Rightarrow> nat" where
  "utf8_len_char c = (if c < 0x80 then 1 else if c < 0x800 then 2 else if c < 0x10000 then 3 else 4)"

definition utf8_len :: "rstr \<Rightarrow> nat" where
  "utf8_len s = sum_list (map utf8_len_char s)"

definition print_as_is :: "(rchar \<Rightarrow> bool) \<Rightarrow> rchar \<Rightarrow> bool" where
  "print_as_is ualnum c \<longleftrightarrow>
     is_alphanumeric ualnum c \<or> c = c_underscore \<or> c = c_minus \<or> c = c_dot"

section \<open>Hexadecimal numbers\<close>

definition hex_digit :: "nat \<Rightarrow> rchar" where
  "hex_digit d = (if d < 10 then 48 + d else 55 + d)"

fun to_hex :: "nat \<Rightarrow> rstr" where
  "to_hex n = (if n < 16 then [hex_digit n] else to_hex (n div 16) @ [hex_digit (n mod 16)])"

declare to_hex.simps [simp del]

text \<open>The format \<open>{:04X}\<close> pads with zeros to width 4.\<close>

definition hex4 :: "nat \<Rightarrow> rstr" where
  "hex4 n = replicate (4 - length (to_hex n)) c_zero @ to_hex n"

definition hex_value :: "rchar \<Rightarrow> nat option" where
  "hex_value c =
     (if 48 \<le> c \<and> c \<le> 57 then Some (c - 48)
      else if 65 \<le> c \<and> c \<le> 70 then Some (c - 55)
      else if 97 \<le> c \<and> c \<le> 102 then Some (c - 87) else None)"

fun hex_digits_value :: "nat \<Rightarrow> rstr \<Rightarrow> nat option" where
  "hex_digits_value acc [] = Some acc"
| "hex_digits_value acc (c # cs) =
     (case hex_value c of None \<Rightarrow> None | Some d \<Rightarrow> hex_digits_value (16 * acc + d) cs)"

text \<open>\<open>u32::from_str_radix(s, 16)\<close>: a leading plus sign is accepted, an empty number is not.\<close>

definition u32_from_hex :: "rstr \<Rightarrow> nat option" where
  "u32_from_hex s =
     (let digits = (case s of c # cs \<Rightarrow> if c = c_plus then cs else s | [] \<Rightarrow> s)
      in if digits = [] then None
         else case hex_digits_value 0 digits of
                None \<Rightarrow> None | Some n \<Rightarrow> if n < 2 ^ 32 then Some n else None)"

lemma hex_digit_simps:
  assumes "d < 16"
  shows "hex_value (hex_digit d) = Some d" "hex_digit d < 128" "hex_digit d \<noteq> c_rbrace"
    "hex_digit d \<noteq> c_plus"
  using assms by (auto simp: hex_value_def hex_digit_def)

lemma to_hex_small: "n < 16 \<Longrightarrow> to_hex n = [hex_digit n]"
  by (simp add: to_hex.simps [of n])

lemma to_hex_big: "16 \<le> n \<Longrightarrow> to_hex n = to_hex (n div 16) @ [hex_digit (n mod 16)]"
  by (simp add: to_hex.simps [of n])

lemma hex4_digits:
  assumes "n < 65536"
  shows "hex4 n = [hex_digit (n div 4096), hex_digit (n div 256 mod 16),
                   hex_digit (n div 16 mod 16), hex_digit (n mod 16)]"
proof -
  have zero: "hex_digit 0 = c_zero" by (simp add: hex_digit_def)
  have reps: "replicate 3 z = [z, z, z]" "replicate 2 z = [z, z]" for z :: rchar
    by (simp_all add: numeral_eq_Suc)
  have divs: "n div 16 div 16 = n div 256" "n div 256 div 16 = n div 4096"
    by (simp_all flip: div_mult2_eq)
  consider "n < 16" | "16 \<le> n" "n < 256" | "256 \<le> n" "n < 4096" | "4096 \<le> n"
    by linarith
  then show ?thesis
  proof cases
    case 1
    then show ?thesis by (simp add: hex4_def to_hex_small zero reps)
  next
    case 2
    then have "n div 16 < 16" by linarith
    with 2 show ?thesis
      by (simp add: hex4_def to_hex_small to_hex_big zero reps)
  next
    case 3
    then have "16 \<le> n div 16" "n div 256 < 16" by linarith+
    with 3 show ?thesis
      by (simp add: hex4_def to_hex_small to_hex_big divs zero reps)
  next
    case 4
    then have "16 \<le> n div 16" "16 \<le> n div 256" "n div 4096 < 16"
      using assms by linarith+
    with 4 show ?thesis
      by (simp add: hex4_def to_hex_small to_hex_big divs)
  qed
qed

lemma to_hex_digits: "d \<in> set (to_hex n) \<Longrightarrow> d < 128 \<and> d \<noteq> c_rbrace"
proof (induction n rule: to_hex.induct)
  case (1 n)
  then show ?case
    by (cases "n < 16") (auto simp: to_hex_small to_hex_big hex_digit_simps not_less)
qed

lemma to_hex_alphanumeric: "d \<in> set (to_hex n) \<Longrightarrow> is_ascii_alphanumeric d"
proof (induction n rule: to_hex.induct)
  case (1 n)
  have "e < 16 \<Longrightarrow> is_ascii_alphanumeric (hex_digit e)" for e
    by (auto simp: hex_digit_def is_ascii_alphanumeric_def)
  with 1 show ?case
    by (cases "n < 16") (auto simp: to_hex_small to_hex_big not_less)
qed

lemma to_hex_long: "0x10000 \<le> n \<Longrightarrow> 5 \<le> length (to_hex n)"
proof -
  assume n: "0x10000 \<le> n"
  then have "16 \<le> n" "16 \<le> n div 16" "16 \<le> n div 16 div 16" "16 \<le> n div 16 div 16 div 16"
    by linarith+
  moreover have "1 \<le> length (to_hex k)" for k by (simp add: to_hex.simps [of k])
  ultimately show ?thesis by (simp add: to_hex_big)
qed

section \<open>Decimal numbers\<close>

definition is_digit :: "rchar \<Rightarrow> bool" where
  "is_digit c \<longleftrightarrow> 48 \<le> c \<and> c \<le> 57"

fun to_dec :: "nat \<Rightarrow> rstr" where
  "to_dec n = (if n < 10 then [48 + n] else to_dec (n div 10) @ [48 + n mod 10])"

declare to_dec.simps [simp del]

fun dec_value :: "nat \<Rightarrow> rstr \<Rightarrow> nat option" where
  "dec_value acc [] = Some acc"
| "dec_value acc (c # cs) = (if is_digit c then dec_value (10 * acc + (c - 48)) cs else None)"

text \<open>\<open>u64::from_str\<close> and \<open>i64::from_str\<close>: an optional sign and at least one digit.\<close>

definition unsigned_from_str :: "rstr \<Rightarrow> nat option" where
  "unsigned_from_str s = (if s = [] then None else dec_value 0 s)"

definition strip_plus :: "rstr \<Rightarrow> rstr" where
  "strip_plus s = (case s of c # cs \<Rightarrow> if c = c_plus then cs else s | [] \<Rightarrow> s)"

definition u64_from_str :: "rstr \<Rightarrow> u64 option" where
  "u64_from_str s = (case unsigned_from_str (strip_plus s) of
     None \<Rightarrow> None | Some n \<Rightarrow> if n < 2 ^ 64 then Some (of_nat n) else None)"

definition i64_from_str :: "rstr \<Rightarrow> i64 option" where
  "i64_from_str s =
     (case (case s of
              c # cs \<Rightarrow> if c = c_minus then map_option (\<lambda>n. - int n) (unsigned_from_str cs)
                        else map_option int (unsigned_from_str (strip_plus s))
            | [] \<Rightarrow> None)
      of None \<Rightarrow> None
      | Some i \<Rightarrow> if - (2 ^ 63) \<le> i \<and> i < 2 ^ 63 then Some (word_of_int i) else None)"

lemma to_dec_digits: "c \<in> set (to_dec n) \<Longrightarrow> is_digit c"
proof (induction n rule: to_dec.induct)
  case (1 n)
  then show ?case
    by (cases "n < 10") (auto simp: to_dec.simps [of n] is_digit_def)
qed

lemma to_dec_nonempty [simp]: "to_dec n \<noteq> []"
  by (simp add: to_dec.simps [of n])

lemma dec_value_append:
  "dec_value acc (xs @ ys) = (case dec_value acc xs of None \<Rightarrow> None | Some v \<Rightarrow> dec_value v ys)"
  by (induction acc xs rule: dec_value.induct) auto

lemma dec_value_to_dec [simp]: "dec_value 0 (to_dec n) = Some n"
proof (induction n rule: to_dec.induct)
  case (1 n)
  have "10 * (n div 10) + n mod 10 = n" by simp
  with 1 show ?case
    by (cases "n < 10") (simp_all add: to_dec.simps [of n] dec_value_append is_digit_def)
qed

lemma hd_to_dec: "is_digit (hd (to_dec n))"
  using to_dec_digits [of "hd (to_dec n)" n] by simp

lemma strip_plus_to_dec [simp]: "strip_plus (to_dec n) = to_dec n"
  using hd_to_dec [of n] by (cases "to_dec n") (auto simp: strip_plus_def is_digit_def)

lemma u64_from_to_dec: "u64_from_str (to_dec (unat (w :: u64))) = Some w"
  using unsigned_less [of w, where ?'a = nat] by (simp add: u64_from_str_def unsigned_from_str_def)

end
