(* ===== verification/Path_Part.thy ===== *)
theory Path_Part
  imports Ordered_Map Rust_Char
begin

text \<open>
  One part of an entity path (\<open>crates/store/re_log_types/src/path/entity_path_part.rs\<close>):
  escaping for display, strict and forgiving unescaping, and the order of parts. The natural
  order of the external crate \<open>natord\<close> is the argument \<open>natcmp\<close>.
\<close>

section \<open>Escaping\<close>

definition escape_char :: "(rchar \<Rightarrow> bool) \<Rightarrow> rchar \<Rightarrow> rstr" where
  "escape_char ualnum c =
     (if print_as_is ualnum c then [c]
      else if c = c_newline then [c_backslash, c_n]
      else if c = c_return then [c_backslash, c_r]
      else if c = c_tab then [c_backslash, c_t]
      else if is_ascii_punctuation c \<or> c = c_space then [c_backslash, c]
      else [c_backslash, c_u, c_lbrace] @ hex4 c @ [c_rbrace])"

definition escaped_string :: "(rchar \<Rightarrow> bool) \<Rightarrow> rstr \<Rightarrow> rstr" where
  "escaped_string ualnum s = concat (map (escape_char ualnum) s)"

section \<open>Unescaping\<close>

text \<open>
  The loop of \<open>parse_unicode_escape\<close>: characters are taken until a closing brace, or until
  exactly six bytes have been taken. It returns what it took and the rest of the input.
\<close>

fun take_escape :: "rstr \<Rightarrow> rstr \<Rightarrow> rstr \<times> rstr" where
  "take_escape all [] = (all, [])"
| "take_escape all (c # cs) =
     (let all' = all @ [c]
      in if c = c_rbrace \<or> utf8_len all' = 6 then (all', cs) else take_escape all' cs)"

definition strip_prefix_char :: "rchar \<Rightarrow> rstr \<Rightarrow> rstr option" where
  "strip_prefix_char c s = (case s of [] \<Rightarrow> None | x # xs \<Rightarrow> if x = c then Some xs else None)"

definition strip_suffix_char :: "rchar \<Rightarrow> rstr \<Rightarrow> rstr option" where
  "strip_suffix_char c s = (if s \<noteq> [] \<and> last s = c then Some (butlast s) else None)"

definition parse_unicode_escape :: "rstr \<Rightarrow> (rstr + rchar) \<times> rstr" where
  "parse_unicode_escape input =
     (let (all, rest) = take_escape [] input;
          res = (case strip_prefix_char c_lbrace all of None \<Rightarrow> Inl all
            | Some s \<Rightarrow> (case strip_suffix_char c_rbrace s of None \<Rightarrow> Inl all
            | Some digits \<Rightarrow>
                if utf8_len digits \<noteq> 4 then Inl all
                else case u32_from_hex digits of None \<Rightarrow> Inl all
                | Some n \<Rightarrow> if is_char n then Inr n else Inl all))
      in (res, rest))"

lemma take_escape_rest: "length (snd (take_escape all cs)) \<le> length cs"
  by (induction all cs rule: take_escape.induct) (auto simp: Let_def)

lemma parse_unicode_escape_rest: "length (snd (parse_unicode_escape cs)) \<le> length cs"
  using take_escape_rest [of "[]" cs]
  by (simp add: parse_unicode_escape_def Let_def case_prod_unfold)

lemma parse_unicode_escape_shorter:
  "(r, rest) = parse_unicode_escape cs \<Longrightarrow> length rest \<le> length cs"
  using parse_unicode_escape_rest [of cs] by (metis snd_conv)

datatype PathParseError =
    EmptyString
  | MissingPath
  | DoubleSlash
  | MissingSlash
  | TrailingSlash
  | EmptyPart
  | BadInstance rstr
  | UnexpectedInstance u64
  | UnexpectedComponent rstr
  | MissingComponentIdentifier
  | TrailingColon
  | UnknownEscapeSequence rchar
  | TrailingBackslash
  | MissingEscape rchar
  | InvalidUnicodeEscape rstr

function part_parse_strict :: "(rchar \<Rightarrow> bool) \<Rightarrow> rstr \<Rightarrow> PathParseError + rstr" where
  "part_parse_strict ualnum [] = Inr []"
| "part_parse_strict ualnum (c # cs) =
     (if c = c_backslash then
        (case cs of
           [] \<Rightarrow> Inl TrailingBackslash
         | e # cs' \<Rightarrow>
             if e = c_n then bind_res (part_parse_strict ualnum cs') (\<lambda>out. Inr (c_newline # out))
             else if e = c_r then bind_res (part_parse_strict ualnum cs') (\<lambda>out. Inr (c_return # out))
             else if e = c_t then bind_res (part_parse_strict ualnum cs') (\<lambda>out. Inr (c_tab # out))
             else if e = c_u then
               (case parse_unicode_escape cs' of
                  (Inl s, rest) \<Rightarrow> Inl (InvalidUnicodeEscape s)
                | (Inr u, rest) \<Rightarrow> bind_res (part_parse_strict ualnum rest) (\<lambda>out. Inr (u # out)))
             else if is_ascii_punctuation e \<or> e = c_space then
               bind_res (part_parse_strict ualnum cs') (\<lambda>out. Inr (e # out))
             else Inl (UnknownEscapeSequence e))
      else if print_as_is ualnum c then
        bind_res (part_parse_strict ualnum cs) (\<lambda>out. Inr (c # out))
      else Inl (MissingEscape c))"
  by pat_completeness auto
termination
proof (relation "measure (length \<circ> snd)", goal_cases)
  case (5 ualnum c cs e cs' r rest u)
  then show ?case by (simp add: less_Suc_eq_le le_SucI parse_unicode_escape_shorter)
qed auto

datatype part_warning = UnknownEscapeWarning rchar | UnescapedWhitespaceWarning

function part_parse_forgiving :: "rstr \<Rightarrow> rstr \<times> part_warning list" where
  "part_parse_forgiving [] = ([], [])"
| "part_parse_forgiving (c # cs) =
     (if c = c_backslash then
        (case cs of
           [] \<Rightarrow> ([c_backslash], [])
         | e # cs' \<Rightarrow>
             if e = c_u then
               (case parse_unicode_escape cs' of
                  (Inl s, rest) \<Rightarrow>
                    let (out, ws) = part_parse_forgiving rest
                    in (c_backslash # c_u # s @ out, ws)
                | (Inr u, rest) \<Rightarrow> let (out, ws) = part_parse_forgiving rest in (u # out, ws))
             else
               let (out, ws) = part_parse_forgiving cs'
               in if e = c_n then (c_newline # out, ws)
                  else if e = c_r then (c_return # out, ws)
                  else if e = c_t then (c_tab # out, ws)
                  else if is_ascii_punctuation e \<or> e = c_space then (e # out, ws)
                  else (e # out, UnknownEscapeWarning e # ws))
      else
        let (out, ws) = part_parse_forgiving cs
        in (c # out, if is_whitespace c then UnescapedWhitespaceWarning # ws else ws))"
  by pat_completeness auto
termination
proof (relation "measure length", goal_cases)
  case (2 c cs e cs' r rest s)
  then show ?case by (simp add: less_Suc_eq_le le_SucI parse_unicode_escape_shorter)
next
  case (3 c cs e cs' r rest u)
  then show ?case by (simp add: less_Suc_eq_le le_SucI parse_unicode_escape_shorter)
qed auto

declare part_parse_strict.simps(2) [simp del] part_parse_forgiving.simps(2) [simp del]

section \<open>The order of parts\<close>

definition reserved_prefix :: rstr where
  "reserved_prefix = [c_underscore, c_underscore]"

definition starts_with_reserved :: "rstr \<Rightarrow> bool" where
  "starts_with_reserved s \<longleftrightarrow> take 2 s = reserved_prefix"

text \<open>Reserved parts sort behind everything else, the others by the natural order.\<close>

definition part_cmp :: "(rstr \<Rightarrow> rstr \<Rightarrow> ordering) \<Rightarrow> rstr \<Rightarrow> rstr \<Rightarrow> ordering" where
  "part_cmp natcmp a b =
     (if \<not> starts_with_reserved a \<and> starts_with_reserved b then Less
      else if starts_with_reserved a \<and> \<not> starts_with_reserved b then Greater
      else natcmp a b)"

lemma part_cmp_pair:
  "part_cmp natcmp = (\<lambda>a b. pair_cmp lin_cmp natcmp (starts_with_reserved a, a) (starts_with_reserved b, b))"
  by (auto simp: part_cmp_def lin_cmp_def fun_eq_iff)

lemma total_cmp_part:
  assumes "natural_order natcmp"
  shows "total_cmp (part_cmp natcmp)"
  unfolding part_cmp_pair
  by (rule total_cmp_image [OF total_cmp_pair [OF lin.total_cmp_axioms natural_order.axioms(1) [OF assms]]])

lemma part_cmp_eq_iff:
  assumes "natural_order natcmp"
  shows "part_cmp natcmp a b = Equal \<longleftrightarrow> a = b"
  by (auto simp: part_cmp_def natural_order.natcmp_eq [OF assms])

section \<open>Escaping round trip\<close>

lemma take_escape_hex:
  assumes "length ds = 4" "\<forall>d\<in>set ds. d < 128 \<and> d \<noteq> c_rbrace"
  shows "take_escape [] (c_lbrace # ds @ c_rbrace # rest) = (c_lbrace # ds @ [c_rbrace], rest)"
  using assms
  by (auto simp: numeral_eq_Suc length_Suc_conv utf8_len_def utf8_len_char_def)

lemma parse_unicode_escape_digits:
  assumes "a < 16" "b < 16" "d < 16" "e < 16"
    and n: "16 * (16 * (16 * a + b) + d) + e = n" and "is_char n"
  shows "parse_unicode_escape (c_lbrace # [hex_digit a, hex_digit b, hex_digit d, hex_digit e]
           @ c_rbrace # rest) = (Inr n, rest)"
proof -
  let ?d = "[hex_digit a, hex_digit b, hex_digit d, hex_digit e]"
  have "hex_digits_value 0 ?d = Some n"
    using assms(1-4) n by (simp add: hex_digit_simps)
  then have "u32_from_hex ?d = Some n"
    using assms(1-4) n by (simp add: u32_from_hex_def hex_digit_simps)
  moreover have "take_escape [] (c_lbrace # ?d @ c_rbrace # rest) = (c_lbrace # ?d @ [c_rbrace], rest)"
    by (rule take_escape_hex) (use assms in \<open>auto simp: hex_digit_simps\<close>)
  moreover have "utf8_len ?d = 4"
    using assms by (simp add: utf8_len_def utf8_len_char_def hex_digit_simps)
  ultimately show ?thesis
    using assms(6) by (simp add: parse_unicode_escape_def strip_prefix_char_def
        strip_suffix_char_def Let_def del: take_escape.simps)
qed

lemma parse_unicode_escape_hex4:
  assumes "c < 65536" "is_char c"
  shows "parse_unicode_escape (c_lbrace # hex4 c @ c_rbrace # rest) = (Inr c, rest)"
  unfolding hex4_digits [OF assms(1)]
proof (rule parse_unicode_escape_digits)
  have divs: "c div 4096 = c div 256 div 16" "c div 256 = c div 16 div 16"
    by (simp_all flip: div_mult2_eq)
  have "16 * (c div 4096) + c div 256 mod 16 = c div 256"
    by (simp only: divs(1) mult_div_mod_eq)
  moreover have "16 * (c div 256) + c div 16 mod 16 = c div 16"
    by (simp only: divs(2) mult_div_mod_eq)
  ultimately show "16 * (16 * (16 * (c div 4096) + c div 256 mod 16) + c div 16 mod 16) + c mod 16 = c"
    by (simp only: mult_div_mod_eq)
  show "c div 4096 < 16" using assms(1) by (simp add: less_mult_imp_div_less)
qed (simp_all add: assms)

text \<open>
  The characters whose escape the strict parser reads back: those printed as they are, and
  every character of the basic plane. The escape of a character beyond it has five or six
  digits, and the parser stops after six bytes.
\<close>

definition escapable :: "(rchar \<Rightarrow> bool) \<Rightarrow> rchar \<Rightarrow> bool" where
  "escapable ualnum c \<longleftrightarrow> print_as_is ualnum c \<or> c < 0x10000"

lemma print_as_is_not_special:
  "print_as_is ualnum c \<Longrightarrow> c \<noteq> c_backslash \<and> c \<noteq> c_slash \<and> c \<noteq> c_colon \<and> c \<noteq> c_lbracket
     \<and> c \<noteq> c_rbracket \<and> c \<noteq> c_hash"
  by (auto simp: print_as_is_def is_alphanumeric_def is_ascii_alphanumeric_def split: if_splits)

lemma punctuation_not_escape_letter:
  "is_ascii_punctuation c \<or> c = c_space \<Longrightarrow> c \<noteq> c_n \<and> c \<noteq> c_r \<and> c \<noteq> c_t \<and> c \<noteq> c_u"
  by (auto simp: is_ascii_punctuation_def)

lemma part_parse_strict_escape:
  assumes "escapable ualnum c" "is_char c"
  shows "part_parse_strict ualnum (escape_char ualnum c @ rest) =
    bind_res (part_parse_strict ualnum rest) (\<lambda>out. Inr (c # out))"
proof (cases "print_as_is ualnum c")
  case True
  then show ?thesis
    using print_as_is_not_special [OF True]
    by (simp add: escape_char_def part_parse_strict.simps(2) [of ualnum c])
next
  case False
  then have "c < 65536" using assms by (simp add: escapable_def)
  then show ?thesis
    using False parse_unicode_escape_hex4 [of c rest] assms(2) punctuation_not_escape_letter [of c]
    by (auto simp: escape_char_def part_parse_strict.simps(2) [of ualnum c_backslash])
qed

lemma take_escape_long:
  assumes "5 \<le> length ds" "\<forall>d\<in>set ds. d < 128 \<and> d \<noteq> c_rbrace"
  shows "take_escape [] (c_lbrace # ds @ rest) = (c_lbrace # take 5 ds, drop 5 ds @ rest)"
proof -
  obtain d1 d2 d3 d4 d5 ds' where "ds = d1 # d2 # d3 # d4 # d5 # ds'"
    using assms(1) that by (auto simp: numeral_eq_Suc Suc_le_length_iff)
  then show ?thesis
    using assms(2) by (simp add: utf8_len_def utf8_len_char_def)
qed

lemma part_parse_strict_astral:
  assumes "\<not> escapable ualnum c"
  shows "\<exists>e. part_parse_strict ualnum (escape_char ualnum c @ rest) = Inl (InvalidUnicodeEscape e)"
proof -
  have big: "0x10000 \<le> c" and not_plain: "\<not> print_as_is ualnum c"
    using assms by (auto simp: escapable_def)
  define ds where "ds = to_hex c"
  have ds: "5 \<le> length ds" "\<forall>d\<in>set ds. d < 128 \<and> d \<noteq> c_rbrace"
    using to_hex_long [OF big] to_hex_digits [of _ c] by (auto simp: ds_def)
  have esc: "escape_char ualnum c = [c_backslash, c_u, c_lbrace] @ ds @ [c_rbrace]"
    using big not_plain ds(1)
    by (simp add: escape_char_def hex4_def is_ascii_punctuation_def flip: ds_def)
  have "take 5 ds \<noteq> []" using ds(1) by auto
  then have "last (take 5 ds) \<in> set ds" by (metis in_set_takeD last_in_set)
  then have "last (take 5 ds) \<noteq> c_rbrace" using ds(2) by blast
  then have "parse_unicode_escape (c_lbrace # ds @ c_rbrace # rest)
      = (Inl (c_lbrace # take 5 ds), drop 5 ds @ c_rbrace # rest)"
    using take_escape_long [OF ds]
    by (simp add: parse_unicode_escape_def strip_prefix_char_def strip_suffix_char_def Let_def
        del: take_escape.simps)
  then show ?thesis
    by (simp add: esc part_parse_strict.simps(2) [of ualnum c_backslash] is_ascii_punctuation_def)
qed

lemma part_escape_roundtrip_iff:
  assumes "\<forall>c\<in>set s. is_char c"
  shows "part_parse_strict ualnum (escaped_string ualnum s) = Inr s
    \<longleftrightarrow> (\<forall>c\<in>set s. escapable ualnum c)"
  using assms
proof (induction s)
  case Nil
  then show ?case by (simp add: escaped_string_def)
next
  case (Cons c s)
  show ?case
  proof (cases "escapable ualnum c")
    case True
    then show ?thesis
      using Cons by (auto simp: escaped_string_def part_parse_strict_escape bind_res_Inr_iff)
  next
    case False
    then show ?thesis
      using part_parse_strict_astral [OF False] by (simp add: escaped_string_def) (metis Inl_Inr_False)
  qed
qed

end
