(* ===== verification/Entity_Path.thy ===== *)
theory Entity_Path
  imports Path_Part
begin

text \<open>
  Entity paths (\<open>crates/store/re_log_types/src/path/entity_path.rs\<close>, \<open>parse_path.rs\<close>,
  \<open>data_path.rs\<close>, \<open>component_path.rs\<close>): a path is the list of its parts. The code compares
  paths by a 64-bit hash of the parts computed by an external crate; the model compares the
  parts. The tokenizer of the code works on UTF-8 bytes and splits next to ASCII bytes only,
  which never occur inside a longer sequence, so the model scans characters.
\<close>

section \<open>Paths\<close>

type_synonym EntityPath = "rstr list"

definition ep_root :: EntityPath where
  "ep_root = []"

text \<open>The string \<open>__properties\<close>.\<close>

definition properties_part :: rstr where
  "properties_part = [95, 95, 112, 114, 111, 112, 101, 114, 116, 105, 101, 115]"

definition ep_properties :: EntityPath where
  "ep_properties = [properties_part]"

definition ep_is_reserved :: "EntityPath \<Rightarrow> bool" where
  "ep_is_reserved p = (case p of [] \<Rightarrow> False | part # _ \<Rightarrow> starts_with_reserved part)"

definition ep_ui_string :: "EntityPath \<Rightarrow> rstr" where
  "ep_ui_string p = (if p = [] then [c_slash] else concat (map (\<lambda>part. c_slash # part) p))"

definition zip_all_eq :: "'a list \<Rightarrow> 'a list \<Rightarrow> bool" where
  "zip_all_eq xs ys = list_all (\<lambda>(a, b). a = b) (zip xs ys)"

definition ep_starts_with :: "EntityPath \<Rightarrow> EntityPath \<Rightarrow> bool" where
  "ep_starts_with p prefix =
     (if p = prefix then True else length prefix \<le> length p \<and> zip_all_eq p prefix)"

definition ep_strip_prefix :: "EntityPath \<Rightarrow> EntityPath \<Rightarrow> EntityPath option" where
  "ep_strip_prefix p prefix =
     (if ep_starts_with p prefix then Some (drop (length prefix) p) else None)"

definition ep_is_property :: "EntityPath \<Rightarrow> bool" where
  "ep_is_property p = ep_starts_with p ep_properties"

definition ep_is_descendant_of :: "EntityPath \<Rightarrow> EntityPath \<Rightarrow> bool" where
  "ep_is_descendant_of p other \<longleftrightarrow> length other < length p \<and> zip_all_eq p other"

definition ep_is_child_of :: "EntityPath \<Rightarrow> EntityPath \<Rightarrow> bool" where
  "ep_is_child_of p other \<longleftrightarrow> length other + 1 = length p \<and> zip_all_eq p other"

definition ep_parent :: "EntityPath \<Rightarrow> EntityPath option" where
  "ep_parent p = (if length p = 0 then None else Some (take (length p - 1) p))"

definition ep_join :: "EntityPath \<Rightarrow> EntityPath \<Rightarrow> EntityPath" where
  "ep_join p other = p @ other"

definition ep_incremental_walk :: "EntityPath option \<Rightarrow> EntityPath \<Rightarrow> EntityPath list" where
  "ep_incremental_walk start end_path =
     (if (case start of None \<Rightarrow> True | Some s \<Rightarrow> ep_is_descendant_of end_path s) then
        let first_ind = (case start of None \<Rightarrow> 0 | Some s \<Rightarrow> length s + 1)
        in map (\<lambda>i. take i end_path) [first_ind..<length end_path + 1]
      else [])"

fun common_prefix :: "'a list \<Rightarrow> 'a list \<Rightarrow> 'a list" where
  "common_prefix (a # as) (b # bs) = (if a = b then a # common_prefix as bs else [])"
| "common_prefix _ _ = []"

definition ep_common_ancestor :: "EntityPath \<Rightarrow> EntityPath \<Rightarrow> EntityPath" where
  "ep_common_ancestor p other = common_prefix p other"

definition ep_common_ancestor_of :: "EntityPath list \<Rightarrow> EntityPath" where
  "ep_common_ancestor_of es =
     (case es of [] \<Rightarrow> ep_root | e # es' \<Rightarrow> fold (\<lambda>e acc. ep_common_ancestor acc e) es' e)"

definition ep_cmp :: "(rstr \<Rightarrow> rstr \<Rightarrow> ordering) \<Rightarrow> EntityPath \<Rightarrow> EntityPath \<Rightarrow> ordering" where
  "ep_cmp natcmp = list_cmp (part_cmp natcmp)"

definition ep_display :: "(rchar \<Rightarrow> bool) \<Rightarrow> EntityPath \<Rightarrow> rstr" where
  "ep_display ualnum p =
     (if p = [] then [c_slash]
      else concat (map (\<lambda>part. c_slash # escaped_string ualnum part) p))"

section \<open>Tokens\<close>

text \<open>The inner loop of \<open>tokenize_by\<close>: the prefix up to the next unescaped special character.\<close>

fun scan_token :: "rchar list \<Rightarrow> bool \<Rightarrow> rstr \<Rightarrow> rstr \<times> rstr" where
  "scan_token special is_in_escape [] = ([], [])"
| "scan_token special is_in_escape (b # bs) =
     (if \<not> is_in_escape \<and> b \<in> set special then ([], b # bs)
      else let (token, rest) = scan_token special (b = c_backslash) bs in (b # token, rest))"

lemma scan_token_append: "scan_token sp esc s = (t, r) \<Longrightarrow> s = t @ r"
  by (induction sp esc s arbitrary: t r rule: scan_token.induct)
    (auto split: if_splits prod.splits)

function tokenize_by :: "rchar list \<Rightarrow> rstr \<Rightarrow> rstr list" where
  "tokenize_by special [] = []"
| "tokenize_by special (b # bs) =
     (case scan_token special False (b # bs) of
        ([], _) \<Rightarrow> [b] # tokenize_by special bs
      | (t # ts, rest) \<Rightarrow> (t # ts) # tokenize_by special rest)"
  by pat_completeness auto
termination
proof (relation "measure (length \<circ> snd)", goal_cases)
  case (3 special b bs x rest t ts)
  then have "scan_token special False (b # bs) = (t # ts, rest)" by metis
  then have "b # bs = (t # ts) @ rest" by (rule scan_token_append)
  then have "length (b # bs) = length ((t # ts) @ rest)" by (rule arg_cong)
  then show ?case by simp
qed auto

declare tokenize_by.simps(2) [simp del]

definition tokenize_entity_path :: "rstr \<Rightarrow> rstr list" where
  "tokenize_entity_path path = tokenize_by [c_slash] path"

definition tokenize_data_path :: "rstr \<Rightarrow> rstr list" where
  "tokenize_data_path path =
     tokenize_by [c_slash, c_lbracket, c_rbracket, c_colon, c_hash] path"

section \<open>Strict parsing\<close>

text \<open>
  The loop of \<open>entity_path_parts_from_tokens_strict\<close>, entered with the current token and the
  tokens after it; the function itself handles the empty list, the lone slash and the
  optional leading slash.
\<close>

fun parts_loop :: "(rchar \<Rightarrow> bool) \<Rightarrow> rstr \<Rightarrow> rstr list \<Rightarrow> PathParseError + EntityPath" where
  "parts_loop ualnum token tokens =
     (if token = [c_slash] then Inl DoubleSlash
      else case part_parse_strict ualnum token of
        Inl e \<Rightarrow> Inl e
      | Inr part \<Rightarrow>
          (case tokens of
             [] \<Rightarrow> Inr [part]
           | next_token # tokens' \<Rightarrow>
               if next_token = [c_slash] then
                 (case tokens' of
                    [] \<Rightarrow> Inl TrailingSlash
                  | token' # tokens'' \<Rightarrow>
                      bind_res (parts_loop ualnum token' tokens'') (\<lambda>parts. Inr (part # parts)))
               else Inl MissingSlash))"

definition parts_from_tokens_strict ::
  "(rchar \<Rightarrow> bool) \<Rightarrow> rstr list \<Rightarrow> PathParseError + EntityPath" where
  "parts_from_tokens_strict ualnum tokens =
     (case tokens of
        [] \<Rightarrow> Inl MissingPath
      | t # ts \<Rightarrow>
          if t = [c_slash] then (case ts of [] \<Rightarrow> Inr [] | t' # ts' \<Rightarrow> parts_loop ualnum t' ts')
          else parts_loop ualnum t ts)"

record DataPath =
  dp_entity_path :: EntityPath
  dp_instance :: "u64 option"
  dp_component :: "rstr option"

fun position :: "('a \<Rightarrow> bool) \<Rightarrow> 'a list \<Rightarrow> nat option" where
  "position P [] = None"
| "position P (x # xs) = (if P x then Some 0 else map_option Suc (position P xs))"

text \<open>The suffix \<open>:component\<close>: what is left of the tokens, and the component.\<close>

definition split_component ::
  "rstr list \<Rightarrow> PathParseError + (rstr list \<times> rstr option)" where
  "split_component tokens =
     (case position (\<lambda>t. t = [c_colon]) tokens of
        None \<Rightarrow> Inr (tokens, None)
      | Some first_colon \<Rightarrow>
          let component_tokens = drop (first_colon + 1) tokens
          in if component_tokens = [] \<or> last component_tokens = [c_colon]
             then Inl TrailingColon
             else Inr (take first_colon tokens, Some (concat component_tokens)))"

text \<open>The suffix \<open>[#1234]\<close>. The code checks four tokens, the last one and the number.\<close>

definition split_instance ::
  "rstr list \<Rightarrow> PathParseError + (rstr list \<times> u64 option)" where
  "split_instance tokens =
     (case position (\<lambda>t. t = [c_lbracket]) tokens of
        None \<Rightarrow> Inr (tokens, None)
      | Some bracket \<Rightarrow>
          let instance_tokens = drop bracket tokens
          in if length instance_tokens \<noteq> 4 \<or> last instance_tokens \<noteq> [c_rbracket]
             then Inl (BadInstance (concat instance_tokens))
             else let nr = instance_tokens ! 2
               in (case u64_from_str nr of
                     Some i \<Rightarrow> Inr (take bracket tokens, Some i)
                   | None \<Rightarrow> Inl (BadInstance nr)))"

definition data_path_from_str :: "(rchar \<Rightarrow> bool) \<Rightarrow> rstr \<Rightarrow> PathParseError + DataPath" where
  "data_path_from_str ualnum path =
     (if path = [] then Inl EmptyString
      else bind_res (split_component (tokenize_data_path path)) (\<lambda>(tokens, component).
           bind_res (split_instance tokens) (\<lambda>(tokens, inst).
           bind_res (parts_from_tokens_strict ualnum tokens) (\<lambda>parts.
             Inr \<lparr>dp_entity_path = parts, dp_instance = inst, dp_component = component\<rparr>))))"

definition ep_parse_strict :: "(rchar \<Rightarrow> bool) \<Rightarrow> rstr \<Rightarrow> PathParseError + EntityPath" where
  "ep_parse_strict ualnum input =
     bind_res (data_path_from_str ualnum input) (\<lambda>dp.
       case dp_instance dp of Some i \<Rightarrow> Inl (UnexpectedInstance i)
       | None \<Rightarrow> (case dp_component dp of Some c \<Rightarrow> Inl (UnexpectedComponent c)
       | None \<Rightarrow> Inr (dp_entity_path dp)))"

record ComponentPath =
  cp_entity_path :: EntityPath
  cp_component :: rstr

definition component_path_from_str ::
  "(rchar \<Rightarrow> bool) \<Rightarrow> rstr \<Rightarrow> PathParseError + ComponentPath" where
  "component_path_from_str ualnum s =
     bind_res (data_path_from_str ualnum s) (\<lambda>dp.
       case dp_instance dp of Some i \<Rightarrow> Inl (UnexpectedInstance i)
       | None \<Rightarrow> (case dp_component dp of None \<Rightarrow> Inl MissingComponentIdentifier
       | Some c \<Rightarrow> Inr \<lparr>cp_entity_path = dp_entity_path dp, cp_component = c\<rparr>))"

text \<open>
  Forgiving parsing (without its cache, which stores what this function returns, keyed by a
  hash of the input): the path and the warnings.
\<close>

definition ep_parse_forgiving_warn :: "rstr \<Rightarrow> EntityPath \<times> part_warning list" where
  "ep_parse_forgiving_warn input =
     (let parsed = map part_parse_forgiving
                     (filter (\<lambda>t. t \<noteq> [c_slash]) (tokenize_entity_path input))
      in (map fst parsed, concat (map snd parsed)))"

definition ep_parse_forgiving :: "rstr \<Rightarrow> EntityPath" where
  "ep_parse_forgiving input = fst (ep_parse_forgiving_warn input)"

section \<open>Prefixes\<close>

lemma zip_all_eq_iff:
  "length ys \<le> length xs \<Longrightarrow> zip_all_eq xs ys \<longleftrightarrow> take (length ys) xs = ys"
proof (induction xs arbitrary: ys)
  case (Cons x xs)
  then show ?case by (cases ys) (auto simp: zip_all_eq_def)
qed (simp add: zip_all_eq_def)

lemma ep_starts_with_iff: "ep_starts_with p q \<longleftrightarrow> (\<exists>r. p = q @ r)"
proof
  assume "ep_starts_with p q"
  then have "take (length q) p = q"
    by (auto simp: ep_starts_with_def zip_all_eq_iff split: if_splits)
  then show "\<exists>r. p = q @ r" by (metis append_take_drop_id)
qed (auto simp: ep_starts_with_def zip_all_eq_iff)

lemma ep_strip_prefix_iff: "ep_strip_prefix p q = Some r \<longleftrightarrow> p = q @ r"
  by (auto simp: ep_strip_prefix_def ep_starts_with_iff)

lemma ep_is_descendant_of_iff: "ep_is_descendant_of p q \<longleftrightarrow> (\<exists>r. r \<noteq> [] \<and> p = q @ r)"
proof -
  have "ep_is_descendant_of p q \<longleftrightarrow> length q < length p \<and> take (length q) p = q"
    by (auto simp: ep_is_descendant_of_def zip_all_eq_iff)
  also have "\<dots> \<longleftrightarrow> (\<exists>r. r \<noteq> [] \<and> p = q @ r)"
    by (metis append_eq_conv_conj append_take_drop_id length_append length_greater_0_conv
        less_add_same_cancel1)
  finally show ?thesis .
qed

lemma ep_is_child_of_iff: "ep_is_child_of p q \<longleftrightarrow> (\<exists>part. p = q @ [part])"
proof
  assume "ep_is_child_of p q"
  then have len: "length p = Suc (length q)" and tk: "take (length q) p = q"
    by (auto simp: ep_is_child_of_def zip_all_eq_iff)
  then have "p = q @ drop (length q) p" by (metis append_take_drop_id)
  moreover have "length (drop (length q) p) = 1" using len by simp
  ultimately show "\<exists>part. p = q @ [part]" by (metis One_nat_def length_0_conv length_Suc_conv)
qed (auto simp: ep_is_child_of_def zip_all_eq_iff)

lemma ep_parent_iff: "ep_parent p = Some q \<longleftrightarrow> ep_is_child_of p q"
  by (cases p rule: rev_cases) (auto simp: ep_parent_def ep_is_child_of_iff)

lemma common_prefix_left: "\<exists>r. xs = common_prefix xs ys @ r"
  by (induction xs ys rule: common_prefix.induct) auto

lemma common_prefix_right: "\<exists>r. ys = common_prefix xs ys @ r"
  by (induction xs ys rule: common_prefix.induct) auto

lemma common_prefix_greatest: "common_prefix (zs @ xs) (zs @ ys) = zs @ common_prefix xs ys"
  by (induction zs) auto

lemma ep_incremental_walk_steps:
  assumes "ep_is_descendant_of e s" "i < length (ep_incremental_walk (Some s) e)"
  shows "ep_is_child_of (ep_incremental_walk (Some s) e ! i)
           (if i = 0 then s else ep_incremental_walk (Some s) e ! (i - 1))"
proof -
  obtain r where e: "e = s @ r" using assms(1) by (auto simp: ep_is_descendant_of_iff)
  have "ep_incremental_walk (Some s) e = map (\<lambda>i. take i e) [length s + 1..<length e + 1]"
    using assms(1) by (simp add: ep_incremental_walk_def)
  moreover from this assms(2) have "i < length r" by (simp add: e del: upt_Suc)
  ultimately show ?thesis
    by (cases i) (simp_all add: e nth_append take_Suc_conv_app_nth ep_is_child_of_iff del: upt_Suc)
qed

section \<open>Display and strict parsing\<close>

text \<open>The characters at which the tokenizers split.\<close>

definition split_chars :: "rchar set" where
  "split_chars = {c_slash, c_lbracket, c_rbracket, c_colon, c_hash}"

lemma scan_token_plain:
  assumes "\<forall>d\<in>set ds. d \<notin> set sp"
  shows "scan_token sp esc (ds @ rest) =
    (let (t, r) = scan_token sp (if ds = [] then esc else last ds = c_backslash) rest in (ds @ t, r))"
  using assms
  by (induction ds arbitrary: esc) (auto simp: Let_def case_prod_unfold)

lemma escape_char_plain:
  assumes "d \<in> set (escape_char ualnum c)" "d \<in> split_chars"
  shows "\<not> print_as_is ualnum c" "escape_char ualnum c = [c_backslash, d]" "c = d"
proof -
  have hex: "h \<notin> split_chars" if "h \<in> set (hex4 c)" for h
  proof -
    have "h = c_zero \<or> h \<in> set (to_hex c)" using that by (auto simp: hex4_def)
    then have "is_ascii_alphanumeric h"
      using to_hex_alphanumeric by (auto simp: is_ascii_alphanumeric_def)
    then show ?thesis by (auto simp: is_ascii_alphanumeric_def split_chars_def)
  qed
  have np: "\<not> print_as_is ualnum d" using assms(2) print_as_is_not_special [of ualnum d]
    by (auto simp: split_chars_def)
  show "\<not> print_as_is ualnum c" using assms np by (auto simp: escape_char_def)
  then show "escape_char ualnum c = [c_backslash, d]" "c = d"
    using assms hex by (auto simp: escape_char_def split_chars_def split: if_splits)
qed

lemma scan_escape_char:
  assumes "set sp \<subseteq> split_chars"
  shows "scan_token sp esc (escape_char ualnum c @ rest) =
    (let (t, r) = scan_token sp (c = c_backslash) rest in (escape_char ualnum c @ t, r))"
proof (cases "\<exists>d\<in>set (escape_char ualnum c). d \<in> set sp")
  case True
  then obtain d where "escape_char ualnum c = [c_backslash, d]" "c = d" "d \<in> split_chars"
    using assms escape_char_plain by (metis subset_iff)
  moreover have "c_backslash \<notin> set sp" using assms by (auto simp: split_chars_def)
  ultimately show ?thesis by (auto simp: Let_def case_prod_unfold)
next
  case False
  have "last (escape_char ualnum c) = c_backslash \<longleftrightarrow> c = c_backslash" "escape_char ualnum c \<noteq> []"
    using print_as_is_not_special [of ualnum c]
    by (auto simp: escape_char_def is_ascii_punctuation_def)
  with False show ?thesis by (simp add: scan_token_plain)
qed

lemma scan_escaped:
  assumes "set sp \<subseteq> split_chars"
  shows "scan_token sp esc (escaped_string ualnum s @ rest) =
    (let (t, r) = scan_token sp (if s = [] then esc else last s = c_backslash) rest
     in (escaped_string ualnum s @ t, r))"
proof (induction s arbitrary: esc)
  case Nil
  then show ?case by (simp add: escaped_string_def)
next
  case (Cons c s)
  have "scan_token sp esc (escaped_string ualnum (c # s) @ rest) =
    (let (t, r) = scan_token sp (c = c_backslash) (escaped_string ualnum s @ rest)
     in (escape_char ualnum c @ t, r))"
    using scan_escape_char [OF assms] by (simp add: escaped_string_def)
  also have "\<dots> = (let (t, r) = scan_token sp (if s = [] then c = c_backslash else last s = c_backslash) rest
     in (escaped_string ualnum (c # s) @ t, r))"
    by (simp add: Cons.IH Let_def case_prod_unfold) (simp add: escaped_string_def)
  finally show ?case by simp
qed

lemma escaped_string_nonempty [simp]: "escaped_string ualnum s = [] \<longleftrightarrow> s = []"
  by (cases s) (auto simp: escaped_string_def escape_char_def)

lemma escaped_string_not_single:
  assumes "d \<in> split_chars"
  shows "escaped_string ualnum s \<noteq> [d]"
proof
  assume eq: "escaped_string ualnum s = [d]"
  then obtain c s' where s: "s = c # s'" by (cases s) (auto simp: escaped_string_def)
  have "escape_char ualnum c \<noteq> []" by (simp add: escape_char_def)
  then have "escape_char ualnum c = [d]"
    using eq by (cases "escape_char ualnum c") (auto simp: s escaped_string_def)
  with escape_char_plain(2) [of d ualnum c] assms show False by simp
qed

text \<open>
  What strict parsing reads back: every part non-empty, and only the last one may end in a
  backslash (the tokenizer takes the second half of its escape for the start of another).
\<close>

definition parts_separable :: "EntityPath \<Rightarrow> bool" where
  "parts_separable p \<longleftrightarrow> [] \<notin> set p \<and> (\<forall>part\<in>set (butlast p). last part \<noteq> c_backslash)"

lemma parts_separable_Cons:
  "parts_separable (part # p) \<longleftrightarrow>
     part \<noteq> [] \<and> (p \<noteq> [] \<longrightarrow> last part \<noteq> c_backslash) \<and> parts_separable p"
  by (auto simp: parts_separable_def)

lemma tokenize_display:
  assumes "set sp \<subseteq> split_chars" "c_slash \<in> set sp" "parts_separable p"
  shows "tokenize_by sp (concat (map (\<lambda>part. c_slash # escaped_string ualnum part) p)) =
    concat (map (\<lambda>part. [[c_slash], escaped_string ualnum part]) p)"
  using assms(3)
proof (induction p)
  case Nil
  then show ?case by simp
next
  case (Cons part p)
  let ?rest = "concat (map (\<lambda>part. c_slash # escaped_string ualnum part) p)"
  let ?e = "escaped_string ualnum part"
  have part: "part \<noteq> []" "p \<noteq> [] \<Longrightarrow> last part \<noteq> c_backslash" "parts_separable p"
    using Cons.prems by (auto simp: parts_separable_Cons)
  have "scan_token sp False (?e @ ?rest) = (?e, ?rest)"
    using part(1,2) assms(2) scan_escaped [OF assms(1), of False ualnum part ?rest]
    by (cases p) (simp_all add: Let_def)
  moreover obtain e es where e: "?e = e # es" using part(1) by (cases ?e) auto
  ultimately have "tokenize_by sp (?e @ ?rest) = ?e # tokenize_by sp ?rest"
    by (simp add: tokenize_by.simps(2))
  moreover have "tokenize_by sp (c_slash # ?e @ ?rest) = [c_slash] # tokenize_by sp (?e @ ?rest)"
    using assms(2) by (simp add: tokenize_by.simps(2) [of sp c_slash])
  ultimately show ?case using Cons.IH part(3) by simp
qed

definition path_chars_ok :: "(rchar \<Rightarrow> bool) \<Rightarrow> EntityPath \<Rightarrow> bool" where
  "path_chars_ok ualnum p \<longleftrightarrow> (\<forall>part\<in>set p. \<forall>c\<in>set part. is_char c \<and> escapable ualnum c)"

lemma parse_escaped_part:
  assumes "path_chars_ok ualnum p" "part \<in> set p"
  shows "part_parse_strict ualnum (escaped_string ualnum part) = Inr part"
  using assms part_escape_roundtrip_iff [of part ualnum] by (auto simp: path_chars_ok_def)

lemma parts_loop_escaped:
  assumes "path_chars_ok ualnum (part # p)"
  shows "parts_loop ualnum (escaped_string ualnum part)
      (concat (map (\<lambda>part. [[c_slash], escaped_string ualnum part]) p)) = Inr (part # p)"
  using assms
proof (induction p arbitrary: part)
  case Nil
  then show ?case
    using escaped_string_not_single [of c_slash ualnum part] parse_escaped_part [OF Nil]
    by (simp add: split_chars_def)
next
  case (Cons part' p)
  then have "parts_loop ualnum (escaped_string ualnum part')
      (concat (map (\<lambda>part. [[c_slash], escaped_string ualnum part]) p)) = Inr (part' # p)"
    by (auto simp: path_chars_ok_def)
  then show ?case
    using escaped_string_not_single [of c_slash ualnum part] parse_escaped_part [OF Cons.prems, of part]
    by (simp add: split_chars_def parts_loop.simps [of ualnum "escaped_string ualnum part"]
        del: parts_loop.simps)
qed

lemma position_None_iff: "position P xs = None \<longleftrightarrow> (\<forall>x\<in>set xs. \<not> P x)"
  by (induction xs) auto

lemma data_path_from_display:
  assumes "path_chars_ok ualnum p" "parts_separable p"
  shows "data_path_from_str ualnum (ep_display ualnum p) =
    Inr \<lparr>dp_entity_path = p, dp_instance = None, dp_component = None\<rparr>"
proof (cases p)
  case Nil
  then show ?thesis
    by (simp add: data_path_from_str_def ep_display_def tokenize_data_path_def tokenize_by.simps
        split_component_def split_instance_def parts_from_tokens_strict_def)
next
  case (Cons part p')
  let ?toks = "concat (map (\<lambda>part. [[c_slash], escaped_string ualnum part]) p)"
  have toks: "tokenize_data_path (ep_display ualnum p) = ?toks"
    unfolding tokenize_data_path_def ep_display_def
    using Cons tokenize_display [OF _ _ assms(2), of "[c_slash, c_lbracket, c_rbracket, c_colon, c_hash]"]
    by (simp add: split_chars_def)
  have "position (\<lambda>t. t = [c_colon]) ?toks = None" "position (\<lambda>t. t = [c_lbracket]) ?toks = None"
    by (auto simp: position_None_iff split_chars_def escaped_string_not_single)
  then have "split_component ?toks = Inr (?toks, None)" "split_instance ?toks = Inr (?toks, None)"
    by (simp_all only: split_component_def split_instance_def option.case)
  moreover have "parts_from_tokens_strict ualnum ?toks = Inr p"
    using parts_loop_escaped [of ualnum part p'] assms(1)
    by (simp add: parts_from_tokens_strict_def Cons del: parts_loop.simps)
  moreover have "ep_display ualnum p \<noteq> []" by (simp add: ep_display_def Cons)
  ultimately show ?thesis by (simp only: data_path_from_str_def toks if_False bind_res_simps prod.case)
qed

lemma ep_parse_strict_display:
  assumes "path_chars_ok ualnum p" "parts_separable p"
  shows "ep_parse_strict ualnum (ep_display ualnum p) = Inr p"
  by (simp add: ep_parse_strict_def data_path_from_display [OF assms])

end
