(* ===== verification/Path_Filter.thy ===== *)
theory Path_Filter
  imports Entity_Path
begin

text \<open>
  Entity path filters (\<open>crates/store/re_log_types/src/path/entity_path_filter.rs\<close>): the
  rule language, its parsing and variable substitution, resolved filters and the queries on
  them. A resolved filter is a map sorted by path and, at the same path, subtree rules first,
  so that the last matching rule is the most specific one.
\<close>

section \<open>Rules\<close>

datatype RuleEffect = Include | Exclude

text \<open>A rule is its trimmed source text.\<close>

type_synonym EntityPathRule = rstr

type_synonym EntityPathFilter = "(EntityPathRule, RuleEffect) omap"

record ResolvedRule =
  rr_rule :: EntityPathRule
  rr_path :: EntityPath

type_synonym ResolvedFilter = "(ResolvedRule, RuleEffect) omap"

text \<open>A substitution environment is a hash map, listed in the order it is iterated.\<close>

type_synonym EntityPathSubs = "(rstr \<times> rstr) list"

definition subtree_suffix :: rstr where
  "subtree_suffix = [c_slash, c_star, c_star]"

definition ends_with :: "rstr \<Rightarrow> rstr \<Rightarrow> bool" where
  "ends_with suffix s \<longleftrightarrow>
     length suffix \<le> length s \<and> drop (length s - length suffix) s = suffix"

definition trim :: "rstr \<Rightarrow> rstr" where
  "trim s = rev (dropWhile is_whitespace (rev (dropWhile is_whitespace s)))"

definition rule_new :: "rstr \<Rightarrow> EntityPathRule" where
  "rule_new expression = trim expression"

definition include_subtree :: "EntityPathRule \<Rightarrow> bool" where
  "include_subtree r = ends_with subtree_suffix r"

definition rule_exact :: "rstr \<Rightarrow> EntityPathRule" where
  "rule_exact path_or_variable = path_or_variable"

definition rule_exact_entity :: "(rchar \<Rightarrow> bool) \<Rightarrow> EntityPath \<Rightarrow> EntityPathRule" where
  "rule_exact_entity ualnum path = ep_display ualnum path"

definition rule_including_subtree :: "rstr \<Rightarrow> EntityPathRule" where
  "rule_including_subtree path_or_variable = path_or_variable @ subtree_suffix"

definition rule_including_entity_subtree :: "(rchar \<Rightarrow> bool) \<Rightarrow> EntityPath \<Rightarrow> EntityPathRule" where
  "rule_including_entity_subtree ualnum path = rule_including_subtree (ep_display ualnum path)"

section \<open>The rule language\<close>

definition is_ascii_whitespace :: "rchar \<Rightarrow> bool" where
  "is_ascii_whitespace c \<longleftrightarrow> c \<in> {9, 10, 12, 13, 32}"

text \<open>
  The scan for the end of a token in \<open>split_whitespace_smart\<close>: the token, the rest, and
  whether the scan stopped just after a backslash.
\<close>

fun scan_rule :: "bool \<Rightarrow> bool \<Rightarrow> bool \<Rightarrow> rstr \<Rightarrow> rstr \<times> rstr \<times> bool" where
  "scan_rule is_in_escape is_include_exclude new_token [] = ([], [], is_in_escape)"
| "scan_rule is_in_escape is_include_exclude new_token (b # bs) =
     (let is_unescaped_whitespace = \<not> is_in_escape \<and> is_ascii_whitespace b;
          is_unescaped_newline = \<not> is_in_escape \<and> b = c_newline
      in if is_unescaped_newline \<or> \<not> is_include_exclude \<and> is_unescaped_whitespace
         then ([], b # bs, is_in_escape)
         else
           let (ie, nt) =
                 (if b = c_plus \<or> b = c_minus then (new_token, new_token)
                  else if \<not> is_unescaped_whitespace then (False, False)
                  else (is_include_exclude, new_token));
               (token, rest, esc) = scan_rule (b = c_backslash) ie nt bs
           in (b # token, rest, esc))"

fun skip_whitespace :: "bool \<Rightarrow> rstr \<Rightarrow> rstr" where
  "skip_whitespace is_in_escape [] = []"
| "skip_whitespace is_in_escape (b # bs) =
     (if is_in_escape \<or> \<not> is_ascii_whitespace b then b # bs
      else skip_whitespace (b = c_backslash) bs)"

lemma scan_rule_append: "scan_rule e i n s = (t, r, e') \<Longrightarrow> s = t @ r"
  by (induction e i n s arbitrary: t r e' rule: scan_rule.induct)
    (auto simp: Let_def split: if_splits prod.splits)

lemma skip_whitespace_length: "length (skip_whitespace e s) \<le> length s"
  by (induction e s rule: skip_whitespace.induct) auto

lemma scan_rule_progress:
  assumes "scan_rule False False True (b # bs) = (t, r, e)"
  shows "length (skip_whitespace e r) < length (b # bs)"
proof (cases t)
  case Nil
  have "is_ascii_whitespace c_newline" by (simp add: is_ascii_whitespace_def)
  with assms Nil have "r = b # bs" "\<not> e" "is_ascii_whitespace b"
    by (auto simp: Let_def split: if_splits prod.splits)
  then show ?thesis using skip_whitespace_length [of "b = c_backslash" bs] by simp
next
  case (Cons c t')
  have "b # bs = t @ r" using assms by (rule scan_rule_append)
  then have "length (b # bs) = length (t @ r)" by (rule arg_cong)
  then have "length r < length (b # bs)" using Cons by simp
  then show ?thesis using skip_whitespace_length [of e r] by linarith
qed

function split_whitespace_smart :: "rstr \<Rightarrow> rstr list" where
  "split_whitespace_smart [] = []"
| "split_whitespace_smart (b # bs) =
     (case scan_rule False False True (b # bs) of
        (token, rest, esc) \<Rightarrow>
          (if token = [] then [] else [token]) @ split_whitespace_smart (skip_whitespace esc rest))"
  by pat_completeness auto
termination
  by (relation "measure length") (simp, metis in_measure scan_rule_progress)

definition from_query_expressions :: "rstr list \<Rightarrow> EntityPathFilter" where
  "from_query_expressions rules =
     fold (\<lambda>line filt.
        let (effect, path_pattern) =
              (case line of
                 c # cs \<Rightarrow> if c = c_plus then (Include, cs)
                           else if c = c_minus then (Exclude, cs) else (Include, line)
               | [] \<Rightarrow> (Include, line))
        in om_insert str_cmp (rule_new path_pattern) effect filt)
       (filter (\<lambda>line. line \<noteq> []) (map trim rules)) []"

definition filter_parse_forgiving :: "rstr \<Rightarrow> EntityPathFilter" where
  "filter_parse_forgiving rules = from_query_expressions (split_whitespace_smart rules)"

definition filter_insert_rule ::
  "RuleEffect \<Rightarrow> EntityPathRule \<Rightarrow> EntityPathFilter \<Rightarrow> EntityPathFilter" where
  "filter_insert_rule effect r filt = om_insert str_cmp r effect filt"

definition filter_all :: EntityPathFilter where
  "filter_all = [(rule_including_subtree [], Include)]"

text \<open>\<open>+=\<close>, the union of all rules\<close>

definition filter_add_assign :: "EntityPathFilter \<Rightarrow> EntityPathFilter \<Rightarrow> EntityPathFilter" where
  "filter_add_assign filt rhs = om_extend str_cmp filt rhs"

definition iter_expressions :: "EntityPathFilter \<Rightarrow> rstr list" where
  "iter_expressions filt =
     map (\<lambda>(r, effect). (case effect of Include \<Rightarrow> [c_plus, c_space] | Exclude \<Rightarrow> [c_minus, c_space]) @ r)
       filt"

section \<open>Resolving\<close>

text \<open>\<open>str::replace\<close>, for the non-empty patterns the code uses.\<close>

function str_replace :: "rstr \<Rightarrow> rstr \<Rightarrow> rstr \<Rightarrow> rstr" where
  "str_replace pat val [] = []"
| "str_replace pat val (c # cs) =
     (if pat \<noteq> [] \<and> take (length pat) (c # cs) = pat
      then val @ str_replace pat val (drop (length pat) (c # cs))
      else c # str_replace pat val cs)"
  by pat_completeness auto
termination
proof (relation "measure (\<lambda>(pat, val, s). length s)", goal_cases)
  case (2 pat val c cs)
  then have "0 < length pat" by simp
  then show ?case by simp
qed auto

definition substitute_variables :: "EntityPathRule \<Rightarrow> EntityPathSubs \<Rightarrow> rstr" where
  "substitute_variables r subst_env =
     fold (\<lambda>(key, value) expression_sub.
         str_replace ([c_dollar, c_lbrace] @ key @ [c_rbrace]) value
           (str_replace (c_dollar # key) value expression_sub))
       subst_env r"

datatype EntityPathFilterError =
    FilterPathParseError PathParseError
  | UnresolvedSubstitution rstr

definition strip_subtree_suffix :: "rstr \<Rightarrow> rstr option" where
  "strip_subtree_suffix s =
     (if ends_with subtree_suffix s then Some (take (length s - length subtree_suffix) s) else None)"

definition map_error :: "('e \<Rightarrow> 'f) \<Rightarrow> 'e + 'a \<Rightarrow> 'f + 'a" where
  "map_error f r = (case r of Inl e \<Rightarrow> Inl (f e) | Inr x \<Rightarrow> Inr x)"

definition resolved_parse_strict ::
  "(rchar \<Rightarrow> bool) \<Rightarrow> rstr \<Rightarrow> EntityPathSubs \<Rightarrow> EntityPathFilterError + ResolvedRule" where
  "resolved_parse_strict ualnum expression subst_env =
     (let r = rule_new expression;
          expression_sub = substitute_variables r subst_env
      in case position (\<lambda>c. c = c_dollar) expression_sub of
           Some start \<Rightarrow>
             Inl (UnresolvedSubstitution
               (takeWhile (\<lambda>c. \<not> is_whitespace c) (drop (start + 1) expression_sub)))
         | None \<Rightarrow>
             if expression_sub = subtree_suffix then Inr \<lparr>rr_rule = r, rr_path = ep_root\<rparr>
             else case strip_subtree_suffix expression_sub of
               Some path \<Rightarrow> bind_res (map_error FilterPathParseError (ep_parse_strict ualnum path))
                  (\<lambda>p. Inr \<lparr>rr_rule = r, rr_path = p\<rparr>)
             | None \<Rightarrow> bind_res (map_error FilterPathParseError (ep_parse_strict ualnum expression_sub))
                  (\<lambda>p. Inr \<lparr>rr_rule = r, rr_path = p\<rparr>))"

definition resolved_parse_forgiving :: "rstr \<Rightarrow> EntityPathSubs \<Rightarrow> ResolvedRule" where
  "resolved_parse_forgiving expression subst_env =
     (let r = rule_new expression;
          expression_sub = substitute_variables r subst_env
      in if expression_sub = subtree_suffix then \<lparr>rr_rule = r, rr_path = ep_root\<rparr>
         else case strip_subtree_suffix expression_sub of
           Some path \<Rightarrow> \<lparr>rr_rule = r, rr_path = ep_parse_forgiving path\<rparr>
         | None \<Rightarrow> \<lparr>rr_rule = r, rr_path = ep_parse_forgiving expression_sub\<rparr>)"

definition rr_exact_entity :: "(rchar \<Rightarrow> bool) \<Rightarrow> EntityPath \<Rightarrow> ResolvedRule" where
  "rr_exact_entity ualnum path = \<lparr>rr_rule = rule_exact_entity ualnum path, rr_path = path\<rparr>"

definition rr_including_subtree :: "(rchar \<Rightarrow> bool) \<Rightarrow> EntityPath \<Rightarrow> ResolvedRule" where
  "rr_including_subtree ualnum path =
     \<lparr>rr_rule = rule_including_entity_subtree ualnum path, rr_path = path\<rparr>"

text \<open>Resolved rules compare by path, then recursive before non-recursive.\<close>

definition rr_key :: "ResolvedRule \<Rightarrow> EntityPath \<times> bool" where
  "rr_key r = (rr_path r, \<not> include_subtree (rr_rule r))"

definition rr_cmp :: "(rstr \<Rightarrow> rstr \<Rightarrow> ordering) \<Rightarrow> ResolvedRule \<Rightarrow> ResolvedRule \<Rightarrow> ordering" where
  "rr_cmp natcmp a b = pair_cmp (ep_cmp natcmp) lin_cmp (rr_key a) (rr_key b)"

definition rr_eq :: "ResolvedRule \<Rightarrow> ResolvedRule \<Rightarrow> bool" where
  "rr_eq a b \<longleftrightarrow> include_subtree (rr_rule a) = include_subtree (rr_rule b) \<and> rr_path a = rr_path b"

definition resolve_forgiving ::
  "(rchar \<Rightarrow> bool) \<Rightarrow> (rstr \<Rightarrow> rstr \<Rightarrow> ordering) \<Rightarrow> EntityPathSubs \<Rightarrow> EntityPathFilter \<Rightarrow> ResolvedFilter" where
  "resolve_forgiving ualnum natcmp subst_env filt =
     om_or_insert (rr_cmp natcmp) (rr_including_subtree ualnum ep_properties) Exclude
       (om_extend (rr_cmp natcmp) []
          (map (\<lambda>(r, effect). (resolved_parse_forgiving r subst_env, effect)) filt))"

fun resolve_all ::
  "(rchar \<Rightarrow> bool) \<Rightarrow> EntityPathSubs \<Rightarrow> EntityPathFilter \<Rightarrow>
     EntityPathFilterError + (ResolvedRule \<times> RuleEffect) list" where
  "resolve_all ualnum subst_env [] = Inr []"
| "resolve_all ualnum subst_env ((r, effect) # rs) =
     bind_res (resolved_parse_strict ualnum r subst_env) (\<lambda>rr.
     bind_res (resolve_all ualnum subst_env rs) (\<lambda>rrs. Inr ((rr, effect) # rrs)))"

definition resolve_strict ::
  "(rchar \<Rightarrow> bool) \<Rightarrow> (rstr \<Rightarrow> rstr \<Rightarrow> ordering) \<Rightarrow> EntityPathSubs \<Rightarrow> EntityPathFilter \<Rightarrow>
     EntityPathFilterError + ResolvedFilter" where
  "resolve_strict ualnum natcmp subst_env filt =
     bind_res (resolve_all ualnum subst_env filt) (\<lambda>rules.
       Inr (om_or_insert (rr_cmp natcmp) (rr_including_subtree ualnum ep_properties) Exclude
              (om_extend (rr_cmp natcmp) [] rules)))"

section \<open>Queries\<close>

definition rr_matches :: "ResolvedRule \<Rightarrow> EntityPath \<Rightarrow> bool" where
  "rr_matches r path =
     (if include_subtree (rr_rule r) then ep_starts_with path (rr_path r) else path = rr_path r)"

definition is_properties_exclusion :: "(rchar \<Rightarrow> bool) \<Rightarrow> ResolvedRule \<times> RuleEffect \<Rightarrow> bool" where
  "is_properties_exclusion ualnum re \<longleftrightarrow>
     rr_eq (fst re) (rr_including_subtree ualnum ep_properties) \<and> snd re = Exclude"

definition unresolved :: "(rchar \<Rightarrow> bool) \<Rightarrow> ResolvedFilter \<Rightarrow> EntityPathFilter" where
  "unresolved ualnum f = om_extend str_cmp []
     (map (\<lambda>(r, e). (rr_rule r, e)) (filter (\<lambda>re. \<not> is_properties_exclusion ualnum re) f))"

definition iter_unresolved_expressions ::
  "(rchar \<Rightarrow> bool) \<Rightarrow> bool \<Rightarrow> ResolvedFilter \<Rightarrow> rstr list" where
  "iter_unresolved_expressions ualnum with_properties f =
     List.map_filter (\<lambda>(r, effect).
       if \<not> with_properties \<and> rr_rule r = rule_including_entity_subtree ualnum ep_properties
          \<and> effect = Exclude
       then None
       else Some ((case effect of Include \<Rightarrow> [c_plus, c_space] | Exclude \<Rightarrow> [c_minus, c_space]) @ rr_rule r))
     f"

definition most_specific_match :: "ResolvedFilter \<Rightarrow> EntityPath \<Rightarrow> RuleEffect option" where
  "most_specific_match f path = map_option snd (find (\<lambda>(r, e). rr_matches r path) (rev f))"

definition filter_matches :: "ResolvedFilter \<Rightarrow> EntityPath \<Rightarrow> bool" where
  "filter_matches f path =
     (case (case most_specific_match f path of None \<Rightarrow> Exclude | Some e \<Rightarrow> e) of
        Include \<Rightarrow> True | Exclude \<Rightarrow> False)"

definition filter_matches_exactly :: "ResolvedFilter \<Rightarrow> EntityPath \<Rightarrow> bool" where
  "filter_matches_exactly f path =
     list_ex (\<lambda>(r, e). e = Include \<and> \<not> include_subtree (rr_rule r) \<and> rr_path r = path) f"

definition filter_add_rule ::
  "(rstr \<Rightarrow> rstr \<Rightarrow> ordering) \<Rightarrow> RuleEffect \<Rightarrow> ResolvedRule \<Rightarrow> ResolvedFilter \<Rightarrow> ResolvedFilter" where
  "filter_add_rule natcmp effect r f = om_insert (rr_cmp natcmp) r effect f"

definition remove_subtree_and_matching_rules ::
  "(rchar \<Rightarrow> bool) \<Rightarrow> (rstr \<Rightarrow> rstr \<Rightarrow> ordering) \<Rightarrow> EntityPath \<Rightarrow> ResolvedFilter \<Rightarrow> ResolvedFilter" where
  "remove_subtree_and_matching_rules ualnum natcmp path f =
     (let new_exclusion = \<lparr>rr_rule = rule_including_entity_subtree ualnum path, rr_path = path\<rparr>
      in om_insert (rr_cmp natcmp) new_exclusion Exclude
           (filter (\<lambda>(r, e). \<not> rr_matches new_exclusion (rr_path r)) f))"

definition remove_rule_for :: "EntityPath \<Rightarrow> ResolvedFilter \<Rightarrow> ResolvedFilter" where
  "remove_rule_for path f = filter (\<lambda>(r, e). rr_path r \<noteq> path) f"

definition contains_rule_for_exactly :: "ResolvedFilter \<Rightarrow> EntityPath \<Rightarrow> bool" where
  "contains_rule_for_exactly f path = list_ex (\<lambda>(r, e). rr_path r = path) f"

definition is_explicitly_included :: "ResolvedFilter \<Rightarrow> EntityPath \<Rightarrow> bool" where
  "is_explicitly_included f path = list_ex (\<lambda>(r, e). rr_path r = path \<and> e = Include) f"

definition is_explicitly_excluded :: "ResolvedFilter \<Rightarrow> EntityPath \<Rightarrow> bool" where
  "is_explicitly_excluded f path = list_ex (\<lambda>(r, e). rr_path r = path \<and> e = Exclude) f"

text \<open>The second loop of \<open>is_anything_in_subtree_included\<close>, over the reversed rules.\<close>

fun subtree_loop :: "EntityPath \<Rightarrow> (ResolvedRule \<times> RuleEffect) list \<Rightarrow> bool" where
  "subtree_loop path [] = False"
| "subtree_loop path ((r, effect) # rs) =
     (if rr_matches r path then
        (case effect of
           Include \<Rightarrow> True
         | Exclude \<Rightarrow> if include_subtree (rr_rule r) then False else subtree_loop path rs)
      else subtree_loop path rs)"

definition is_anything_in_subtree_included :: "ResolvedFilter \<Rightarrow> EntityPath \<Rightarrow> bool" where
  "is_anything_in_subtree_included f path =
     (if list_ex (\<lambda>(r, e). e = Include \<and> ep_starts_with (rr_path r) path) f then True
      else subtree_loop path (rev f))"

definition superset_include_ok :: "ResolvedFilter \<Rightarrow> ResolvedRule \<Rightarrow> bool" where
  "superset_include_ok self other_rule =
     (case find (\<lambda>(r, e). rr_matches r (rr_path other_rule)) (rev self) of
        Some (self_rule, self_effect) \<Rightarrow>
          (case self_effect of
             Include \<Rightarrow> \<not> (include_subtree (rr_rule other_rule) \<and> \<not> include_subtree (rr_rule self_rule))
           | Exclude \<Rightarrow> False)
      | None \<Rightarrow> False)"

definition superset_exclude_ok :: "ResolvedFilter \<Rightarrow> ResolvedRule \<Rightarrow> bool" where
  "superset_exclude_ok other self_rule =
     (case find (\<lambda>(r, e). rr_matches r (rr_path self_rule)) (rev other) of
        Some (_, other_effect) \<Rightarrow> (case other_effect of Include \<Rightarrow> False | Exclude \<Rightarrow> True)
      | None \<Rightarrow> True)"

definition is_superset_of :: "ResolvedFilter \<Rightarrow> ResolvedFilter \<Rightarrow> bool" where
  "is_superset_of self other \<longleftrightarrow>
     list_all (\<lambda>(r, e). case e of Include \<Rightarrow> superset_include_ok self r | Exclude \<Rightarrow> True) other
   \<and> list_all (\<lambda>(r, e). case e of Include \<Rightarrow> True | Exclude \<Rightarrow> superset_exclude_ok other r) self"

record FilterEvaluation =
  ev_subtree_included :: bool
  ev_matches :: bool
  ev_matches_exactly :: bool

text \<open>The state of the loop of \<open>evaluate\<close>.\<close>

record eval_state =
  es_subtree_included :: bool
  es_matches_exactly :: bool
  es_last_match :: "(RuleEffect \<times> bool) option"
  es_found_include :: bool

definition eval_step :: "EntityPath \<Rightarrow> ResolvedRule \<times> RuleEffect \<Rightarrow> eval_state \<Rightarrow> eval_state" where
  "eval_step path re st =
     (case re of (r, effect) \<Rightarrow>
        let st1 = (if \<not> es_found_include st \<and> effect = Include \<and> ep_starts_with (rr_path r) path
                   then st\<lparr>es_found_include := True, es_subtree_included := True\<rparr> else st);
            st2 = (if \<not> es_matches_exactly st1 \<and> effect = Include
                      \<and> \<not> include_subtree (rr_rule r) \<and> rr_path r = path
                   then st1\<lparr>es_matches_exactly := True\<rparr> else st1)
        in if rr_matches r path
           then st2\<lparr>es_last_match := Some (effect, include_subtree (rr_rule r))\<rparr> else st2)"

definition eval_init :: eval_state where
  "eval_init = \<lparr>es_subtree_included = False, es_matches_exactly = False,
                es_last_match = None, es_found_include = False\<rparr>"

definition filter_evaluate :: "ResolvedFilter \<Rightarrow> EntityPath \<Rightarrow> FilterEvaluation" where
  "filter_evaluate f path =
     (let st = fold (eval_step path) f eval_init;
          subtree_included =
            (case es_last_match st of
               Some (effect, incl) \<Rightarrow>
                 (case effect of
                    Include \<Rightarrow> True
                  | Exclude \<Rightarrow> if incl \<and> \<not> es_found_include st then False else es_subtree_included st)
             | None \<Rightarrow> es_subtree_included st);
          matches = (case es_last_match st of Some (effect, _) \<Rightarrow> effect = Include | None \<Rightarrow> False)
      in \<lparr>ev_subtree_included = subtree_included, ev_matches = matches,
          ev_matches_exactly = es_matches_exactly st\<rparr>)"

section \<open>Specificity\<close>

lemma total_cmp_ep: "natural_order natcmp \<Longrightarrow> total_cmp (ep_cmp natcmp)"
  by (simp add: ep_cmp_def total_cmp_list total_cmp_part)

lemma total_cmp_rr: "natural_order natcmp \<Longrightarrow> total_cmp (rr_cmp natcmp)"
  unfolding rr_cmp_def
  by (rule total_cmp_image [OF total_cmp_pair [OF total_cmp_ep lin.total_cmp_axioms]])

lemma rr_cmp_Equal_iff: "natural_order natcmp \<Longrightarrow> rr_cmp natcmp a b = Equal \<longleftrightarrow> rr_eq a b"
  by (auto simp: rr_cmp_def rr_key_def rr_eq_def ep_cmp_def list_cmp_eq_iff part_cmp_eq_iff)

text \<open>
  A rule is less specific than another when its path is shorter, or when it is the subtree
  rule at the same path. Among the rules that match one path this is the order of the map.
\<close>

definition less_specific :: "ResolvedRule \<Rightarrow> ResolvedRule \<Rightarrow> bool" where
  "less_specific a b \<longleftrightarrow> length (rr_path a) < length (rr_path b)
     \<or> length (rr_path a) = length (rr_path b) \<and> include_subtree (rr_rule a) \<and> \<not> include_subtree (rr_rule b)"

lemma rr_matches_prefix: "rr_matches r p \<Longrightarrow> \<exists>q. p = rr_path r @ q"
  by (auto simp: rr_matches_def ep_starts_with_iff split: if_splits)

lemma rr_cmp_Less_specific:
  assumes "natural_order natcmp" "rr_matches a p" "rr_matches b p" "rr_cmp natcmp a b = Less"
  shows "less_specific a b"
proof (rule ccontr)
  assume not_less: "\<not> less_specific a b"
  obtain qa qb where p: "p = rr_path a @ qa" "p = rr_path b @ qb"
    using rr_matches_prefix assms(2,3) by metis
  have ep: "total_cmp (ep_cmp natcmp)" using assms(1) by (rule total_cmp_ep)
  show False
  proof (cases "rr_path a = rr_path b")
    case True
    then show False using assms(4) not_less total_cmp.cmp_refl [OF ep]
      by (auto simp: rr_cmp_def rr_key_def less_specific_def lin_cmp_def split: if_splits)
  next
    case False
    have "length (rr_path b) \<le> length (rr_path a)" using not_less by (auto simp: less_specific_def)
    moreover have "take (length (rr_path b)) (rr_path a @ qa) = take (length (rr_path b)) (rr_path b @ qb)"
      using p by simp
    ultimately have "take (length (rr_path b)) (rr_path a) = rr_path b" by simp
    then have "rr_path a = rr_path b @ drop (length (rr_path b)) (rr_path a)"
      by (metis append_take_drop_id)
    then obtain y ys where "rr_path a = rr_path b @ y # ys"
      using False by (cases "drop (length (rr_path b)) (rr_path a)") auto
    then have "ep_cmp natcmp (rr_path b) (rr_path a) = Less"
      using list_cmp_extension [OF total_cmp_part [OF assms(1)]] by (simp add: ep_cmp_def)
    then have "rr_cmp natcmp a b = Greater"
      using total_cmp.cmp_flip [OF ep] by (simp add: rr_cmp_def rr_key_def)
    then show False using assms(4) by simp
  qed
qed

lemma find_rev_Some:
  assumes "find P (rev xs) = Some x"
  shows "x \<in> set xs \<and> P x \<and> (\<exists>ys zs. xs = ys @ x # zs \<and> (\<forall>z\<in>set zs. \<not> P z))"
  using assms
proof (induction xs rule: rev_induct)
  case (snoc y xs)
  show ?case
  proof (cases "P y")
    case True
    with snoc.prems have "x = y" by simp
    with True have "xs @ [y] = xs @ x # []" "P x" by auto
    then show ?thesis by (metis empty_iff empty_set in_set_conv_decomp)
  next
    case False
    with snoc obtain ys zs where "xs = ys @ x # zs" "P x" "\<forall>z\<in>set zs. \<not> P z" by auto
    with False have "xs @ [y] = ys @ x # (zs @ [y])" "\<forall>z\<in>set (zs @ [y]). \<not> P z" by auto
    with \<open>P x\<close> show ?thesis by (metis in_set_conv_decomp)
  qed
qed simp

lemma find_None_rev: "find P (rev xs) = None \<longleftrightarrow> (\<forall>x\<in>set xs. \<not> P x)"
  by (auto simp: find_None_iff)

text \<open>A filter the code builds is sorted by its rules.\<close>

definition filter_ok :: "(rstr \<Rightarrow> rstr \<Rightarrow> ordering) \<Rightarrow> ResolvedFilter \<Rightarrow> bool" where
  "filter_ok natcmp f \<longleftrightarrow> natural_order natcmp \<and> om_sorted (rr_cmp natcmp) f"

lemma find_rule_most_specific:
  assumes ok: "filter_ok natcmp f"
    and found: "find (\<lambda>(r, e). rr_matches r p) (rev f) = Some (r, e)"
  shows "(r, e) \<in> set f" "rr_matches r p"
    "(r', e') \<in> set f \<Longrightarrow> rr_matches r' p \<Longrightarrow> (r', e') \<noteq> (r, e) \<Longrightarrow> less_specific r' r"
proof -
  note nat = ok [unfolded filter_ok_def, THEN conjunct1]
  from find_rev_Some [OF found] obtain ys zs where
    f: "f = ys @ (r, e) # zs" and last: "\<forall>z\<in>set zs. \<not> (\<lambda>(r, e). rr_matches r p) z"
    and "(r, e) \<in> set f" and m: "rr_matches r p" by auto
  then show "(r, e) \<in> set f" "rr_matches r p" by auto
  assume r': "(r', e') \<in> set f" "rr_matches r' p" "(r', e') \<noteq> (r, e)"
  then have "(r', e') \<in> set ys" using last by (auto simp: f)
  then have "rr_cmp natcmp r' r = Less"
    using ok by (auto simp: filter_ok_def om_sorted_def f sorted_wrt_append)
  then show "less_specific r' r" using rr_cmp_Less_specific [OF nat r'(2) m] by simp
qed

lemma filter_matches_iff:
  "filter_matches f p \<longleftrightarrow> (\<exists>r. find (\<lambda>(r, e). rr_matches r p) (rev f) = Some (r, Include))"
  by (auto simp: filter_matches_def most_specific_match_def split: option.splits RuleEffect.splits)

end
