(* ===== verification/Path_Filter_Props.thy ===== *)
theory Path_Filter_Props
  imports Path_Filter
begin

text \<open>
  What the queries on a resolved entity path filter promise: the most specific matching rule
  decides, and the derived queries (subtree tests, the superset test, the combined evaluation,
  the removal of a subtree) agree with that verdict.
\<close>

section \<open>The invariant\<close>

lemma filter_okI: "natural_order natcmp \<Longrightarrow> om_sorted (rr_cmp natcmp) f \<Longrightarrow> filter_ok natcmp f"
  by (simp add: filter_ok_def)

lemma filter_ok_filter: "filter_ok natcmp f \<Longrightarrow> filter_ok natcmp (filter P f)"
  by (simp add: filter_ok_def om_sorted_filter)

lemma filter_ok_insert: "filter_ok natcmp f \<Longrightarrow> filter_ok natcmp (om_insert (rr_cmp natcmp) r e f)"
  by (simp add: filter_ok_def total_cmp.om_sorted_insert total_cmp_rr)

lemma filter_ok_resolved:
  "natural_order natcmp \<Longrightarrow>
     filter_ok natcmp (om_or_insert (rr_cmp natcmp) r e (om_extend (rr_cmp natcmp) [] rules))"
  by (simp add: filter_ok_def total_cmp.om_sorted_or_insert total_cmp.om_sorted_extend total_cmp_rr)

lemma include_subtree_including [simp]: "include_subtree (rule_including_entity_subtree ualnum p)"
  by (simp add: include_subtree_def rule_including_entity_subtree_def rule_including_subtree_def
      ends_with_def)

section \<open>Specificity\<close>

lemma less_specific_irrefl: "\<not> less_specific r r"
  by (simp add: less_specific_def)

lemma less_specific_asym: "less_specific a b \<Longrightarrow> \<not> less_specific b a"
  by (auto simp: less_specific_def)

lemma not_Exclude [simp]: "e \<noteq> Exclude \<longleftrightarrow> e = Include" "e \<noteq> Include \<longleftrightarrow> e = Exclude"
  by (cases e; simp)+

lemma find_append:
  "find P (xs @ ys) = (case find P xs of None \<Rightarrow> find P ys | Some x \<Rightarrow> Some x)"
  by (induction xs) auto

lemma find_matching_exists:
  assumes "(r, e) \<in> set f" "rr_matches r p"
  obtains r' e' where "find (\<lambda>(r, e). rr_matches r p) (rev f) = Some (r', e')"
  using assms find_None_rev [of "\<lambda>(r, e). rr_matches r p" f]
  by (cases "find (\<lambda>(r, e). rr_matches r p) (rev f)") auto

lemma find_matching_eqI:
  assumes "filter_ok natcmp f" "(r, e) \<in> set f" "rr_matches r p"
    and "\<And>r' e'. (r', e') \<in> set f \<Longrightarrow> rr_matches r' p \<Longrightarrow> (r', e') = (r, e) \<or> less_specific r' r"
  shows "find (\<lambda>(r, e). rr_matches r p) (rev f) = Some (r, e)"
proof -
  obtain r' e' where found: "find (\<lambda>(r, e). rr_matches r p) (rev f) = Some (r', e')"
    using find_matching_exists [OF assms(2,3)] .
  note spec = find_rule_most_specific [OF assms(1) found]
  have "(r', e') = (r, e)"
    using assms(4) [OF spec(1,2)] spec(3) [OF assms(2,3)] less_specific_asym by blast
  with found show ?thesis by simp
qed

lemma find_matching_unique:
  assumes "filter_ok natcmp f"
    and "find (\<lambda>(r, e). rr_matches r p) (rev f) = Some (a, e)" "rr_matches a q"
    and "find (\<lambda>(r, e). rr_matches r q) (rev f) = Some (b, e')" "rr_matches b p"
  shows "a = b \<and> e = e'"
proof (rule ccontr)
  assume "\<not> (a = b \<and> e = e')"
  then have "less_specific b a" "less_specific a b"
    using find_rule_most_specific [OF assms(1,2)] find_rule_most_specific [OF assms(1,4)] assms(3,5)
    by blast+
  then show False using less_specific_asym by blast
qed

lemma rr_matches_subtree: "include_subtree (rr_rule r) \<Longrightarrow> rr_matches r p \<longleftrightarrow> (\<exists>q. p = rr_path r @ q)"
  by (simp add: rr_matches_def ep_starts_with_iff)

lemma rr_matches_extend: "include_subtree (rr_rule r) \<Longrightarrow> rr_matches r p \<Longrightarrow> rr_matches r (p @ q)"
  by (auto simp: rr_matches_subtree)

lemma filter_matches_ext:
  assumes "filter_ok natcmp f" "filter_ok natcmp g"
    and "\<And>r e. rr_matches r p \<Longrightarrow> (r, e) \<in> set f \<longleftrightarrow> (r, e) \<in> set g"
  shows "filter_matches f p = filter_matches g p"
proof -
  have "filter_matches g p" if "filter_ok natcmp f" "filter_ok natcmp g" "filter_matches f p"
    "\<And>r e. rr_matches r p \<Longrightarrow> (r, e) \<in> set f \<longleftrightarrow> (r, e) \<in> set g" for f g
  proof -
    from that(3) obtain r where r: "find (\<lambda>(r, e). rr_matches r p) (rev f) = Some (r, Include)"
      by (auto simp: filter_matches_iff)
    note r' = find_rule_most_specific [OF that(1) r]
    have "find (\<lambda>(r, e). rr_matches r p) (rev g) = Some (r, Include)"
      by (rule find_matching_eqI [OF that(2)]) (use r' that(4) in blast)+
    then show ?thesis by (auto simp: filter_matches_iff)
  qed
  then show ?thesis using assms by blast
qed

lemma prefixes_compare:
  assumes "ep_starts_with q p" "\<exists>u. q = r @ u"
  shows "ep_starts_with r p \<or> length r < length p"
  using assms by (auto simp: ep_starts_with_iff append_eq_append_conv2 dest: sym)

section \<open>Properties\<close>

text \<open>C18: the most specific rule wins. In a filter the code built, the verdict on a path is the
  effect of a rule that matches the path and is more specific (a longer path, or the same path
  without its subtree) than every other rule that matches it; there is no verdict exactly when
  no rule matches.\<close>

theorem most_specific_match_correct:
  assumes "filter_ok natcmp f"
  shows "(most_specific_match f p = Some e \<longleftrightarrow>
      (\<exists>r. (r, e) \<in> set f \<and> rr_matches r p \<and>
         (\<forall>(r', e') \<in> set f. rr_matches r' p \<longrightarrow> (r', e') = (r, e) \<or> less_specific r' r)))
    \<and> (most_specific_match f p = None \<longleftrightarrow> (\<forall>(r, e) \<in> set f. \<not> rr_matches r p))"
proof (rule conjI)
  let ?find = "find (\<lambda>(r, e). rr_matches r p) (rev f)"
  have "?find = Some (r, e) \<longleftrightarrow> (r, e) \<in> set f \<and> rr_matches r p \<and>
      (\<forall>(r', e') \<in> set f. rr_matches r' p \<longrightarrow> (r', e') = (r, e) \<or> less_specific r' r)" for r
  proof
    assume "?find = Some (r, e)"
    from find_rule_most_specific [OF assms this]
    show "(r, e) \<in> set f \<and> rr_matches r p \<and>
      (\<forall>(r', e') \<in> set f. rr_matches r' p \<longrightarrow> (r', e') = (r, e) \<or> less_specific r' r)"
      by blast
  next
    assume "(r, e) \<in> set f \<and> rr_matches r p \<and>
      (\<forall>(r', e') \<in> set f. rr_matches r' p \<longrightarrow> (r', e') = (r, e) \<or> less_specific r' r)"
    then show "?find = Some (r, e)" using find_matching_eqI [OF assms] by blast
  qed
  then show "most_specific_match f p = Some e \<longleftrightarrow>
      (\<exists>r. (r, e) \<in> set f \<and> rr_matches r p \<and>
         (\<forall>(r', e') \<in> set f. rr_matches r' p \<longrightarrow> (r', e') = (r, e) \<or> less_specific r' r))"
    by (auto simp: most_specific_match_def)
  show "most_specific_match f p = None \<longleftrightarrow> (\<forall>(r, e) \<in> set f. \<not> rr_matches r p)"
    unfolding most_specific_match_def by (auto simp: find_None_rev)
qed

text \<open>A filter for the witnesses: \<open>+ /a/**\<close>, \<open>- /a/b\<close>, with one-letter parts.\<close>

definition example_filter :: ResolvedFilter where
  "example_filter =
     [(\<lparr>rr_rule = [47, 97, 47, 42, 42], rr_path = [[97]]\<rparr>, Include),
      (\<lparr>rr_rule = [47, 97, 47, 98], rr_path = [[97], [98]]\<rparr>, Exclude)]"

lemma example_filter_ok: "filter_ok str_cmp example_filter"
proof (rule filter_okI)
  show "natural_order str_cmp" by (rule str.natural_order_axioms)
  show "om_sorted (rr_cmp str_cmp) example_filter" by code_simp
qed

theorem most_specific_match_correct_witness:
  "most_specific_match example_filter [[97], [98]] = Some Exclude
   \<and> most_specific_match example_filter [[98]] = None"
  using most_specific_match_correct [OF example_filter_ok, of "[[97], [98]]" Exclude]
    most_specific_match_correct [OF example_filter_ok, of "[[98]]" Include]
  by (simp add: example_filter_def rr_matches_def include_subtree_def ends_with_def
      subtree_suffix_def less_specific_def ep_starts_with_def zip_all_eq_def)

lemma eval_step_eq:
  "eval_step p (r, e) st =
     \<lparr>es_subtree_included = es_subtree_included st \<or> \<not> es_found_include st
         \<and> e = Include \<and> ep_starts_with (rr_path r) p,
      es_matches_exactly = es_matches_exactly st
         \<or> e = Include \<and> \<not> include_subtree (rr_rule r) \<and> rr_path r = p,
      es_last_match = (if rr_matches r p then Some (e, include_subtree (rr_rule r))
         else es_last_match st),
      es_found_include = es_found_include st \<or> e = Include \<and> ep_starts_with (rr_path r) p\<rparr>"
  by (cases st) (auto simp: eval_step_def Let_def)

lemma eval_fold:
  "fold (eval_step p) f st =
     \<lparr>es_subtree_included = es_subtree_included st \<or> \<not> es_found_include st
         \<and> list_ex (\<lambda>(r, e). e = Include \<and> ep_starts_with (rr_path r) p) f,
      es_matches_exactly = es_matches_exactly st \<or> filter_matches_exactly f p,
      es_last_match = (case find (\<lambda>(r, e). rr_matches r p) (rev f) of
           None \<Rightarrow> es_last_match st | Some (r, e) \<Rightarrow> Some (e, include_subtree (rr_rule r))),
      es_found_include = es_found_include st
         \<or> list_ex (\<lambda>(r, e). e = Include \<and> ep_starts_with (rr_path r) p) f\<rparr>"
proof (induction f arbitrary: st)
  case Nil
  then show ?case by (simp add: filter_matches_exactly_def)
next
  case (Cons re f)
  obtain r e where re: "re = (r, e)" by (cases re)
  show ?case
    by (auto simp: Cons re eval_step_eq find_append filter_matches_exactly_def split: option.splits)
qed

lemma subtree_loop_Include:
  "find (\<lambda>(r, e). rr_matches r p) rs = Some (r, Include) \<Longrightarrow> subtree_loop p rs"
  by (induction p rs rule: subtree_loop.induct) (auto split: if_splits)


text \<open>The other direction fails: the evaluation of \<open>/a/b\<close> under \<open>+ /a/**\<close>, \<open>- /a/b\<close> says that
  the subtree can be skipped, although the filter matches \<open>/a/b/c\<close>.\<close>

lemma filter_evaluate_skips_included_subtree:
  "\<not> ev_subtree_included (filter_evaluate example_filter [[97], [98]])
   \<and> is_anything_in_subtree_included example_filter [[97], [98]]
   \<and> filter_matches example_filter [[97], [98], [99]]"
  by code_simp

text \<open>C26: the subtree test never misses anything. When it says that nothing in the subtree of a
  path is included, the filter matches neither the path nor anything below it.\<close>

theorem subtree_test_sound:
  assumes ok: "filter_ok natcmp f"
    and none: "\<not> is_anything_in_subtree_included f p"
  shows "\<not> filter_matches f (p @ q)"
proof
  assume "filter_matches f (p @ q)"
  then obtain r where found: "find (\<lambda>(r, e). rr_matches r (p @ q)) (rev f) = Some (r, Include)"
    by (auto simp: filter_matches_iff)
  note r = find_rule_most_specific [OF ok found]
  have not_below: "\<not> ep_starts_with (rr_path r) p"
    using none r(1) by (auto simp: is_anything_in_subtree_included_def list_ex_iff split: if_splits)
  then have sub: "include_subtree (rr_rule r)"
    using r(2) by (metis rr_matches_def ep_starts_with_iff)
  have r_p: "rr_matches r p"
    using r(2) not_below
    by (auto simp: rr_matches_subtree [OF sub] ep_starts_with_iff append_eq_append_conv2 dest: sym)
  have "subtree_loop p rs" if "r \<in> fst ` {re \<in> set rs. snd re = Include}" "set rs \<subseteq> set f"
    "sorted_wrt (\<lambda>a b. rr_cmp natcmp (fst b) (fst a) = Less) rs" for rs
    using that
  proof (induction rs)
    case (Cons re rs)
    obtain x e where re: "re = (x, e)" by (cases re)
    have "subtree_loop p rs" if "re \<noteq> (r, Include)"
      using Cons that by (auto simp: re)
    moreover have False if "re \<noteq> (r, Include)" "rr_matches x p" "include_subtree (rr_rule x)" "e = Exclude"
    proof -
      have "less_specific x r"
        using r(3) [of x e] rr_matches_extend [OF that(3,2)] Cons.prems that by (auto simp: re)
      moreover have "rr_cmp natcmp r x = Less" using Cons.prems that by (auto simp: re)
      then have "less_specific r x"
        using ok rr_cmp_Less_specific r_p that(2) by (auto simp: filter_ok_def)
      ultimately show False using less_specific_asym by blast
    qed
    ultimately show ?case using r_p by (auto simp: re split: RuleEffect.splits)
  qed simp
  moreover have "r \<in> fst ` {re \<in> set (rev f). snd re = Include}" using r(1) by force
  moreover have "sorted_wrt (\<lambda>a b. rr_cmp natcmp (fst b) (fst a) = Less) (rev f)"
    using ok by (simp add: filter_ok_def om_sorted_def sorted_wrt_rev)
  ultimately have "subtree_loop p (rev f)" by simp
  then show False using none by (simp add: is_anything_in_subtree_included_def split: if_splits)
qed

theorem subtree_test_sound_witness:
  "\<not> filter_matches example_filter ([[98]] @ [[99]])"
proof (rule subtree_test_sound [OF example_filter_ok])
  show "\<not> is_anything_in_subtree_included example_filter [[98]]" by code_simp
qed

text \<open>C27: the superset test is sound for filters whose exclusions are all subtree exclusions on
  the smaller side: if the test accepts, everything the smaller filter matches is matched by the
  larger one.\<close>

theorem superset_test_sound:
  assumes ok: "filter_ok natcmp f" "filter_ok natcmp g"
    and subtrees: "\<forall>(r, e) \<in> set g. e = Exclude \<longrightarrow> include_subtree (rr_rule r)"
    and super: "is_superset_of f g"
    and g_matches: "filter_matches g p"
  shows "filter_matches f p"
proof -
  from g_matches obtain inc where inc: "find (\<lambda>(r, e). rr_matches r p) (rev g) = Some (inc, Include)"
    by (auto simp: filter_matches_iff)
  note inc' = find_rule_most_specific [OF ok(2) inc]
  have "superset_include_ok f inc"
    using super inc'(1) by (auto simp: is_superset_of_def list_all_iff)
  then obtain m where m: "find (\<lambda>(r, e). rr_matches r (rr_path inc)) (rev f) = Some (m, Include)"
    and m_sub: "include_subtree (rr_rule inc) \<longrightarrow> include_subtree (rr_rule m)"
    by (auto simp: superset_include_ok_def split: option.splits RuleEffect.splits)
  note m' = find_rule_most_specific [OF ok(1) m]
  have m_p: "rr_matches m p"
  proof (cases "include_subtree (rr_rule inc)")
    case True
    then obtain q where "p = rr_path inc @ q" using inc'(2) by (auto simp: rr_matches_subtree)
    then show ?thesis using rr_matches_extend [of m "rr_path inc" q] m'(2) m_sub True by simp
  next
    case False
    then show ?thesis using inc'(2) m'(2) by (simp add: rr_matches_def)
  qed
  obtain s e where s: "find (\<lambda>(r, e). rr_matches r p) (rev f) = Some (s, e)"
    using find_matching_exists [OF m'(1) m_p] .
  note s' = find_rule_most_specific [OF ok(1) s]
  have "e = Include"
  proof (rule ccontr)
    assume "e \<noteq> Include"
    then have e: "e = Exclude" by (cases e) auto
    have not_s: "\<not> rr_matches s (rr_path inc)"
      using find_matching_unique [OF ok(1) m m_p s] e by auto
    obtain u v where uv: "p = rr_path inc @ u" "p = rr_path s @ v"
      using rr_matches_prefix inc'(2) s'(2) by metis
    have below: "\<exists>w. rr_path s = rr_path inc @ w"
      using uv not_s s'(2) by (auto simp: rr_matches_def ep_starts_with_iff append_eq_append_conv2
          split: if_splits dest: sym)
    have inc_s: "rr_matches inc (rr_path s)"
      using below not_s inc'(2) s'(2) uv
      by (cases "include_subtree (rr_rule inc)") (auto simp: rr_matches_subtree, auto simp: rr_matches_def)
    have "superset_exclude_ok g s"
      using super s'(1) e by (auto simp: is_superset_of_def list_all_iff)
    moreover obtain x ex where x: "find (\<lambda>(r, e). rr_matches r (rr_path s)) (rev g) = Some (x, ex)"
      using find_matching_exists [OF inc'(1) inc_s] .
    ultimately have ex: "ex = Exclude" by (simp add: superset_exclude_ok_def split: RuleEffect.splits)
    note x' = find_rule_most_specific [OF ok(2) x]
    have "include_subtree (rr_rule x)" using subtrees x'(1) ex by auto
    then have "rr_matches x p" using rr_matches_extend [of x "rr_path s" v] x'(2) uv(2) by simp
    then show False using find_matching_unique [OF ok(2) x _ inc inc_s] ex by simp
  qed
  with s show ?thesis by (auto simp: filter_matches_iff)
qed

definition example_subset :: ResolvedFilter where
  "example_subset = [(\<lparr>rr_rule = [47, 97, 47, 99], rr_path = [[97], [99]]\<rparr>, Include)]"

theorem superset_test_sound_witness: "filter_matches example_filter [[97], [99]]"
proof (rule superset_test_sound [OF example_filter_ok, where g = example_subset])
  show "filter_ok str_cmp example_subset"
    by (rule filter_okI) (simp_all add: str.natural_order_axioms example_subset_def om_sorted_def)
  show "\<forall>(r, e) \<in> set example_subset. e = Exclude \<longrightarrow> include_subtree (rr_rule r)"
    by (simp add: example_subset_def)
  show "is_superset_of example_filter example_subset" by code_simp
  show "filter_matches example_subset [[97], [99]]" by code_simp
qed

text \<open>Without the restriction the test is wrong: \<open>+ /a/**\<close>, \<open>- /a/b/**\<close> is reported to cover
  \<open>+ /a/**\<close>, \<open>- /a/b\<close>, which matches \<open>/a/b/c\<close>.\<close>

definition narrower_filter :: ResolvedFilter where
  "narrower_filter =
     [(\<lparr>rr_rule = [47, 97, 47, 42, 42], rr_path = [[97]]\<rparr>, Include),
      (\<lparr>rr_rule = [47, 97, 47, 98, 47, 42, 42], rr_path = [[97], [98]]\<rparr>, Exclude)]"

lemma superset_test_unsound:
  "is_superset_of narrower_filter example_filter
   \<and> filter_matches example_filter [[97], [98], [99]]
   \<and> \<not> filter_matches narrower_filter [[97], [98], [99]]"
  by code_simp

text \<open>C28: removing a subtree does exactly that. Afterwards the filter matches no path in the
  subtree, and its verdict on every other path is unchanged.\<close>

theorem remove_subtree_correct:
  assumes ok: "filter_ok natcmp f"
  shows "filter_matches (remove_subtree_and_matching_rules ualnum natcmp p f) q \<longleftrightarrow>
           filter_matches f q \<and> \<not> ep_starts_with q p"
proof -
  let ?g = "remove_subtree_and_matching_rules ualnum natcmp p f"
  let ?x = "\<lparr>rr_rule = rule_including_entity_subtree ualnum p, rr_path = p\<rparr>"
  let ?kept = "filter (\<lambda>(r, e). \<not> ep_starts_with (rr_path r) p) f"
  have nat: "natural_order natcmp" using ok by (simp add: filter_ok_def)
  have x_matches: "rr_matches ?x q' \<longleftrightarrow> ep_starts_with q' p" for q'
    by (simp add: rr_matches_def)
  have g: "?g = om_insert (rr_cmp natcmp) ?x Exclude ?kept"
    by (simp add: remove_subtree_and_matching_rules_def x_matches)
  have other: "rr_cmp natcmp ?x r \<noteq> Equal" if "(r, e) \<in> set ?kept" for r e
    using that by (auto simp: rr_cmp_Equal_iff [OF nat] rr_eq_def ep_starts_with_iff)
  have set_g: "set ?g = insert (?x, Exclude) (set ?kept)"
    unfolding g using other by (rule set_om_insert_new)
  have ok_g: "filter_ok natcmp ?g" unfolding g by (intro filter_ok_insert filter_ok_filter ok)
  show ?thesis
  proof (cases "ep_starts_with q p")
    case True
    have "find (\<lambda>(r, e). rr_matches r q) (rev ?g) = Some (?x, Exclude)"
    proof (rule find_matching_eqI [OF ok_g])
      fix r e assume re: "(r, e) \<in> set ?g" "rr_matches r q"
      have "less_specific r ?x" if "\<not> ep_starts_with (rr_path r) p"
        using prefixes_compare [of q p "rr_path r"] True that rr_matches_prefix [OF re(2)]
        by (auto simp: less_specific_def ep_starts_with_iff)
      then show "(r, e) = (?x, Exclude) \<or> less_specific r ?x" using re(1) set_g by auto
    qed (simp_all add: set_g x_matches True)
    with True show ?thesis by (auto simp: filter_matches_iff)
  next
    case False
    have kept: "(r, e) \<in> set ?g \<longleftrightarrow> (r, e) \<in> set f" if "rr_matches r q" for r e
      using that False rr_matches_prefix [OF that] x_matches [of q]
      by (auto simp: set_g ep_starts_with_iff)
    show ?thesis
      using False by (simp add: filter_matches_ext [OF ok_g ok kept])
  qed
qed

theorem remove_subtree_correct_witness:
  "\<not> filter_matches (remove_subtree_and_matching_rules (\<lambda>c. False) str_cmp [[97], [99]] example_filter)
       [[97], [99], [100]]
   \<and> filter_matches (remove_subtree_and_matching_rules (\<lambda>c. False) str_cmp [[97], [99]] example_filter)
       [[97], [100]]"
proof -
  have "filter_matches example_filter [[97], [100]]" by code_simp
  then show ?thesis
    by (simp add: remove_subtree_correct [OF example_filter_ok] ep_starts_with_def zip_all_eq_def)
qed

text \<open>Resolving a filter hides recording properties by default. If no rule of the filter is
  about a path under \<open>/__properties\<close>, the resolved filter matches no such path.\<close>

theorem resolve_hides_properties:
  assumes nat: "natural_order natcmp"
    and none: "\<forall>(r, e) \<in> set filt.
      \<not> ep_starts_with (rr_path (resolved_parse_forgiving r subst_env)) ep_properties"
    and q: "ep_starts_with q ep_properties"
  shows "\<not> filter_matches (resolve_forgiving ualnum natcmp subst_env filt) q"
proof -
  let ?x = "rr_including_subtree ualnum ep_properties"
  let ?rules = "map (\<lambda>(r, e). (resolved_parse_forgiving r subst_env, e)) filt"
  let ?f = "om_extend (rr_cmp natcmp) [] ?rules"
  let ?g = "resolve_forgiving ualnum natcmp subst_env filt"
  have f_paths: "\<not> ep_starts_with (rr_path r) ep_properties" if "(r, e) \<in> set ?f" for r e
  proof -
    have "(r, e) \<in> fst ` set ?rules \<times> snd ` set ?rules"
      using om_extend_keys [OF that] by auto
    then show ?thesis using none by auto
  qed
  have new: "rr_cmp natcmp ?x r \<noteq> Equal" if "(r, e) \<in> set ?f" for r e
    using f_paths [OF that]
    by (auto simp: rr_cmp_Equal_iff [OF nat] rr_eq_def rr_including_subtree_def ep_starts_with_iff)
  then have "om_get (rr_cmp natcmp) ?f ?x = None"
    using total_cmp.om_get_Some_in [OF total_cmp_rr [OF nat], of ?f ?x]
    by (cases "om_get (rr_cmp natcmp) ?f ?x") blast+
  then have g: "?g = om_insert (rr_cmp natcmp) ?x Exclude ?f"
    by (simp add: resolve_forgiving_def om_or_insert_def)
  have set_g: "set ?g = insert (?x, Exclude) (set ?f)"
    unfolding g using new by (rule set_om_insert_new)
  have ok_g: "filter_ok natcmp ?g"
    unfolding resolve_forgiving_def by (rule filter_ok_resolved [OF nat])
  have "find (\<lambda>(r, e). rr_matches r q) (rev ?g) = Some (?x, Exclude)"
  proof (rule find_matching_eqI [OF ok_g])
    fix r e assume re: "(r, e) \<in> set ?g" "rr_matches r q"
    have "less_specific r ?x" if "\<not> ep_starts_with (rr_path r) ep_properties"
      using prefixes_compare [of q ep_properties "rr_path r"] q that rr_matches_prefix [OF re(2)]
      by (auto simp: less_specific_def ep_starts_with_iff rr_including_subtree_def)
    then show "(r, e) = (?x, Exclude) \<or> less_specific r ?x" using re(1) set_g f_paths by auto
  qed (simp_all add: set_g q rr_matches_def rr_including_subtree_def)
  then show ?thesis by (auto simp: filter_matches_iff)
qed

text \<open>The filter \<open>+ /**\<close>.\<close>

theorem resolve_hides_properties_witness:
  "\<not> filter_matches (resolve_forgiving (\<lambda>c. False) str_cmp [] filter_all) [properties_part, [97]]"
proof (rule resolve_hides_properties [OF str.natural_order_axioms])
  show "\<forall>(r, e) \<in> set filter_all.
      \<not> ep_starts_with (rr_path (resolved_parse_forgiving r [])) ep_properties"
    by (simp add: filter_all_def resolved_parse_forgiving_def substitute_variables_def rule_new_def
        rule_including_subtree_def subtree_suffix_def trim_def is_whitespace_def ep_root_def
        ep_starts_with_def ep_properties_def)
  show "ep_starts_with [properties_part, [97]] ep_properties" by code_simp
qed

end
