(* ===== verification/Time_Types.thy ===== *)
theory Time_Types
  imports Rerun_Prelude "HOL-Library.Option_ord"
begin

text \<open>
  The time values of \<open>crates/store/re_log_types/src/index\<close>: \<open>NonMinI64\<close> with its stored
  bit pattern, \<open>TimeInt\<close> (a temporal value or the static marker) and
  \<open>AbsoluteTimeRange\<close>. The numbers are 64-bit words, so the saturation of the code is
  visible; \<open>nm_ok\<close> and \<open>time_ok\<close> say that no stored pattern is the forbidden one.
\<close>

section \<open>NonMinI64\<close>

text \<open>The stored value is the number with its sign bit flipped, which must not be 0.\<close>

datatype NonMinI64 = NonMinI64 (nm_inner: i64)

definition nm_ok :: "NonMinI64 \<Rightarrow> bool" where
  "nm_ok n \<longleftrightarrow> nm_inner n \<noteq> 0"

definition nm_new :: "i64 \<Rightarrow> NonMinI64 option" where
  "nm_new v = (let x = v XOR i64_min in if x = 0 then None else Some (NonMinI64 x))"

definition nm_new_unchecked :: "i64 \<Rightarrow> NonMinI64" where
  "nm_new_unchecked v = NonMinI64 (v XOR i64_min)"

definition nm_get :: "NonMinI64 \<Rightarrow> i64" where
  "nm_get n = nm_inner n XOR i64_min"

definition nm_ZERO :: NonMinI64 where "nm_ZERO = nm_new_unchecked 0"
definition nm_ONE :: NonMinI64 where "nm_ONE = nm_new_unchecked 1"
definition nm_MIN :: NonMinI64 where "nm_MIN = nm_new_unchecked (i64_min + 1)"
definition nm_MAX :: NonMinI64 where "nm_MAX = nm_new_unchecked i64_max"

definition nm_saturating_from_i64 :: "i64 \<Rightarrow> NonMinI64" where
  "nm_saturating_from_i64 v = (case nm_new v of None \<Rightarrow> nm_MIN | Some n \<Rightarrow> n)"

definition nm_saturating_from_u128 :: "128 word \<Rightarrow> NonMinI64" where
  "nm_saturating_from_u128 v = nm_new_unchecked (ucast (min v (ucast (nm_get nm_MAX))))"

text \<open>\<open>None\<close> is the panic of \<open>unwrap\<close>.\<close>

definition nm_midpoint :: "NonMinI64 \<Rightarrow> NonMinI64 \<Rightarrow> NonMinI64 option" where
  "nm_midpoint a b = nm_new (midpoint_i64 (nm_get a) (nm_get b))"

text \<open>
  Negation acts on the stored pattern (wrapping, as in a release build; a build with
  overflow checks stops where the stored pattern is \<open>i64::MIN\<close>, which is the value 0).
\<close>

definition nm_neg :: "NonMinI64 \<Rightarrow> NonMinI64" where
  "nm_neg n = NonMinI64 (- nm_inner n)"

definition nm_bitand :: "NonMinI64 \<Rightarrow> NonMinI64 \<Rightarrow> NonMinI64" where
  "nm_bitand a b = nm_new_unchecked (nm_get a AND nm_get b)"

lemma xor_i64_min_twice [simp]: "(v XOR i64_min) XOR i64_min = v"
  by (simp add: xor.assoc)

lemma xor_i64_min_eq_0_iff [simp]: "v XOR i64_min = 0 \<longleftrightarrow> v = i64_min"
  by (metis xor_i64_min_twice xor.left_neutral xor_self_eq)

lemma nm_get_new_unchecked [simp]: "nm_get (nm_new_unchecked v) = v"
  by (simp add: nm_get_def nm_new_unchecked_def)

lemma nm_ok_iff_get: "nm_ok n \<longleftrightarrow> nm_get n \<noteq> i64_min"
proof -
  have "nm_inner n = 0 \<longleftrightarrow> nm_get n = i64_min"
    by (metis nm_get_def xor_i64_min_twice xor_i64_min_eq_0_iff)
  then show ?thesis by (simp add: nm_ok_def)
qed

lemma nm_get_inject [simp]: "nm_get a = nm_get b \<longleftrightarrow> a = b"
  by (metis NonMinI64.expand nm_get_def xor_i64_min_twice)

lemma nm_new_eq: "nm_new v = (if v = i64_min then None else Some (nm_new_unchecked v))"
  by (simp add: nm_new_def nm_new_unchecked_def Let_def)

lemma nm_new_None_iff: "nm_new v = None \<longleftrightarrow> v = i64_min"
  by (simp add: nm_new_eq)

lemma nm_new_get: "nm_ok n \<Longrightarrow> nm_new (nm_get n) = Some n"
  by (simp add: nm_new_eq nm_ok_iff_get flip: nm_get_inject)

lemma nm_ok_unchecked [simp]: "nm_ok (nm_new_unchecked v) \<longleftrightarrow> v \<noteq> i64_min"
  by (simp add: nm_ok_iff_get)

lemma nm_consts_get [simp]:
  "nm_get nm_ZERO = 0" "nm_get nm_ONE = 1" "nm_get nm_MIN = i64_min + 1" "nm_get nm_MAX = i64_max"
  by (simp_all add: nm_ZERO_def nm_ONE_def nm_MIN_def nm_MAX_def)

lemma sint_nm_MIN [i64_simps]: "sint (nm_get nm_MIN) = - (2 ^ 63 - 1)"
  by (simp add: i64_min_def)

lemma sint_nm_MAX [i64_simps]: "sint (nm_get nm_MAX) = 2 ^ 63 - 1"
  by (simp add: i64_simps)

lemma i64_min_neqs [simp]: "i64_min + 1 \<noteq> i64_min" "i64_max \<noteq> i64_min" "i64_min \<noteq> i64_max"
  by (simp_all add: i64_min_def i64_max_def)

lemma nm_ok_consts [simp]: "nm_ok nm_ZERO" "nm_ok nm_ONE" "nm_ok nm_MIN" "nm_ok nm_MAX"
  by (simp_all add: nm_ok_iff_get) (simp_all add: i64_min_def)

lemma nm_ok_lower: "nm_ok n \<longleftrightarrow> - (2 ^ 63 - 1) \<le> sint (nm_get n)"
proof -
  have "nm_get n = i64_min \<longleftrightarrow> sint (nm_get n) = - (2 ^ 63)"
    by (metis sint_i64_min sint_inject_i64)
  then show ?thesis
    using sint_i64_lower [of "nm_get n"] by (auto simp: nm_ok_iff_get)
qed

lemma nm_ok_saturating_from_i64 [simp]: "nm_ok (nm_saturating_from_i64 v)"
  by (simp add: nm_saturating_from_i64_def nm_new_eq)

lemma nm_midpoint_defined:
  assumes "nm_ok a" "nm_ok b"
  shows "\<exists>m. nm_midpoint a b = Some m \<and> nm_ok m
    \<and> sint (nm_get m) = trunc_div (sint (nm_get a) + sint (nm_get b)) 2"
proof -
  let ?v = "midpoint_i64 (nm_get a) (nm_get b)"
  have "- (2 ^ 63 - 1) \<le> trunc_div (sint (nm_get a) + sint (nm_get b)) 2
      \<and> trunc_div (sint (nm_get a) + sint (nm_get b)) 2 \<le> 2 ^ 63 - 1"
    by (rule trunc_div2_bounds)
      (use assms sint_i64_upper [of "nm_get a"] sint_i64_upper [of "nm_get b"]
        in \<open>auto simp: nm_ok_lower\<close>)
  then have "?v \<noteq> i64_min"
    using sint_midpoint_i64 [of "nm_get a" "nm_get b"] sint_i64_min by auto
  then show ?thesis by (simp add: nm_midpoint_def nm_new_eq i64_simps)
qed

lemma bit_i64_min: "bit i64_min k \<longleftrightarrow> k = 63"
proof -
  have "bit (push_bit n 1 :: i64) k \<longleftrightarrow> n < 64 \<and> k = n" for n
    by (auto simp: bit_simps)
  from this [of 63] show ?thesis by (simp add: i64_min_def)
qed

lemma xor_i64_min_plus: "v XOR i64_min = v + i64_min"
proof (cases "bit v 63")
  case False
  then have "v AND i64_min = 0"
    by (intro bit_word_eqI) (auto simp: bit_simps bit_i64_min)
  then show ?thesis by (rule disjunctive_add_eq_xor [symmetric])
next
  case True
  then have "(v XOR i64_min) AND i64_min = 0"
    by (intro bit_word_eqI) (auto simp: bit_simps bit_i64_min)
  then have "(v XOR i64_min) + i64_min = (v XOR i64_min) XOR i64_min"
    by (rule disjunctive_add_eq_xor)
  then have eq: "(v XOR i64_min) + i64_min = v"
    by (simp only: xor_i64_min_twice)
  have zero: "i64_min + i64_min = 0" by (simp add: i64_min_def)
  have "v + i64_min = (v XOR i64_min) + (i64_min + i64_min)"
    by (simp only: add.assoc [symmetric] eq)
  then show ?thesis by (simp only: zero add_0_right)
qed

lemma nm_get_neg [simp]: "nm_get (nm_neg n) = - nm_get n"
proof -
  have neg: "- i64_min = i64_min" by (simp add: i64_min_def)
  have "nm_get (nm_neg n) = - nm_inner n + i64_min"
    by (simp only: nm_get_def nm_neg_def NonMinI64.sel xor_i64_min_plus)
  also have "\<dots> = - (nm_inner n + i64_min)"
    by (simp only: minus_add_distrib neg)
  finally show ?thesis
    by (simp only: nm_get_def xor_i64_min_plus)
qed

lemma nm_ok_neg [simp]: "nm_ok (nm_neg n) \<longleftrightarrow> nm_ok n"
  by (simp add: nm_ok_def nm_neg_def)

text \<open>
  \<open>BitAnd\<close> builds its result with \<open>new_unchecked\<close>, whose safety condition is that the
  value is not \<open>i64::MIN\<close>; two valid operands can meet in exactly that value.
\<close>

lemma nm_bitand_can_break: "nm_ok (nm_bitand a b) \<longleftrightarrow> nm_get a AND nm_get b \<noteq> i64_min"
  by (simp add: nm_bitand_def)

instantiation NonMinI64 :: linorder
begin

definition less_eq_NonMinI64 :: "NonMinI64 \<Rightarrow> NonMinI64 \<Rightarrow> bool" where
  "a \<le> b \<longleftrightarrow> sint (nm_get a) \<le> sint (nm_get b)"

definition less_NonMinI64 :: "NonMinI64 \<Rightarrow> NonMinI64 \<Rightarrow> bool" where
  "a < b \<longleftrightarrow> sint (nm_get a) < sint (nm_get b)"

instance
  by standard
    (auto simp: less_eq_NonMinI64_def less_NonMinI64_def sint_inject_i64 simp flip: nm_get_inject)

end

section \<open>TimeInt\<close>

text \<open>The derived order of the code puts \<open>None\<close> (static) below every temporal value.\<close>

datatype TimeInt = TimeInt (ti_val: "NonMinI64 option")

instantiation TimeInt :: linorder
begin

definition less_eq_TimeInt :: "TimeInt \<Rightarrow> TimeInt \<Rightarrow> bool" where
  "a \<le> b \<longleftrightarrow> ti_val a \<le> ti_val b"

definition less_TimeInt :: "TimeInt \<Rightarrow> TimeInt \<Rightarrow> bool" where
  "a < b \<longleftrightarrow> ti_val a < ti_val b"

instance
  by standard (auto simp: less_eq_TimeInt_def less_TimeInt_def TimeInt.expand)

end

definition time_STATIC :: TimeInt where "time_STATIC = TimeInt None"
definition time_MIN :: TimeInt where "time_MIN = TimeInt (Some nm_MIN)"
definition time_MAX :: TimeInt where "time_MAX = TimeInt (Some nm_MAX)"
definition time_ZERO :: TimeInt where "time_ZERO = TimeInt (Some nm_ZERO)"
definition time_ONE :: TimeInt where "time_ONE = TimeInt (Some nm_ONE)"

definition is_static :: "TimeInt \<Rightarrow> bool" where
  "is_static t \<longleftrightarrow> t = time_STATIC"

definition new_temporal :: "i64 \<Rightarrow> TimeInt" where
  "new_temporal time = (case nm_new time of None \<Rightarrow> time_MIN | Some t \<Rightarrow> TimeInt (Some t))"

definition from_millis :: "NonMinI64 \<Rightarrow> TimeInt" where
  "from_millis ms = new_temporal (saturating_mul_i64 (nm_get ms) 1000000)"

definition saturated_temporal_i64 :: "i64 \<Rightarrow> TimeInt" where
  "saturated_temporal_i64 v = TimeInt (Some (nm_saturating_from_i64 v))"

text \<open>The argument is the result of the caller's \<open>try_into\<close>, \<open>None\<close> for its error.\<close>

definition saturated_temporal :: "TimeInt option \<Rightarrow> TimeInt" where
  "saturated_temporal r = max (case r of None \<Rightarrow> time_MIN | Some t \<Rightarrow> t) time_MIN"

definition time_try_from_i64 :: "i64 \<Rightarrow> TimeInt option" where
  "time_try_from_i64 v = (case nm_new v of None \<Rightarrow> None | Some t \<Rightarrow> Some (TimeInt (Some t)))"

definition as_i64 :: "TimeInt \<Rightarrow> i64" where
  "as_i64 t = (case ti_val t of Some n \<Rightarrow> nm_get n | None \<Rightarrow> i64_min)"

definition time_inc :: "TimeInt \<Rightarrow> TimeInt" where
  "time_inc t = (case ti_val t of
     Some n \<Rightarrow> new_temporal (saturating_add_i64 (nm_get n) 1) | None \<Rightarrow> t)"

definition time_dec :: "TimeInt \<Rightarrow> TimeInt" where
  "time_dec t = (case ti_val t of
     Some n \<Rightarrow> new_temporal (saturating_sub_i64 (nm_get n) 1) | None \<Rightarrow> t)"

text \<open>\<open>None\<close> is the panic of the \<open>unwrap\<close> in \<open>NonMinI64::midpoint\<close>.\<close>

definition time_midpoint :: "TimeInt \<Rightarrow> TimeInt \<Rightarrow> TimeInt option" where
  "time_midpoint a b = (case (ti_val a, ti_val b) of
     (Some l, Some r) \<Rightarrow> map_option (\<lambda>m. TimeInt (Some m)) (nm_midpoint l r)
   | _ \<Rightarrow> Some time_STATIC)"

text \<open>
  The sum and the product wrap, as in a release build. The source asserts
  \<open>1 \<le> snap_interval\<close>; for such a divisor \<open>div_euclid\<close> is the floor division of HOL.
\<close>

definition closest_multiple_of :: "TimeInt \<Rightarrow> i64 \<Rightarrow> TimeInt" where
  "closest_multiple_of t snap = (case ti_val t of
     Some n \<Rightarrow>
       let v = nm_get n;
           q = sint (v + word_of_int (trunc_div (sint snap) 2)) div sint snap
       in new_temporal (word_of_int q * snap)
   | None \<Rightarrow> time_STATIC)"

definition time_saturating_sub :: "TimeInt \<Rightarrow> i64 \<Rightarrow> TimeInt" where
  "time_saturating_sub t arg = (case ti_val t of
     Some n \<Rightarrow> new_temporal (saturating_sub_i64 (nm_get n) arg) | None \<Rightarrow> time_STATIC)"

definition time_to_nonmin :: "TimeInt \<Rightarrow> NonMinI64" where
  "time_to_nonmin t = (case ti_val t of Some n \<Rightarrow> n | None \<Rightarrow> nm_MIN)"

definition time_neg :: "TimeInt \<Rightarrow> TimeInt" where
  "time_neg t = (case ti_val t of Some n \<Rightarrow> TimeInt (Some (nm_neg n)) | None \<Rightarrow> t)"

definition time_add :: "TimeInt \<Rightarrow> TimeInt \<Rightarrow> TimeInt" where
  "time_add a b = (case (ti_val a, ti_val b) of
     (Some l, Some r) \<Rightarrow> TimeInt (Some
       (case nm_new (saturating_add_i64 (nm_get l) (nm_get r)) of None \<Rightarrow> nm_MIN | Some n \<Rightarrow> n))
   | _ \<Rightarrow> TimeInt None)"

definition time_sub :: "TimeInt \<Rightarrow> TimeInt \<Rightarrow> TimeInt" where
  "time_sub a b = (case (ti_val a, ti_val b) of
     (Some l, Some r) \<Rightarrow> TimeInt (Some
       (case nm_new (saturating_sub_i64 (nm_get l) (nm_get r)) of None \<Rightarrow> nm_MIN | Some n \<Rightarrow> n))
   | _ \<Rightarrow> TimeInt None)"


text \<open>A time is well formed when its stored pattern is; only the temporal ones have one.\<close>

definition time_ok :: "TimeInt \<Rightarrow> bool" where
  "time_ok t \<longleftrightarrow> (case ti_val t of None \<Rightarrow> True | Some n \<Rightarrow> nm_ok n)"

definition is_temporal :: "TimeInt \<Rightarrow> bool" where
  "is_temporal t \<longleftrightarrow> (case ti_val t of None \<Rightarrow> False | Some n \<Rightarrow> nm_ok n)"

lemma is_temporal_time_ok [simp]: "is_temporal t \<Longrightarrow> time_ok t"
  by (auto simp: is_temporal_def time_ok_def split: option.splits)

lemma is_temporal_iff: "is_temporal t \<longleftrightarrow> time_ok t \<and> \<not> is_static t"
  by (cases t)
    (auto simp: is_temporal_def time_ok_def is_static_def time_STATIC_def split: option.splits)

lemma sint_as_i64_temporal:
  "is_temporal t \<Longrightarrow> - (2 ^ 63 - 1) \<le> sint (as_i64 t) \<and> sint (as_i64 t) \<le> 2 ^ 63 - 1"
  using sint_i64_upper by (auto simp: is_temporal_def as_i64_def nm_ok_lower split: option.splits)

lemma as_i64_new_temporal:
  "as_i64 (new_temporal v) = (if v = i64_min then i64_min + 1 else v)"
  by (simp add: new_temporal_def nm_new_eq as_i64_def time_MIN_def)

lemma is_temporal_new_temporal [simp]: "is_temporal (new_temporal v)"
  by (simp add: new_temporal_def nm_new_eq is_temporal_def time_MIN_def)

lemma new_temporal_as_i64: "is_temporal t \<Longrightarrow> new_temporal (as_i64 t) = t"
  by (cases t)
    (auto simp: is_temporal_def new_temporal_def as_i64_def nm_new_get split: option.splits)

lemma sint_new_temporal [i64_simps]:
  "sint (as_i64 (new_temporal v)) = max (- (2 ^ 63 - 1)) (sint v)"
proof -
  have "v \<noteq> i64_min \<Longrightarrow> sint v \<noteq> - (2 ^ 63)"
    by (metis sint_i64_min sint_inject_i64)
  moreover have "sint (i64_min + 1) = - (2 ^ 63 - 1)" by (simp add: i64_min_def)
  ultimately show ?thesis
    using sint_i64_lower [of v] by (auto simp: as_i64_new_temporal i64_simps)
qed

text \<open>On well-formed times the order of the code is the order of the numbers.\<close>

lemma time_less_eq_iff:
  assumes "time_ok a" "time_ok b"
  shows "a \<le> b \<longleftrightarrow> sint (as_i64 a) \<le> sint (as_i64 b)"
  using assms sint_i64_lower
  by (cases a; cases b)
    (auto simp: less_eq_TimeInt_def as_i64_def time_ok_def less_eq_option_def nm_ok_lower
       less_eq_NonMinI64_def i64_simps split: option.splits)

lemma time_less_iff:
  assumes "time_ok a" "time_ok b"
  shows "a < b \<longleftrightarrow> sint (as_i64 a) < sint (as_i64 b)"
  using time_less_eq_iff [OF assms(2,1)] by (simp add: not_le [symmetric])

lemma is_temporal_MIN_le: "is_temporal t \<Longrightarrow> time_MIN \<le> t"
  using sint_as_i64_temporal [of t]
  by (auto simp: time_less_eq_iff is_temporal_def time_ok_def as_i64_def time_MIN_def
      less_eq_TimeInt_def less_eq_NonMinI64_def nm_ok_lower i64_simps i64_min_def split: option.splits)

lemma time_MIN_le_temporal:
  "time_ok t \<Longrightarrow> time_MIN \<le> t \<longleftrightarrow> is_temporal t"
  by (auto simp: is_temporal_MIN_le is_temporal_iff)
    (auto simp: is_static_def time_STATIC_def time_MIN_def less_eq_TimeInt_def)

lemma is_temporal_time_MIN [simp]: "is_temporal time_MIN"
  by (simp add: is_temporal_def time_MIN_def)

lemma is_temporal_saturated [simp]:
  "(\<And>t. r = Some t \<Longrightarrow> time_ok t) \<Longrightarrow> is_temporal (saturated_temporal r)"
  by (cases r) (auto simp: saturated_temporal_def max_def not_le dest: time_MIN_le_temporal)

lemma saturated_temporal_id [simp]: "is_temporal t \<Longrightarrow> saturated_temporal (Some t) = t"
  using is_temporal_MIN_le [of t] by (simp add: saturated_temporal_def max_def)

section \<open>AbsoluteTimeRange\<close>

record AbsoluteTimeRange =
  range_min :: TimeInt
  range_max :: TimeInt

definition range_EMPTY :: AbsoluteTimeRange where
  "range_EMPTY = \<lparr>range_min = time_MAX, range_max = time_MIN\<rparr>"

definition range_EVERYTHING :: AbsoluteTimeRange where
  "range_EVERYTHING = \<lparr>range_min = time_MIN, range_max = time_MAX\<rparr>"

definition range_new :: "TimeInt option \<Rightarrow> TimeInt option \<Rightarrow> AbsoluteTimeRange" where
  "range_new lo hi = \<lparr>range_min = saturated_temporal lo, range_max = saturated_temporal hi\<rparr>"

definition range_point :: "TimeInt option \<Rightarrow> AbsoluteTimeRange" where
  "range_point t = (let time = saturated_temporal t in \<lparr>range_min = time, range_max = time\<rparr>)"

definition range_set_min :: "AbsoluteTimeRange \<Rightarrow> TimeInt option \<Rightarrow> AbsoluteTimeRange" where
  "range_set_min r t = r\<lparr>range_min := saturated_temporal t\<rparr>"

definition range_set_max :: "AbsoluteTimeRange \<Rightarrow> TimeInt option \<Rightarrow> AbsoluteTimeRange" where
  "range_set_max r t = r\<lparr>range_max := saturated_temporal t\<rparr>"

definition range_abs_length :: "AbsoluteTimeRange \<Rightarrow> u64" where
  "range_abs_length r = abs_diff_i64 (as_i64 (range_min r)) (as_i64 (range_max r))"

definition range_is_empty :: "AbsoluteTimeRange \<Rightarrow> bool" where
  "range_is_empty r \<longleftrightarrow> range_max r < range_min r"

definition range_center :: "AbsoluteTimeRange \<Rightarrow> TimeInt option" where
  "range_center r = time_midpoint (range_min r) (range_max r)"

definition range_contains :: "AbsoluteTimeRange \<Rightarrow> TimeInt \<Rightarrow> bool" where
  "range_contains r t \<longleftrightarrow> range_min r \<le> t \<and> t \<le> range_max r"

definition range_contains_range :: "AbsoluteTimeRange \<Rightarrow> AbsoluteTimeRange \<Rightarrow> bool" where
  "range_contains_range r s \<longleftrightarrow> range_min r \<le> range_min s \<and> range_max s \<le> range_max r"

definition range_intersects :: "AbsoluteTimeRange \<Rightarrow> AbsoluteTimeRange \<Rightarrow> bool" where
  "range_intersects r s \<longleftrightarrow> range_min r \<le> range_max s \<and> range_min s \<le> range_max r"

definition range_intersection ::
  "AbsoluteTimeRange \<Rightarrow> AbsoluteTimeRange \<Rightarrow> AbsoluteTimeRange option" where
  "range_intersection r s = (if range_intersects r s
     then Some \<lparr>range_min = max (range_min r) (range_min s),
                range_max = min (range_max r) (range_max s)\<rparr>
     else None)"

definition range_union :: "AbsoluteTimeRange \<Rightarrow> AbsoluteTimeRange \<Rightarrow> AbsoluteTimeRange" where
  "range_union r s = \<lparr>range_min = min (range_min r) (range_min s),
                      range_max = max (range_max r) (range_max s)\<rparr>"

text \<open>
  \<open>from_relative_time_range\<close> after its two boundaries are computed (the boundary datatypes are
  generated code): swap when out of order, then saturate.
\<close>

definition range_of_boundaries :: "i64 \<Rightarrow> i64 \<Rightarrow> AbsoluteTimeRange" where
  "range_of_boundaries lo hi = (let (lo, hi) = (if sint hi < sint lo then (hi, lo) else (lo, hi))
     in range_new (time_try_from_i64 lo) (time_try_from_i64 hi))"

lemmas range_defs = range_is_empty_def range_contains_def range_contains_range_def
  range_intersects_def range_intersection_def range_union_def

definition range_ok :: "AbsoluteTimeRange \<Rightarrow> bool" where
  "range_ok r \<longleftrightarrow> is_temporal (range_min r) \<and> is_temporal (range_max r)"

lemma range_is_empty_iff: "range_is_empty r \<longleftrightarrow> (\<forall>t. \<not> range_contains r t)"
  by (auto simp: range_defs not_le dest: le_less_trans)

lemma range_intersection_contains:
  "range_contains r t \<and> range_contains s t \<longleftrightarrow>
     (\<exists>i. range_intersection r s = Some i \<and> range_contains i t)"
  by (auto simp: range_defs)

end
