(* ===== verification/Digits.thy ===== *)
theory Digits
  imports Ordered_Map Rust_Char
begin

text \<open>
  Fixed-width positional notation, most significant digit first: the big-endian byte arrays
  and the zero-padded hexadecimal numbers of the Rust code, and why both sort like the number.
\<close>

fun digits :: "nat \<Rightarrow> nat \<Rightarrow> nat \<Rightarrow> nat list" where
  "digits b 0 n = []"
| "digits b (Suc k) n = digits b k (n div b) @ [n mod b]"

fun from_digits :: "nat \<Rightarrow> nat \<Rightarrow> nat list \<Rightarrow> nat" where
  "from_digits b acc [] = acc"
| "from_digits b acc (d # ds) = from_digits b (acc * b + d) ds"

lemma length_digits [simp]: "length (digits b k n) = k"
  by (induction k arbitrary: n) auto

lemma digits_less: "0 < b \<Longrightarrow> d \<in> set (digits b k n) \<Longrightarrow> d < b"
  by (induction k arbitrary: n) auto

lemma from_digits_append: "from_digits b acc (xs @ ys) = from_digits b (from_digits b acc xs) ys"
  by (induction xs arbitrary: acc) auto

lemma from_digits_digits:
  assumes "n < b ^ k"
  shows "from_digits b 0 (digits b k n) = n"
  using assms
proof (induction k arbitrary: n)
  case (Suc k)
  then have "n div b < b ^ k" by (metis less_mult_imp_div_less power_Suc2)
  then show ?case using Suc.IH by (simp add: from_digits_append)
qed simp

lemma digits_append: "digits b (j + k) n = digits b j (n div b ^ k) @ digits b k n"
proof (induction k arbitrary: n)
  case (Suc k)
  have "n div b div b ^ k = n div b ^ Suc k" by (simp add: div_mult2_eq mult.commute)
  then show ?case using Suc [of "n div b"] by simp
qed simp

lemma digits_mod: "digits b k (n mod b ^ k) = digits b k n"
proof (induction k arbitrary: n)
  case (Suc k)
  have "n mod b ^ Suc k div b = (n div b) mod b ^ k"
    by (cases "b = 0") (simp_all add: mod_mult2_eq)
  moreover have "n mod b ^ Suc k mod b = n mod b" by (simp add: mod_mod_cancel)
  ultimately show ?case using Suc [of "n div b"] by simp
qed simp

lemma list_cmp_append:
  "length xs = length ys \<Longrightarrow>
     list_cmp c (xs @ xs') (ys @ ys') = then_cmp (list_cmp c xs ys) (list_cmp c xs' ys')"
proof (induction xs ys rule: list_induct2)
  case (Cons x xs y ys)
  then show ?case by (cases "c x y") auto
qed simp

lemma lin_cmp_div_mod:
  assumes "0 < b"
  shows "lin_cmp n m = then_cmp (lin_cmp (n div b) (m div b)) (lin_cmp (n mod b) (m mod b :: nat))"
proof -
  have nm: "n = n div b * b + n mod b" "m = m div b * b + m mod b" by simp_all
  have mods: "n mod b < b" "m mod b < b" using assms by simp_all
  consider "n div b < m div b" | "m div b < n div b" | "n div b = m div b" by linarith
  then show ?thesis
  proof cases
    case 1
    then have "n < m" by (rule contrapos_pp) (simp add: not_less div_le_mono)
    with 1 show ?thesis by (simp add: lin_cmp_def)
  next
    case 2
    then have "m < n" by (rule contrapos_pp) (simp add: not_less div_le_mono)
    with 2 show ?thesis by (simp add: lin_cmp_def)
  next
    case 3
    then have "n < m \<longleftrightarrow> n mod b < m mod b" "n = m \<longleftrightarrow> n mod b = m mod b"
      using nm by (metis add_less_cancel_left, metis)
    with 3 show ?thesis by (simp add: lin_cmp_def)
  qed
qed

lemma digits_order:
  assumes "0 < b" "n < b ^ k" "m < b ^ k"
  shows "list_cmp lin_cmp (digits b k n) (digits b k m) = lin_cmp n m"
  using assms(2,3)
proof (induction k arbitrary: n m)
  case 0
  then show ?case by (simp add: lin_cmp_def)
next
  case (Suc k)
  then have "n div b < b ^ k" "m div b < b ^ k" by (metis less_mult_imp_div_less power_Suc2)+
  with Suc.IH have "list_cmp lin_cmp (digits b k (n div b)) (digits b k (m div b)) =
      lin_cmp (n div b) (m div b)" by simp
  then show ?case
    using lin_cmp_div_mod [OF assms(1), of n m] by (simp add: list_cmp_append)
qed

text \<open>A digit function that preserves the order preserves the order of the numbers.\<close>

lemma list_cmp_map:
  assumes "\<And>x y. x \<in> A \<Longrightarrow> y \<in> A \<Longrightarrow> lin_cmp (f x) (f y) = lin_cmp x y"
    and "set xs \<subseteq> A" "set ys \<subseteq> A"
  shows "list_cmp lin_cmp (map f xs) (map f ys) = list_cmp lin_cmp xs ys"
  using assms(2,3)
  by (induction "lin_cmp :: 'a \<Rightarrow> 'a \<Rightarrow> ordering" xs ys rule: list_cmp.induct) (auto simp: assms(1))

section \<open>Hexadecimal digits\<close>

definition hex_digit_lower :: "nat \<Rightarrow> rchar" where
  "hex_digit_lower d = (if d < 10 then 48 + d else 87 + d)"

lemma hex_value_digits:
  "d < 16 \<Longrightarrow> hex_value (hex_digit d) = Some d"
  "d < 16 \<Longrightarrow> hex_value (hex_digit_lower d) = Some d"
  by (auto simp: hex_value_def hex_digit_def hex_digit_lower_def)

lemma hex_digits_value_append:
  "hex_digits_value acc (xs @ ys) =
     (case hex_digits_value acc xs of None \<Rightarrow> None | Some v \<Rightarrow> hex_digits_value v ys)"
  by (induction acc xs rule: hex_digits_value.induct) (auto split: option.splits)

lemma hex_digits_value_map:
  assumes "\<And>d. d < 16 \<Longrightarrow> hex_value (f d) = Some d" "\<forall>d\<in>set ds. d < 16"
  shows "hex_digits_value acc (map f ds) = Some (from_digits 16 acc ds)"
  using assms(2) by (induction ds arbitrary: acc) (simp_all add: assms(1) mult.commute)

end
