(* ===== verification/Tuid_Id.thy ===== *)
theory Tuid_Id
  imports Digits
begin

text \<open>
  Time-based unique identifiers (\<open>crates/utils/re_tuid/src/lib.rs\<close>), the type of row and chunk
  ids: a 64-bit time in nanoseconds and a 64-bit counter, both stored as big-endian bytes.
\<close>

datatype Tuid = Tuid (nanos_since_epoch: u64) (inc: u64)

type_synonym RowId = Tuid
type_synonym ChunkId = Tuid

definition from_nanos_and_inc :: "u64 \<Rightarrow> u64 \<Rightarrow> Tuid" where
  "from_nanos_and_inc time_nanos i = Tuid time_nanos i"

definition tuid_ZERO :: Tuid where
  "tuid_ZERO = Tuid 0 0"

definition tuid_MAX :: Tuid where
  "tuid_MAX = Tuid (- 1) (- 1)"

text \<open>The derived order compares the time first, then the counter.\<close>

instantiation Tuid :: linorder
begin

definition less_eq_Tuid :: "Tuid \<Rightarrow> Tuid \<Rightarrow> bool" where
  "less_eq_Tuid a b \<longleftrightarrow> nanos_since_epoch a < nanos_since_epoch b
     \<or> nanos_since_epoch a = nanos_since_epoch b \<and> inc a \<le> inc b"

definition less_Tuid :: "Tuid \<Rightarrow> Tuid \<Rightarrow> bool" where
  "less_Tuid a b \<longleftrightarrow> nanos_since_epoch a < nanos_since_epoch b
     \<or> nanos_since_epoch a = nanos_since_epoch b \<and> inc a < inc b"

instance
proof
  fix x y z :: Tuid
  show "x < y \<longleftrightarrow> x \<le> y \<and> \<not> y \<le> x"
    by (auto simp: less_eq_Tuid_def less_Tuid_def)
  show "x \<le> x" by (simp add: less_eq_Tuid_def)
  show "x \<le> y \<Longrightarrow> y \<le> z \<Longrightarrow> x \<le> z"
    by (auto simp: less_eq_Tuid_def)
  show "x \<le> y \<Longrightarrow> y \<le> x \<Longrightarrow> x = y"
    by (cases x; cases y) (auto simp: less_eq_Tuid_def)
  show "x \<le> y \<or> y \<le> x" by (auto simp: less_eq_Tuid_def)
qed

end

lemma tuid_ZERO_least: "tuid_ZERO \<le> t"
  by (auto simp: less_eq_Tuid_def tuid_ZERO_def word_gt_0)

definition as_u128 :: "Tuid \<Rightarrow> 128 word" where
  "as_u128 t = push_bit 64 (ucast (nanos_since_epoch t)) OR ucast (inc t)"

definition from_u128 :: "128 word \<Rightarrow> Tuid" where
  "from_u128 i = from_nanos_and_inc (ucast (drop_bit 64 i)) (ucast (i AND drop_bit 64 (- 1)))"

text \<open>\<open>to_be_bytes\<close> and \<open>from_be_bytes\<close>\<close>

definition as_bytes :: "Tuid \<Rightarrow> u8 list" where
  "as_bytes t = map of_nat (digits 256 16 (unat (as_u128 t)))"

definition from_bytes :: "u8 list \<Rightarrow> Tuid" where
  "from_bytes bytes = from_u128 (of_nat (from_digits 256 0 (map unat bytes)))"

definition tuid_next :: "Tuid \<Rightarrow> Tuid" where
  "tuid_next t = Tuid (nanos_since_epoch t) (inc t + 1)"

definition incremented_by :: "u64 \<Rightarrow> Tuid \<Rightarrow> Tuid" where
  "incremented_by n t = Tuid (nanos_since_epoch t) (inc t + n)"

text \<open>
  \<open>{:016X}{:016x}\<close>: both halves have at most 16 hexadecimal digits, so the padding makes
  exactly 16 of them.
\<close>

definition tuid_display :: "Tuid \<Rightarrow> rstr" where
  "tuid_display t = map hex_digit (digits 16 16 (unat (nanos_since_epoch t)))
     @ map hex_digit_lower (digits 16 16 (unat (inc t)))"

definition short_string :: "Tuid \<Rightarrow> rstr" where
  "short_string t = drop (length (tuid_display t) - 8) (tuid_display t)"

text \<open>\<open>u128::from_str_radix(s, 16)\<close>\<close>

definition tuid_from_str :: "rstr \<Rightarrow> Tuid option" where
  "tuid_from_str s =
     (case strip_plus s of
        [] \<Rightarrow> None
      | c # cs \<Rightarrow> (case hex_digits_value 0 (c # cs) of
            None \<Rightarrow> None
          | Some n \<Rightarrow> if n < 2 ^ 128 then Some (from_u128 (of_nat n)) else None))"

text \<open>
  \<open>Tuid::new\<close> reads the clock and steps the thread's latest id. The increment is unchecked in
  release builds and a panic (\<open>None\<close>) when it overflows in debug builds.
\<close>

definition tuid_new :: "u64 \<Rightarrow> Tuid \<Rightarrow> (Tuid \<times> Tuid) option" where
  "tuid_new now latest =
     (if inc latest = - 1 then None
      else let new = from_nanos_and_inc now (inc latest + 1) in Some (new, new))"

section \<open>The number behind the bytes\<close>

definition tuid_nat :: "Tuid \<Rightarrow> nat" where
  "tuid_nat t = unat (nanos_since_epoch t) * 2 ^ 64 + unat (inc t)"

lemma unat_u64_less: "unat (w :: u64) < 2 ^ 64"
  using unsigned_less [of w, where ?'a = nat] by simp

lemma tuid_nat_less: "tuid_nat t < 2 ^ 128"
  using unat_u64_less [of "nanos_since_epoch t"] unat_u64_less [of "inc t"]
  by (simp add: tuid_nat_def)

lemma as_u128_nat: "as_u128 t = of_nat (tuid_nat t)"
proof -
  have disjoint: "push_bit 64 (ucast (nanos_since_epoch t) :: 128 word) AND ucast (inc t) = 0"
    by (rule bit_word_eqI) (auto simp: bit_simps dest: bit_imp_le_length)
  have "as_u128 t = push_bit 64 (ucast (nanos_since_epoch t)) + ucast (inc t)"
    unfolding as_u128_def using disjunctive_add_eq_or [OF disjoint] by simp
  also have "\<dots> = of_nat (tuid_nat t)"
    by (simp add: tuid_nat_def push_bit_eq_mult)
  finally show ?thesis .
qed

lemma unat_as_u128 [simp]: "unat (as_u128 t) = tuid_nat t"
  using tuid_nat_less [of t] by (simp add: as_u128_nat unat_of_nat take_bit_nat_eq_self)

lemma tuid_nat_div_mod: "tuid_nat t div 2 ^ 64 = unat (nanos_since_epoch t)"
  "tuid_nat t mod 2 ^ 64 = unat (inc t)"
  using unat_u64_less [of "inc t"] by (simp_all add: tuid_nat_def)

lemma lin_cmp_tuid_nat: "lin_cmp (tuid_nat a) (tuid_nat b) = lin_cmp a b"
proof -
  have "lin_cmp (tuid_nat a) (tuid_nat b) =
      then_cmp (lin_cmp (unat (nanos_since_epoch a)) (unat (nanos_since_epoch b)))
        (lin_cmp (unat (inc a)) (unat (inc b)))"
    using lin_cmp_div_mod [of "2 ^ 64" "tuid_nat a" "tuid_nat b"]
    by (simp only: tuid_nat_div_mod) simp
  also have "\<dots> = lin_cmp a b"
    by (cases a; cases b)
      (auto simp: lin_cmp_def less_Tuid_def word_less_nat_alt simp flip: word_unat_eq_iff)
  finally show ?thesis .
qed

lemma from_u128_nat:
  assumes "n < 2 ^ 128"
  shows "from_u128 (of_nat n) = Tuid (of_nat (n div 2 ^ 64)) (of_nat n)"
proof -
  have n: "unat (of_nat n :: 128 word) = n"
    using assms by (simp add: unat_of_nat take_bit_nat_eq_self)
  have "unat (drop_bit 64 (of_nat n :: 128 word)) = n div 2 ^ 64"
    by (simp add: drop_bit_eq_div unat_div_distrib n)
  then have "ucast (drop_bit 64 (of_nat n :: 128 word)) = (of_nat (n div 2 ^ 64) :: u64)"
    by (metis of_nat_unat)
  moreover have "ucast ((of_nat n :: 128 word) AND drop_bit 64 (- 1)) = (of_nat n :: u64)"
    by (rule bit_word_eqI) (simp add: bit_simps)
  ultimately show ?thesis by (simp add: from_u128_def from_nanos_and_inc_def)
qed

lemma from_u128_tuid_nat [simp]: "from_u128 (of_nat (tuid_nat t)) = t"
proof -
  have "of_nat (tuid_nat t) = (of_nat (tuid_nat t mod 2 ^ 64) :: u64)"
    by (simp add: word_of_nat_eq_iff take_bit_eq_mod)
  then show ?thesis
    using from_u128_nat [OF tuid_nat_less, of t] by (simp only: tuid_nat_div_mod) (cases t; simp)
qed

section \<open>Properties\<close>

lemma lin_cmp_of_nat_u8:
  assumes "x < 256" "y < 256"
  shows "lin_cmp (of_nat x :: u8) (of_nat y) = lin_cmp x y"
proof -
  have "unat (of_nat x :: u8) = x" "unat (of_nat y :: u8) = y"
    using assms by (simp_all add: unat_of_nat take_bit_nat_eq_self)
  then show ?thesis by (metis lin_cmp_def word_less_nat_alt)
qed

lemma lin_cmp_hex:
  "x < 16 \<Longrightarrow> y < 16 \<Longrightarrow> lin_cmp (hex_digit x) (hex_digit y) = lin_cmp x y"
  "x < 16 \<Longrightarrow> y < 16 \<Longrightarrow> lin_cmp (hex_digit_lower x) (hex_digit_lower y) = lin_cmp x y"
  by (auto simp: lin_cmp_def hex_digit_def hex_digit_lower_def)

lemma lin_cmp_Tuid:
  "lin_cmp a b = then_cmp (lin_cmp (nanos_since_epoch a) (nanos_since_epoch b)) (lin_cmp (inc a) (inc b))"
  by (cases a; cases b) (auto simp: lin_cmp_def less_Tuid_def)

lemma lin_cmp_unat: "lin_cmp (unat (x :: u64)) (unat y) = lin_cmp x y"
  by (auto simp: lin_cmp_def word_less_nat_alt simp flip: word_unat_eq_iff)

lemma hex_half_order:
  assumes "\<And>x y. x < 16 \<Longrightarrow> y < 16 \<Longrightarrow> lin_cmp (f x :: nat) (f y) = lin_cmp x y"
  shows "list_cmp lin_cmp (map f (digits 16 16 (unat (v :: u64)))) (map f (digits 16 16 (unat w))) = lin_cmp v w"
proof -
  have "list_cmp lin_cmp (map f (digits 16 16 (unat v))) (map f (digits 16 16 (unat w))) =
      list_cmp lin_cmp (digits 16 16 (unat v)) (digits 16 16 (unat w))"
    by (rule list_cmp_map [where A = "{..<16}"]) (auto simp: assms dest: digits_less [rotated])
  also have "\<dots> = lin_cmp (unat v) (unat w)"
    using unat_u64_less [of v] unat_u64_less [of w] by (intro digits_order) simp_all
  finally show ?thesis by (simp add: lin_cmp_unat)
qed

text \<open>C29: ids sort the same in all their forms. The derived order of two ids, the order of the
  128-bit numbers, the lexicographic order of the raw bytes and the order of the printed strings
  agree.\<close>

theorem tuid_order_preserved:
  "lin_cmp (as_u128 a) (as_u128 b) = lin_cmp a b
   \<and> list_cmp lin_cmp (as_bytes a) (as_bytes b) = lin_cmp a b
   \<and> str_cmp (tuid_display a) (tuid_display b) = lin_cmp a b"
proof (intro conjI)
  show "lin_cmp (as_u128 a) (as_u128 b) = lin_cmp a b"
    unfolding lin_cmp_tuid_nat [symmetric]
    by (auto simp: lin_cmp_def word_less_nat_alt word_unat_eq_iff simp del: word_unat_eq_iff [symmetric])
  have "list_cmp lin_cmp (as_bytes a) (as_bytes b) =
      list_cmp lin_cmp (digits 256 16 (tuid_nat a)) (digits 256 16 (tuid_nat b))"
    unfolding as_bytes_def unat_as_u128
    by (rule list_cmp_map [where A = "{..<256}"])
      (auto simp: lin_cmp_of_nat_u8 dest: digits_less [rotated])
  also have "\<dots> = lin_cmp (tuid_nat a) (tuid_nat b)"
    using tuid_nat_less [of a] tuid_nat_less [of b] by (intro digits_order) simp_all
  finally show "list_cmp lin_cmp (as_bytes a) (as_bytes b) = lin_cmp a b"
    by (simp add: lin_cmp_tuid_nat)
  show "str_cmp (tuid_display a) (tuid_display b) = lin_cmp a b"
    by (simp add: str_cmp_def tuid_display_def list_cmp_append hex_half_order lin_cmp_hex
        lin_cmp_Tuid [of a b])
qed

text \<open>C30: parsing inverts printing, and the byte form round-trips.\<close>

theorem tuid_roundtrips:
  "tuid_from_str (tuid_display t) = Some t \<and> from_bytes (as_bytes t) = t \<and> from_u128 (as_u128 t) = t"
proof (intro conjI)
  let ?hi = "digits 16 16 (unat (nanos_since_epoch t))"
  let ?lo = "digits 16 16 (unat (inc t))"
  have small: "\<forall>d\<in>set ?hi. d < 16" "\<forall>d\<in>set ?lo. d < 16" by (auto dest: digits_less [rotated])
  have "hex_digits_value 0 (tuid_display t) = Some (from_digits 16 0 (?hi @ ?lo))"
    by (simp add: tuid_display_def hex_digits_value_append hex_digits_value_map hex_value_digits small
        from_digits_append)
  moreover have "from_digits 16 0 (?hi @ ?lo) = tuid_nat t"
  proof -
    have "?hi @ ?lo = digits 16 32 (tuid_nat t)"
      using digits_append [of 16 16 16 "tuid_nat t"] digits_mod [of 16 16 "tuid_nat t"] tuid_nat_div_mod [of t]
      by simp
    then show ?thesis using tuid_nat_less [of t] by (simp add: from_digits_digits)
  qed
  moreover have "strip_plus (tuid_display t) = tuid_display t" "tuid_display t \<noteq> []"
  proof -
    have "?hi \<noteq> []" by (metis length_digits length_greater_0_conv zero_less_numeral)
    then obtain d ds where "?hi = d # ds" by (cases ?hi) auto
    with small(1) show "strip_plus (tuid_display t) = tuid_display t" "tuid_display t \<noteq> []"
      by (simp_all add: tuid_display_def strip_plus_def hex_digit_simps)
  qed
  ultimately show "tuid_from_str (tuid_display t) = Some t"
    using tuid_nat_less [of t] by (auto simp: tuid_from_str_def split: list.splits)
  have "map unat (as_bytes t) = digits 256 16 (tuid_nat t)"
    unfolding as_bytes_def map_map unat_as_u128
    by (rule map_idI) (auto simp: unat_of_nat take_bit_nat_eq_self dest: digits_less [rotated])
  then show "from_bytes (as_bytes t) = t"
    using tuid_nat_less [of t] by (simp add: from_bytes_def from_digits_digits)
  show "from_u128 (as_u128 t) = t" by (simp add: as_u128_nat)
qed

text \<open>C31: stepping. \<open>incremented_by n\<close> is \<open>n\<close> times \<open>next\<close>, and a chain of ids a thread
  creates is strictly increasing as long as its clock does not go back.\<close>

theorem tuid_stepping:
  "(tuid_next ^^ n) t = incremented_by (of_nat n) t
   \<and> (tuid_new now latest = Some (new, latest') \<longrightarrow> nanos_since_epoch latest \<le> now \<longrightarrow>
        latest < new \<and> latest' = new)"
proof (intro conjI impI)
  show "(tuid_next ^^ n) t = incremented_by (of_nat n) t"
    by (induction n) (simp_all add: tuid_next_def incremented_by_def algebra_simps)
  assume new: "tuid_new now latest = Some (new, latest')" and clock: "nanos_since_epoch latest \<le> now"
  then have "inc latest \<noteq> - 1" by (auto simp: tuid_new_def)
  then have "1 + inc latest \<noteq> 0" by (metis add.commute eq_neg_iff_add_eq_0)
  then have "inc latest < inc latest + 1"
    by (simp add: word_less_nat_alt unatSuc add.commute)
  with new clock show "latest < new" "latest' = new"
    by (auto simp: tuid_new_def Let_def from_nanos_and_inc_def less_Tuid_def split: if_splits)
qed

theorem tuid_stepping_witness:
  "Tuid 5 7 < Tuid 5 8 \<and> (tuid_next ^^ 2) (Tuid 1 (- 1)) = Tuid 1 1"
  using tuid_stepping [of 2 "Tuid 1 (- 1)" 5 "Tuid 5 7" "Tuid 5 8" "Tuid 5 8"]
  by (simp add: tuid_new_def from_nanos_and_inc_def incremented_by_def Let_def)

end
