(* ===== verification/Chunk_Data.thy ===== *)
theory Chunk_Data
  imports Time_Types Tuid_Id
begin

text \<open>
  Chunks (\<open>crates/store/re_chunk/src/chunk.rs\<close>): the columns, their construction and their
  sanity checks. An Arrow list array is represented by the list of its cells, \<open>None\<close> for a
  null, together with whether it carries a validity bitmap; a cell's contents are opaque. A hash
  map is the list of its entries in the order the code would iterate them. A fresh \<open>ChunkId\<close> is
  an argument, and the cached heap size is left out.
\<close>

section \<open>Columns\<close>

datatype TimeType = Sequence | DurationNs | TimestampNs

type_synonym TimelineName = rstr
type_synonym ComponentIdentifier = rstr

record Timeline =
  tl_name :: TimelineName
  tl_typ :: TimeType

record 'a ListArray =
  la_cells :: "'a option list"
  la_nulls :: bool
  la_datatype :: nat

record ComponentDescriptor =
  cd_archetype :: "rstr option"
  cd_component :: ComponentIdentifier
  cd_component_type :: "rstr option"

record 'a ComponentColumn =
  cc_list_array :: "'a ListArray"
  cc_descriptor :: ComponentDescriptor

record TimeColumn =
  tc_timeline :: Timeline
  tc_times :: "i64 list"
  tc_is_sorted :: bool
  tc_time_range :: AbsoluteTimeRange

type_synonym 'a ChunkComponents = "(ComponentIdentifier \<times> 'a ComponentColumn) list"
type_synonym TimeColumns = "(TimelineName \<times> TimeColumn) list"

record 'a Chunk =
  ch_id :: ChunkId
  ch_entity_path :: "rstr list"
  ch_is_sorted :: bool
  ch_row_ids :: "RowId list"
  ch_timelines :: TimeColumns
  ch_components :: "'a ChunkComponents"

text \<open>The entry of a hash map is replaced where it stands or added.\<close>

fun im_insert :: "'k \<Rightarrow> 'v \<Rightarrow> ('k \<times> 'v) list \<Rightarrow> ('k \<times> 'v) list" where
  "im_insert k v [] = [(k, v)]"
| "im_insert k v ((k', v') # m) = (if k = k' then (k, v) # m else (k', v') # im_insert k v m)"

definition im_collect :: "('k \<times> 'v) list \<Rightarrow> ('k \<times> 'v) list" where
  "im_collect kvs = fold (\<lambda>(k, v). im_insert k v) kvs []"

definition la_len :: "'a ListArray \<Rightarrow> nat" where
  "la_len la = length (la_cells la)"

definition la_is_valid :: "'a ListArray \<Rightarrow> nat \<Rightarrow> bool" where
  "la_is_valid la i \<longleftrightarrow> i < la_len la \<and> la_cells la ! i \<noteq> None"

definition la_validity :: "'a ListArray \<Rightarrow> bool list" where
  "la_validity la = map (\<lambda>c. c \<noteq> None) (la_cells la)"

text \<open>Without a bitmap every cell is valid.\<close>

definition la_ok :: "'a ListArray \<Rightarrow> bool" where
  "la_ok la \<longleftrightarrow> (la_nulls la \<or> None \<notin> set (la_cells la))"

section \<open>Components\<close>

definition cc_insert :: "'a ComponentColumn \<Rightarrow> 'a ChunkComponents \<Rightarrow> 'a ChunkComponents" where
  "cc_insert column cs = im_insert (cd_component (cc_descriptor column)) column cs"

definition cc_collect :: "'a ComponentColumn list \<Rightarrow> 'a ChunkComponents" where
  "cc_collect columns = fold cc_insert columns []"

definition cc_get :: "'a ChunkComponents \<Rightarrow> ComponentIdentifier \<Rightarrow> 'a ComponentColumn option" where
  "cc_get cs component = map_of cs component"

definition cc_get_array :: "'a ChunkComponents \<Rightarrow> ComponentIdentifier \<Rightarrow> 'a ListArray option" where
  "cc_get_array cs component = map_option cc_list_array (map_of cs component)"

definition cc_contains :: "'a ChunkComponents \<Rightarrow> ComponentIdentifier \<Rightarrow> bool" where
  "cc_contains cs component \<longleftrightarrow> component \<in> fst ` set cs"

section \<open>Time columns\<close>

fun windows_sorted :: "('a \<Rightarrow> 'a \<Rightarrow> bool) \<Rightarrow> 'a list \<Rightarrow> bool" where
  "windows_sorted le (x # y # xs) = (le x y \<and> windows_sorted le (y # xs))"
| "windows_sorted le _ = True"

definition i64_le :: "i64 \<Rightarrow> i64 \<Rightarrow> bool" where
  "i64_le a b \<longleftrightarrow> sint a \<le> sint b"

definition times_sorted :: "i64 list \<Rightarrow> bool" where
  "times_sorted ts = windows_sorted i64_le ts"

text \<open>\<open>min()\<close> and \<open>max()\<close> of an iterator\<close>

definition i64_iter_min :: "i64 list \<Rightarrow> i64 option" where
  "i64_iter_min xs = (case xs of [] \<Rightarrow> None
     | x # xs \<Rightarrow> Some (fold (\<lambda>y m. if sint y < sint m then y else m) xs x))"

definition i64_iter_max :: "i64 list \<Rightarrow> i64 option" where
  "i64_iter_max xs = (case xs of [] \<Rightarrow> None
     | x # xs \<Rightarrow> Some (fold (\<lambda>y m. if sint m \<le> sint y then y else m) xs x))"

definition tc_new :: "bool option \<Rightarrow> Timeline \<Rightarrow> i64 list \<Rightarrow> TimeColumn" where
  "tc_new is_sorted timeline ts =
     (let is_sorted = (case is_sorted of Some b \<Rightarrow> b | None \<Rightarrow> times_sorted ts);
          or_else = (\<lambda>d x. case x of Some t \<Rightarrow> new_temporal t | None \<Rightarrow> d);
          (min_time, max_time) =
            (if is_sorted
             then (or_else time_MIN (case ts of [] \<Rightarrow> None | t # _ \<Rightarrow> Some t),
                   or_else time_MAX (if ts = [] then None else Some (last ts)))
             else (or_else time_MIN (i64_iter_min ts), or_else time_MAX (i64_iter_max ts)))
      in \<lparr>tc_timeline = timeline, tc_times = ts, tc_is_sorted = is_sorted,
          tc_time_range = range_new (Some min_time) (Some max_time)\<rparr>)"

definition tc_new_sequence :: "TimelineName \<Rightarrow> i64 list \<Rightarrow> TimeColumn" where
  "tc_new_sequence name ts =
     tc_new None \<lparr>tl_name = name, tl_typ = Sequence\<rparr>
       (map (\<lambda>t. as_i64 (case time_try_from_i64 t of None \<Rightarrow> time_MIN | Some x \<Rightarrow> x)) ts)"

definition tc_new_duration_nanos :: "TimelineName \<Rightarrow> i64 list \<Rightarrow> TimeColumn" where
  "tc_new_duration_nanos name nanos =
     tc_new None \<lparr>tl_name = name, tl_typ = DurationNs\<rparr>
       (map (\<lambda>n. nm_get (case nm_new n of None \<Rightarrow> nm_MIN | Some x \<Rightarrow> x)) nanos)"

definition tc_new_timestamp_nanos :: "TimelineName \<Rightarrow> i64 list \<Rightarrow> TimeColumn" where
  "tc_new_timestamp_nanos name nanos =
     tc_new None \<lparr>tl_name = name, tl_typ = TimestampNs\<rparr>
       (map (\<lambda>n. nm_get (case nm_new n of None \<Rightarrow> nm_MIN | Some x \<Rightarrow> x)) nanos)"

definition find_next_time :: "TimeInt \<Rightarrow> TimeColumn \<Rightarrow> TimeInt option" where
  "find_next_time after tc =
     (if tc_is_sorted tc then
        let idx = partition_point (\<lambda>t. sint t \<le> sint (as_i64 after)) (tc_times tc)
        in if idx < length (tc_times tc) then Some (new_temporal (tc_times tc ! idx)) else None
      else map_option new_temporal
             (i64_iter_min (filter (\<lambda>t. sint t > sint (as_i64 after)) (tc_times tc))))"

definition find_prev_time :: "TimeInt \<Rightarrow> TimeColumn \<Rightarrow> TimeInt option" where
  "find_prev_time before tc =
     (if tc_is_sorted tc then
        let idx = partition_point (\<lambda>t. sint t < sint (as_i64 before)) (tc_times tc)
        in if 0 < idx then Some (new_temporal (tc_times tc ! (idx - 1))) else None
      else map_option new_temporal
             (i64_iter_max (filter (\<lambda>t. sint t < sint (as_i64 before)) (tc_times tc))))"

definition offset_by_nanos :: "i64 \<Rightarrow> TimeColumn \<Rightarrow> TimeColumn" where
  "offset_by_nanos offset_ns tc =
     tc_new (Some (tc_is_sorted tc)) (tc_timeline tc)
       (map (\<lambda>t. nm_get (nm_saturating_from_i64 (saturating_add_i64 t offset_ns))) (tc_times tc))"

definition tc_time_range_per_component ::
  "TimeColumn \<Rightarrow> 'a ChunkComponents \<Rightarrow> (ComponentIdentifier \<times> AbsoluteTimeRange) list" where
  "tc_time_range_per_component tc components =
     (let ts = tc_times tc in
      List.map_filter (\<lambda>(component, column).
        let la = cc_list_array column in
        if la_nulls la then
          if la_validity la = [] then None
          else if False \<notin> set (la_validity la) then Some (component, tc_time_range tc)
          else
            let valid_times = map snd (filter (\<lambda>(i, t). la_is_valid la i) (enumerate 0 ts));
                time_min = (if times_sorted ts then (case valid_times of [] \<Rightarrow> None | t # _ \<Rightarrow> Some t)
                            else i64_iter_min valid_times);
                time_max = (if times_sorted ts then (if valid_times = [] then None else Some (last valid_times))
                            else i64_iter_max valid_times)
            in Some (component, range_new
                 (Some (case time_min of None \<Rightarrow> time_MAX | Some t \<Rightarrow> new_temporal t))
                 (Some (case time_max of None \<Rightarrow> time_MIN | Some t \<Rightarrow> new_temporal t)))
        else Some (component, tc_time_range tc))
      components)"

section \<open>Sanity checks\<close>

datatype ChunkError =
    MarkedSorted
  | TimesMarkedSorted
  | TimeRangeNotTight
  | TimeOutOfRange i64
  | StaticTime
  | TimelineLength TimelineName nat
  | DescriptorMismatch ComponentIdentifier
  | ComponentLength ComponentIdentifier nat
  | EmptyColumn ComponentIdentifier
  | NotConcatenable

definition row_ids_sorted :: "RowId list \<Rightarrow> bool" where
  "row_ids_sorted ids = windows_sorted (\<le>) ids"

fun check_times :: "AbsoluteTimeRange \<Rightarrow> i64 list \<Rightarrow> ChunkError + unit" where
  "check_times r [] = Inr ()"
| "check_times r (t # ts) =
     (if sint t < sint (as_i64 (range_min r)) \<or> sint t > sint (as_i64 (range_max r))
      then Inl (TimeOutOfRange t)
      else if t = as_i64 time_STATIC then Inl StaticTime
      else check_times r ts)"

text \<open>\<open>debug\<close> is \<open>cfg!(debug_assertions)\<close>.\<close>

definition tc_sanity_check :: "bool \<Rightarrow> TimeColumn \<Rightarrow> ChunkError + unit" where
  "tc_sanity_check debug tc =
     (let ts = tc_times tc; r = tc_time_range tc in
      if debug \<and> tc_is_sorted tc \<noteq> times_sorted ts then Inl TimesMarkedSorted
      else if debug then
        if ts \<noteq> [] \<and> \<not> (as_i64 (range_min r) \<in> set ts \<and> as_i64 (range_max r) \<in> set ts)
        then Inl TimeRangeNotTight
        else check_times r ts
      else Inr ())"

fun check_timelines :: "bool \<Rightarrow> nat \<Rightarrow> TimeColumns \<Rightarrow> ChunkError + unit" where
  "check_timelines debug n [] = Inr ()"
| "check_timelines debug n ((name, tc) # tcs) =
     (if length (tc_times tc) \<noteq> n then Inl (TimelineLength name (length (tc_times tc)))
      else bind_res (tc_sanity_check debug tc) (\<lambda>_. check_timelines debug n tcs))"

fun check_components :: "nat \<Rightarrow> 'a ChunkComponents \<Rightarrow> ChunkError + unit" where
  "check_components n [] = Inr ()"
| "check_components n ((component, column) # cs) =
     (let la = cc_list_array column in
      if cd_component (cc_descriptor column) \<noteq> component then Inl (DescriptorMismatch component)
      else if la_len la \<noteq> n then Inl (ComponentLength component (la_len la))
      else if n \<noteq> 0 \<and> la_nulls la \<and> la_validity la = [] then Inl (EmptyColumn component)
      else check_components n cs)"

text \<open>The checks of the Arrow datatypes hold by the types of the model.\<close>

definition sanity_check :: "bool \<Rightarrow> 'a Chunk \<Rightarrow> ChunkError + unit" where
  "sanity_check debug c =
     (if debug \<and> ch_is_sorted c \<noteq> row_ids_sorted (ch_row_ids c) then Inl MarkedSorted
      else bind_res (check_timelines debug (length (ch_row_ids c)) (ch_timelines c)) (\<lambda>_.
             check_components (length (ch_row_ids c)) (ch_components c)))"

section \<open>Construction and accessors\<close>

definition is_sorted_uncached :: "'a Chunk \<Rightarrow> bool" where
  "is_sorted_uncached c = row_ids_sorted (ch_row_ids c)"

definition chunk_new ::
  "bool \<Rightarrow> ChunkId \<Rightarrow> rstr list \<Rightarrow> bool option \<Rightarrow> RowId list \<Rightarrow> TimeColumns \<Rightarrow>
     'a ChunkComponents \<Rightarrow> ChunkError + 'a Chunk" where
  "chunk_new debug i entity_path is_sorted row_ids timelines components =
     (let chunk = \<lparr>ch_id = i, ch_entity_path = entity_path, ch_is_sorted = False,
                   ch_row_ids = row_ids, ch_timelines = timelines, ch_components = components\<rparr>;
          chunk = chunk\<lparr>ch_is_sorted :=
                    (case is_sorted of Some b \<Rightarrow> b | None \<Rightarrow> is_sorted_uncached chunk)\<rparr>
      in bind_res (sanity_check debug chunk) (\<lambda>_. Inr chunk))"

definition chunk_empty :: "ChunkId \<Rightarrow> rstr list \<Rightarrow> 'a Chunk" where
  "chunk_empty i entity_path =
     \<lparr>ch_id = i, ch_entity_path = entity_path, ch_is_sorted = True, ch_row_ids = [],
      ch_timelines = [], ch_components = []\<rparr>"

definition add_component ::
  "bool \<Rightarrow> ChunkId \<Rightarrow> 'a ComponentColumn \<Rightarrow> 'a Chunk \<Rightarrow> 'a Chunk \<times> (ChunkError + unit)" where
  "add_component debug new_id column c =
     (let c = c\<lparr>ch_id := new_id, ch_components := cc_insert column (ch_components c)\<rparr>
      in (c, sanity_check debug c))"

definition add_timeline ::
  "bool \<Rightarrow> ChunkId \<Rightarrow> TimeColumn \<Rightarrow> 'a Chunk \<Rightarrow> 'a Chunk \<times> (ChunkError + unit)" where
  "add_timeline debug new_id tc c =
     (let c = c\<lparr>ch_id := new_id,
                ch_timelines := im_insert (tl_name (tc_timeline tc)) tc (ch_timelines c)\<rparr>
      in (c, sanity_check debug c))"

definition chunk_is_static :: "'a Chunk \<Rightarrow> bool" where
  "chunk_is_static c \<longleftrightarrow> ch_timelines c = []"

definition num_rows :: "'a Chunk \<Rightarrow> nat" where
  "num_rows c = length (ch_row_ids c)"

definition chunk_is_empty :: "'a Chunk \<Rightarrow> bool" where
  "chunk_is_empty c \<longleftrightarrow> num_rows c = 0"

definition num_columns :: "'a Chunk \<Rightarrow> nat" where
  "num_columns c = 1 + length (ch_timelines c) + length (ch_components c)"

definition component_row_ids :: "ComponentIdentifier \<Rightarrow> 'a Chunk \<Rightarrow> RowId list" where
  "component_row_ids component c =
     (case cc_get_array (ch_components c) component of
        None \<Rightarrow> []
      | Some la \<Rightarrow>
          if la_nulls la
          then map snd (filter (\<lambda>(i, r). la_is_valid la i) (enumerate 0 (ch_row_ids c)))
          else ch_row_ids c)"

definition row_id_range :: "'a Chunk \<Rightarrow> (RowId \<times> RowId) option" where
  "row_id_range c =
     (if chunk_is_empty c then None
      else Some (if ch_is_sorted c then (hd (ch_row_ids c), last (ch_row_ids c))
                 else (Min (set (ch_row_ids c)), Max (set (ch_row_ids c)))))"

text \<open>The loops of \<open>row_id_range_per_component\<close>, without a break.\<close>

definition row_id_range_per_component ::
  "'a Chunk \<Rightarrow> (ComponentIdentifier \<times> RowId \<times> RowId) list" where
  "row_id_range_per_component c =
     (let row_ids = enumerate 0 (ch_row_ids c) in
      List.map_filter (\<lambda>(component, column).
        let la = cc_list_array column;
            (row_id_min, row_id_max) =
              (if ch_is_sorted c then
                 (fold (\<lambda>(i, r) m. if la_is_valid la i then Some r else m) row_ids None,
                  fold (\<lambda>(i, r) m. if la_is_valid la i then Some r else m) (rev row_ids) None)
               else
                 (fold (\<lambda>(i, r) m. if la_is_valid la i \<and> the m < r then Some r else m)
                    row_ids (Some tuid_MAX),
                  fold (\<lambda>(i, r) m. if la_is_valid la i \<and> r < the m then Some r else m)
                    (rev row_ids) (Some tuid_ZERO)))
        in case (row_id_min, row_id_max) of
             (Some lo, Some hi) \<Rightarrow> Some (component, lo, hi)
           | _ \<Rightarrow> None)
      (ch_components c))"

definition num_events_for_component :: "ComponentIdentifier \<Rightarrow> 'a Chunk \<Rightarrow> nat option" where
  "num_events_for_component component c =
     map_option (\<lambda>la. if la_nulls la then la_len la - length (filter Not (la_validity la)) else la_len la)
       (cc_get_array (ch_components c) component)"

definition num_events_cumulative :: "'a Chunk \<Rightarrow> nat" where
  "num_events_cumulative c =
     sum_list (map (\<lambda>(_, column).
       let la = cc_list_array column in
       if la_nulls la then la_len la - length (filter Not (la_validity la)) else la_len la)
     (ch_components c))"

end
