(* ===== verification/Chunk_Ops.thy ===== *)
theory Chunk_Ops
  imports Chunk_Data "HOL-Library.Product_Lexorder"
begin

text \<open>
  The operations on chunks: slicing, filtering and taking rows
  (\<open>crates/store/re_chunk/src/slice.rs\<close>), sorting (\<open>shuffle.rs\<close>), splitting (\<open>split.rs\<close>) and
  concatenation (\<open>merge.rs\<close>). Whether an Arrow kernel gives a result without nulls a validity
  bitmap is up to the Arrow library: the argument \<open>kb\<close> answers it from the source's bitmap and
  the validity of the result.
\<close>

type_synonym keeps_bitmap = "bool \<Rightarrow> bool list \<Rightarrow> bool"

definition la_kernel :: "keeps_bitmap \<Rightarrow> 'a option list \<Rightarrow> 'a ListArray \<Rightarrow> 'a ListArray" where
  "la_kernel kb cells la =
     la\<lparr>la_cells := cells,
        la_nulls := None \<in> set cells \<or> kb (la_nulls la) (map (\<lambda>c. c \<noteq> None) cells)\<rparr>"

text \<open>The kernels \<open>filter\<close> and \<open>take\<close> on a list.\<close>

definition mask_filter :: "bool list \<Rightarrow> 'a list \<Rightarrow> 'a list" where
  "mask_filter keep xs = map snd (filter fst (zip keep xs))"

definition take_indices :: "nat list \<Rightarrow> 'a list \<Rightarrow> 'a list" where
  "take_indices indices xs = map (\<lambda>i. xs ! i) indices"

definition sub_slice :: "nat \<Rightarrow> nat \<Rightarrow> 'a list \<Rightarrow> 'a list" where
  "sub_slice index len xs = take len (drop index xs)"

definition on_columns ::
  "('a ListArray \<Rightarrow> 'a ListArray) \<Rightarrow> 'a ChunkComponents \<Rightarrow> 'a ChunkComponents" where
  "on_columns f cs = cc_collect (map (\<lambda>(_, column). column\<lparr>cc_list_array := f (cc_list_array column)\<rparr>) cs)"

definition on_timelines :: "(TimeColumn \<Rightarrow> TimeColumn) \<Rightarrow> TimeColumns \<Rightarrow> TimeColumns" where
  "on_timelines f tcs = im_collect (map (\<lambda>(name, tc). (name, f tc)) tcs)"

section \<open>Time columns\<close>

definition tc_emptied :: "TimeColumn \<Rightarrow> TimeColumn" where
  "tc_emptied tc = tc_new (Some True) (tc_timeline tc) []"

definition tc_row_sliced :: "nat \<Rightarrow> nat \<Rightarrow> TimeColumn \<Rightarrow> TimeColumn" where
  "tc_row_sliced index len tc =
     (if length (tc_times tc) \<le> index then tc_emptied tc
      else let end_offset = min (index + len) (length (tc_times tc));
               len = end_offset - index
           in if len = 0 then tc_emptied tc
              else let is_sorted = tc_is_sorted tc \<or> len < 2
                   in tc_new (if is_sorted then Some is_sorted else None) (tc_timeline tc)
                        (sub_slice index len (tc_times tc)))"

definition tc_filtered :: "bool list \<Rightarrow> TimeColumn \<Rightarrow> TimeColumn" where
  "tc_filtered keep tc =
     (let is_sorted = tc_is_sorted tc \<or> length (filter id keep) < 2
      in tc_new (if is_sorted then Some is_sorted else None) (tc_timeline tc)
           (mask_filter keep (tc_times tc)))"

definition tc_taken :: "nat list \<Rightarrow> TimeColumn \<Rightarrow> TimeColumn" where
  "tc_taken indices tc =
     tc_new (Some (tc_is_sorted tc)) (tc_timeline tc) (take_indices indices (tc_times tc))"

definition tc_concatenated :: "TimeColumn \<Rightarrow> TimeColumn \<Rightarrow> TimeColumn option" where
  "tc_concatenated l r =
     (if tc_timeline l \<noteq> tc_timeline r then None
      else Some \<lparr>tc_timeline = tc_timeline l, tc_times = tc_times l @ tc_times r,
                 tc_is_sorted = (tc_is_sorted l \<and> tc_is_sorted r
                    \<and> range_max (tc_time_range l) \<le> range_min (tc_time_range r)),
                 tc_time_range = range_union (tc_time_range l) (tc_time_range r)\<rparr>)"

section \<open>Slices\<close>

definition emptied :: "keeps_bitmap \<Rightarrow> ChunkId \<Rightarrow> 'a Chunk \<Rightarrow> 'a Chunk" where
  "emptied kb new_id c =
     \<lparr>ch_id = new_id, ch_entity_path = ch_entity_path c, ch_is_sorted = True, ch_row_ids = [],
      ch_timelines = on_timelines tc_emptied (ch_timelines c),
      ch_components = on_columns (la_kernel kb []) (ch_components c)\<rparr>"

definition row_sliced :: "keeps_bitmap \<Rightarrow> ChunkId \<Rightarrow> nat \<Rightarrow> nat \<Rightarrow> 'a Chunk \<Rightarrow> 'a Chunk" where
  "row_sliced kb new_id index len c =
     (if num_rows c \<le> index then emptied kb new_id c
      else let end_offset = min (index + len) (num_rows c);
               len = end_offset - index
           in if len = 0 then emptied kb new_id c
              else let is_sorted = ch_is_sorted c \<or> len < 2;
                       chunk = \<lparr>ch_id = new_id, ch_entity_path = ch_entity_path c,
                         ch_is_sorted = is_sorted,
                         ch_row_ids = sub_slice index len (ch_row_ids c),
                         ch_timelines = on_timelines (tc_row_sliced index len) (ch_timelines c),
                         ch_components =
                           on_columns (\<lambda>la. la_kernel kb (sub_slice index len (la_cells la)) la)
                             (ch_components c)\<rparr>
                   in chunk\<lparr>ch_is_sorted := is_sorted \<or> is_sorted_uncached chunk\<rparr>)"

record 'a UnitChunk =
  uc_chunk :: "'a Chunk"
  uc_original_chunk_id :: ChunkId

definition into_unit :: "'a Chunk \<Rightarrow> 'a UnitChunk option" where
  "into_unit c =
     (if num_rows c = 1 then Some \<lparr>uc_chunk = c, uc_original_chunk_id = ch_id c\<rparr> else None)"

definition into_unit_with_original_chunk_id :: "ChunkId \<Rightarrow> 'a Chunk \<Rightarrow> 'a UnitChunk option" where
  "into_unit_with_original_chunk_id original c =
     (if num_rows c = 1 then Some \<lparr>uc_chunk = c, uc_original_chunk_id = original\<rparr> else None)"

text \<open>\<open>None\<close> is the panic of its \<open>unwrap\<close>.\<close>

definition row_sliced_unit :: "keeps_bitmap \<Rightarrow> ChunkId \<Rightarrow> nat \<Rightarrow> 'a Chunk \<Rightarrow> 'a UnitChunk option" where
  "row_sliced_unit kb new_id index c =
     into_unit_with_original_chunk_id (ch_id c) (row_sliced kb new_id index 1 c)"

definition unit_index :: "TimelineName \<Rightarrow> 'a UnitChunk \<Rightarrow> (TimeInt \<times> RowId) option" where
  "unit_index timeline u =
     (let c = uc_chunk u;
          row_id = (case ch_row_ids c of [] \<Rightarrow> None | r # _ \<Rightarrow> Some r)
      in if chunk_is_static c then map_option (\<lambda>r. (time_STATIC, r)) row_id
         else case map_of (ch_timelines c) timeline of
                None \<Rightarrow> None
              | Some tc \<Rightarrow> (case tc_times tc of
                    [] \<Rightarrow> None
                  | t # _ \<Rightarrow> map_option (\<lambda>r. (new_temporal t, r)) row_id))"

definition timeline_sliced :: "ChunkId \<Rightarrow> TimelineName \<Rightarrow> 'a Chunk \<Rightarrow> 'a Chunk" where
  "timeline_sliced new_id timeline c =
     c\<lparr>ch_id := new_id,
       ch_timelines := (case map_of (ch_timelines c) timeline of
          None \<Rightarrow> [] | Some tc \<Rightarrow> [(timeline, tc)])\<rparr>"

definition timelines_sliced :: "ChunkId \<Rightarrow> TimelineName set \<Rightarrow> 'a Chunk \<Rightarrow> 'a Chunk" where
  "timelines_sliced new_id timelines_to_keep c =
     c\<lparr>ch_id := new_id,
       ch_timelines := im_collect (filter (\<lambda>(name, _). name \<in> timelines_to_keep) (ch_timelines c))\<rparr>"

definition components_sliced :: "ChunkId \<Rightarrow> ComponentIdentifier list \<Rightarrow> 'a Chunk \<Rightarrow> 'a Chunk" where
  "components_sliced new_id components_to_keep c =
     c\<lparr>ch_id := new_id,
       ch_components := cc_collect (List.map_filter (cc_get (ch_components c)) components_to_keep)\<rparr>"

definition component_sliced :: "ChunkId \<Rightarrow> ComponentIdentifier \<Rightarrow> 'a Chunk \<Rightarrow> 'a Chunk" where
  "component_sliced new_id component c = components_sliced new_id [component] c"

definition components_dropped :: "ChunkId \<Rightarrow> ComponentIdentifier list \<Rightarrow> 'a Chunk \<Rightarrow> 'a Chunk" where
  "components_dropped new_id components_to_drop c =
     (if list_ex (\<lambda>(component, _). component \<in> set components_to_drop) (ch_components c) then
        c\<lparr>ch_id := new_id,
          ch_components := cc_collect (map snd
            (filter (\<lambda>(component, _). component \<notin> set components_to_drop) (ch_components c)))\<rparr>
      else c)"

definition components_removed :: "ChunkId \<Rightarrow> 'a Chunk \<Rightarrow> 'a Chunk" where
  "components_removed new_id c = c\<lparr>ch_id := new_id, ch_components := []\<rparr>"

section \<open>Filters\<close>

definition masked :: "keeps_bitmap \<Rightarrow> ChunkId \<Rightarrow> bool list \<Rightarrow> 'a Chunk \<Rightarrow> 'a Chunk" where
  "masked kb new_id keep c =
     (let is_sorted = ch_is_sorted c \<or> length (filter id keep) < 2;
          chunk = \<lparr>ch_id = new_id, ch_entity_path = ch_entity_path c, ch_is_sorted = is_sorted,
            ch_row_ids = mask_filter keep (ch_row_ids c),
            ch_timelines = on_timelines (tc_filtered keep) (ch_timelines c),
            ch_components = on_columns (\<lambda>la. la_kernel kb (mask_filter keep (la_cells la)) la)
              (ch_components c)\<rparr>
      in chunk\<lparr>ch_is_sorted := is_sorted \<or> is_sorted_uncached chunk\<rparr>)"

text \<open>\<open>densified\<close> also removes the bitmap of the component it filters by.\<close>

definition densified ::
  "keeps_bitmap \<Rightarrow> ChunkId \<Rightarrow> ComponentIdentifier \<Rightarrow> 'a Chunk \<Rightarrow> 'a Chunk \<times> bool" where
  "densified kb new_id component_pov c =
     (if chunk_is_empty c then (c, False)
      else case cc_get_array (ch_components c) component_pov of
             None \<Rightarrow> (c, False)
           | Some la \<Rightarrow>
               if \<not> la_nulls la then (c, False)
               else let chunk = masked kb new_id (la_validity la) c
                    in (chunk\<lparr>ch_components := map (\<lambda>(component, column).
                          (component,
                           if cd_component (cc_descriptor column) = component_pov
                           then column\<lparr>cc_list_array := (cc_list_array column)\<lparr>la_nulls := False\<rparr>\<rparr>
                           else column)) (ch_components chunk)\<rparr>, True))"

definition filtered :: "keeps_bitmap \<Rightarrow> ChunkId \<Rightarrow> bool list \<Rightarrow> 'a Chunk \<Rightarrow> 'a Chunk option" where
  "filtered kb new_id keep c =
     (if length keep \<noteq> num_rows c then None
      else if chunk_is_empty c then Some c
      else if length (filter id keep) = 0 then Some (emptied kb new_id c)
      else Some (masked kb new_id keep c))"

text \<open>\<open>dedup_with_count\<close>, as the index of the last element of each run\<close>

fun last_of_runs :: "nat \<Rightarrow> i64 list \<Rightarrow> nat list" where
  "last_of_runs i [] = []"
| "last_of_runs i [t] = [i]"
| "last_of_runs i (t # t' # ts) =
     (if t = t' then last_of_runs (i + 1) (t' # ts) else i # last_of_runs (i + 1) (t' # ts))"

definition deduped_latest_on_index ::
  "keeps_bitmap \<Rightarrow> ChunkId \<Rightarrow> TimelineName \<Rightarrow> 'a Chunk \<Rightarrow> 'a Chunk" where
  "deduped_latest_on_index kb new_id index c =
     (if chunk_is_empty c then c
      else if chunk_is_static c then row_sliced kb new_id (num_rows c - 1) 1 c
      else case map_of (ch_timelines c) index of
             None \<Rightarrow> c
           | Some tc \<Rightarrow>
               let indices = last_of_runs 0 (tc_times tc) in
               \<lparr>ch_id = new_id, ch_entity_path = ch_entity_path c, ch_is_sorted = ch_is_sorted c,
                ch_row_ids = take_indices indices (ch_row_ids c),
                ch_timelines = on_timelines (tc_taken indices) (ch_timelines c),
                ch_components = on_columns (\<lambda>la. la_kernel kb (take_indices indices (la_cells la)) la)
                  (ch_components c)\<rparr>)"

definition taken :: "keeps_bitmap \<Rightarrow> ChunkId \<Rightarrow> nat list \<Rightarrow> 'a Chunk \<Rightarrow> 'a Chunk" where
  "taken kb new_id indices c =
     (if chunk_is_empty c then c
      else if indices = [] then emptied kb new_id c
      else
        let is_sorted = ch_is_sorted c \<or> length indices < 2;
            chunk = \<lparr>ch_id = new_id, ch_entity_path = ch_entity_path c, ch_is_sorted = is_sorted,
              ch_row_ids = take_indices indices (ch_row_ids c),
              ch_timelines = on_timelines (tc_taken indices) (ch_timelines c),
              ch_components = on_columns (\<lambda>la. la_kernel kb (take_indices indices (la_cells la)) la)
                (ch_components c)\<rparr>
        in chunk\<lparr>ch_is_sorted := is_sorted \<or> is_sorted_uncached chunk\<rparr>)"

section \<open>Sorting\<close>

definition tc_is_sorted_uncached :: "TimeColumn \<Rightarrow> bool" where
  "tc_is_sorted_uncached tc = times_sorted (tc_times tc)"

definition is_time_sorted :: "'a Chunk \<Rightarrow> bool" where
  "is_time_sorted c = list_all (\<lambda>(_, tc). tc_is_sorted tc) (ch_timelines c)"

definition is_timeline_sorted :: "TimelineName \<Rightarrow> 'a Chunk \<Rightarrow> bool" where
  "is_timeline_sorted timeline c \<longleftrightarrow> chunk_is_static c
     \<or> (case map_of (ch_timelines c) timeline of None \<Rightarrow> False | Some tc \<Rightarrow> tc_is_sorted tc)"

text \<open>The loop \<open>for (to, from) in swaps.enumerate()\<close>, which overwrites a copy.\<close>

definition apply_swaps :: "nat list \<Rightarrow> 'a list \<Rightarrow> 'a list" where
  "apply_swaps swaps xs = fold (\<lambda>(to, from') ys. ys[to := xs ! from']) (enumerate 0 swaps) xs"

definition tc_shuffle_with :: "nat list \<Rightarrow> TimeColumn \<Rightarrow> TimeColumn" where
  "tc_shuffle_with swaps tc =
     (let sorted = apply_swaps swaps (tc_times tc)
      in tc\<lparr>tc_is_sorted := times_sorted sorted, tc_times := sorted\<rparr>)"

definition la_shuffle_with :: "nat list \<Rightarrow> 'a ListArray \<Rightarrow> 'a ListArray" where
  "la_shuffle_with swaps la = la\<lparr>la_cells := map (\<lambda>from'. la_cells la ! from') swaps\<rparr>"

definition shuffle_with :: "ChunkId \<Rightarrow> nat list \<Rightarrow> 'a Chunk \<Rightarrow> 'a Chunk" where
  "shuffle_with new_id swaps c =
     (let chunk = c\<lparr>ch_id := new_id,
            ch_row_ids := apply_swaps swaps (ch_row_ids c),
            ch_timelines := map (\<lambda>(name, tc). (name, tc_shuffle_with swaps tc)) (ch_timelines c),
            ch_components := map (\<lambda>(component, column). (component,
                column\<lparr>cc_list_array := la_shuffle_with swaps (cc_list_array column)\<rparr>))
              (ch_components c)\<rparr>
      in chunk\<lparr>ch_is_sorted := is_sorted_uncached chunk\<rparr>)"

text \<open>\<open>sort_by_key\<close> is stable, as \<open>sort_key\<close> is.\<close>

definition sort_if_unsorted :: "ChunkId \<Rightarrow> 'a Chunk \<Rightarrow> 'a Chunk" where
  "sort_if_unsorted new_id c =
     (if ch_is_sorted c then c
      else shuffle_with new_id (sort_key (\<lambda>i. ch_row_ids c ! i) [0..<length (ch_row_ids c)]) c)"

definition sorted_by_timeline_if_unsorted :: "ChunkId \<Rightarrow> TimelineName \<Rightarrow> 'a Chunk \<Rightarrow> 'a Chunk" where
  "sorted_by_timeline_if_unsorted new_id timeline c =
     (case map_of (ch_timelines c) timeline of
        None \<Rightarrow> c
      | Some tc \<Rightarrow>
          if tc_is_sorted tc then c
          else shuffle_with new_id
                 (sort_key (\<lambda>i. (sint (tc_times tc ! i), ch_row_ids c ! i)) [0..<length (tc_times tc)]) c)"

section \<open>Splitting\<close>

record ChunkSplitConfig =
  chunk_max_bytes :: nat
  chunk_max_rows :: nat
  chunk_max_rows_if_unsorted :: nat

text \<open>The loop over \<open>start_idx\<close>; the \<open>k\<close>-th piece gets the fresh id \<open>new_ids k\<close>.\<close>

function split_loop :: "keeps_bitmap \<Rightarrow> (nat \<Rightarrow> ChunkId) \<Rightarrow> nat \<Rightarrow> nat \<Rightarrow> nat \<Rightarrow> 'a Chunk \<Rightarrow> 'a Chunk list" where
  "split_loop kb new_ids k target_rows start_idx c =
     (if 0 < target_rows \<and> start_idx < num_rows c then
        let remaining_rows = num_rows c - start_idx;
            chunk_size = min remaining_rows target_rows
        in row_sliced kb (new_ids k) start_idx chunk_size c
             # split_loop kb new_ids (k + 1) target_rows (start_idx + chunk_size) c
      else [])"
  by pat_completeness auto
termination
  by (relation "measure (\<lambda>(kb, new_ids, k, target_rows, start_idx, c). num_rows c - start_idx)") auto

declare split_loop.simps [simp del]

text \<open>\<open>size_bytes\<close> is the measured size of the chunk.\<close>

definition split_chunk_if_needed ::
  "keeps_bitmap \<Rightarrow> (nat \<Rightarrow> ChunkId) \<Rightarrow> ChunkSplitConfig \<Rightarrow> nat \<Rightarrow> 'a Chunk \<Rightarrow> 'a Chunk list" where
  "split_chunk_if_needed kb new_ids cfg size_bytes c =
     (let n = num_rows c in
      if n \<le> 1 then [c]
      else
        let needs_split_bytes = 0 < chunk_max_bytes cfg \<and> chunk_max_bytes cfg < size_bytes;
            needs_split_rows = 0 < chunk_max_rows cfg \<and> chunk_max_rows cfg < n;
            needs_split_unsorted = 0 < chunk_max_rows_if_unsorted cfg
              \<and> chunk_max_rows_if_unsorted cfg < n \<and> \<not> is_time_sorted c
        in if \<not> needs_split_bytes \<and> \<not> needs_split_rows \<and> \<not> needs_split_unsorted then [c]
           else
             let target_rows =
                   (if needs_split_unsorted then chunk_max_rows_if_unsorted cfg
                    else if needs_split_rows then chunk_max_rows cfg
                    else chunk_max_bytes cfg div (max (size_bytes div (max n 1)) 1))
             in split_loop kb new_ids 0 (max target_rows 1) 0 c)"

section \<open>Concatenation\<close>

definition pad_list_array_back :: "nat \<Rightarrow> 'a ListArray \<Rightarrow> 'a ListArray" where
  "pad_list_array_back target_len la =
     (let missing_len = target_len - la_len la in
      if missing_len = 0 then la
      else la\<lparr>la_cells := la_cells la @ replicate missing_len None, la_nulls := True\<rparr>)"

definition pad_list_array_front :: "nat \<Rightarrow> 'a ListArray \<Rightarrow> 'a ListArray" where
  "pad_list_array_front target_len la =
     (let missing_len = target_len - la_len la in
      if missing_len = 0 then la
      else la\<lparr>la_cells := replicate missing_len None @ la_cells la, la_nulls := True\<rparr>)"

text \<open>\<open>concat_arrays\<close> fails for different datatypes.\<close>

definition concat_arrays :: "keeps_bitmap \<Rightarrow> 'a ListArray \<Rightarrow> 'a ListArray \<Rightarrow> 'a ListArray option" where
  "concat_arrays kb l r =
     (if la_datatype l \<noteq> la_datatype r then None
      else Some (la_kernel kb (la_cells l @ la_cells r) (l\<lparr>la_nulls := la_nulls l \<or> la_nulls r\<rparr>)))"

definition overlaps_on_row_id :: "'a Chunk \<Rightarrow> 'a Chunk \<Rightarrow> bool" where
  "overlaps_on_row_id cl cr =
     (case (row_id_range cl, row_id_range cr) of
        (Some (cl0, cl1), Some (cr0, cr1)) \<Rightarrow> cl0 \<le> cr1 \<and> cr0 \<le> cl1
      | _ \<Rightarrow> False)"

definition overlaps_on_time :: "'a Chunk \<Rightarrow> 'a Chunk \<Rightarrow> bool" where
  "overlaps_on_time cl cr =
     list_ex (\<lambda>(timeline, tl). case map_of (ch_timelines cr) timeline of
        Some tr \<Rightarrow> range_intersects (tc_time_range tl) (tc_time_range tr) | None \<Rightarrow> False)
     (ch_timelines cl)"

definition same_entity_paths :: "'a Chunk \<Rightarrow> 'a Chunk \<Rightarrow> bool" where
  "same_entity_paths l r \<longleftrightarrow> ch_entity_path l = ch_entity_path r"

text \<open>The keys are compared in iteration order.\<close>

definition same_timelines :: "'a Chunk \<Rightarrow> 'a Chunk \<Rightarrow> bool" where
  "same_timelines l r \<longleftrightarrow> length (ch_timelines l) = length (ch_timelines r)
     \<and> map fst (ch_timelines l) = map fst (ch_timelines r)"

definition same_datatypes :: "'a Chunk \<Rightarrow> 'a Chunk \<Rightarrow> bool" where
  "same_datatypes l r =
     list_all (\<lambda>(_, lhs_column).
       case cc_get (ch_components r) (cd_component (cc_descriptor lhs_column)) of
         Some rhs_column \<Rightarrow>
           la_datatype (cc_list_array lhs_column) = la_datatype (cc_list_array rhs_column)
       | None \<Rightarrow> True)
     (ch_components l)"

definition concatenable :: "'a Chunk \<Rightarrow> 'a Chunk \<Rightarrow> bool" where
  "concatenable l r \<longleftrightarrow> same_entity_paths l r \<and> same_timelines l r \<and> same_datatypes l r"

text \<open>First pass: the right column onto the left one, or padding.\<close>

definition concat_r2l ::
  "keeps_bitmap \<Rightarrow> 'a Chunk \<Rightarrow> 'a Chunk \<Rightarrow> 'a ComponentColumn \<Rightarrow> 'a ComponentColumn option" where
  "concat_r2l kb cl cr lhs_column =
     (case cc_get (ch_components cr) (cd_component (cc_descriptor lhs_column)) of
        Some rhs_column \<Rightarrow>
          map_option (\<lambda>la. lhs_column\<lparr>cc_list_array := la\<rparr>)
            (concat_arrays kb (cc_list_array lhs_column) (cc_list_array rhs_column))
      | None \<Rightarrow>
          Some (lhs_column\<lparr>cc_list_array :=
            pad_list_array_back (num_rows cl + num_rows cr) (cc_list_array lhs_column)\<rparr>))"

text \<open>Second pass: the left column onto the right one where the first pass made none.\<close>

definition concat_l2r ::
  "keeps_bitmap \<Rightarrow> 'a Chunk \<Rightarrow> 'a Chunk \<Rightarrow> 'a ChunkComponents \<Rightarrow> 'a ComponentColumn \<Rightarrow>
     (ComponentIdentifier \<times> 'a ComponentColumn) option" where
  "concat_l2r kb cl cr components rhs_column =
     (let component = cd_component (cc_descriptor rhs_column) in
      if cc_contains components component then None
      else case cc_get (ch_components cl) component of
             Some lhs_column \<Rightarrow>
               map_option (\<lambda>la. (component, rhs_column\<lparr>cc_list_array := la\<rparr>))
                 (concat_arrays kb (cc_list_array lhs_column) (cc_list_array rhs_column))
           | None \<Rightarrow>
               Some (component, rhs_column\<lparr>cc_list_array :=
                 pad_list_array_front (num_rows cl + num_rows cr) (cc_list_array rhs_column)\<rparr>))"

definition concatenated ::
  "bool \<Rightarrow> keeps_bitmap \<Rightarrow> ChunkId \<Rightarrow> 'a Chunk \<Rightarrow> 'a Chunk \<Rightarrow> ChunkError + 'a Chunk" where
  "concatenated debug kb new_id cl cr =
     (if \<not> concatenable cl cr then Inl NotConcatenable
      else case row_id_range cl of
        None \<Rightarrow> Inr cr
      | Some (_, cl1) \<Rightarrow>
        (case row_id_range cr of
           None \<Rightarrow> Inr cl
         | Some (cr0, _) \<Rightarrow>
           let timelines = im_collect (List.map_filter (\<lambda>((lhs_timeline, lhs_time_chunk), (_, rhs_time_chunk)).
                   map_option (\<lambda>tc. (lhs_timeline, tc)) (tc_concatenated lhs_time_chunk rhs_time_chunk))
                 (zip (ch_timelines cl) (ch_timelines cr)));
               first = cc_collect (List.map_filter (\<lambda>(_, column). concat_r2l kb cl cr column)
                 (ch_components cl));
               rhs = List.map_filter (\<lambda>(_, column). concat_l2r kb cl cr first column) (ch_components cr);
               chunk = \<lparr>ch_id = new_id, ch_entity_path = ch_entity_path cl,
                 ch_is_sorted = (ch_is_sorted cl \<and> ch_is_sorted cr \<and> cl1 \<le> cr0),
                 ch_row_ids = ch_row_ids cl @ ch_row_ids cr,
                 ch_timelines = timelines,
                 ch_components = fold (\<lambda>(component, column). im_insert component column) rhs first\<rparr>
           in bind_res (sanity_check debug chunk) (\<lambda>_. Inr chunk)))"

text \<open>
  \<open>concat_and_sort\<close> swaps the names of the two minima, which cancels out: the chunk with the
  smaller minimum comes first. An empty chunk has no minimum, which sorts below every other.
\<close>

definition concat_and_sort ::
  "bool \<Rightarrow> keeps_bitmap \<Rightarrow> ChunkId \<Rightarrow> 'a Chunk \<Rightarrow> 'a Chunk \<Rightarrow> ChunkError + 'a Chunk" where
  "concat_and_sort debug kb new_id left right =
     (let left_rowid_min = map_option fst (row_id_range right);
          right_rowid_min = map_option fst (row_id_range left)
      in bind_res (if right_rowid_min < left_rowid_min then concatenated debug kb new_id left right
                   else concatenated debug kb new_id right left)
           (\<lambda>compacted. Inr (sort_if_unsorted new_id compacted)))"

end
