(* ===== verification/Chunk_Query.thy ===== *)
theory Chunk_Query
  imports Chunk_Ops
begin

text \<open>
  The two queries on one chunk: latest-at (\<open>crates/store/re_chunk/src/latest_at.rs\<close>), the most
  recent row of a component at a time, and range (\<open>range.rs\<close>), the rows of a component in a time
  interval.
\<close>

section \<open>Latest-at\<close>

record LatestAtQuery =
  la_timeline :: TimelineName
  la_at :: TimeInt

text \<open>The argument is the result of the caller's \<open>try_into\<close>.\<close>

definition latest_at_query_new :: "TimelineName \<Rightarrow> TimeInt option \<Rightarrow> LatestAtQuery" where
  "latest_at_query_new timeline at = \<lparr>la_timeline = timeline, la_at = saturated_temporal at\<rparr>"

definition latest_at_query_latest :: "TimelineName \<Rightarrow> LatestAtQuery" where
  "latest_at_query_latest timeline = \<lparr>la_timeline = timeline, la_at = time_MAX\<rparr>"

text \<open>The loops over reversed indices, up to the first valid cell.\<close>

definition last_valid_below :: "'a ListArray \<Rightarrow> nat \<Rightarrow> nat option" where
  "last_valid_below la n = find (la_is_valid la) (rev [0..<n])"

definition closest_static_step ::
  "'a ListArray \<Rightarrow> nat \<times> RowId \<Rightarrow> RowId \<times> nat option \<Rightarrow> RowId \<times> nat option" where
  "closest_static_step la = (\<lambda>(i, row_id) (closest_row_id, index).
     if \<not> la_is_valid la i then (closest_row_id, index)
     else if closest_row_id < row_id then (row_id, Some i) else (closest_row_id, index))"

definition closest_step ::
  "TimeInt \<Rightarrow> i64 list \<Rightarrow> 'a ListArray \<Rightarrow> nat \<times> RowId \<Rightarrow> TimeInt \<times> RowId \<times> nat option \<Rightarrow>
     TimeInt \<times> RowId \<times> nat option" where
  "closest_step at ts la = (\<lambda>(i, row_id) (closest_data_time, closest_row_id, index).
     if \<not> la_is_valid la i then (closest_data_time, closest_row_id, index)
     else
       let data_time = new_temporal (ts ! i);
           is_closer_time = closest_data_time < data_time \<and> data_time \<le> at;
           is_same_time_but_closer_row_id = data_time = closest_data_time \<and> closest_row_id < row_id
       in if is_closer_time \<or> is_same_time_but_closer_row_id then (data_time, row_id, Some i)
          else (closest_data_time, closest_row_id, index))"

definition latest_at_index :: "LatestAtQuery \<Rightarrow> ComponentIdentifier \<Rightarrow> 'a Chunk \<Rightarrow> nat option" where
  "latest_at_index query component c =
     (if chunk_is_empty c then None
      else case cc_get_array (ch_components c) component of
        None \<Rightarrow> None
      | Some la \<Rightarrow>
          if chunk_is_static c then
            if ch_is_sorted c then last_valid_below la (num_rows c)
            else snd (fold (closest_static_step la) (enumerate 0 (ch_row_ids c)) (tuid_ZERO, None))
          else
            case map_of (ch_timelines c) (la_timeline query) of
              None \<Rightarrow> None
            | Some tc \<Rightarrow>
                if tc_is_sorted tc then
                  let i = partition_point (\<lambda>t. sint t \<le> sint (as_i64 (la_at query))) (tc_times tc) - 1
                  in last_valid_below la (i + 1)
                else
                  snd (snd (fold (closest_step (la_at query) (tc_times tc) la)
                    (enumerate 0 (ch_row_ids c)) (time_MIN, tuid_ZERO, None))))"

text \<open>The outer option is the panic of \<open>row_sliced_unit_shallow\<close>.\<close>

definition chunk_latest_at ::
  "keeps_bitmap \<Rightarrow> ChunkId \<Rightarrow> LatestAtQuery \<Rightarrow> ComponentIdentifier \<Rightarrow> 'a Chunk \<Rightarrow>
     'a UnitChunk option option" where
  "chunk_latest_at kb new_id query component c =
     (case latest_at_index query component c of
        None \<Rightarrow> Some None
      | Some i \<Rightarrow> map_option Some (row_sliced_unit kb new_id i c))"

section \<open>Range\<close>

record RangeQueryOptions =
  keep_extra_timelines :: bool
  keep_extra_components :: bool
  include_extended_bounds :: bool

record RangeQuery =
  rq_timeline :: TimelineName
  rq_range :: AbsoluteTimeRange
  rq_options :: RangeQueryOptions

definition range_options_DEFAULT :: RangeQueryOptions where
  "range_options_DEFAULT = \<lparr>keep_extra_timelines = False, keep_extra_components = False,
     include_extended_bounds = False\<rparr>"

definition range_query_new :: "TimelineName \<Rightarrow> AbsoluteTimeRange \<Rightarrow> RangeQuery" where
  "range_query_new timeline r =
     \<lparr>rq_timeline = timeline, rq_range = r, rq_options = range_options_DEFAULT\<rparr>"

definition range_query_everything :: "TimelineName \<Rightarrow> RangeQuery" where
  "range_query_everything timeline = range_query_new timeline range_EVERYTHING"

definition range_query_with_extras :: "TimelineName \<Rightarrow> AbsoluteTimeRange \<Rightarrow> RangeQuery" where
  "range_query_with_extras timeline r =
     \<lparr>rq_timeline = timeline, rq_range = r,
      rq_options = \<lparr>keep_extra_timelines = True, keep_extra_components = True,
                    include_extended_bounds = False\<rparr>\<rparr>"

definition rq_keep_extra_timelines :: "bool \<Rightarrow> RangeQuery \<Rightarrow> RangeQuery" where
  "rq_keep_extra_timelines toggle q = q\<lparr>rq_options := rq_options q\<lparr>keep_extra_timelines := toggle\<rparr>\<rparr>"

definition rq_keep_extra_components :: "bool \<Rightarrow> RangeQuery \<Rightarrow> RangeQuery" where
  "rq_keep_extra_components toggle q = q\<lparr>rq_options := rq_options q\<lparr>keep_extra_components := toggle\<rparr>\<rparr>"

definition rq_include_extended_bounds :: "bool \<Rightarrow> RangeQuery \<Rightarrow> RangeQuery" where
  "rq_include_extended_bounds toggle q = q\<lparr>rq_options := rq_options q\<lparr>include_extended_bounds := toggle\<rparr>\<rparr>"

definition chunk_range ::
  "keeps_bitmap \<Rightarrow> ChunkId \<Rightarrow> RangeQuery \<Rightarrow> ComponentIdentifier \<Rightarrow> 'a Chunk \<Rightarrow> 'a Chunk option" where
  "chunk_range kb new_id query component self =
     (if chunk_is_empty self then Some self
      else
        let options = rq_options query;
            chunk = (if keep_extra_timelines options then self
                     else timeline_sliced new_id (rq_timeline query) self);
            chunk = (if keep_extra_components options then chunk
                     else component_sliced new_id component chunk)
        in if chunk_is_static chunk then
             (case chunk_latest_at kb new_id
                     (latest_at_query_new (rq_timeline query) (Some time_MAX)) component chunk of
                None \<Rightarrow> None
              | Some (Some u) \<Rightarrow> Some (uc_chunk u)
              | Some None \<Rightarrow> Some (emptied kb new_id chunk))
           else case map_of (ch_timelines chunk) (rq_timeline query) of
             None \<Rightarrow> Some (emptied kb new_id chunk)
           | Some tc \<Rightarrow>
               let is_sorted_by_time = tc_is_sorted tc;
                   (dense, _) = densified kb new_id component chunk;
                   chunk = (if is_sorted_by_time then dense
                            else sorted_by_timeline_if_unsorted new_id (rq_timeline query) dense)
               in case map_of (ch_timelines chunk) (rq_timeline query) of
                    None \<Rightarrow> Some (emptied kb new_id chunk)
                  | Some tc \<Rightarrow>
                      let ts = tc_times tc;
                          start_index = partition_point
                            (\<lambda>t. sint t < sint (as_i64 (range_min (rq_range query)))) ts;
                          end_index = partition_point
                            (\<lambda>t. sint t \<le> sint (as_i64 (range_max (rq_range query)))) ts;
                          (start_index, end_index) =
                            (if include_extended_bounds options
                             then (start_index - 1, min (num_rows self) (end_index + 1))
                             else (start_index, end_index))
                      in Some (row_sliced kb new_id start_index (end_index - start_index) chunk))"

end
