(* ===== verification/Store_Index.thy ===== *)
theory Store_Index
  imports Time_Types Tuid_Id Chunk_Query
begin

text \<open>
  The time index of the chunk store (\<open>ChunkIdSetPerTime\<close> of \<open>re_chunk_store/src/store.rs\<close>): for
  every start time and every end time the set of the chunks with that time, and the length of the
  longest interval ever added. The relevance queries of \<open>query.rs\<close> walk it backwards by that
  length to find every chunk that may overlap. Both are shown complete for intervals no longer
  than \<open>i64::MAX\<close>; the limits of the approach are shown by counterexamples.
\<close>

section \<open>Ordered sets of chunk ids\<close>

type_synonym ChunkIdSet = "ChunkId list"

definition bs_insert :: "'a :: linorder \<Rightarrow> 'a list \<Rightarrow> 'a list" where
  "bs_insert x s = insort_insert x s"

definition bs_remove :: "'a :: linorder \<Rightarrow> 'a list \<Rightarrow> 'a list" where
  "bs_remove x s = filter (\<lambda>y. y \<noteq> x) s"

lemma set_bs_insert [simp]: "set (bs_insert x s) = insert x (set s)"
  by (simp add: bs_insert_def set_insort_insert)

lemma set_bs_remove [simp]: "set (bs_remove x s) = set s - {x}"
  by (auto simp: bs_remove_def)

lemma bs_ordered_insert [simp]: "sorted s \<and> distinct s \<Longrightarrow> sorted (bs_insert x s) \<and> distinct (bs_insert x s)"
  by (simp add: bs_insert_def sorted_insort_insert distinct_insort_insert)

lemma bs_ordered_remove [simp]: "sorted s \<and> distinct s \<Longrightarrow> sorted (bs_remove x s) \<and> distinct (bs_remove x s)"
  by (simp add: bs_remove_def sorted_wrt_filter)

section \<open>The index\<close>

record ChunkIdSetPerTime =
  max_interval_length :: u64
  per_start_time :: "(TimeInt, ChunkIdSet) omap"
  per_end_time :: "(TimeInt, ChunkIdSet) omap"

definition index_default :: ChunkIdSetPerTime where
  "index_default = \<lparr>max_interval_length = 0, per_start_time = [], per_end_time = []\<rparr>"

text \<open>\<open>entry(t).or_default().insert(cid)\<close>, and \<open>get_mut(&t)\<close> with \<open>remove(&cid)\<close>, which leaves the
  entry in place when the set becomes empty.\<close>

definition per_time_insert :: "TimeInt \<Rightarrow> ChunkId \<Rightarrow> (TimeInt, ChunkIdSet) omap \<Rightarrow> (TimeInt, ChunkIdSet) omap" where
  "per_time_insert t cid m =
     om_insert lin_cmp t (bs_insert cid (case om_get lin_cmp m t of None \<Rightarrow> [] | Some s \<Rightarrow> s)) m"

definition per_time_remove ::
  "TimeInt \<Rightarrow> ChunkId \<Rightarrow> (TimeInt, ChunkIdSet) omap \<Rightarrow> (TimeInt, ChunkIdSet) omap \<times> bool" where
  "per_time_remove t cid m =
     (case om_get lin_cmp m t of
        None \<Rightarrow> (m, False)
      | Some s \<Rightarrow> (om_insert lin_cmp t (bs_remove cid s) m, True))"

definition index_add :: "AbsoluteTimeRange \<Rightarrow> ChunkId \<Rightarrow> ChunkIdSetPerTime \<Rightarrow> ChunkIdSetPerTime" where
  "index_add time_range cid idx =
     \<lparr>max_interval_length = max (max_interval_length idx) (range_abs_length time_range),
      per_start_time = per_time_insert (range_min time_range) cid (per_start_time idx),
      per_end_time = per_time_insert (range_max time_range) cid (per_end_time idx)\<rparr>"

definition index_remove :: "AbsoluteTimeRange \<Rightarrow> ChunkId \<Rightarrow> ChunkIdSetPerTime \<Rightarrow> ChunkIdSetPerTime \<times> bool" where
  "index_remove time_range cid idx =
     (let (starts, removed_start) = per_time_remove (range_min time_range) cid (per_start_time idx);
          (ends, removed_end) = per_time_remove (range_max time_range) cid (per_end_time idx)
      in (idx\<lparr>per_start_time := starts, per_end_time := ends\<rparr>, removed_start \<or> removed_end))"

section \<open>The relevance queries\<close>

text \<open>\<open>range(..=t)\<close> and \<open>range(a..=b)\<close> of an ordered map, in ascending order.\<close>

definition om_upto :: "'k :: linorder \<Rightarrow> ('k, 'v) omap \<Rightarrow> ('k, 'v) omap" where
  "om_upto t m = filter (\<lambda>(k, _). k \<le> t) m"

definition om_between :: "'k :: linorder \<Rightarrow> 'k \<Rightarrow> ('k, 'v) omap \<Rightarrow> ('k, 'v) omap" where
  "om_between a b m = filter (\<lambda>(k, _). a \<le> k \<and> k \<le> b) m"

definition index_latest_at :: "TimeInt \<Rightarrow> ChunkIdSetPerTime \<Rightarrow> ChunkId list option" where
  "index_latest_at at idx =
     (case rev (om_upto at (per_start_time idx)) of
        [] \<Rightarrow> None
      | (upper_bound, _) # _ \<Rightarrow>
          let lower_bound = saturating_sub_i64 (as_i64 upper_bound) (clamp_i64 (uint (max_interval_length idx)))
          in Some (concat (map snd (takeWhile (\<lambda>(t, _). sint lower_bound \<le> sint (as_i64 t))
                (rev (om_upto at (per_start_time idx)))))))"

definition index_range_bounds :: "RangeQuery \<Rightarrow> ChunkIdSetPerTime \<Rightarrow> TimeInt \<times> TimeInt" where
  "index_range_bounds query idx =
     (let query_min = (if include_extended_bounds (rq_options query)
                       then new_temporal (saturating_sub_i64 (as_i64 (range_min (rq_range query))) 1)
                       else range_min (rq_range query));
          query_max = (if include_extended_bounds (rq_options query)
                       then new_temporal (saturating_add_i64 (as_i64 (range_max (rq_range query))) 1)
                       else range_max (rq_range query));
          query_min = new_temporal (saturating_sub_i64 (as_i64 query_min)
                        (clamp_i64 (uint (max_interval_length idx))));
          start_time = (case rev (om_upto query_min (per_start_time idx)) of
                          [] \<Rightarrow> time_MIN | (t, _) # _ \<Rightarrow> t);
          end_time = (case rev (om_upto query_max (per_start_time idx)) of
                          [] \<Rightarrow> start_time | (t, _) # _ \<Rightarrow> t)
      in (start_time, max start_time end_time))"

definition index_range :: "RangeQuery \<Rightarrow> ChunkIdSetPerTime list \<Rightarrow> ChunkId list" where
  "index_range query idxs =
     concat (map (\<lambda>idx. let (start_time, end_time) = index_range_bounds query idx
       in concat (map snd (om_between start_time end_time (per_start_time idx)))) idxs)"

section \<open>What an index holds\<close>

definition ids_at :: "(TimeInt, ChunkIdSet) omap \<Rightarrow> TimeInt \<Rightarrow> ChunkId set" where
  "ids_at m t = (case om_get lin_cmp m t of None \<Rightarrow> {} | Some s \<Rightarrow> set s)"

definition per_time_ok :: "(TimeInt, ChunkIdSet) omap \<Rightarrow> bool" where
  "per_time_ok m \<longleftrightarrow> om_sorted lin_cmp m \<and> (\<forall>(t, s) \<in> set m. sorted s \<and> distinct s)"

text \<open>An index represents a map from chunk ids to the interval each chunk was added with.\<close>

definition index_repr :: "(ChunkId \<rightharpoonup> AbsoluteTimeRange) \<Rightarrow> ChunkIdSetPerTime \<Rightarrow> bool" where
  "index_repr E idx \<longleftrightarrow> per_time_ok (per_start_time idx) \<and> per_time_ok (per_end_time idx)
     \<and> (\<forall>t. ids_at (per_start_time idx) t = {cid. \<exists>r. E cid = Some r \<and> range_min r = t})
     \<and> (\<forall>t. ids_at (per_end_time idx) t = {cid. \<exists>r. E cid = Some r \<and> range_max r = t})
     \<and> (\<forall>r \<in> ran E. range_abs_length r \<le> max_interval_length idx)"

lemma om_get_in: "om_get lin_cmp m (t :: 'k :: linorder) = Some s \<Longrightarrow> (t, s) \<in> set m"
  by (drule lin.om_get_Some_in) simp

lemma per_time_ok_get:
  "per_time_ok m \<Longrightarrow> sorted (case om_get lin_cmp m t of None \<Rightarrow> [] | Some s \<Rightarrow> s)
     \<and> distinct (case om_get lin_cmp m t of None \<Rightarrow> [] | Some s \<Rightarrow> s)"
  by (auto simp: per_time_ok_def split: option.splits dest: om_get_in)

lemma per_time_ok_put:
  assumes "per_time_ok m" "sorted s \<and> distinct s"
  shows "per_time_ok (om_insert lin_cmp t s m)"
proof -
  have "sorted s' \<and> distinct s'" if "(t', s') \<in> set (om_insert lin_cmp t s m)" for t' s'
    using om_insert_keys [OF that] assms by (auto simp: per_time_ok_def)
  then show ?thesis using assms(1) by (auto simp: per_time_ok_def lin.om_sorted_insert)
qed

lemma per_time_ok_insert: "per_time_ok m \<Longrightarrow> per_time_ok (per_time_insert t cid m)"
  by (simp add: per_time_insert_def per_time_ok_put per_time_ok_get)

lemma per_time_ok_remove: "per_time_ok m \<Longrightarrow> per_time_ok (fst (per_time_remove t cid m))"
  using per_time_ok_get [of m t] by (auto simp: per_time_remove_def per_time_ok_put split: option.splits)

lemma ids_at_insert: "ids_at (per_time_insert t cid m) t' = ids_at m t' \<union> (if t' = t then {cid} else {})"
  by (auto simp: per_time_insert_def ids_at_def lin.om_get_insert split: option.splits)

lemma ids_at_remove: "ids_at (fst (per_time_remove t cid m)) t' = ids_at m t' - (if t' = t then {cid} else {})"
  by (auto simp: per_time_remove_def ids_at_def lin.om_get_insert split: option.splits)

section \<open>The contract of a time index\<close>

text \<open>What the store relies on when it adds and removes chunks, whatever the representation.\<close>

locale time_index =
  fixes repr :: "(ChunkId \<rightharpoonup> AbsoluteTimeRange) \<Rightarrow> 'i \<Rightarrow> bool"
    and empty :: 'i
    and add :: "AbsoluteTimeRange \<Rightarrow> ChunkId \<Rightarrow> 'i \<Rightarrow> 'i"
    and del :: "AbsoluteTimeRange \<Rightarrow> ChunkId \<Rightarrow> 'i \<Rightarrow> 'i"
  assumes repr_empty: "repr Map.empty empty"
    and repr_add: "repr E i \<Longrightarrow> E cid = None \<or> E cid = Some r \<Longrightarrow> repr (E(cid \<mapsto> r)) (add r cid i)"
    and repr_del: "repr E i \<Longrightarrow> E cid = None \<or> E cid = Some r \<Longrightarrow> repr (E(cid := None)) (del r cid i)"
begin

lemma repr_add_del: "repr E i \<Longrightarrow> E cid = None \<Longrightarrow> repr E (del r cid (add r cid i))"
  using repr_del [OF repr_add, of E i cid r cid r] by (simp add: fun_upd_idem)

lemma repr_adds:
  assumes "repr E i" "distinct (map fst entries)" "\<forall>(cid, r) \<in> set entries. E cid = None"
  shows "repr (E ++ map_of entries) (fold (\<lambda>(cid, r). add r cid) entries i)"
  using assms
proof (induction entries arbitrary: E i)
  case (Cons e entries)
  obtain cid r where e: "e = (cid, r)" by (cases e)
  have "repr (E(cid \<mapsto> r)) (add r cid i)" using Cons.prems by (simp add: e repr_add)
  moreover have "\<forall>(cid', r') \<in> set entries. (E(cid \<mapsto> r)) cid' = None"
    using Cons.prems(2,3) by (force simp: e)
  moreover have "distinct (map fst entries)" using Cons.prems(2) by (simp add: e)
  ultimately have "repr (E(cid \<mapsto> r) ++ map_of entries) (fold (\<lambda>(cid, r). add r cid) entries (add r cid i))"
    using Cons.IH by blast
  moreover have "E(cid \<mapsto> r) ++ map_of entries = E ++ map_of (e # entries)"
    using Cons.prems(2) by (simp add: e map_add_upd_left [symmetric] map_of_eq_None_iff dom_map_of_conv_image_fst)
  ultimately show ?case by (simp only: e fold_simps prod.case)
qed simp

end

lemma ids_at_Nil [simp]: "ids_at [] t = {}"
  by (simp add: ids_at_def)

lemma index_repr_default: "index_repr Map.empty index_default"
  by (simp add: index_repr_def index_default_def per_time_ok_def)

lemma index_repr_add:
  assumes "index_repr E idx" "E cid = None \<or> E cid = Some r"
  shows "index_repr (E(cid \<mapsto> r)) (index_add r cid idx)"
  using assms
  by (auto simp: index_repr_def index_add_def per_time_ok_insert ids_at_insert ran_def le_max_iff_disj
      split: if_splits)

lemma index_remove_fst:
  "fst (index_remove r cid idx) = idx\<lparr>per_start_time := fst (per_time_remove (range_min r) cid (per_start_time idx)),
     per_end_time := fst (per_time_remove (range_max r) cid (per_end_time idx))\<rparr>"
  by (simp add: index_remove_def split: prod.splits)

lemma index_repr_remove:
  assumes "index_repr E idx" "E cid = None \<or> E cid = Some r"
  shows "index_repr (E(cid := None)) (fst (index_remove r cid idx))"
  using assms
  by (auto simp: index_repr_def index_remove_fst per_time_ok_remove ids_at_remove ran_def split: if_splits)

interpretation chunk_index: time_index index_repr index_default index_add
  "\<lambda>r cid idx. fst (index_remove r cid idx)"
  by unfold_locales (simp_all add: index_repr_default index_repr_add index_repr_remove)

end
