(* ===== verification/Store_Index_Props.thy ===== *)
theory Store_Index_Props
  imports Store_Index
begin

text \<open>
  The relevance queries on a time index: they miss no chunk that can matter, as long as no
  interval is longer than \<open>i64::MAX\<close> and no entry of the index has been emptied by a removal.
\<close>

section \<open>Walking the start times\<close>

definition no_ghosts :: "ChunkIdSetPerTime \<Rightarrow> bool" where
  "no_ghosts idx \<longleftrightarrow> (\<forall>(t, s) \<in> set (per_start_time idx). s \<noteq> [])"

definition short_intervals :: "ChunkIdSetPerTime \<Rightarrow> bool" where
  "short_intervals idx \<longleftrightarrow> uint (max_interval_length idx) \<le> 2 ^ 63 - 1"

definition intervals_ok :: "(ChunkId \<rightharpoonup> AbsoluteTimeRange) \<Rightarrow> bool" where
  "intervals_ok E \<longleftrightarrow> (\<forall>r \<in> ran E. range_ok r \<and> range_min r \<le> range_max r)"

lemma takeWhile_antitone:
  assumes "sorted_wrt R xs" "\<And>x y. R x y \<Longrightarrow> P y \<Longrightarrow> P x"
  shows "takeWhile P xs = filter P xs"
  using assms(1) by (induction xs) (auto simp: empty_filter_conv dest: assms(2))

lemma lin_cmp_Less: "lin_cmp x y = Less \<longleftrightarrow> x < y"
  by (auto simp: lin_cmp_def)

lemma om_sorted_lin: "om_sorted lin_cmp m \<longleftrightarrow> sorted_wrt (\<lambda>a b. fst a < fst b) m"
  by (simp add: om_sorted_def lin_cmp_Less)

lemma om_upto_rev_sorted:
  assumes "om_sorted lin_cmp m"
  shows "sorted_wrt (\<lambda>a b. fst b < fst a) (rev (om_upto t m))"
  using assms by (simp add: om_upto_def om_sorted_lin sorted_wrt_rev sorted_wrt_filter)

lemma om_upto_last:
  assumes "om_sorted lin_cmp m" "rev (om_upto t m) = (k, v) # rest"
  shows "(k, v) \<in> set m \<and> k \<le> t \<and> (\<forall>(k', v') \<in> set m. k' \<le> t \<longrightarrow> k' \<le> k)"
proof -
  have eq: "set (om_upto t m) = set ((k, v) # rest)" using assms(2) by (metis set_rev)
  have "\<forall>q \<in> set rest. fst q < k" using om_upto_rev_sorted [OF assms(1), of t] assms(2) by simp
  then have "fst q \<le> k" if "q \<in> set (om_upto t m)" for q using that eq by auto
  moreover have "(k, v) \<in> set (om_upto t m)" using eq by simp
  ultimately show ?thesis by (fastforce simp: om_upto_def)
qed

lemma om_upto_Nil: "rev (om_upto t m) = [] \<longleftrightarrow> (\<forall>(k, v) \<in> set m. \<not> k \<le> t)"
  by (auto simp: om_upto_def filter_empty_conv)

lemma ids_at_in:
  assumes "om_sorted lin_cmp m"
  shows "cid \<in> ids_at m t \<longleftrightarrow> (\<exists>s. (t, s) \<in> set m \<and> cid \<in> set s)"
  using lin.om_get_in_Some [OF assms, of t _ t]
  by (auto simp: ids_at_def dest: om_get_in split: option.splits)

lemma index_repr_starts:
  assumes "index_repr E idx"
  shows "(\<exists>s. (t, s) \<in> set (per_start_time idx) \<and> cid \<in> set s) \<longleftrightarrow> (\<exists>r. E cid = Some r \<and> range_min r = t)"
  using assms by (subst ids_at_in [symmetric]) (auto simp: index_repr_def per_time_ok_def)

lemma distinct_concat_keyed:
  assumes "distinct (map fst xs)" "\<forall>(k, s) \<in> set xs. distinct s"
    and "\<And>k s k' s' x. (k, s) \<in> set xs \<Longrightarrow> (k', s') \<in> set xs \<Longrightarrow> x \<in> set s \<Longrightarrow> x \<in> set s' \<Longrightarrow> k = k'"
  shows "distinct (concat (map snd xs))"
  using assms
proof (induction xs)
  case (Cons p xs)
  obtain k s where p: "p = (k, s)" by (cases p)
  have "set s \<inter> set (concat (map snd xs)) = {}"
  proof (rule ccontr)
    assume "\<not> ?thesis"
    then obtain x k' s' where x: "x \<in> set s" "(k', s') \<in> set xs" "x \<in> set s'" by auto
    then have "k = k'" using Cons.prems(3) [of k s k' s' x] by (simp add: p)
    then show False using x(2) Cons.prems(1) by (force simp: p)
  qed
  moreover have "distinct (concat (map snd xs))"
    using Cons.prems(1,2) by (intro Cons.IH) (auto intro: Cons.prems(3))
  ultimately show ?case using Cons.prems(2) by (simp add: p)
qed simp

lemma om_sorted_distinct: "om_sorted lin_cmp (m :: ('k :: linorder, 'v) omap) \<Longrightarrow> distinct (map fst m)"
  by (induction m) (auto simp: om_sorted_lin)

lemma index_ids_distinct:
  assumes "index_repr E idx"
  shows "distinct (concat (map snd (filter P (per_start_time idx))))"
proof (rule distinct_concat_keyed)
  show "distinct (map fst (filter P (per_start_time idx)))"
    using assms om_sorted_distinct [of "per_start_time idx"] by (simp add: index_repr_def per_time_ok_def distinct_map_filter)
  show "\<forall>(k, s) \<in> set (filter P (per_start_time idx)). distinct s"
    using assms by (auto simp: index_repr_def per_time_ok_def)
  fix k s k' s' x
  assume "(k, s) \<in> set (filter P (per_start_time idx))" "(k', s') \<in> set (filter P (per_start_time idx))"
    "x \<in> set s" "x \<in> set s'"
  then show "k = k'" using index_repr_starts [OF assms, of k x] index_repr_starts [OF assms, of k' x] by auto
qed

lemma distinct_concat_rev: "distinct (concat (rev xss)) = distinct (concat xss)"
  by (induction xss) auto

section \<open>Latest-at\<close>

text \<open>Every chunk but those that end before another candidate starts.\<close>

definition not_superseded :: "(ChunkId \<rightharpoonup> AbsoluteTimeRange) \<Rightarrow> TimeInt \<Rightarrow> AbsoluteTimeRange \<Rightarrow> bool" where
  "not_superseded E at r \<longleftrightarrow> range_min r \<le> at
     \<and> (\<forall>r' \<in> ran E. range_min r' \<le> at \<longrightarrow> range_min r' \<le> range_max r)"

lemma interval_start_lower:
  assumes r: "range_ok r" "range_min r \<le> range_max r" and u: "time_ok u" "u \<le> range_max r"
    and len: "range_abs_length r \<le> n" and n: "uint n \<le> 2 ^ 63 - 1"
  shows "sint (saturating_sub_i64 (as_i64 u) (clamp_i64 (uint n))) \<le> sint (as_i64 (range_min r))"
proof -
  have t: "time_ok (range_min r)" "time_ok (range_max r)" using r(1) by (auto simp: range_ok_def)
  have "sint (as_i64 (range_min r)) \<le> sint (as_i64 (range_max r))" "sint (as_i64 u) \<le> sint (as_i64 (range_max r))"
    using r(2) u by (auto simp: time_less_eq_iff t)
  moreover have "uint (range_abs_length r) \<le> uint n" using len by (simp add: word_le_def)
  moreover have "0 \<le> uint n" by simp
  ultimately show ?thesis
    using n sint_i64_lower [of "as_i64 (range_min r)"]
    by (simp add: saturating_sub_i64_def range_abs_length_def i64_simps)
qed

lemma index_latest_at_set:
  assumes rep: "index_repr E idx" and ghosts: "no_ghosts idx" and ok: "intervals_ok E"
    and rev: "rev (om_upto at (per_start_time idx)) = (u, us) # rest"
  shows "\<exists>ids. index_latest_at at idx = Some ids \<and> distinct ids
    \<and> set ids = {cid. \<exists>r. E cid = Some r \<and> range_min r \<le> at \<and>
         sint (saturating_sub_i64 (as_i64 u) (clamp_i64 (uint (max_interval_length idx))))
           \<le> sint (as_i64 (range_min r))}"
proof -
  let ?m = "per_start_time idx"
  let ?low = "saturating_sub_i64 (as_i64 u) (clamp_i64 (uint (max_interval_length idx)))"
  let ?P = "\<lambda>(t, _). sint ?low \<le> sint (as_i64 t)"
  have sorted: "om_sorted lin_cmp ?m" using rep by (simp add: index_repr_def per_time_ok_def)
  have keys: "time_ok t" if "(t, s) \<in> set ?m" for t s
  proof -
    have "s \<noteq> []" using ghosts that by (auto simp: no_ghosts_def)
    then obtain cid where "cid \<in> set s" by (cases s) auto
    then have "\<exists>s. (t, s) \<in> set ?m \<and> cid \<in> set s" using that by auto
    then obtain r where "E cid = Some r" "range_min r = t" using index_repr_starts [OF rep] by auto
    then show ?thesis using ok by (auto simp: intervals_ok_def ran_def range_ok_def)
  qed
  have "sorted_wrt (\<lambda>a b. fst b < fst a \<and> time_ok (fst a) \<and> time_ok (fst b)) (rev (om_upto at ?m))"
    by (rule sorted_wrt_mono_rel [OF _ om_upto_rev_sorted [OF sorted]]) (auto simp: om_upto_def dest: keys)
  then have tw: "takeWhile ?P (rev (om_upto at ?m)) = filter ?P (rev (om_upto at ?m))"
    by (rule takeWhile_antitone) (auto dest: less_imp_le simp: time_less_iff)
  have res: "index_latest_at at idx = Some (concat (map snd (filter ?P (rev (om_upto at ?m)))))"
    by (simp only: index_latest_at_def rev list.case prod.case Let_def tw [unfolded rev])
  have eq: "filter ?P (rev (om_upto at ?m)) = rev (filter (\<lambda>(t, s). t \<le> at \<and> ?P (t, s)) ?m)"
    by (simp add: om_upto_def rev_filter case_prod_unfold conj_commute)
  have "distinct (concat (map snd (rev (filter (\<lambda>(t, s). t \<le> at \<and> ?P (t, s)) ?m))))"
    using index_ids_distinct [OF rep] by (simp only: rev_map [symmetric] distinct_concat_rev)
  moreover have "cid \<in> set (concat (map snd (rev (filter (\<lambda>(t, s). t \<le> at \<and> ?P (t, s)) ?m))))
      \<longleftrightarrow> (\<exists>r. E cid = Some r \<and> range_min r \<le> at \<and> sint ?low \<le> sint (as_i64 (range_min r)))" for cid
  proof -
    have "cid \<in> set (concat (map snd (rev (filter (\<lambda>(t, s). t \<le> at \<and> ?P (t, s)) ?m))))
        \<longleftrightarrow> (\<exists>t. (\<exists>s. (t, s) \<in> set ?m \<and> cid \<in> set s) \<and> t \<le> at \<and> sint ?low \<le> sint (as_i64 t))"
      by force
    then show ?thesis unfolding index_repr_starts [OF rep] by auto
  qed
  ultimately show ?thesis unfolding res eq by blast
qed


section \<open>Range\<close>

lemma range_query_min_lower:
  assumes r: "range_ok r" "range_min r \<le> range_max r" and q: "is_temporal q" "q \<le> range_max r"
    and len: "range_abs_length r \<le> n" and n: "uint n \<le> 2 ^ 63 - 1"
  shows "new_temporal (saturating_sub_i64 (as_i64 q) (clamp_i64 (uint n))) \<le> range_min r"
proof -
  have t: "time_ok (range_min r)" "time_ok (range_max r)" using r(1) by (auto simp: range_ok_def)
  have "sint (saturating_sub_i64 (as_i64 q) (clamp_i64 (uint n))) \<le> sint (as_i64 (range_min r))"
    using interval_start_lower [OF r _ q(2) len n] q(1) by simp
  moreover have "- (2 ^ 63 - 1) \<le> sint (as_i64 (range_min r))"
    using r(1) sint_as_i64_temporal [of "range_min r"] by (simp add: range_ok_def)
  ultimately show ?thesis by (simp add: time_less_eq_iff t sint_new_temporal)
qed

lemma saturating_minus_one: "is_temporal q \<Longrightarrow> new_temporal (saturating_sub_i64 (as_i64 q) 1) \<le> q"
  using sint_as_i64_temporal [of q]
  by (simp add: time_less_eq_iff sint_new_temporal saturating_sub_i64_def i64_simps)

lemma saturating_plus_one: "is_temporal q \<Longrightarrow> q \<le> new_temporal (saturating_add_i64 (as_i64 q) 1)"
  using sint_as_i64_temporal [of q]
  by (simp add: time_less_eq_iff sint_new_temporal saturating_add_i64_def i64_simps)

lemma index_range_bounds_cover:
  assumes rep: "index_repr E idx" and ok: "intervals_ok E" and short: "short_intervals idx"
    and query: "range_ok (rq_range query)" and r: "E cid = Some r" "range_intersects r (rq_range query)"
  shows "case index_range_bounds query idx of (a, b) \<Rightarrow> a \<le> range_min r \<and> range_min r \<le> b"
proof -
  let ?m = "per_start_time idx"
  have sorted: "om_sorted lin_cmp ?m" using rep by (simp add: index_repr_def per_time_ok_def)
  define qmin where "qmin = (if include_extended_bounds (rq_options query)
    then new_temporal (saturating_sub_i64 (as_i64 (range_min (rq_range query))) 1) else range_min (rq_range query))"
  define qmax where "qmax = (if include_extended_bounds (rq_options query)
    then new_temporal (saturating_add_i64 (as_i64 (range_max (rq_range query))) 1) else range_max (rq_range query))"
  define low where "low = new_temporal (saturating_sub_i64 (as_i64 qmin) (clamp_i64 (uint (max_interval_length idx))))"
  have "range_min (rq_range query) \<le> range_max r" "range_min r \<le> range_max (rq_range query)"
    using r(2) by (auto simp: range_defs)
  moreover have "is_temporal qmin" "qmin \<le> range_min (rq_range query)" "range_max (rq_range query) \<le> qmax"
    using query by (auto simp: qmin_def qmax_def range_ok_def saturating_minus_one saturating_plus_one)
  ultimately have q: "is_temporal qmin" "qmin \<le> range_max r" "range_min r \<le> qmax" by auto
  have ran: "r \<in> ran E" using r(1) by (auto simp: ran_def)
  have low: "low \<le> range_min r" unfolding low_def
    using range_query_min_lower [OF _ _ q(1,2)] ok rep short ran
    by (auto simp: intervals_ok_def short_intervals_def index_repr_def)
  have key: "\<exists>s. (range_min r, s) \<in> set ?m \<and> cid \<in> set s"
    using index_repr_starts [OF rep] r(1) by auto
  have start: "(case rev (om_upto low ?m) of [] \<Rightarrow> time_MIN | (t, _) # _ \<Rightarrow> t) \<le> range_min r"
  proof (cases "rev (om_upto low ?m)")
    case Nil
    then show ?thesis using ok ran by (auto simp: intervals_ok_def range_ok_def is_temporal_MIN_le)
  next
    case (Cons p rest)
    obtain k v where "p = (k, v)" by (cases p)
    then show ?thesis using om_upto_last [OF sorted, of low k v rest] Cons low by auto
  qed
  obtain k v rest where last: "rev (om_upto qmax ?m) = (k, v) # rest"
    using key q(3) om_upto_Nil [of qmax ?m] by (cases "rev (om_upto qmax ?m)") auto
  have "range_min r \<le> k" using om_upto_last [OF sorted last] key q(3) by auto
  then show ?thesis using start last
    by (simp add: index_range_bounds_def Let_def flip: qmin_def qmax_def low_def)
qed

text \<open>C16: a range query misses no chunk. On an index of intervals no longer than \<open>i64::MAX\<close>, the
  query returns, without duplicates, only chunks of the index, and every chunk whose interval
  intersects the range of the query.\<close>

theorem index_range_complete:
  assumes rep: "index_repr E idx" and ok: "intervals_ok E" and short: "short_intervals idx"
    and query: "range_ok (rq_range query)"
  shows "distinct (index_range query [idx]) \<and> set (index_range query [idx]) \<subseteq> dom E
    \<and> (\<forall>cid r. E cid = Some r \<longrightarrow> range_intersects r (rq_range query) \<longrightarrow> cid \<in> set (index_range query [idx]))"
proof -
  obtain a b where ab: "index_range_bounds query idx = (a, b)" by fastforce
  have eq: "index_range query [idx] = concat (map snd (filter (\<lambda>(k, _). a \<le> k \<and> k \<le> b) (per_start_time idx)))"
    by (simp add: index_range_def ab om_between_def)
  have mem: "cid \<in> set (index_range query [idx]) \<longleftrightarrow> (\<exists>r. E cid = Some r \<and> a \<le> range_min r \<and> range_min r \<le> b)" for cid
  proof -
    have "cid \<in> set (index_range query [idx])
        \<longleftrightarrow> (\<exists>t. (\<exists>s. (t, s) \<in> set (per_start_time idx) \<and> cid \<in> set s) \<and> a \<le> t \<and> t \<le> b)"
      unfolding eq by force
    then show ?thesis unfolding index_repr_starts [OF rep] by auto
  qed
  moreover have "distinct (index_range query [idx])" unfolding eq by (rule index_ids_distinct [OF rep])
  ultimately show ?thesis
    using index_range_bounds_cover [OF rep ok short query] by (auto simp: ab)
qed

section \<open>Limits of the index\<close>

definition ex_range :: "int \<Rightarrow> int \<Rightarrow> AbsoluteTimeRange" where
  "ex_range a b = \<lparr>range_min = new_temporal (word_of_int a), range_max = new_temporal (word_of_int b)\<rparr>"

definition ex_index :: ChunkIdSetPerTime where
  "ex_index = index_add (ex_range 10 12) (Tuid 0 2) (index_add (ex_range 0 5) (Tuid 0 1) index_default)"

definition ex_content :: "ChunkId \<rightharpoonup> AbsoluteTimeRange" where
  "ex_content = [Tuid 0 1 \<mapsto> ex_range 0 5, Tuid 0 2 \<mapsto> ex_range 10 12]"

lemma ex_index_repr: "index_repr ex_content ex_index"
  unfolding ex_content_def ex_index_def
  by (intro index_repr_add index_repr_default) auto

lemma ex_ranges_ok: "range_ok (ex_range a b)"
  by (simp add: ex_range_def range_ok_def)

lemma ex_index_ok: "no_ghosts ex_index \<and> short_intervals ex_index"
  by code_simp

lemma ex_content_ok: "intervals_ok ex_content"
proof -
  have "range_min (ex_range 0 5) \<le> range_max (ex_range 0 5)" "range_min (ex_range 10 12) \<le> range_max (ex_range 10 12)"
    by code_simp+
  then show ?thesis by (auto simp: intervals_ok_def ex_content_def ran_def ex_ranges_ok split: if_splits)
qed


theorem index_range_complete_witness:
  "Tuid 0 1 \<in> set (index_range (range_query_new [] (ex_range 3 4)) [ex_index])"
proof -
  have "range_intersects (ex_range 0 5) (ex_range 3 4)" by code_simp
  then show ?thesis
    using index_range_complete [OF ex_index_repr ex_content_ok, of "range_query_new [] (ex_range 3 4)"] ex_index_ok
    by (simp add: range_query_new_def ex_ranges_ok ex_content_def)
qed

text \<open>
  A removal leaves an emptied entry behind, from which the backward walk starts: after the chunk
  at time 10 is removed, the query at 20 no longer sees the chunk at time 0.
\<close>

lemma removal_hides_older_chunk:
  "index_latest_at (new_temporal 20)
     (fst (index_remove (ex_range 10 10) (Tuid 0 2)
       (index_add (ex_range 10 10) (Tuid 0 2) (index_add (ex_range 0 0) (Tuid 0 1) index_default)))) = Some []
   \<and> index_latest_at (new_temporal 20) (index_add (ex_range 0 0) (Tuid 0 1) index_default) = Some [Tuid 0 1]"
  by code_simp

text \<open>
  The length of the longest interval is cut off at \<open>i64::MAX\<close>: a chunk that spans more than that is
  missed as soon as another one starts late enough, although it has data up to the query time.
\<close>

lemma long_interval_is_missed:
  "index_latest_at (new_temporal 0x4000000000000001)
     (index_add (ex_range 0x4000000000000000 0x4000000000000000) (Tuid 0 2)
       (index_add (ex_range (- 0x7000000000000000) 0x4000000000000001) (Tuid 0 1) index_default)) = Some [Tuid 0 2]"
  by code_simp

end
