(* ===== verification/Store_Data.thy ===== *)
theory Store_Data
  imports Store_Index Chunk_Ops
begin

text \<open>
  The state of a chunk store (\<open>re_chunk_store/src/store.rs\<close>), the lineage of its chunks
  (\<open>lineage.rs\<close>), its statistics (\<open>stats.rs\<close>) and the events it reports (\<open>events.rs\<close>).

  Chunks that were garbage collected, or announced by a manifest and not loaded yet, are
  \<^emph>\<open>virtual\<close>: the indices and the lineage know them, the map of physical chunks does not.

  The measured size of a chunk is the parameter \<open>size_of\<close>. The schema of the store and the
  tracking of queried chunks are not part of this state.
\<close>

section \<open>Hash maps\<close>

text \<open>\<open>entry(k).or_default()\<close> followed by an update in place, and an update in place of an entry
  that exists.\<close>

definition im_entry :: "'k \<Rightarrow> 'v \<Rightarrow> ('v \<Rightarrow> 'v) \<Rightarrow> ('k \<times> 'v) list \<Rightarrow> ('k \<times> 'v) list" where
  "im_entry k dflt f m = im_insert k (f (case map_of m k of None \<Rightarrow> dflt | Some v \<Rightarrow> v)) m"

definition im_remove :: "'k \<Rightarrow> ('k \<times> 'v) list \<Rightarrow> ('k \<times> 'v) list" where
  "im_remove k m = filter (\<lambda>(k', v). k' \<noteq> k) m"

section \<open>Configuration, lineage and events\<close>

record ChunkStoreConfig =
  enable_changelog :: bool
  cfg_max_bytes :: nat
  cfg_max_rows :: nat
  cfg_max_rows_if_unsorted :: nat

definition config_DEFAULT :: ChunkStoreConfig where
  "config_DEFAULT = \<lparr>enable_changelog = True, cfg_max_bytes = 12 * 8 * 4096, cfg_max_rows = 4096,
     cfg_max_rows_if_unsorted = 1024\<rparr>"

definition config_COMPACTION_DISABLED :: ChunkStoreConfig where
  "config_COMPACTION_DISABLED = config_DEFAULT\<lparr>cfg_max_bytes := 0, cfg_max_rows := 0, cfg_max_rows_if_unsorted := 0\<rparr>"

definition config_CHANGELOG_DISABLED :: ChunkStoreConfig where
  "config_CHANGELOG_DISABLED = config_DEFAULT\<lparr>enable_changelog := False\<rparr>"

definition config_ALL_DISABLED :: ChunkStoreConfig where
  "config_ALL_DISABLED = \<lparr>enable_changelog = False, cfg_max_bytes = 0, cfg_max_rows = 0, cfg_max_rows_if_unsorted = 0\<rparr>"

datatype ChunkDirectLineage =
    SplitFrom ChunkId "ChunkId list"
  | CompactedFrom "ChunkId list"
  | RootFromManifest (from_manifest_is_static: bool)
  | Volatile

datatype 'a ChunkDirectLineageReport =
    SplitFromReport "'a Chunk" "'a Chunk list"
  | CompactedFromReport "(ChunkId \<times> 'a Chunk) list"
  | RootFromManifestReport bool
  | VolatileReport

fun lineage_of_report :: "'a ChunkDirectLineageReport \<Rightarrow> ChunkDirectLineage" where
  "lineage_of_report (SplitFromReport chunk siblings) = SplitFrom (ch_id chunk) (map ch_id siblings)"
| "lineage_of_report (CompactedFromReport chunks) = CompactedFrom (map fst chunks)"
| "lineage_of_report (RootFromManifestReport b) = RootFromManifest b"
| "lineage_of_report VolatileReport = Volatile"

datatype ChunkDeletionReason =
    GarbageCollection | VirtualToPhysicalReplacement | DanglingSplitCleanup | Compaction | Overwrite | ExplicitDrop

text \<open>What a manifest of a recording announces: static chunks per component, temporal chunks per
  timeline and component with their time range and number of rows.\<close>

record RrdManifestTemporalMapEntry =
  me_time_range :: AbsoluteTimeRange
  me_num_rows :: nat

record RrdManifest =
  static_map :: "(rstr list \<times> (ComponentIdentifier \<times> ChunkId) list) list"
  temporal_map :: "(rstr list \<times> (Timeline \<times> (ComponentIdentifier \<times> (ChunkId \<times> RrdManifestTemporalMapEntry) list) list) list) list"

record 'a ChunkStoreDiffAddition =
  chunk_before_processing :: "'a Chunk"
  chunk_after_processing :: "'a Chunk"
  add_direct_lineage :: "'a ChunkDirectLineageReport"

datatype 'a ChunkStoreDiff =
    Addition "'a ChunkStoreDiffAddition"
  | VirtualAddition RrdManifest
  | Deletion (deleted_chunk: "'a Chunk") ChunkDeletionReason

definition diff_addition ::
  "'a Chunk \<Rightarrow> 'a Chunk \<Rightarrow> 'a ChunkDirectLineageReport \<Rightarrow> 'a ChunkStoreDiff" where
  "diff_addition before after lineage = Addition \<lparr>chunk_before_processing = before,
     chunk_after_processing = after, add_direct_lineage = lineage\<rparr>"

definition addition_delta_chunk :: "'a ChunkStoreDiffAddition \<Rightarrow> 'a Chunk" where
  "addition_delta_chunk a =
     (case add_direct_lineage a of
        CompactedFromReport _ \<Rightarrow> chunk_before_processing a
      | SplitFromReport _ _ \<Rightarrow> chunk_after_processing a
      | _ \<Rightarrow> chunk_before_processing a)"

definition diff_delta :: "'a ChunkStoreDiff \<Rightarrow> int" where
  "diff_delta d = (case d of Addition _ \<Rightarrow> 1 | VirtualAddition _ \<Rightarrow> 0 | Deletion _ _ \<Rightarrow> - 1)"

definition diff_delta_chunk :: "'a ChunkStoreDiff \<Rightarrow> 'a Chunk option" where
  "diff_delta_chunk d =
     (case d of Addition a \<Rightarrow> Some (addition_delta_chunk a) | VirtualAddition _ \<Rightarrow> None | Deletion c _ \<Rightarrow> Some c)"

section \<open>Statistics\<close>

record ChunkStoreChunkStats =
  stat_num_chunks :: u64
  stat_total_size_bytes :: u64
  stat_num_rows :: u64
  stat_num_events :: u64

definition stats_default :: ChunkStoreChunkStats where
  "stats_default = \<lparr>stat_num_chunks = 0, stat_total_size_bytes = 0, stat_num_rows = 0, stat_num_events = 0\<rparr>"

definition stats_add :: "ChunkStoreChunkStats \<Rightarrow> ChunkStoreChunkStats \<Rightarrow> ChunkStoreChunkStats" where
  "stats_add a b = \<lparr>stat_num_chunks = stat_num_chunks a + stat_num_chunks b,
     stat_total_size_bytes = stat_total_size_bytes a + stat_total_size_bytes b,
     stat_num_rows = stat_num_rows a + stat_num_rows b,
     stat_num_events = stat_num_events a + stat_num_events b\<rparr>"

definition stats_sub :: "ChunkStoreChunkStats \<Rightarrow> ChunkStoreChunkStats \<Rightarrow> ChunkStoreChunkStats" where
  "stats_sub a b = \<lparr>stat_num_chunks = stat_num_chunks a - stat_num_chunks b,
     stat_total_size_bytes = stat_total_size_bytes a - stat_total_size_bytes b,
     stat_num_rows = stat_num_rows a - stat_num_rows b,
     stat_num_events = stat_num_events a - stat_num_events b\<rparr>"

definition stats_from_chunk :: "('a Chunk \<Rightarrow> nat) \<Rightarrow> 'a Chunk \<Rightarrow> ChunkStoreChunkStats" where
  "stats_from_chunk size_of c = \<lparr>stat_num_chunks = 1, stat_total_size_bytes = of_nat (size_of c),
     stat_num_rows = of_nat (num_rows c), stat_num_events = of_nat (num_events_cumulative c)\<rparr>"

section \<open>The store\<close>

type_synonym PerComponent = "(ComponentIdentifier \<times> ChunkIdSetPerTime) list"
type_synonym PerTimelinePerComponent = "(TimelineName \<times> PerComponent) list"
type_synonym PerTimeline = "(TimelineName \<times> ChunkIdSetPerTime) list"

record 'a ChunkStore =
  st_config :: ChunkStoreConfig
  physical_chunks_per_chunk_id :: "(ChunkId, 'a Chunk) omap"
  physical_chunk_ids_per_min_row_id :: "(RowId \<times> ChunkId) list"
  chunks_lineage :: "ChunkId \<rightharpoonup> ChunkDirectLineage"
  dangling_splits :: "ChunkId \<rightharpoonup> ChunkId list"
  split_on_ingest :: "ChunkId set"
  leaky_compactions :: "ChunkId \<rightharpoonup> ChunkId"
  temporal_ids_per_component :: "(rstr list \<times> PerTimelinePerComponent) list"
  temporal_ids :: "(rstr list \<times> PerTimeline) list"
  temporal_physical_chunks_stats :: ChunkStoreChunkStats
  static_chunk_ids_per_entity :: "(rstr list \<times> (ComponentIdentifier \<times> ChunkId) list) list"
  static_chunks_stats :: ChunkStoreChunkStats
  insert_id :: u64
  gc_id :: u64
  event_id :: u64

definition chunk_store_new :: "ChunkStoreConfig \<Rightarrow> 'a ChunkStore" where
  "chunk_store_new config =
     \<lparr>st_config = config, physical_chunks_per_chunk_id = [], physical_chunk_ids_per_min_row_id = [],
      chunks_lineage = Map.empty, dangling_splits = Map.empty, split_on_ingest = {},
      leaky_compactions = Map.empty, temporal_ids_per_component = [], temporal_ids = [],
      temporal_physical_chunks_stats = stats_default, static_chunk_ids_per_entity = [],
      static_chunks_stats = stats_default, insert_id = 0, gc_id = 0, event_id = 0\<rparr>"

definition physical_chunk :: "'a ChunkStore \<Rightarrow> ChunkId \<Rightarrow> 'a Chunk option" where
  "physical_chunk s = om_get lin_cmp (physical_chunks_per_chunk_id s)"

definition physical_chunks :: "'a ChunkStore \<Rightarrow> 'a Chunk list" where
  "physical_chunks s = map snd (physical_chunks_per_chunk_id s)"

definition num_physical_chunks :: "'a ChunkStore \<Rightarrow> nat" where
  "num_physical_chunks s = length (physical_chunks_per_chunk_id s)"

definition store_generation :: "'a ChunkStore \<Rightarrow> u64 \<times> u64" where
  "store_generation s = (insert_id s, gc_id s)"

definition store_stats_total :: "'a ChunkStore \<Rightarrow> ChunkStoreChunkStats" where
  "store_stats_total s = stats_add (static_chunks_stats s) (temporal_physical_chunks_stats s)"

text \<open>An event carries the generation of the store when it was made, and a number of its own.\<close>

record 'a ChunkStoreEvent =
  ev_store_generation :: "u64 \<times> u64"
  ev_event_id :: u64
  ev_diff :: "'a ChunkStoreDiff"

definition finalize_events :: "'a ChunkStoreDiff list \<Rightarrow> 'a ChunkStore \<Rightarrow> 'a ChunkStoreEvent list \<times> 'a ChunkStore" where
  "finalize_events diffs s =
     (map (\<lambda>(i, d). \<lparr>ev_store_generation = store_generation s, ev_event_id = event_id s + of_nat i, ev_diff = d\<rparr>)
        (enumerate 0 diffs),
      s\<lparr>event_id := event_id s + of_nat (length diffs)\<rparr>)"

section \<open>Lineage queries\<close>

definition is_root_chunk :: "'a ChunkStore \<Rightarrow> ChunkId \<Rightarrow> bool" where
  "is_root_chunk s cid =
     (case chunks_lineage s cid of
        None \<Rightarrow> True
      | Some (RootFromManifest _) \<Rightarrow> True
      | Some Volatile \<Rightarrow> True
      | Some _ \<Rightarrow> False)"

text \<open>In a release build only the direct lineage is looked at; a debug build recurses through
  compactions.\<close>

definition descends_from_a_split :: "'a ChunkStore \<Rightarrow> ChunkId \<Rightarrow> bool" where
  "descends_from_a_split s cid = (case chunks_lineage s cid of Some (SplitFrom _ _) \<Rightarrow> True | _ \<Rightarrow> False)"

partial_function (option) collect_roots ::
  "(ChunkDirectLineage \<Rightarrow> bool) \<Rightarrow> (ChunkId \<rightharpoonup> ChunkDirectLineage) \<Rightarrow> ChunkId list \<Rightarrow> ChunkId list option" where
  "collect_roots is_root lineage todo =
     (case todo of
        [] \<Rightarrow> Some []
      | cid # rest \<Rightarrow>
          (case lineage cid of
             Some (SplitFrom parent _) \<Rightarrow> collect_roots is_root lineage (parent # rest)
           | Some (CompactedFrom parents) \<Rightarrow> collect_roots is_root lineage (parents @ rest)
           | Some l \<Rightarrow>
               if is_root l then Option.bind (collect_roots is_root lineage rest) (\<lambda>roots. Some (cid # roots))
               else collect_roots is_root lineage rest
           | None \<Rightarrow> collect_roots is_root lineage rest))"

definition find_root_chunks :: "'a ChunkStore \<Rightarrow> ChunkId \<Rightarrow> ChunkId list option" where
  "find_root_chunks s cid = collect_roots (\<lambda>_. True) (chunks_lineage s) [cid]"

definition find_root_manifest_chunks :: "'a ChunkStore \<Rightarrow> ChunkId \<Rightarrow> ChunkId list option" where
  "find_root_manifest_chunks s cid =
     collect_roots (\<lambda>l. case l of RootFromManifest _ \<Rightarrow> True | _ \<Rightarrow> False) (chunks_lineage s) [cid]"

partial_function (option) descends_from_a_compaction ::
  "'a ChunkStore \<Rightarrow> ChunkId \<Rightarrow> bool option" where
  "descends_from_a_compaction s cid =
     (case chunks_lineage s cid of
        Some (SplitFrom parent _) \<Rightarrow> descends_from_a_compaction s parent
      | Some (CompactedFrom _) \<Rightarrow> Some True
      | _ \<Rightarrow> Some False)"

text \<open>Following the compactions a chunk went through, to one that is still loaded.\<close>

partial_function (option) find_compacted ::
  "'a ChunkStore \<Rightarrow> ChunkId \<Rightarrow> ChunkId option option" where
  "find_compacted s source_id =
     (case leaky_compactions s source_id of
        None \<Rightarrow> Some None
      | Some cid \<Rightarrow>
          if physical_chunk s cid \<noteq> None then Some (Some cid) else find_compacted s cid)"

definition collect_physical_descendents_of :: "'a ChunkStore \<Rightarrow> ChunkId \<Rightarrow> ChunkId list option" where
  "collect_physical_descendents_of s cid =
     (if physical_chunk s cid \<noteq> None then Some [cid]
      else case dangling_splits s cid of
             Some split_chunks \<Rightarrow> Some (filter (\<lambda>c. physical_chunk s c \<noteq> None) split_chunks)
           | None \<Rightarrow> map_option (\<lambda>r. case r of None \<Rightarrow> [] | Some c \<Rightarrow> [c]) (find_compacted s cid))"

end
