(* ===== verification/Store_Remove.thy ===== *)
theory Store_Remove
  imports Store_Data
begin

text \<open>
  Adding chunks to and removing them from the indices of a store, and garbage collection
  (\<open>re_chunk_store/src/gc.rs\<close>, parts of \<open>writes.rs\<close> and \<open>query.rs\<close>). A time budget is a predicate
  on the number of steps taken so far that says when the clock has run out.
\<close>

section \<open>The indices of a chunk\<close>

definition time_range_per_component ::
  "'a Chunk \<Rightarrow> (TimelineName \<times> (ComponentIdentifier \<times> AbsoluteTimeRange) list) list" where
  "time_range_per_component c =
     map (\<lambda>(timeline, tc). (timeline, tc_time_range_per_component tc (ch_components c))) (ch_timelines c)"

definition add_ranges ::
  "ChunkId \<Rightarrow> (ComponentIdentifier \<times> AbsoluteTimeRange) list \<Rightarrow> PerComponent \<Rightarrow> PerComponent" where
  "add_ranges cid ranges per_component =
     fold (\<lambda>(component, time_range). im_entry component index_default (index_add time_range cid))
       ranges per_component"

definition add_to_components :: "'a Chunk \<Rightarrow> PerTimelinePerComponent \<Rightarrow> PerTimelinePerComponent" where
  "add_to_components c per_timeline =
     fold (\<lambda>(timeline, ranges). im_entry timeline [] (add_ranges (ch_id c) ranges))
       (time_range_per_component c) per_timeline"

definition add_to_timelines :: "'a Chunk \<Rightarrow> PerTimeline \<Rightarrow> PerTimeline" where
  "add_to_timelines c per_timeline =
     fold (\<lambda>(timeline, tc). im_entry timeline index_default (index_add (tc_time_range tc) (ch_id c)))
       (ch_timelines c) per_timeline"

definition index_temporal_chunk :: "'a Chunk \<Rightarrow> 'a ChunkStore \<Rightarrow> 'a ChunkStore" where
  "index_temporal_chunk c s =
     s\<lparr>temporal_ids_per_component :=
         im_entry (ch_entity_path c) [] (add_to_components c) (temporal_ids_per_component s),
       temporal_ids := im_entry (ch_entity_path c) [] (add_to_timelines c) (temporal_ids s)\<rparr>"

text \<open>Removal only visits entries that exist, and notes whether there were any.\<close>

definition remove_at ::
  "AbsoluteTimeRange \<Rightarrow> ChunkId \<Rightarrow> 'k \<Rightarrow> ('k \<times> ChunkIdSetPerTime) list \<times> bool \<Rightarrow> ('k \<times> ChunkIdSetPerTime) list \<times> bool" where
  "remove_at time_range cid k = (\<lambda>(m, was_removed).
     case map_of m k of
       None \<Rightarrow> (m, was_removed)
     | Some idx \<Rightarrow>
         let (idx, removed) = index_remove time_range cid idx in (im_insert k idx m, was_removed \<or> removed))"

definition remove_from_components ::
  "'a Chunk \<Rightarrow> PerTimelinePerComponent \<times> bool \<Rightarrow> PerTimelinePerComponent \<times> bool" where
  "remove_from_components c =
     fold (\<lambda>(timeline, ranges) (m, was_removed).
       case map_of m timeline of
         None \<Rightarrow> (m, was_removed)
       | Some per_component \<Rightarrow>
           let (per_component, was_removed) =
             fold (\<lambda>(component, time_range). remove_at time_range (ch_id c) component)
               ranges (per_component, was_removed)
           in (im_insert timeline per_component m, was_removed))
     (time_range_per_component c)"

definition remove_from_timelines :: "'a Chunk \<Rightarrow> PerTimeline \<times> bool \<Rightarrow> PerTimeline \<times> bool" where
  "remove_from_timelines c =
     fold (\<lambda>(timeline, tc). remove_at (tc_time_range tc) (ch_id c) timeline) (ch_timelines c)"

definition unindex_chunk :: "'a Chunk \<Rightarrow> 'a ChunkStore \<Rightarrow> 'a ChunkStore \<times> bool" where
  "unindex_chunk c s =
     (let e = ch_entity_path c;
          (s, was_removed) =
            (case map_of (temporal_ids_per_component s) e of
               None \<Rightarrow> (s, False)
             | Some m \<Rightarrow> let (m, b) = remove_from_components c (m, False) in
                 (s\<lparr>temporal_ids_per_component := im_insert e m (temporal_ids_per_component s)\<rparr>, b))
      in case map_of (temporal_ids s) e of
           None \<Rightarrow> (s, was_removed)
         | Some m \<Rightarrow> let (m, b) = remove_from_timelines c (m, was_removed) in
             (s\<lparr>temporal_ids := im_insert e m (temporal_ids s)\<rparr>, b))"

section \<open>Removing chunks\<close>

text \<open>Shallow removal forgets the data and keeps the indices.\<close>

fun shallow_loop ::
  "(nat \<Rightarrow> bool) \<Rightarrow> ('a Chunk \<Rightarrow> nat) \<Rightarrow> nat \<Rightarrow> 'a Chunk list \<Rightarrow> 'a ChunkStore \<Rightarrow> 'a Chunk list \<times> 'a ChunkStore" where
  "shallow_loop exhausted size_of n [] s = ([], s)"
| "shallow_loop exhausted size_of n (chunk # chunks) s =
     (let s = (case row_id_range chunk of
                 None \<Rightarrow> s
               | Some (row_id_min, _) \<Rightarrow>
                   s\<lparr>physical_chunk_ids_per_min_row_id :=
                       bs_remove (row_id_min, ch_id chunk) (physical_chunk_ids_per_min_row_id s)\<rparr>)
      in case physical_chunk s (ch_id chunk) of
           None \<Rightarrow> shallow_loop exhausted size_of n chunks s
         | Some removed \<Rightarrow>
             let s = s\<lparr>physical_chunks_per_chunk_id := om_remove lin_cmp (ch_id chunk) (physical_chunks_per_chunk_id s),
                       temporal_physical_chunks_stats :=
                         stats_sub (temporal_physical_chunks_stats s) (stats_from_chunk size_of removed)\<rparr>
             in if exhausted n then ([removed], s)
                else let (dels, s) = shallow_loop exhausted size_of (n + 1) chunks s in (removed # dels, s))"

definition remove_chunks_shallow ::
  "(nat \<Rightarrow> bool) \<Rightarrow> ('a Chunk \<Rightarrow> nat) \<Rightarrow> 'a Chunk list \<Rightarrow> 'a ChunkStore \<Rightarrow> 'a Chunk list \<times> 'a ChunkStore" where
  "remove_chunks_shallow exhausted size_of chunks s = shallow_loop exhausted size_of 0 chunks s"

text \<open>Deep removal also removes the chunks from the temporal indices, whatever the budget.\<close>

fun deep_loop :: "'a Chunk list \<Rightarrow> 'a ChunkStore \<Rightarrow> 'a Chunk list \<times> 'a ChunkStore" where
  "deep_loop [] s = ([], s)"
| "deep_loop (chunk # chunks) s =
     (let (s, was_removed) = unindex_chunk chunk s;
          (dels, s) = deep_loop chunks s
      in (if was_removed then chunk # dels else dels, s))"

definition remove_chunks_deep ::
  "(nat \<Rightarrow> bool) \<Rightarrow> ('a Chunk \<Rightarrow> nat) \<Rightarrow> 'a Chunk list \<Rightarrow> 'a ChunkStore \<Rightarrow> 'a Chunk list \<times> 'a ChunkStore" where
  "remove_chunks_deep exhausted size_of chunks s =
     deep_loop chunks (snd (remove_chunks_shallow exhausted size_of chunks s))"

section \<open>Garbage collection\<close>

text \<open>A fraction is a floating-point number; \<open>round_fraction\<close> is its product with a size.\<close>

datatype 'p GarbageCollectionTarget = DropAtLeastBytes nat | DropAtLeastFraction 'p | Everything

definition target_bytes_from_size :: "('p \<Rightarrow> nat \<Rightarrow> nat) \<Rightarrow> 'p GarbageCollectionTarget \<Rightarrow> nat \<Rightarrow> nat" where
  "target_bytes_from_size round_fraction target total_size_before =
     (case target of
        DropAtLeastBytes n \<Rightarrow> n
      | DropAtLeastFraction p \<Rightarrow> round_fraction p total_size_before
      | Everything \<Rightarrow> 2 ^ 64 - 1)"

record 'p GarbageCollectionOptions =
  gc_target :: "'p GarbageCollectionTarget"
  protect_latest :: nat
  protected_time_ranges :: "(TimelineName \<times> AbsoluteTimeRange) list"
  protected_chunks :: "ChunkId list"
  furthest_from :: "(TimelineName \<times> TimeInt) option"
  perform_deep_deletions :: bool

definition gc_everything :: "'p GarbageCollectionOptions" where
  "gc_everything = \<lparr>gc_target = Everything, protect_latest = 0, protected_time_ranges = [],
     protected_chunks = [], furthest_from = None, perform_deep_deletions = False\<rparr>"

definition is_chunk_protected :: "'p GarbageCollectionOptions \<Rightarrow> 'a Chunk \<Rightarrow> bool" where
  "is_chunk_protected options chunk \<longleftrightarrow> ch_id chunk \<in> set (protected_chunks options)
     \<or> list_ex (\<lambda>(timeline, protected_range).
          case map_of (ch_timelines chunk) timeline of
            None \<Rightarrow> False | Some tc \<Rightarrow> range_intersects (tc_time_range tc) protected_range)
        (protected_time_ranges options)"

text \<open>The distance of a chunk from a time: of the closest of its times, found by bisection when
  the times are in order.\<close>

definition nth_option :: "nat \<Rightarrow> 'a list \<Rightarrow> 'a option" where
  "nth_option i xs = (if i < length xs then Some (xs ! i) else None)"

definition u64_iter_min :: "u64 list \<Rightarrow> u64 option" where
  "u64_iter_min ds = (case ds of [] \<Rightarrow> None | d # ds \<Rightarrow> Some (fold min ds d))"

definition time_distance :: "TimeInt \<Rightarrow> TimeColumn \<Rightarrow> u64 option" where
  "time_distance time tc =
     (if tc_is_sorted tc then
        let pivot = partition_point (\<lambda>t. sint t < sint (as_i64 time)) (tc_times tc);
            min_value1 = map_option (\<lambda>t. abs_diff_i64 t (as_i64 time)) (nth_option (pivot - 1) (tc_times tc));
            min_value2 = map_option (\<lambda>t. abs_diff_i64 t (as_i64 time)) (nth_option pivot (tc_times tc))
        in u64_iter_min (List.map_filter (\<lambda>d. d) [min_value1, min_value2])
      else u64_iter_min (map (\<lambda>t. abs_diff_i64 (as_i64 (new_temporal t)) (as_i64 time)) (tc_times tc)))"

definition time_distance_slow :: "TimeInt \<Rightarrow> TimeColumn \<Rightarrow> u64 option" where
  "time_distance_slow time tc =
     u64_iter_min (map (\<lambda>t. abs_diff_i64 (as_i64 (new_temporal t)) (as_i64 time)) (tc_times tc))"

definition chunks_furthest_by ::
  "(TimeColumn \<Rightarrow> u64 option) \<Rightarrow> TimelineName \<Rightarrow> 'a ChunkStore \<Rightarrow> 'a Chunk list" where
  "chunks_furthest_by dist timeline s =
     map fst (sort_key (\<lambda>(_, d). - uint d)
       (List.map_filter (\<lambda>chunk.
          case map_of (ch_timelines chunk) timeline of
            None \<Rightarrow> None | Some tc \<Rightarrow> map_option (\<lambda>d. (chunk, d)) (dist tc))
        (physical_chunks s)))"

definition find_temporal_chunks_furthest_from :: "TimelineName \<Rightarrow> TimeInt \<Rightarrow> 'a ChunkStore \<Rightarrow> 'a Chunk list" where
  "find_temporal_chunks_furthest_from timeline time s = chunks_furthest_by (time_distance time) timeline s"

definition find_temporal_chunks_furthest_from_slow :: "TimelineName \<Rightarrow> TimeInt \<Rightarrow> 'a ChunkStore \<Rightarrow> 'a Chunk list" where
  "find_temporal_chunks_furthest_from_slow timeline time s = chunks_furthest_by (time_distance_slow time) timeline s"

definition find_all_protected_physical_chunk_ids :: "nat \<Rightarrow> 'a ChunkStore \<Rightarrow> ChunkId set" where
  "find_all_protected_physical_chunk_ids target_count s =
     (if target_count = 0 then {}
      else set (concat (map (\<lambda>(_, per_timeline). concat (map (\<lambda>(_, per_component).
        concat (map (\<lambda>(_, idx).
          take target_count (filter (\<lambda>cid. physical_chunk s cid \<noteq> None)
            (concat (map snd (rev (per_start_time idx))) @ concat (map snd (rev (per_end_time idx))))))
        per_component)) per_timeline)) (temporal_ids_per_component s))))"

text \<open>Picking chunks until the target or the end of the budget is reached.\<close>

fun mark_loop ::
  "(nat \<Rightarrow> bool) \<Rightarrow> ('a Chunk \<Rightarrow> nat) \<Rightarrow> nat \<Rightarrow> nat \<Rightarrow> nat \<Rightarrow> 'a Chunk list \<Rightarrow> 'a Chunk list \<times> nat \<times> bool" where
  "mark_loop exhausted size_of target n dropped [] = ([], dropped, False)"
| "mark_loop exhausted size_of target n dropped (chunk # chunks) =
     (let dropped = dropped + size_of chunk in
      if exhausted n \<or> target \<le> dropped then ([chunk], dropped, True)
      else let (marked, dropped, stop) = mark_loop exhausted size_of target (n + 1) dropped chunks
           in (chunk # marked, dropped, stop))"

definition gc_find_candidates ::
  "(nat \<Rightarrow> bool) \<Rightarrow> ('a Chunk \<Rightarrow> nat) \<Rightarrow> 'p GarbageCollectionOptions \<Rightarrow> nat \<Rightarrow> 'a ChunkStore \<Rightarrow> 'a Chunk list" where
  "gc_find_candidates exhausted size_of options target s =
     (if target = 0 then []
      else
        let (marked, dropped, stop) =
              (case furthest_from options of
                 None \<Rightarrow> ([], 0, False)
               | Some (timeline, time) \<Rightarrow>
                   mark_loop (\<lambda>_. False) size_of target 0 0
                     (filter (\<lambda>c. \<not> is_chunk_protected options c)
                       (find_temporal_chunks_furthest_from timeline time s)))
        in if stop then marked
           else if dropped < target then
             let protected_ids = find_all_protected_physical_chunk_ids (protect_latest options) s;
                 candidates = filter (\<lambda>c. \<not> is_chunk_protected options c)
                   (filter (\<lambda>c. \<not> chunk_is_static c)
                     (List.map_filter (physical_chunk s)
                       (filter (\<lambda>cid. cid \<notin> protected_ids)
                         (map snd (physical_chunk_ids_per_min_row_id s)))));
                 (marked', _, _) = mark_loop exhausted size_of target 0 dropped candidates
             in marked @ marked'
           else marked)"

text \<open>The budgets of the two removals are given; a chunk that is not a root cannot come back and
  is removed deeply in any case.\<close>

definition gc_drop_at_least_num_bytes ::
  "(nat \<Rightarrow> bool) \<Rightarrow> (nat \<Rightarrow> bool) \<Rightarrow> (nat \<Rightarrow> bool) \<Rightarrow> ('a Chunk \<Rightarrow> nat) \<Rightarrow> 'p GarbageCollectionOptions \<Rightarrow> nat \<Rightarrow>
     'a ChunkStore \<Rightarrow> 'a ChunkStoreDiff list \<times> 'a ChunkStore" where
  "gc_drop_at_least_num_bytes mark_budget shallow_budget deep_budget size_of options target s =
     (let chunks = gc_find_candidates mark_budget size_of options target s;
          (deep, shallow) =
            (if perform_deep_deletions options then (chunks, [])
             else (filter (\<lambda>c. \<not> is_root_chunk s (ch_id c)) chunks, filter (\<lambda>c. is_root_chunk s (ch_id c)) chunks));
          (dels1, s) = remove_chunks_shallow shallow_budget size_of shallow s;
          (dels2, s) = remove_chunks_deep deep_budget size_of deep s
      in (map (\<lambda>c. Deletion c GarbageCollection) (dels1 @ dels2), s))"

definition store_gc ::
  "('p \<Rightarrow> nat \<Rightarrow> nat) \<Rightarrow> (nat \<Rightarrow> bool) \<Rightarrow> (nat \<Rightarrow> bool) \<Rightarrow> (nat \<Rightarrow> bool) \<Rightarrow> ('a Chunk \<Rightarrow> nat) \<Rightarrow>
     'p GarbageCollectionOptions \<Rightarrow> 'a ChunkStore \<Rightarrow> 'a ChunkStoreEvent list \<times> 'a ChunkStore" where
  "store_gc round_fraction mark_budget shallow_budget deep_budget size_of options s =
     (let s = s\<lparr>gc_id := gc_id s + 1\<rparr>;
          target = target_bytes_from_size round_fraction (gc_target options)
                     (unat (stat_total_size_bytes (store_stats_total s)));
          (diffs, s) = gc_drop_at_least_num_bytes mark_budget shallow_budget deep_budget size_of options target s
      in finalize_events diffs s)"

section \<open>Dropping an entity\<close>

definition forget_min_row_id :: "ChunkId \<Rightarrow> 'a ChunkStore \<Rightarrow> 'a ChunkStore" where
  "forget_min_row_id cid s =
     (case Option.bind (physical_chunk s cid) row_id_range of
        None \<Rightarrow> s
      | Some (min_row_id, _) \<Rightarrow>
          s\<lparr>physical_chunk_ids_per_min_row_id :=
              bs_remove (min_row_id, cid) (physical_chunk_ids_per_min_row_id s)\<rparr>)"

text \<open>Removing physical chunks by id, with an update of the statistics for each.\<close>

definition drop_physical ::
  "('a Chunk \<Rightarrow> 'a ChunkStore \<Rightarrow> 'a ChunkStore) \<Rightarrow> ChunkId list \<Rightarrow> 'a ChunkStore \<Rightarrow> 'a Chunk list \<times> 'a ChunkStore" where
  "drop_physical on_drop ids s =
     fold (\<lambda>cid (dropped, s).
       case physical_chunk s cid of
         None \<Rightarrow> (dropped, s)
       | Some c \<Rightarrow>
           (dropped @ [c], on_drop c
              (s\<lparr>physical_chunks_per_chunk_id := om_remove lin_cmp cid (physical_chunks_per_chunk_id s)\<rparr>)))
     ids ([], s)"

definition drop_entity_path :: "('a Chunk \<Rightarrow> nat) \<Rightarrow> rstr list \<Rightarrow> 'a ChunkStore \<Rightarrow> 'a ChunkStoreEvent list \<times> 'a ChunkStore" where
  "drop_entity_path size_of e s =
     (let s = s\<lparr>gc_id := gc_id s + 1\<rparr>;
          static_ids = fold bs_insert
            (map snd (case map_of (static_chunk_ids_per_entity s) e of None \<Rightarrow> [] | Some m \<Rightarrow> m)) [];
          s = s\<lparr>static_chunk_ids_per_entity := im_remove e (static_chunk_ids_per_entity s)\<rparr>;
          s = fold forget_min_row_id static_ids s;
          ids = fold bs_insert
            (concat (map (\<lambda>(_, idx). concat (map snd (per_start_time idx)))
              (case map_of (temporal_ids s) e of None \<Rightarrow> [] | Some m \<Rightarrow> m))) [];
          s = s\<lparr>temporal_ids_per_component := im_remove e (temporal_ids_per_component s),
                temporal_ids := im_remove e (temporal_ids s)\<rparr>;
          s = fold forget_min_row_id ids s;
          (dropped_static, s) = drop_physical (\<lambda>c s.
            s\<lparr>static_chunks_stats := stats_sub (static_chunks_stats s) (stats_from_chunk size_of c)\<rparr>) static_ids s;
          (dropped_temporal, s) = drop_physical (\<lambda>c s.
            s\<lparr>temporal_physical_chunks_stats := stats_sub (temporal_physical_chunks_stats s) (stats_from_chunk size_of c)\<rparr>) ids s
      in finalize_events (map (\<lambda>c. Deletion c ExplicitDrop) (dropped_static @ dropped_temporal)) s)"

end
