(* ===== verification/Store_Write.thy ===== *)
theory Store_Write
  imports Store_Remove
begin

text \<open>
  Insertion into a chunk store (\<open>re_chunk_store/src/writes.rs\<close>): virtual insertion of a manifest,
  physical insertion of a chunk with splitting on the way in and compaction with a neighbour, and
  the removal of a time range (\<open>drop_time_range.rs\<close>).

  Fresh chunk ids come from the supply \<open>ids\<close>, whose position is passed along. The iteration order
  of the hash map of compaction candidates is the parameter \<open>hash_order\<close>. The functions model a
  release build; a loop that does not end has no result.
\<close>

section \<open>Virtual insertion\<close>

definition insert_rrd_manifest :: "RrdManifest \<Rightarrow> 'a ChunkStore \<Rightarrow> 'a ChunkStoreEvent list \<times> 'a ChunkStore" where
  "insert_rrd_manifest manifest s =
     (let static_ids = concat (map (\<lambda>(_, m). map snd m) (static_map manifest));
          temporal_entries = concat (map (\<lambda>(_, m). concat (map (\<lambda>(_, m). concat (map (\<lambda>(_, m). m) m)) m))
            (temporal_map manifest));
          lineage = chunks_lineage s ++ map_of (map (\<lambda>cid. (cid, RootFromManifest True)) static_ids);
          lineage = lineage ++ map_of (map (\<lambda>(cid, _). (cid, RootFromManifest False)) temporal_entries);
          s = s\<lparr>chunks_lineage := lineage,
                static_chunk_ids_per_entity :=
                  fold (\<lambda>(e, per_component). im_entry e [] (fold (\<lambda>(k, cid). im_insert k cid) per_component))
                    (static_map manifest) (static_chunk_ids_per_entity s)\<rparr>;
          s = fold (\<lambda>(e, per_timeline) s.
            fold (\<lambda>(timeline, per_component) s.
              fold (\<lambda>(component, per_chunk) s.
                fold (\<lambda>(cid, entry) s.
                  s\<lparr>temporal_ids_per_component :=
                      im_entry e [] (im_entry (tl_name timeline) []
                        (im_entry component index_default (index_add (me_time_range entry) cid)))
                        (temporal_ids_per_component s),
                    temporal_ids :=
                      im_entry e [] (im_entry (tl_name timeline) index_default (index_add (me_time_range entry) cid))
                        (temporal_ids s)\<rparr>)
                per_chunk s)
              per_component s)
            per_timeline s)
          (temporal_map manifest) s
      in finalize_events [VirtualAddition manifest] s)"

section \<open>Compaction candidates\<close>

definition below_thresholds :: "ChunkStoreConfig \<Rightarrow> bool \<Rightarrow> nat \<Rightarrow> nat \<Rightarrow> bool" where
  "below_thresholds cfg time_sorted total_bytes total_rows \<longleftrightarrow> total_bytes \<le> cfg_max_bytes cfg
     \<and> total_rows \<le> (if time_sorted then cfg_max_rows cfg else cfg_max_rows_if_unsorted cfg)"

definition candidate_points :: "('a Chunk \<Rightarrow> nat) \<Rightarrow> 'a ChunkStore \<Rightarrow> 'a Chunk \<Rightarrow> ChunkId \<Rightarrow> nat" where
  "candidate_points size_of s chunk candidate_id =
     (case physical_chunk s candidate_id of
        None \<Rightarrow> 0
      | Some cand \<Rightarrow>
          if ch_id chunk = candidate_id then 0
          else if \<not> concatenable chunk cand then 0
          else if descends_from_a_split s candidate_id then 0
          else if below_thresholds (st_config s) (is_time_sorted cand)
                    (size_of chunk + size_of cand) (num_rows chunk + num_rows cand)
               then num_rows cand
          else 0)"

text \<open>The chunks that start last before the interval, first after it, or with it (twice).\<close>

definition neighbours :: "AbsoluteTimeRange \<Rightarrow> ChunkIdSetPerTime \<Rightarrow> (ChunkId \<times> nat) list" where
  "neighbours time_range idx =
     (case rev (filter (\<lambda>(t, _). t < range_min time_range) (per_start_time idx)) of
        [] \<Rightarrow> [] | (_, s) # _ \<Rightarrow> map (\<lambda>cid. (cid, 1)) s)
     @ (case filter (\<lambda>(t, _). time_inc (range_max time_range) \<le> t) (per_start_time idx) of
          [] \<Rightarrow> [] | (_, s) # _ \<Rightarrow> map (\<lambda>cid. (cid, 1)) s)
     @ (case om_get lin_cmp (per_start_time idx) (range_min time_range) of
          None \<Rightarrow> [] | Some s \<Rightarrow> map (\<lambda>cid. (cid, 2)) s)"

definition find_and_elect_compaction_candidate ::
  "((ChunkId \<times> nat) list \<Rightarrow> (ChunkId \<times> nat) list) \<Rightarrow> ('a Chunk \<Rightarrow> nat) \<Rightarrow> 'a ChunkStore \<Rightarrow> 'a Chunk \<Rightarrow> 'a Chunk option" where
  "find_and_elect_compaction_candidate hash_order size_of s chunk =
     (if descends_from_a_split s (ch_id chunk) then None
      else if \<not> below_thresholds (st_config s) (is_time_sorted chunk) (size_of chunk) (num_rows chunk) then None
      else case map_of (temporal_ids_per_component s) (ch_entity_path chunk) of
        None \<Rightarrow> None
      | Some per_timeline \<Rightarrow>
          let visits = concat (map (\<lambda>(timeline, ranges).
                case map_of per_timeline timeline of
                  None \<Rightarrow> []
                | Some per_component \<Rightarrow>
                    concat (map (\<lambda>(component, time_range).
                      case map_of per_component component of
                        None \<Rightarrow> [] | Some idx \<Rightarrow> neighbours time_range idx) ranges))
                (time_range_per_component chunk));
              candidates = fold (\<lambda>(cid, weight). im_entry cid 0 (\<lambda>p. p + candidate_points size_of s chunk cid * weight))
                visits [];
              candidates = rev (sort_key snd (hash_order candidates))
          in (case List.map_filter (physical_chunk s) (map fst (filter (\<lambda>(_, points). 0 < points) candidates)) of
                [] \<Rightarrow> None | c # _ \<Rightarrow> Some c))"

section \<open>Splitting on the way in\<close>

definition split_config :: "ChunkStoreConfig \<Rightarrow> ChunkSplitConfig" where
  "split_config cfg = \<lparr>chunk_max_bytes = cfg_max_bytes cfg, chunk_max_rows = cfg_max_rows cfg,
     chunk_max_rows_if_unsorted = cfg_max_rows_if_unsorted cfg\<rparr>"

definition split_once ::
  "keeps_bitmap \<Rightarrow> ('a Chunk \<Rightarrow> nat) \<Rightarrow> (nat \<Rightarrow> ChunkId) \<Rightarrow> 'a ChunkStore \<Rightarrow> nat \<Rightarrow> 'a Chunk \<Rightarrow> nat \<times> 'a Chunk list" where
  "split_once kb size_of ids s n chunk =
     (let pieces = split_chunk_if_needed kb (\<lambda>k. ids (n + k)) (split_config (st_config s)) (size_of chunk) chunk
      in (n + length pieces, pieces))"

fun split_pass ::
  "keeps_bitmap \<Rightarrow> ('a Chunk \<Rightarrow> nat) \<Rightarrow> (nat \<Rightarrow> ChunkId) \<Rightarrow> 'a ChunkStore \<Rightarrow> nat \<Rightarrow> 'a Chunk list \<Rightarrow>
     (nat \<times> 'a Chunk list) option" where
  "split_pass kb size_of ids s n [] = Some (n, [])"
| "split_pass kb size_of ids s n (chunk # chunks) =
     Option.bind (descends_from_a_compaction s (ch_id chunk)) (\<lambda>compacted.
       let (n, pieces) = (if compacted then (n, []) else split_once kb size_of ids s n chunk) in
       Option.bind (split_pass kb size_of ids s n chunks) (\<lambda>(n, rest). Some (n, pieces @ rest)))"

partial_function (option) split_passes ::
  "keeps_bitmap \<Rightarrow> ('a Chunk \<Rightarrow> nat) \<Rightarrow> (nat \<Rightarrow> ChunkId) \<Rightarrow> 'a ChunkStore \<Rightarrow> nat \<Rightarrow> 'a Chunk list \<Rightarrow>
     (nat \<times> 'a Chunk list) option" where
  "split_passes kb size_of ids s n chunks =
     Option.bind (split_pass kb size_of ids s n chunks) (\<lambda>(n, chunks').
       if length chunks' = length chunks then Some (n, chunks')
       else split_passes kb size_of ids s n chunks')"

section \<open>Physical insertion\<close>

datatype ChunkStoreError = UnsortedChunk | ChunkStoreChunkError ChunkError

text \<open>A static chunk takes over each component for which it has the newest row. The second part
  of the state collects the chunks that lost a component, with their smallest row id.\<close>

definition static_step ::
  "'a Chunk \<Rightarrow> ComponentIdentifier \<times> 'a ComponentColumn \<Rightarrow> 'a ChunkStore \<times> (ChunkId \<times> RowId) list \<Rightarrow>
     'a ChunkStore \<times> (ChunkId \<times> RowId) list" where
  "static_step chunk = (\<lambda>(component, column) (s, overwritten).
     let la = cc_list_array column in
     if la_nulls la \<and> la_len la = 0 then (s, overwritten)
     else case map_of (row_id_range_per_component chunk) component of
       None \<Rightarrow> (s, overwritten)
     | Some (_, row_id_max) \<Rightarrow>
         let e = ch_entity_path chunk;
             per_component = (case map_of (static_chunk_ids_per_entity s) e of None \<Rightarrow> [] | Some m \<Rightarrow> m);
             put = (\<lambda>cid. s\<lparr>static_chunk_ids_per_entity :=
               im_insert e (im_insert component cid per_component) (static_chunk_ids_per_entity s)\<rparr>)
         in case map_of per_component component of
              None \<Rightarrow> (put (ch_id chunk), overwritten)
            | Some cur \<Rightarrow>
                let cur_max = (case physical_chunk s cur of
                      None \<Rightarrow> tuid_ZERO
                    | Some c \<Rightarrow> (case map_of (row_id_range_per_component c) component of
                        None \<Rightarrow> tuid_ZERO | Some (_, m) \<Rightarrow> m))
                in if cur_max < row_id_max then
                     (put (ch_id chunk),
                      case Option.bind (physical_chunk s cur) row_id_range of
                        None \<Rightarrow> overwritten
                      | Some (row_id_min, _) \<Rightarrow> im_insert cur row_id_min overwritten)
                   else (s, overwritten))"

definition drop_overwritten ::
  "('a Chunk \<Rightarrow> nat) \<Rightarrow> rstr list \<Rightarrow> ChunkId \<times> RowId \<Rightarrow> 'a ChunkStore \<times> 'a ChunkStoreDiff list \<Rightarrow>
     'a ChunkStore \<times> 'a ChunkStoreDiff list" where
  "drop_overwritten size_of e = (\<lambda>(cid, row_id_min) (s, diffs).
     if cid \<in> snd ` set (case map_of (static_chunk_ids_per_entity s) e of None \<Rightarrow> [] | Some m \<Rightarrow> m)
     then (s, diffs)
     else
       let s = s\<lparr>physical_chunk_ids_per_min_row_id :=
                   bs_remove (row_id_min, cid) (physical_chunk_ids_per_min_row_id s)\<rparr>
       in case physical_chunk s cid of
            None \<Rightarrow> (s, diffs)
          | Some c \<Rightarrow>
              (s\<lparr>physical_chunks_per_chunk_id := om_remove lin_cmp cid (physical_chunks_per_chunk_id s),
                 static_chunks_stats := stats_sub (static_chunks_stats s) (stats_from_chunk size_of c)\<rparr>,
               diffs @ [Deletion c Overwrite]))"

definition insert_static ::
  "('a Chunk \<Rightarrow> nat) \<Rightarrow> 'a Chunk \<Rightarrow> 'a ChunkDirectLineageReport \<Rightarrow> 'a ChunkStore \<Rightarrow> 'a ChunkStore \<times> 'a ChunkStoreDiff list" where
  "insert_static size_of chunk lineage s =
     (let (s, overwritten) = fold (static_step chunk) (ch_components chunk) (s, []);
          s = s\<lparr>static_chunks_stats := stats_add (static_chunks_stats s) (stats_from_chunk size_of chunk)\<rparr>
      in fold (drop_overwritten size_of (ch_entity_path chunk)) overwritten
           (s, [diff_addition chunk chunk lineage]))"

text \<open>A temporal chunk, or its compaction with the elected neighbour, enters the indices; the
  elected chunk leaves them.\<close>

definition note_compaction :: "ChunkId list \<Rightarrow> ChunkId \<Rightarrow> 'a ChunkStore \<Rightarrow> 'a ChunkStore" where
  "note_compaction sources cid s =
     s\<lparr>leaky_compactions := leaky_compactions s ++ map_of (map (\<lambda>source. (source, cid)) sources)\<rparr>"

definition insert_temporal ::
  "((ChunkId \<times> nat) list \<Rightarrow> (ChunkId \<times> nat) list) \<Rightarrow> keeps_bitmap \<Rightarrow> ('a Chunk \<Rightarrow> nat) \<Rightarrow> ChunkId \<Rightarrow>
     'a Chunk \<Rightarrow> 'a ChunkDirectLineageReport \<Rightarrow> 'a ChunkStore \<Rightarrow>
     ChunkStoreError + 'a ChunkStore \<times> 'a Chunk \<times> 'a ChunkDirectLineageReport" where
  "insert_temporal hash_order kb size_of new_id chunk lineage s =
     (let elected = find_and_elect_compaction_candidate hash_order size_of s chunk in
      bind_res (case elected of
          None \<Rightarrow> Inr chunk
        | Some e \<Rightarrow> (case concat_and_sort False kb new_id e chunk of
            Inl err \<Rightarrow> Inl (ChunkStoreChunkError err) | Inr c \<Rightarrow> Inr c))
        (\<lambda>chunk_or_compacted.
          let s = index_temporal_chunk chunk_or_compacted s;
              s = s\<lparr>temporal_physical_chunks_stats :=
                      stats_add (temporal_physical_chunks_stats s) (stats_from_chunk size_of chunk_or_compacted)\<rparr>
          in case elected of
               None \<Rightarrow> Inr (s, chunk_or_compacted, lineage)
             | Some e \<Rightarrow>
                 let (dels, s) = remove_chunks_deep (\<lambda>_. False) size_of [e] s;
                     srcs = om_extend lin_cmp [] ((ch_id chunk, chunk) # map (\<lambda>c. (ch_id c, c)) dels)
                 in Inr (note_compaction (map fst srcs) (ch_id chunk_or_compacted) s,
                         chunk_or_compacted, CompactedFromReport srcs)))"

text \<open>The part of an insertion after the decision not to split.\<close>

definition finish_insertion ::
  "'a Chunk \<Rightarrow> 'a ChunkDirectLineageReport \<Rightarrow> 'a ChunkStore \<Rightarrow> 'a ChunkStore" where
  "finish_insertion chunk lineage s =
     (let s = s\<lparr>physical_chunks_per_chunk_id :=
                  om_insert lin_cmp (ch_id chunk) chunk (physical_chunks_per_chunk_id s)\<rparr>;
          s = (case lineage of
                 CompactedFromReport _ \<Rightarrow>
                   s\<lparr>chunks_lineage := (chunks_lineage s)(ch_id chunk \<mapsto> lineage_of_report lineage)\<rparr>
               | _ \<Rightarrow> s)
      in case row_id_range chunk of
           None \<Rightarrow> s
         | Some (min_row_id, _) \<Rightarrow>
             s\<lparr>physical_chunk_ids_per_min_row_id :=
                 bs_insert (min_row_id, ch_id chunk) (physical_chunk_ids_per_min_row_id s)\<rparr>)"

definition insert_whole ::
  "((ChunkId \<times> nat) list \<Rightarrow> (ChunkId \<times> nat) list) \<Rightarrow> keeps_bitmap \<Rightarrow> ('a Chunk \<Rightarrow> nat) \<Rightarrow> ChunkId \<Rightarrow>
     'a Chunk \<Rightarrow> 'a ChunkDirectLineageReport \<Rightarrow> 'a ChunkStore \<Rightarrow>
     'a ChunkStore \<times> (ChunkStoreError + 'a ChunkStoreDiff list)" where
  "insert_whole hash_order kb size_of new_id chunk lineage s =
     (let s = s\<lparr>insert_id := insert_id s + 1\<rparr> in
      if chunk_is_static chunk then
        let (s, diffs) = insert_static size_of chunk lineage s
        in (finish_insertion chunk lineage s, Inr diffs)
      else case insert_temporal hash_order kb size_of new_id chunk lineage s of
             Inl err \<Rightarrow> (s, Inl err)
           | Inr (s, after, direct_lineage) \<Rightarrow>
               (finish_insertion after direct_lineage s, Inr [diff_addition chunk after direct_lineage]))"

text \<open>A result is the position in the supply of ids, the store and the diffs or an error.\<close>

type_synonym 'a inserted = "nat \<times> 'a ChunkStore \<times> (ChunkStoreError + 'a ChunkStoreDiff list)"

definition with_parent :: "'a Chunk \<Rightarrow> 'a ChunkStoreDiff \<Rightarrow> 'a ChunkStoreDiff" where
  "with_parent parent d = (case d of Addition a \<Rightarrow> Addition (a\<lparr>chunk_before_processing := parent\<rparr>) | _ \<Rightarrow> d)"

text \<open>The pieces of a split enter one by one; \<open>insert_rec\<close> is the recursive call.\<close>

fun insert_pieces ::
  "(nat \<Rightarrow> 'a Chunk \<Rightarrow> 'a ChunkDirectLineageReport \<Rightarrow> 'a ChunkStore \<Rightarrow> 'a inserted option) \<Rightarrow>
     'a Chunk \<Rightarrow> 'a Chunk list \<Rightarrow> 'a Chunk list \<Rightarrow> 'a ChunkStoreDiff list \<Rightarrow> nat \<Rightarrow> 'a ChunkStore \<Rightarrow> 'a inserted option" where
  "insert_pieces insert_rec parent all [] diffs n s = Some (n, s, Inr diffs)"
| "insert_pieces insert_rec parent all (piece # pieces) diffs n s =
     Option.bind
       (insert_rec n piece (SplitFromReport parent (filter (\<lambda>c. ch_id c \<noteq> ch_id piece) all)) s)
       (\<lambda>(n, s, r). case r of
          Inl err \<Rightarrow> Some (n, s, Inl err)
        | Inr ds \<Rightarrow> insert_pieces insert_rec parent all pieces (diffs @ map (with_parent parent) ds) n s)"

text \<open>What happens to earlier copies of a chunk before it is inserted: the entries of a virtual
  chunk and the pieces of an earlier split go.\<close>

definition remove_virtual :: "('a Chunk \<Rightarrow> nat) \<Rightarrow> 'a Chunk \<Rightarrow> 'a ChunkStore \<Rightarrow> 'a ChunkStoreDiff list \<times> 'a ChunkStore" where
  "remove_virtual size_of chunk s =
     (case chunks_lineage s (ch_id chunk) of
        Some (RootFromManifest _) \<Rightarrow>
          let (dels, s) = remove_chunks_deep (\<lambda>_. False) size_of [chunk] s
          in (map (\<lambda>c. Deletion c VirtualToPhysicalReplacement) dels, s)
      | _ \<Rightarrow> ([], s))"

definition remove_dangling_splits :: "('a Chunk \<Rightarrow> nat) \<Rightarrow> 'a Chunk \<Rightarrow> 'a ChunkStore \<Rightarrow> 'a ChunkStoreDiff list \<times> 'a ChunkStore" where
  "remove_dangling_splits size_of chunk s =
     (case dangling_splits s (ch_id chunk) of
        None \<Rightarrow> ([], s)
      | Some split_chunk_ids \<Rightarrow>
          let s = s\<lparr>dangling_splits := (dangling_splits s)(ch_id chunk := None)\<rparr>;
              (dels, s) = remove_chunks_deep (\<lambda>_. False) size_of
                (List.map_filter (physical_chunk s) split_chunk_ids) s
          in (map (\<lambda>c. Deletion c DanglingSplitCleanup) dels, s))"

definition note_lineage :: "'a Chunk \<Rightarrow> 'a ChunkDirectLineageReport \<Rightarrow> 'a ChunkStore \<Rightarrow> 'a ChunkStore" where
  "note_lineage chunk lineage s =
     (if chunks_lineage s (ch_id chunk) \<noteq> None then s
      else s\<lparr>chunks_lineage := (chunks_lineage s)(ch_id chunk \<mapsto> lineage_of_report lineage)\<rparr>)"

definition note_split :: "'a Chunk \<Rightarrow> 'a Chunk list \<Rightarrow> 'a ChunkStore \<Rightarrow> 'a ChunkStore" where
  "note_split chunk pieces s =
     s\<lparr>dangling_splits := (dangling_splits s)(ch_id chunk \<mapsto> map ch_id pieces),
       split_on_ingest := insert (ch_id chunk) (split_on_ingest s)\<rparr>"

definition insert_body ::
  "((ChunkId \<times> nat) list \<Rightarrow> (ChunkId \<times> nat) list) \<Rightarrow> keeps_bitmap \<Rightarrow> ('a Chunk \<Rightarrow> nat) \<Rightarrow> (nat \<Rightarrow> ChunkId) \<Rightarrow>
     (nat \<Rightarrow> 'a Chunk \<Rightarrow> 'a ChunkDirectLineageReport \<Rightarrow> 'a ChunkStore \<Rightarrow> 'a inserted option) \<Rightarrow>
     nat \<Rightarrow> 'a Chunk \<Rightarrow> 'a ChunkDirectLineageReport \<Rightarrow> 'a ChunkStore \<Rightarrow> 'a inserted option" where
  "insert_body hash_order kb size_of ids insert_rec n chunk lineage s =
     (if chunk_is_empty chunk \<or> ch_components chunk = [] then Some (n, s, Inr [])
      else if physical_chunk s (ch_id chunk) \<noteq> None then Some (n, s, Inr [])
      else if \<not> ch_is_sorted chunk then Some (n, s, Inl UnsortedChunk)
      else Option.bind (find_compacted s (ch_id chunk)) (\<lambda>already.
        if already \<noteq> None then Some (n, s, Inr [])
        else
          let (diffs1, s) = remove_virtual size_of chunk s;
              (diffs2, s) = remove_dangling_splits size_of chunk s;
              s = note_lineage chunk lineage s;
              whole = (\<lambda>n. case insert_whole hash_order kb size_of (ids n) chunk lineage s of
                (s, r) \<Rightarrow> Some (n + 1, s, map_sum (\<lambda>e. e) (\<lambda>ds. diffs1 @ diffs2 @ ds) r))
          in Option.bind (descends_from_a_compaction s (ch_id chunk)) (\<lambda>compacted.
            if \<not> chunk_is_static chunk \<and> \<not> descends_from_a_split s (ch_id chunk) \<and> \<not> compacted then
              let (n, pieces) = split_once kb size_of ids s n chunk in
              Option.bind (split_passes kb size_of ids s n pieces) (\<lambda>(n, pieces).
                if 1 < length pieces
                then insert_pieces insert_rec chunk pieces pieces (diffs1 @ diffs2) n (note_split chunk pieces s)
                else whole n)
            else whole n)))"

text \<open>The recursion is two deep, because a piece of a split is not split again; the fuel bounds it.\<close>

fun insert_chunk_impl ::
  "((ChunkId \<times> nat) list \<Rightarrow> (ChunkId \<times> nat) list) \<Rightarrow> keeps_bitmap \<Rightarrow> ('a Chunk \<Rightarrow> nat) \<Rightarrow> (nat \<Rightarrow> ChunkId) \<Rightarrow>
     nat \<Rightarrow> nat \<Rightarrow> 'a Chunk \<Rightarrow> 'a ChunkDirectLineageReport \<Rightarrow> 'a ChunkStore \<Rightarrow> 'a inserted option" where
  "insert_chunk_impl hash_order kb size_of ids 0 n chunk lineage s = None"
| "insert_chunk_impl hash_order kb size_of ids (Suc fuel) n chunk lineage s =
     insert_body hash_order kb size_of ids (insert_chunk_impl hash_order kb size_of ids fuel) n chunk lineage s"

definition insert_chunk ::
  "((ChunkId \<times> nat) list \<Rightarrow> (ChunkId \<times> nat) list) \<Rightarrow> keeps_bitmap \<Rightarrow> ('a Chunk \<Rightarrow> nat) \<Rightarrow> (nat \<Rightarrow> ChunkId) \<Rightarrow>
     nat \<Rightarrow> 'a Chunk \<Rightarrow> 'a ChunkStore \<Rightarrow> (nat \<times> 'a ChunkStore \<times> (ChunkStoreError + 'a ChunkStoreEvent list)) option" where
  "insert_chunk hash_order kb size_of ids n chunk s =
     (if \<not> is_root_chunk s (ch_id chunk) then Some (n, s, Inr [])
      else Option.bind (insert_chunk_impl hash_order kb size_of ids 2 n chunk VolatileReport s)
        (\<lambda>(n, s, r). case r of
           Inl err \<Rightarrow> Some (n, s, Inl err)
         | Inr diffs \<Rightarrow> let (events, s) = finalize_events diffs s in Some (n, s, Inr events)))"

section \<open>Dropping a time range\<close>

text \<open>What a chunk contributes: whether it goes, and the parts of it that stay.\<close>

definition plan_drop ::
  "keeps_bitmap \<Rightarrow> (nat \<Rightarrow> ChunkId) \<Rightarrow> TimelineName \<Rightarrow> AbsoluteTimeRange \<Rightarrow> 'a Chunk \<Rightarrow>
     nat \<times> 'a Chunk list \<times> 'a Chunk list \<Rightarrow> nat \<times> 'a Chunk list \<times> 'a Chunk list" where
  "plan_drop kb ids timeline drop_range chunk = (\<lambda>(n, to_drop, new_chunks).
     case map_of (ch_timelines chunk) timeline of
       None \<Rightarrow> (n, to_drop, new_chunks)
     | Some tc \<Rightarrow>
         if range_contains_range drop_range (tc_time_range tc) then (n, to_drop @ [chunk], new_chunks)
         else if range_intersects drop_range (tc_time_range tc) then
           let c = sorted_by_timeline_if_unsorted (ids n) timeline chunk;
               ts = (case map_of (ch_timelines c) timeline of None \<Rightarrow> [] | Some tc \<Rightarrow> tc_times tc);
               min_idx = partition_point (\<lambda>t. sint t < sint (as_i64 (range_min drop_range))) ts;
               max_idx = partition_point (\<lambda>t. sint t \<le> sint (as_i64 (range_max drop_range))) ts;
               before = (if 0 < min_idx then [row_sliced kb (ids (n + 1)) 0 min_idx c] else []);
               after = (if max_idx < num_rows c
                        then [row_sliced kb (ids (n + 2)) max_idx (num_rows c - max_idx) c] else [])
           in if min_idx < max_idx then (n + 3, to_drop @ [chunk], new_chunks @ before @ after)
              else (n + 3, to_drop, new_chunks)
         else (n, to_drop, new_chunks))"

fun insert_parts ::
  "(nat \<Rightarrow> 'a Chunk \<Rightarrow> 'a ChunkStore \<Rightarrow> (nat \<times> 'a ChunkStore \<times> (ChunkStoreError + 'a ChunkStoreEvent list)) option) \<Rightarrow>
     (nat \<Rightarrow> ChunkId) \<Rightarrow> 'a Chunk list \<Rightarrow> 'a ChunkStoreEvent list \<Rightarrow> nat \<Rightarrow> 'a ChunkStore \<Rightarrow>
     (nat \<times> 'a ChunkStore \<times> 'a ChunkStoreEvent list) option" where
  "insert_parts ins ids [] events n s = Some (n, s, events)"
| "insert_parts ins ids (c # cs) events n s =
     Option.bind (ins (n + 1) (sort_if_unsorted (ids n) c) s)
       (\<lambda>(n, s, r). case r of
          Inl err \<Rightarrow> None
        | Inr evs \<Rightarrow> insert_parts ins ids cs (events @ evs) n s)"

text \<open>A failed insertion of a remaining part is a panic (no result).\<close>

definition drop_time_range ::
  "((ChunkId \<times> nat) list \<Rightarrow> (ChunkId \<times> nat) list) \<Rightarrow> keeps_bitmap \<Rightarrow> ('a Chunk \<Rightarrow> nat) \<Rightarrow> (nat \<Rightarrow> ChunkId) \<Rightarrow>
     nat \<Rightarrow> TimelineName \<Rightarrow> AbsoluteTimeRange \<Rightarrow> bool \<Rightarrow> ChunkDeletionReason \<Rightarrow> 'a ChunkStore \<Rightarrow>
     (nat \<times> 'a ChunkStore \<times> 'a ChunkStoreEvent list) option" where
  "drop_time_range hash_order kb size_of ids n timeline drop_range deep_removal reason s =
     (if range_max drop_range < range_min drop_range then Some (n, s, [])
      else
        let (n, to_drop, new_chunks) = fold (plan_drop kb ids timeline drop_range) (physical_chunks s) (n, [], []);
            (dels, s) = fold (\<lambda>chunk (dels, s).
              let (ds, s) = (if deep_removal then remove_chunks_deep (\<lambda>_. False) size_of [chunk] s
                             else remove_chunks_shallow (\<lambda>_. False) size_of [chunk] s)
              in (dels @ map (\<lambda>c. Deletion c reason) ds, s)) to_drop ([], s);
            (events, s) = finalize_events dels s
        in insert_parts (insert_chunk hash_order kb size_of ids) ids new_chunks events n s)"

end
