(* ===== verification/Store_Query.thy ===== *)
theory Store_Query
  imports Store_Write
begin

text \<open>
  Queries on a chunk store (\<open>re_chunk_store/src/query.rs\<close>): which chunks matter for a latest-at or
  a range query, what an entity has, and the times of a timeline. A query result tells the loaded
  chunks from those that are missing; the store's tracker of used and missing chunks, which lives
  behind a lock of its own, is passed along.
\<close>

section \<open>Query results\<close>

datatype ChunkTrackingMode = Ignore | Report | PanicOnMissing

record 'a QueryResults =
  qr_chunks :: "'a Chunk list"
  qr_missing_virtual :: "ChunkId list"

record QueriedChunkIdTracker =
  used_physical :: "ChunkId set"
  missing_virtual :: "ChunkId set"

definition tracker_default :: QueriedChunkIdTracker where
  "tracker_default = \<lparr>used_physical = {}, missing_virtual = {}\<rparr>"

definition is_partial :: "'a QueryResults \<Rightarrow> bool" where
  "is_partial r \<longleftrightarrow> qr_missing_virtual r \<noteq> []"

definition results_is_empty :: "'a QueryResults \<Rightarrow> bool" where
  "results_is_empty r \<longleftrightarrow> qr_chunks r = [] \<and> qr_missing_virtual r = []"

definition results_to_iter :: "'a QueryResults \<Rightarrow> 'a Chunk list option" where
  "results_to_iter r = (if qr_missing_virtual r = [] then Some (qr_chunks r) else None)"

text \<open>No result is the panic of \<open>PanicOnMissing\<close>.\<close>

definition from_chunk_ids ::
  "'a ChunkStore \<Rightarrow> ChunkTrackingMode \<Rightarrow> ChunkId list \<Rightarrow> QueriedChunkIdTracker \<Rightarrow>
     ('a QueryResults \<times> QueriedChunkIdTracker) option" where
  "from_chunk_ids s report_mode ids tracker =
     (let chunks = List.map_filter (physical_chunk s) ids;
          missing = filter (\<lambda>cid. physical_chunk s cid = None) ids
      in case report_mode of
           Ignore \<Rightarrow> Some (\<lparr>qr_chunks = chunks, qr_missing_virtual = []\<rparr>, tracker)
         | Report \<Rightarrow> Some (\<lparr>qr_chunks = chunks, qr_missing_virtual = missing\<rparr>,
             \<lparr>used_physical = used_physical tracker \<union> set (map ch_id chunks),
              missing_virtual = missing_virtual tracker \<union> set missing\<rparr>)
         | PanicOnMissing \<Rightarrow>
             if missing = [] then Some (\<lparr>qr_chunks = chunks, qr_missing_virtual = []\<rparr>, tracker) else None)"

section \<open>Relevant chunks\<close>

definition static_chunk_id :: "'a ChunkStore \<Rightarrow> rstr list \<Rightarrow> ComponentIdentifier \<Rightarrow> ChunkId option" where
  "static_chunk_id s e component = Option.bind (map_of (static_chunk_ids_per_entity s) e) (\<lambda>m. map_of m component)"

definition component_index ::
  "'a ChunkStore \<Rightarrow> rstr list \<Rightarrow> TimelineName \<Rightarrow> ComponentIdentifier \<Rightarrow> ChunkIdSetPerTime option" where
  "component_index s e timeline component =
     Option.bind (map_of (temporal_ids_per_component s) e)
       (\<lambda>m. Option.bind (map_of m timeline) (\<lambda>m. map_of m component))"

definition timeline_index :: "'a ChunkStore \<Rightarrow> rstr list \<Rightarrow> TimelineName \<Rightarrow> ChunkIdSetPerTime option" where
  "timeline_index s e timeline = Option.bind (map_of (temporal_ids s) e) (\<lambda>m. map_of m timeline)"

definition or_empty :: "'a list option \<Rightarrow> 'a list" where
  "or_empty r = (case r of None \<Rightarrow> [] | Some xs \<Rightarrow> xs)"

definition latest_at_relevant_ids ::
  "'a ChunkStore \<Rightarrow> LatestAtQuery \<Rightarrow> rstr list \<Rightarrow> ComponentIdentifier \<Rightarrow> ChunkId list" where
  "latest_at_relevant_ids s query e component =
     (case static_chunk_id s e component of
        Some cid \<Rightarrow> [cid]
      | None \<Rightarrow> or_empty (Option.bind (component_index s e (la_timeline query) component)
                  (index_latest_at (la_at query))))"

definition latest_at_relevant_chunks ::
  "ChunkTrackingMode \<Rightarrow> LatestAtQuery \<Rightarrow> rstr list \<Rightarrow> ComponentIdentifier \<Rightarrow> 'a ChunkStore \<Rightarrow> QueriedChunkIdTracker \<Rightarrow>
     ('a QueryResults \<times> QueriedChunkIdTracker) option" where
  "latest_at_relevant_chunks report_mode query e component s tracker =
     from_chunk_ids s report_mode (latest_at_relevant_ids s query e component) tracker"

text \<open>\<open>unique()\<close> keeps the first occurrence.\<close>

definition unique :: "'a list \<Rightarrow> 'a list" where
  "unique xs = rev (remdups (rev xs))"

definition non_static_indices ::
  "'a ChunkStore \<Rightarrow> rstr list \<Rightarrow> TimelineName \<Rightarrow> ChunkIdSetPerTime list" where
  "non_static_indices s e timeline =
     map snd (filter (\<lambda>(component, _). static_chunk_id s e component = None)
       (or_empty (Option.bind (map_of (temporal_ids_per_component s) e) (\<lambda>m. map_of m timeline))))"

definition static_ids :: "'a ChunkStore \<Rightarrow> rstr list \<Rightarrow> ChunkId list" where
  "static_ids s e = map snd (or_empty (map_of (static_chunk_ids_per_entity s) e))"

definition latest_at_relevant_chunks_for_all_components ::
  "ChunkTrackingMode \<Rightarrow> LatestAtQuery \<Rightarrow> rstr list \<Rightarrow> bool \<Rightarrow> 'a ChunkStore \<Rightarrow> QueriedChunkIdTracker \<Rightarrow>
     ('a QueryResults \<times> QueriedChunkIdTracker) option" where
  "latest_at_relevant_chunks_for_all_components report_mode query e include_static s tracker =
     from_chunk_ids s report_mode
       (if include_static then
          unique (static_ids s e @
            concat (List.map_filter (index_latest_at (la_at query)) (non_static_indices s e (la_timeline query))))
        else or_empty (Option.bind (timeline_index s e (la_timeline query)) (index_latest_at (la_at query))))
       tracker"

text \<open>The chunks of a range query are filtered by the range they really have.\<close>

definition range_relevant_chunks ::
  "ChunkTrackingMode \<Rightarrow> RangeQuery \<Rightarrow> rstr list \<Rightarrow> ComponentIdentifier \<Rightarrow> 'a ChunkStore \<Rightarrow> QueriedChunkIdTracker \<Rightarrow>
     ('a QueryResults \<times> QueriedChunkIdTracker) option" where
  "range_relevant_chunks report_mode query e component s tracker =
     (case static_chunk_id s e component of
        Some cid \<Rightarrow> from_chunk_ids s report_mode [cid] tracker
      | None \<Rightarrow>
          map_option (\<lambda>(results, tracker).
              (results\<lparr>qr_chunks := filter (\<lambda>chunk.
                 case map_of (ch_timelines chunk) (rq_timeline query) of
                   None \<Rightarrow> False
                 | Some tc \<Rightarrow> (case map_of (tc_time_range_per_component tc (ch_components chunk)) component of
                     None \<Rightarrow> False | Some r \<Rightarrow> range_intersects r (rq_range query)))
                 (qr_chunks results)\<rparr>, tracker))
            (from_chunk_ids s report_mode
              (index_range query (case component_index s e (rq_timeline query) component of None \<Rightarrow> [] | Some i \<Rightarrow> [i]))
              tracker))"

definition range_relevant_chunks_for_all_components ::
  "ChunkTrackingMode \<Rightarrow> RangeQuery \<Rightarrow> rstr list \<Rightarrow> bool \<Rightarrow> 'a ChunkStore \<Rightarrow> QueriedChunkIdTracker \<Rightarrow>
     ('a QueryResults \<times> QueriedChunkIdTracker) option" where
  "range_relevant_chunks_for_all_components report_mode query e include_static s tracker =
     map_option (\<lambda>(results, tracker).
         (results\<lparr>qr_chunks := filter (\<lambda>chunk.
            (chunk_is_static chunk \<and> include_static) \<or>
            (case map_of (ch_timelines chunk) (rq_timeline query) of
               None \<Rightarrow> False | Some tc \<Rightarrow> range_intersects (tc_time_range tc) (rq_range query)))
            (qr_chunks results)\<rparr>, tracker))
       (from_chunk_ids s report_mode
         (if include_static
          then unique (static_ids s e @ index_range query (non_static_indices s e (rq_timeline query)))
          else index_range query (case timeline_index s e (rq_timeline query) of None \<Rightarrow> [] | Some i \<Rightarrow> [i]))
         tracker)"

section \<open>What an entity has\<close>

definition all_entities :: "'a ChunkStore \<Rightarrow> rstr list set" where
  "all_entities s = set (map fst (static_chunk_ids_per_entity s)) \<union> set (map fst (temporal_ids s))"

definition entity_has_static_component :: "rstr list \<Rightarrow> ComponentIdentifier \<Rightarrow> 'a ChunkStore \<Rightarrow> bool" where
  "entity_has_static_component e component s \<longleftrightarrow> static_chunk_id s e component \<noteq> None"

definition entity_has_temporal_component :: "rstr list \<Rightarrow> ComponentIdentifier \<Rightarrow> 'a ChunkStore \<Rightarrow> bool" where
  "entity_has_temporal_component e component s \<longleftrightarrow>
     list_ex (\<lambda>(_, m). map_of m component \<noteq> None) (or_empty (map_of (temporal_ids_per_component s) e))"

definition entity_has_temporal_component_on_timeline ::
  "TimelineName \<Rightarrow> rstr list \<Rightarrow> ComponentIdentifier \<Rightarrow> 'a ChunkStore \<Rightarrow> bool" where
  "entity_has_temporal_component_on_timeline timeline e component s \<longleftrightarrow> component_index s e timeline component \<noteq> None"

definition entity_has_component_on_timeline ::
  "TimelineName \<Rightarrow> rstr list \<Rightarrow> ComponentIdentifier \<Rightarrow> 'a ChunkStore \<Rightarrow> bool" where
  "entity_has_component_on_timeline timeline e component s \<longleftrightarrow>
     entity_has_static_component e component s \<or> entity_has_temporal_component_on_timeline timeline e component s"

definition entity_has_component :: "rstr list \<Rightarrow> ComponentIdentifier \<Rightarrow> 'a ChunkStore \<Rightarrow> bool" where
  "entity_has_component e component s \<longleftrightarrow>
     entity_has_static_component e component s \<or> entity_has_temporal_component e component s"

definition entity_has_data :: "rstr list \<Rightarrow> 'a ChunkStore \<Rightarrow> bool" where
  "entity_has_data e s \<longleftrightarrow> map_of (static_chunk_ids_per_entity s) e \<noteq> None \<or> map_of (temporal_ids s) e \<noteq> None"

definition has_physical_start :: "'a ChunkStore \<Rightarrow> ChunkIdSetPerTime \<Rightarrow> bool" where
  "has_physical_start s idx \<longleftrightarrow> list_ex (\<lambda>(_, ids). list_ex (\<lambda>cid. physical_chunk s cid \<noteq> None) ids) (per_start_time idx)"

definition entity_has_physical_static_data :: "rstr list \<Rightarrow> 'a ChunkStore \<Rightarrow> bool" where
  "entity_has_physical_static_data e s \<longleftrightarrow> list_ex (\<lambda>cid. physical_chunk s cid \<noteq> None) (static_ids s e)"

definition entity_has_physical_temporal_data :: "rstr list \<Rightarrow> 'a ChunkStore \<Rightarrow> bool" where
  "entity_has_physical_temporal_data e s \<longleftrightarrow>
     list_ex (\<lambda>(_, m). list_ex (\<lambda>(_, idx). has_physical_start s idx) m) (or_empty (map_of (temporal_ids_per_component s) e))"

definition entity_has_physical_temporal_data_on_timeline :: "rstr list \<Rightarrow> TimelineName \<Rightarrow> 'a ChunkStore \<Rightarrow> bool" where
  "entity_has_physical_temporal_data_on_timeline e timeline s \<longleftrightarrow>
     list_ex (\<lambda>(_, idx). has_physical_start s idx)
       (or_empty (Option.bind (map_of (temporal_ids_per_component s) e) (\<lambda>m. map_of m timeline)))"

definition entity_has_physical_temporal_data_on_timeline_for_component ::
  "rstr list \<Rightarrow> TimelineName \<Rightarrow> ComponentIdentifier \<Rightarrow> 'a ChunkStore \<Rightarrow> bool" where
  "entity_has_physical_temporal_data_on_timeline_for_component e timeline component s \<longleftrightarrow>
     (case component_index s e timeline component of None \<Rightarrow> False | Some idx \<Rightarrow> has_physical_start s idx)"

definition entity_has_physical_data :: "rstr list \<Rightarrow> 'a ChunkStore \<Rightarrow> bool" where
  "entity_has_physical_data e s \<longleftrightarrow> entity_has_physical_static_data e s \<or> entity_has_physical_temporal_data e s"

definition entity_has_physical_data_on_timeline :: "TimelineName \<Rightarrow> rstr list \<Rightarrow> 'a ChunkStore \<Rightarrow> bool" where
  "entity_has_physical_data_on_timeline timeline e s \<longleftrightarrow>
     entity_has_physical_static_data e s \<or> entity_has_physical_temporal_data_on_timeline e timeline s"

section \<open>Times\<close>

definition first_key :: "('k, 'v) omap \<Rightarrow> 'k option" where
  "first_key m = (case m of [] \<Rightarrow> None | (k, _) # _ \<Rightarrow> Some k)"

definition last_key :: "('k, 'v) omap \<Rightarrow> 'k option" where
  "last_key m = (if m = [] then None else Some (fst (last m)))"

definition entity_min_time :: "TimelineName \<Rightarrow> rstr list \<Rightarrow> 'a ChunkStore \<Rightarrow> TimeInt option" where
  "entity_min_time timeline e s =
     Option.bind (map_of (temporal_ids_per_component s) e) (\<lambda>m. Option.bind (map_of m timeline) (\<lambda>per_component.
       let time_min = fold (\<lambda>(_, idx) time_min.
             case first_key (per_start_time idx) of None \<Rightarrow> time_min | Some t \<Rightarrow> min time_min t) per_component time_MAX
       in if time_min \<noteq> time_MAX then Some time_min else None))"

definition index_time_range :: "ChunkIdSetPerTime \<Rightarrow> AbsoluteTimeRange option" where
  "index_time_range idx =
     (case (first_key (per_start_time idx), last_key (per_end_time idx)) of
        (Some a, Some b) \<Rightarrow> Some (range_new (Some a) (Some b)) | _ \<Rightarrow> None)"

definition entity_time_range :: "TimelineName \<Rightarrow> rstr list \<Rightarrow> 'a ChunkStore \<Rightarrow> AbsoluteTimeRange option" where
  "entity_time_range timeline e s = Option.bind (timeline_index s e timeline) index_time_range"

definition store_time_range :: "TimelineName \<Rightarrow> 'a ChunkStore \<Rightarrow> AbsoluteTimeRange option" where
  "store_time_range timeline s =
     (case List.map_filter (\<lambda>(_, m). Option.bind (map_of m timeline) index_time_range) (temporal_ids s) of
        [] \<Rightarrow> None | r # rs \<Rightarrow> Some (fold (\<lambda>b a. range_union a b) rs r))"

definition opt_min :: "TimeInt option \<Rightarrow> TimeInt option \<Rightarrow> TimeInt option" where
  "opt_min a b = (case a of None \<Rightarrow> b | Some x \<Rightarrow> (case b of None \<Rightarrow> a | Some y \<Rightarrow> Some (min x y)))"

definition opt_max :: "TimeInt option \<Rightarrow> TimeInt option \<Rightarrow> TimeInt option" where
  "opt_max a b = (case a of None \<Rightarrow> b | Some x \<Rightarrow> (case b of None \<Rightarrow> a | Some y \<Rightarrow> Some (max x y)))"

definition search_chunk_by_time ::
  "'a ChunkStore \<Rightarrow> TimelineName \<Rightarrow> (TimeColumn \<Rightarrow> TimeInt option) \<Rightarrow> ChunkId \<Rightarrow> TimeInt option" where
  "search_chunk_by_time s timeline search cid =
     Option.bind (physical_chunk s cid) (\<lambda>c. Option.bind (map_of (ch_timelines c) timeline) search)"

text \<open>The loop over the entries after the cursor, which stops at the first one that cannot improve
  the result.\<close>

fun next_loop :: "(ChunkId \<Rightarrow> TimeInt option) \<Rightarrow> (TimeInt \<times> ChunkId list) list \<Rightarrow> TimeInt option \<Rightarrow> TimeInt option" where
  "next_loop search [] result = result"
| "next_loop search ((start_time, ids) # rest) result =
     (if (case result of None \<Rightarrow> False | Some r \<Rightarrow> r \<le> start_time) then result
      else next_loop search rest (fold (\<lambda>cid r. opt_min r (search cid)) ids result))"

fun prev_loop :: "(ChunkId \<Rightarrow> TimeInt option) \<Rightarrow> (TimeInt \<times> ChunkId list) list \<Rightarrow> TimeInt option \<Rightarrow> TimeInt option" where
  "prev_loop search [] result = result"
| "prev_loop search ((end_time, ids) # rest) result =
     (if (case result of None \<Rightarrow> False | Some r \<Rightarrow> end_time \<le> r) then result
      else prev_loop search rest (fold (\<lambda>cid r. opt_max r (search cid)) ids result))"

definition next_time_on_timeline :: "TimelineName \<Rightarrow> TimeInt \<Rightarrow> 'a ChunkStore \<Rightarrow> TimeInt option" where
  "next_time_on_timeline timeline after s =
     fold (\<lambda>(_, per_timeline) result.
       case map_of per_timeline timeline of
         None \<Rightarrow> result
       | Some idx \<Rightarrow>
           let search = search_chunk_by_time s timeline (find_next_time after);
               result = next_loop search (filter (\<lambda>(t, _). after < t) (per_start_time idx)) result
           in fold (\<lambda>(_, ids) r. fold (\<lambda>cid r. opt_min r (search cid)) ids r)
                (rev (om_upto after (per_start_time idx))) result)
     (temporal_ids s) None"

definition prev_time_on_timeline :: "TimelineName \<Rightarrow> TimeInt \<Rightarrow> 'a ChunkStore \<Rightarrow> TimeInt option" where
  "prev_time_on_timeline timeline before s =
     fold (\<lambda>(_, per_timeline) result.
       case map_of per_timeline timeline of
         None \<Rightarrow> result
       | Some idx \<Rightarrow>
           let search = search_chunk_by_time s timeline (find_prev_time before);
               result = prev_loop search (rev (filter (\<lambda>(t, _). t < before) (per_end_time idx))) result
           in fold (\<lambda>(_, ids) r. fold (\<lambda>cid r. opt_max r (search cid)) ids r)
                (filter (\<lambda>(t, _). before \<le> t) (per_end_time idx)) result)
     (temporal_ids s) None"

end
