(* ===== verification/Chunk_Rows.thy ===== *)
theory Chunk_Rows
  imports Chunk_Query
begin

text \<open>
  The invariant of chunks, the rows a chunk stands for, and the selection of rows that slicing,
  filtering, taking and sorting all reduce to.
\<close>

section \<open>Maps in iteration order\<close>

lemma im_insert_new: "k \<notin> fst ` set m \<Longrightarrow> im_insert k v m = m @ [(k, v)]"
  by (induction m) auto

lemma map_of_im_insert: "map_of (im_insert k v m) = (map_of m)(k \<mapsto> v)"
  by (induction m) auto

lemma fst_im_insert: "fst ` set (im_insert k v m) = insert k (fst ` set m)"
  by (simp add: map_of_im_insert flip: dom_map_of_conv_image_fst)

lemma distinct_im_insert: "distinct (map fst m) \<Longrightarrow> distinct (map fst (im_insert k v m))"
  by (induction m) (auto simp: fst_im_insert)


lemma fold_im_insert_new:
  "distinct (map fst kvs) \<Longrightarrow> fst ` set kvs \<inter> fst ` set m = {} \<Longrightarrow>
     fold (\<lambda>(k, v). im_insert k v) kvs m = m @ kvs"
  by (induction kvs arbitrary: m) (auto simp: im_insert_new)

lemma im_collect_distinct: "distinct (map fst kvs) \<Longrightarrow> im_collect kvs = kvs"
  by (simp add: im_collect_def fold_im_insert_new)

lemma map_of_fold_im_insert:
  "map_of (fold (\<lambda>(k, v). im_insert k v) kvs m) = map_of m ++ map_of (rev kvs)"
  by (induction kvs arbitrary: m) (auto simp: map_of_im_insert map_add_def fun_eq_iff split: option.splits)

lemma distinct_fold_im_insert:
  "distinct (map fst m) \<Longrightarrow> distinct (map fst (fold (\<lambda>(k, v). im_insert k v) kvs m))"
  by (induction kvs arbitrary: m) (auto simp: distinct_im_insert)

lemma distinct_im_collect [simp]: "distinct (map fst (im_collect kvs))"
  by (simp add: im_collect_def distinct_fold_im_insert)

lemma cc_collect_im: "cc_collect cols = im_collect (map (\<lambda>c. (cd_component (cc_descriptor c), c)) cols)"
proof -
  have "fold cc_insert cols m =
      fold (\<lambda>(k, v). im_insert k v) (map (\<lambda>c. (cd_component (cc_descriptor c), c)) cols) m" for m
    by (induction cols arbitrary: m) (auto simp: cc_insert_def)
  then show ?thesis by (simp add: cc_collect_def im_collect_def)
qed

section \<open>Sortedness\<close>

lemma windows_sorted_iff:
  assumes "\<And>x y z. le x y \<Longrightarrow> le y z \<Longrightarrow> le x z"
  shows "windows_sorted le xs \<longleftrightarrow> sorted_wrt le xs"
  using assms
proof (induction le xs rule: windows_sorted.induct)
  case (1 le x y xs)
  then show ?case by (auto intro: 1(2))
qed auto

lemma times_sorted_iff: "times_sorted ts \<longleftrightarrow> sorted (map sint ts)"
proof -
  have "windows_sorted i64_le ts \<longleftrightarrow> sorted_wrt i64_le ts"
    by (rule windows_sorted_iff) (auto simp: i64_le_def)
  then show ?thesis by (simp add: times_sorted_def sorted_map i64_le_def [abs_def])
qed

lemma row_ids_sorted_iff: "row_ids_sorted ids \<longleftrightarrow> sorted ids"
  unfolding row_ids_sorted_def by (rule windows_sorted_iff) auto

section \<open>The invariant\<close>

definition tc_ok :: "nat \<Rightarrow> TimeColumn \<Rightarrow> bool" where
  "tc_ok n tc \<longleftrightarrow> length (tc_times tc) = n
     \<and> tc_is_sorted tc = times_sorted (tc_times tc)
     \<and> i64_min \<notin> set (tc_times tc)
     \<and> (\<forall>t\<in>set (tc_times tc). sint (as_i64 (range_min (tc_time_range tc))) \<le> sint t
          \<and> sint t \<le> sint (as_i64 (range_max (tc_time_range tc))))
     \<and> (tc_times tc \<noteq> [] \<longrightarrow> as_i64 (range_min (tc_time_range tc)) \<in> set (tc_times tc)
          \<and> as_i64 (range_max (tc_time_range tc)) \<in> set (tc_times tc))"

definition column_ok :: "nat \<Rightarrow> ComponentIdentifier \<times> 'a ComponentColumn \<Rightarrow> bool" where
  "column_ok n = (\<lambda>(component, column). cd_component (cc_descriptor column) = component
     \<and> la_len (cc_list_array column) = n \<and> la_ok (cc_list_array column))"

definition chunk_ok :: "'a Chunk \<Rightarrow> bool" where
  "chunk_ok c \<longleftrightarrow> ch_is_sorted c = row_ids_sorted (ch_row_ids c)
     \<and> distinct (map fst (ch_timelines c)) \<and> distinct (map fst (ch_components c))
     \<and> (\<forall>(name, tc) \<in> set (ch_timelines c). tc_ok (num_rows c) tc)
     \<and> (\<forall>p \<in> set (ch_components c). column_ok (num_rows c) p)"

lemma check_times_iff:
  "check_times r ts = Inr () \<longleftrightarrow> i64_min \<notin> set ts
     \<and> (\<forall>t\<in>set ts. sint (as_i64 (range_min r)) \<le> sint t \<and> sint t \<le> sint (as_i64 (range_max r)))"
  by (induction r ts rule: check_times.induct) (auto simp: as_i64_def time_STATIC_def)

lemma tc_sanity_check_iff: "tc_ok n tc \<longleftrightarrow> length (tc_times tc) = n \<and> tc_sanity_check True tc = Inr ()"
  by (auto simp: tc_ok_def tc_sanity_check_def Let_def check_times_iff)

lemma check_timelines_iff:
  "check_timelines True n tcs = Inr () \<longleftrightarrow> (\<forall>(name, tc) \<in> set tcs. tc_ok n tc)"
  by (induction tcs) (auto simp: tc_sanity_check_iff bind_res_Inr_iff split: if_splits)

lemma check_components_iff:
  "check_components n cs = Inr () \<longleftrightarrow>
     (\<forall>(k, col) \<in> set cs. cd_component (cc_descriptor col) = k \<and> la_len (cc_list_array col) = n)"
  by (induction cs) (auto simp: Let_def la_len_def la_validity_def split: if_splits)

lemma sanity_check_iff:
  "sanity_check True c = Inr () \<longleftrightarrow> ch_is_sorted c = row_ids_sorted (ch_row_ids c)
     \<and> (\<forall>(name, tc) \<in> set (ch_timelines c). tc_ok (num_rows c) tc)
     \<and> (\<forall>(k, col) \<in> set (ch_components c).
          cd_component (cc_descriptor col) = k \<and> la_len (cc_list_array col) = num_rows c)"
  by (auto simp: sanity_check_def bind_res_Inr_iff check_timelines_iff check_components_iff num_rows_def)

lemma chunk_ok_sane: "chunk_ok c \<Longrightarrow> sanity_check True c = Inr ()"
  by (auto simp: chunk_ok_def sanity_check_iff column_ok_def)

lemma chunk_ok_timeline:
  "chunk_ok c \<Longrightarrow> map_of (ch_timelines c) name = Some tc \<Longrightarrow> tc_ok (num_rows c) tc"
  by (auto simp: chunk_ok_def dest: map_of_SomeD)

lemma chunk_ok_array:
  "chunk_ok c \<Longrightarrow> cc_get_array (ch_components c) k = Some la \<Longrightarrow> la_len la = num_rows c \<and> la_ok la"
  by (auto simp: chunk_ok_def cc_get_array_def column_ok_def dest!: map_of_SomeD)

section \<open>Time columns\<close>

lemma fold_min_Some:
  "fold (\<lambda>y m. if sint y < sint m then y else m) xs x \<in> insert x (set xs)
   \<and> (\<forall>t\<in>insert x (set xs). sint (fold (\<lambda>y m. if sint y < sint m then y else m) xs x) \<le> sint (t :: i64))"
proof (induction xs arbitrary: x)
  case (Cons y xs)
  show ?case using Cons [of "if sint y < sint x then y else x"] by (auto split: if_splits)
qed simp

lemma fold_max_Some:
  "fold (\<lambda>y m. if sint m \<le> sint y then y else m) xs x \<in> insert x (set xs)
   \<and> (\<forall>t\<in>insert x (set xs). sint t \<le> sint (fold (\<lambda>y m. if sint m \<le> sint y then y else m) xs (x :: i64)))"
proof (induction xs arbitrary: x)
  case (Cons y xs)
  show ?case using Cons [of "if sint x \<le> sint y then y else x"] by (auto split: if_splits)
qed simp

lemma i64_iter_min_Some:
  "ts \<noteq> [] \<Longrightarrow> \<exists>m. i64_iter_min ts = Some m \<and> m \<in> set ts \<and> (\<forall>t\<in>set ts. sint m \<le> sint t)"
  using fold_min_Some by (cases ts) (auto simp: i64_iter_min_def)

lemma i64_iter_max_Some:
  "ts \<noteq> [] \<Longrightarrow> \<exists>m. i64_iter_max ts = Some m \<and> m \<in> set ts \<and> (\<forall>t\<in>set ts. sint t \<le> sint m)"
  using fold_max_Some by (cases ts) (auto simp: i64_iter_max_def)

lemma new_temporal_raw: "t \<noteq> i64_min \<Longrightarrow> as_i64 (new_temporal t) = t"
  by (simp add: as_i64_new_temporal)

lemma tc_new_ok:
  assumes "b = None \<or> b = Some (times_sorted ts)" "i64_min \<notin> set ts"
  shows "tc_ok (length ts) (tc_new b timeline ts)"
proof -
  have sorted: "(case b of Some b \<Rightarrow> b | None \<Rightarrow> times_sorted ts) = times_sorted ts"
    using assms(1) by auto
  show ?thesis
  proof (cases ts rule: rev_cases)
    case Nil
    then show ?thesis using sorted by (auto simp: tc_ok_def tc_new_def Let_def)
  next
    case (snoc ys y)
    then obtain x xs where x: "ts = x # xs" by (metis list.exhaust append_is_Nil_conv not_Cons_self2)
    have neq: "t \<noteq> i64_min" if "t \<in> set ts" for t using that assms(2) by auto
    have ends: "sint x \<le> sint t" "sint t \<le> sint y" if "times_sorted ts" "t \<in> set ts" for t
    proof -
      show "sint x \<le> sint t" using that by (auto simp: times_sorted_iff x)
      show "sint t \<le> sint y" using that by (auto simp: times_sorted_iff snoc sorted_append)
    qed
    obtain lo hi where lo: "i64_iter_min ts = Some lo" "lo \<in> set ts" "\<forall>t\<in>set ts. sint lo \<le> sint t"
      and hi: "i64_iter_max ts = Some hi" "hi \<in> set ts" "\<forall>t\<in>set ts. sint t \<le> sint hi"
      using i64_iter_min_Some [of ts] i64_iter_max_Some [of ts] x by auto
    have mem: "x \<in> set ts" by (simp add: x)
    have mem': "y \<in> set ts" "last ts = y" "ts \<noteq> []" by (simp_all add: snoc)
    have cx: "(case ts of [] \<Rightarrow> None | t # _ \<Rightarrow> Some t) = Some x" by (simp add: x)
    show ?thesis
      unfolding tc_ok_def tc_new_def Let_def sorted
      using mem mem' lo hi ends assms(2)
      by (auto simp: cx range_new_def new_temporal_raw neq)
  qed
qed

section \<open>Selecting rows\<close>

text \<open>
  What a reader sees of a chunk: for every row its id, its time on every timeline and its cell
  of every component (\<open>None\<close> when there is no such column, or a null).
\<close>

type_synonym 'a row = "RowId \<times> (TimelineName \<Rightarrow> i64 option) \<times> (ComponentIdentifier \<Rightarrow> 'a option)"

definition row_time :: "'a Chunk \<Rightarrow> nat \<Rightarrow> TimelineName \<Rightarrow> i64 option" where
  "row_time c i name = map_option (\<lambda>tc. tc_times tc ! i) (map_of (ch_timelines c) name)"

definition row_cell :: "'a Chunk \<Rightarrow> nat \<Rightarrow> ComponentIdentifier \<Rightarrow> 'a option" where
  "row_cell c i k = (case cc_get_array (ch_components c) k of None \<Rightarrow> None | Some la \<Rightarrow> la_cells la ! i)"

definition chunk_row :: "'a Chunk \<Rightarrow> nat \<Rightarrow> 'a row" where
  "chunk_row c i = (ch_row_ids c ! i, row_time c i, row_cell c i)"

definition chunk_rows :: "'a Chunk \<Rightarrow> 'a row list" where
  "chunk_rows c = map (chunk_row c) [0..<num_rows c]"

lemma length_chunk_rows [simp]: "length (chunk_rows c) = num_rows c"
  by (simp add: chunk_rows_def)

lemma chunk_rows_nth [simp]: "i < num_rows c \<Longrightarrow> chunk_rows c ! i = chunk_row c i"
  by (simp add: chunk_rows_def)

text \<open>Every vertical operation copies the same rows, by index, in every column.\<close>

definition selects :: "nat list \<Rightarrow> 'a Chunk \<Rightarrow> 'a Chunk \<Rightarrow> bool" where
  "selects indices c c' \<longleftrightarrow>
     ch_row_ids c' = take_indices indices (ch_row_ids c)
     \<and> (\<forall>name. map_option tc_times (map_of (ch_timelines c') name) =
          map_option (\<lambda>tc. take_indices indices (tc_times tc)) (map_of (ch_timelines c) name))
     \<and> (\<forall>k. map_option la_cells (cc_get_array (ch_components c') k) =
          map_option (\<lambda>la. take_indices indices (la_cells la)) (cc_get_array (ch_components c) k))"

lemma length_take_indices [simp]: "length (take_indices indices xs) = length indices"
  by (simp add: take_indices_def)

lemma take_indices_nth [simp]: "i < length indices \<Longrightarrow> take_indices indices xs ! i = xs ! (indices ! i)"
  by (simp add: take_indices_def)

lemma selects_rows:
  assumes "selects indices c c'"
  shows "chunk_rows c' = map (chunk_row c) indices"
proof (rule nth_equalityI)
  have n: "num_rows c' = length indices" using assms by (simp add: selects_def num_rows_def)
  then show "length (chunk_rows c') = length (map (chunk_row c) indices)" by simp
  fix i assume "i < length (chunk_rows c')"
  then have i: "i < length indices" by (simp add: n)
  have "row_time c' i = row_time c (indices ! i)"
  proof
    fix name
    show "row_time c' i name = row_time c (indices ! i) name"
      using assms i by (cases "map_of (ch_timelines c) name"; cases "map_of (ch_timelines c') name")
        (auto simp: selects_def row_time_def dest!: spec [of _ name])
  qed
  moreover have "row_cell c' i = row_cell c (indices ! i)"
  proof
    fix k
    show "row_cell c' i k = row_cell c (indices ! i) k"
      using assms i
      by (cases "cc_get_array (ch_components c) k"; cases "cc_get_array (ch_components c') k")
        (auto simp: selects_def row_cell_def dest!: spec [of _ k])
  qed
  moreover have "ch_row_ids c' ! i = ch_row_ids c ! (indices ! i)"
    using assms i by (simp add: selects_def)
  ultimately show "chunk_rows c' ! i = map (chunk_row c) indices ! i"
    using i n by (simp add: chunk_row_def)
qed

lemma map_chunk_row:
  "\<forall>i\<in>set indices. i < num_rows c \<Longrightarrow> map (chunk_row c) indices = take_indices indices (chunk_rows c)"
  by (simp add: take_indices_def)

section \<open>Columns rebuilt one by one\<close>

lemma on_timelines_eq:
  "distinct (map fst tcs) \<Longrightarrow> on_timelines f tcs = map (\<lambda>(name, tc). (name, f tc)) tcs"
  unfolding on_timelines_def by (rule im_collect_distinct) (simp add: comp_def case_prod_beta)

lemma map_of_map_snd: "map_of (map (\<lambda>(k, v). (k, f v)) m) k = map_option f (map_of m k)"
  by (induction m) auto

lemma on_columns_eq:
  assumes "distinct (map fst cs)" "\<forall>(k, col) \<in> set cs. cd_component (cc_descriptor col) = k"
  shows "on_columns f cs = map (\<lambda>(k, col). (k, col\<lparr>cc_list_array := f (cc_list_array col)\<rparr>)) cs"
proof -
  let ?g = "\<lambda>(k, col). (k, col\<lparr>cc_list_array := f (cc_list_array col)\<rparr>)"
  have "on_columns f cs = im_collect (map ?g cs)"
    using assms(2) by (fastforce simp: on_columns_def cc_collect_im intro!: arg_cong [where f = im_collect])
  then show ?thesis using assms(1) by (simp add: im_collect_distinct comp_def case_prod_beta)
qed

lemma chunk_ok_keys:
  assumes "chunk_ok c"
  shows "on_timelines f (ch_timelines c) = map (\<lambda>(name, tc). (name, f tc)) (ch_timelines c)"
    "on_columns g (ch_components c) =
       map (\<lambda>(k, col). (k, col\<lparr>cc_list_array := g (cc_list_array col)\<rparr>)) (ch_components c)"
  using assms by (auto simp: chunk_ok_def column_ok_def intro!: on_timelines_eq on_columns_eq)

lemma rebuilt_selects:
  assumes ok: "chunk_ok c"
    and ids: "ch_row_ids c' = take_indices indices (ch_row_ids c)"
    and tl: "ch_timelines c' = map (\<lambda>(name, tc). (name, f tc)) (ch_timelines c)"
    and cs: "ch_components c' =
      map (\<lambda>(k, col). (k, col\<lparr>cc_list_array := g (cc_list_array col)\<rparr>)) (ch_components c)"
    and f: "\<And>tc. tc_ok (num_rows c) tc \<Longrightarrow> tc_times (f tc) = take_indices indices (tc_times tc)"
    and g: "\<And>la. la_len la = num_rows c \<Longrightarrow> la_cells (g la) = take_indices indices (la_cells la)"
  shows "selects indices c c'"
  unfolding selects_def
proof (intro conjI allI ids)
  show "map_option tc_times (map_of (ch_timelines c') name) =
      map_option (\<lambda>tc. take_indices indices (tc_times tc)) (map_of (ch_timelines c) name)" for name
    using chunk_ok_timeline [OF ok, of name] f
    by (cases "map_of (ch_timelines c) name") (auto simp: tl map_of_map_snd)
  show "map_option la_cells (cc_get_array (ch_components c') k) =
      map_option (\<lambda>la. take_indices indices (la_cells la)) (cc_get_array (ch_components c) k)" for k
    using chunk_ok_array [OF ok, of k] g
    by (cases "map_of (ch_components c) k")
      (auto simp: cs map_of_map_snd cc_get_array_def)
qed

lemma rebuilt_ok:
  assumes ok: "chunk_ok c"
    and ids: "length (ch_row_ids c') = n"
    and tl: "ch_timelines c' = map (\<lambda>(name, tc). (name, f tc)) (ch_timelines c)"
    and cs: "ch_components c' =
      map (\<lambda>(k, col). (k, col\<lparr>cc_list_array := g (cc_list_array col)\<rparr>)) (ch_components c)"
    and sorted: "ch_is_sorted c' = row_ids_sorted (ch_row_ids c')"
    and f: "\<And>tc. tc_ok (num_rows c) tc \<Longrightarrow> tc_ok n (f tc)"
    and g: "\<And>la. la_len la = num_rows c \<Longrightarrow> la_ok la \<Longrightarrow> la_len (g la) = n \<and> la_ok (g la)"
  shows "chunk_ok c'"
  using ok f g unfolding chunk_ok_def
  by (auto simp: tl cs sorted num_rows_def ids column_ok_def comp_def case_prod_beta)

lemma la_ok_kernel [simp]: "la_ok (la_kernel kb cells la)"
  by (auto simp: la_ok_def la_kernel_def)

lemma la_kernel_simps [simp]: "la_cells (la_kernel kb cells la) = cells" "la_len (la_kernel kb cells la) = length cells"
  by (simp_all add: la_kernel_def la_len_def)

lemma tc_new_simps [simp]: "tc_times (tc_new b timeline ts) = ts" "tc_timeline (tc_new b timeline ts) = timeline"
  by (simp_all add: tc_new_def Let_def split: prod.splits)

section \<open>Index lists\<close>

lemma sub_slice_indices:
  "length xs = n \<Longrightarrow> sub_slice index len xs = take_indices [index..<min (index + len) n] xs"
  by (rule nth_equalityI) (auto simp: sub_slice_def)

lemma mask_filter_indices:
  assumes "length keep = length xs"
  shows "mask_filter keep xs = take_indices (filter (\<lambda>i. keep ! i) [0..<length xs]) xs"
proof -
  have "zip keep xs = map (\<lambda>i. (keep ! i, xs ! i)) [0..<length xs]"
    using assms by (intro nth_equalityI) auto
  then show ?thesis by (simp add: mask_filter_def take_indices_def filter_map comp_def)
qed

lemma apply_swaps_indices:
  assumes "length swaps = length xs"
  shows "apply_swaps swaps xs = take_indices swaps xs"
proof -
  have "k + length ss \<le> length ys \<Longrightarrow>
    fold (\<lambda>(to, from') ys. ys[to := xs ! from']) (enumerate k ss) ys =
      take k ys @ map (\<lambda>i. xs ! i) ss @ drop (k + length ss) ys" for k ss ys
  proof (induction ss arbitrary: k ys)
    case (Cons s ss)
    have "drop (Suc k + length ss) (ys[k := xs ! s]) = drop (Suc k + length ss) ys"
      by (rule drop_update_cancel) simp
    moreover have "take (Suc k) (ys[k := xs ! s]) = take k ys @ [xs ! s]"
      using Cons.prems by (simp add: take_Suc_conv_app_nth)
    ultimately show ?case using Cons by simp
  qed simp
  from this [of 0 swaps xs] assms show ?thesis by (simp add: apply_swaps_def take_indices_def)
qed

lemma sorted_take_indices:
  assumes "sorted (map f xs)" "sorted indices" "\<forall>i\<in>set indices. i < length xs"
  shows "sorted (map f (take_indices indices xs))"
proof -
  have "sorted (map (\<lambda>i. map f xs ! i) indices)"
    using assms by (auto simp: sorted_wrt_map sorted_map intro!: sorted_wrt_mono_rel [OF _ assms(2)]
        sorted_nth_mono [OF assms(1)])
  then show ?thesis using assms(3) by (simp add: take_indices_def comp_def cong: map_cong)
qed

end
