(* ===== verification/Chunk_Slices.thy ===== *)
theory Chunk_Slices
  imports Chunk_Rows "HOL-Library.Multiset"
begin

text \<open>
  Slicing, filtering, sorting and splitting are row selections that keep the invariant of
  chunks.
\<close>

section \<open>Flags\<close>

lemma tc_new_flag_ok:
  assumes "b \<Longrightarrow> times_sorted ts" "i64_min \<notin> set ts"
  shows "tc_ok (length ts) (tc_new (if b then Some b else None) timeline ts)"
  by (rule tc_new_ok) (use assms in auto)

lemma short_sorted: "length xs < 2 \<Longrightarrow> sorted xs"
  by (cases xs rule: list.exhaust; cases "tl xs") auto

lemma times_sorted_take:
  assumes "times_sorted ts" "sorted indices" "\<forall>i\<in>set indices. i < length ts"
  shows "times_sorted (take_indices indices ts)"
  using sorted_take_indices [of sint ts indices] assms by (simp add: times_sorted_iff)

lemma times_sorted_short: "length ts < 2 \<Longrightarrow> times_sorted ts"
  by (simp add: times_sorted_iff short_sorted)

lemma row_ids_sorted_take:
  assumes "row_ids_sorted ids" "sorted indices" "\<forall>i\<in>set indices. i < length ids"
  shows "row_ids_sorted (take_indices indices ids)"
  using sorted_take_indices [of id ids indices] assms by (simp add: row_ids_sorted_iff)

lemma row_ids_sorted_short: "length ids < 2 \<Longrightarrow> row_ids_sorted ids"
  by (simp add: row_ids_sorted_iff short_sorted)

lemma set_take_indices: "\<forall>i\<in>set indices. i < length xs \<Longrightarrow> set (take_indices indices xs) \<subseteq> set xs"
  by (auto simp: take_indices_def)

lemma tc_select_ok:
  assumes "tc_ok n tc" "sorted indices" "\<forall>i\<in>set indices. i < n"
    and b: "b = (tc_is_sorted tc \<or> length indices < 2)"
  shows "tc_ok (length indices)
    (tc_new (if b then Some b else None) (tc_timeline tc) (take_indices indices (tc_times tc)))"
proof -
  have small: "\<forall>i\<in>set indices. i < length (tc_times tc)" using assms by (simp add: tc_ok_def)
  have "times_sorted (take_indices indices (tc_times tc))" if b
    using that[unfolded b]
  proof
    assume "tc_is_sorted tc"
    then show ?thesis using assms(1,2) small by (intro times_sorted_take) (simp_all add: tc_ok_def)
  next
    assume "length indices < 2"
    then show ?thesis by (intro times_sorted_short) simp
  qed
  moreover have "i64_min \<notin> set (take_indices indices (tc_times tc))"
    using set_take_indices [OF small] assms(1) by (auto simp: tc_ok_def)
  ultimately have "tc_ok (length (take_indices indices (tc_times tc)))
      (tc_new (if b then Some b else None) (tc_timeline tc) (take_indices indices (tc_times tc)))"
    by (rule tc_new_flag_ok)
  then show ?thesis by (simp only: length_take_indices)
qed

lemma row_ids_select_sorted:
  assumes "chunk_ok c" "sorted indices" "\<forall>i\<in>set indices. i < num_rows c"
    and "ch_is_sorted c \<or> length indices < 2"
  shows "row_ids_sorted (take_indices indices (ch_row_ids c))"
  using assms(4)
proof
  assume "ch_is_sorted c"
  then show ?thesis using assms(1-3)
    by (intro row_ids_sorted_take) (simp_all add: chunk_ok_def num_rows_def)
next
  assume "length indices < 2"
  then show ?thesis by (intro row_ids_sorted_short) simp
qed

section \<open>Slices\<close>

lemma emptied_selects:
  assumes "chunk_ok c"
  shows "selects [] c (emptied kb new_id c)" "chunk_ok (emptied kb new_id c)"
proof -
  have "length (tc_times (tc_emptied tc)) = 0" for tc by (simp add: tc_emptied_def)
  then show "selects [] c (emptied kb new_id c)"
    by (intro rebuilt_selects [OF assms, where f = tc_emptied and g = "la_kernel kb []"])
      (auto simp: emptied_def chunk_ok_keys [OF assms] take_indices_def)
  have "tc_ok 0 (tc_emptied tc)" for tc
    using tc_new_ok [of "Some True" "[]"] by (simp add: tc_emptied_def times_sorted_def)
  then show "chunk_ok (emptied kb new_id c)"
    by (intro rebuilt_ok [OF assms, where n = 0 and f = tc_emptied and g = "la_kernel kb []"])
      (auto simp: emptied_def chunk_ok_keys [OF assms] row_ids_sorted_def)
qed

text \<open>In the non-empty case the slice is \<open>[index..<hi]\<close>.\<close>

lemma tc_row_sliced_ok:
  assumes "tc_ok n tc" "index < hi" "hi \<le> n" "min (index + len) n = hi"
  shows "tc_ok (hi - index) (tc_row_sliced index len tc)
    \<and> tc_times (tc_row_sliced index len tc) = take_indices [index..<hi] (tc_times tc)"
proof -
  have n: "length (tc_times tc) = n" using assms(1) by (simp add: tc_ok_def)
  have sub: "sub_slice index (hi - index) (tc_times tc) = take_indices [index..<hi] (tc_times tc)"
    using sub_slice_indices [OF n, of index "hi - index"] assms(2,3) by simp
  let ?b = "tc_is_sorted tc \<or> hi - index < 2"
  have eq: "tc_row_sliced index len tc =
      tc_new (if ?b then Some ?b else None) (tc_timeline tc) (take_indices [index..<hi] (tc_times tc))"
    using assms(2,3) by (simp add: tc_row_sliced_def Let_def n assms(4) sub)
  have "tc_ok (length [index..<hi]) (tc_row_sliced index len tc)"
    unfolding eq using assms(1) by (rule tc_select_ok) (use assms(3) in auto)
  then show ?thesis by (simp add: eq)
qed

lemma row_sliced_selects:
  assumes ok: "chunk_ok c"
  shows "selects [index..<min (index + len) (num_rows c)] c (row_sliced kb new_id index len c)
    \<and> chunk_ok (row_sliced kb new_id index len c)"
proof (cases "index < num_rows c \<and> 0 < len")
  case False
  then have "row_sliced kb new_id index len c = emptied kb new_id c"
    by (auto simp: row_sliced_def Let_def)
  moreover have none: "[index..<min (index + len) (num_rows c)] = []" using False by auto
  ultimately show ?thesis using emptied_selects [OF ok] by (simp only: none simp_thms)
next
  case True
  define hi where "hi = min (index + len) (num_rows c)"
  let ?len = "hi - index"
  let ?ids = "[index..<hi]"
  have hi: "index < hi" "hi \<le> num_rows c" "min (index + ?len) (num_rows c) = hi"
    using True by (auto simp: hi_def)
  let ?b = "ch_is_sorted c \<or> ?len < 2"
  let ?chunk = "\<lparr>ch_id = new_id, ch_entity_path = ch_entity_path c, ch_is_sorted = ?b,
      ch_row_ids = sub_slice index ?len (ch_row_ids c),
      ch_timelines = on_timelines (tc_row_sliced index ?len) (ch_timelines c),
      ch_components = on_columns (\<lambda>la. la_kernel kb (sub_slice index ?len (la_cells la)) la)
        (ch_components c)\<rparr>"
  define c' where "c' = ?chunk\<lparr>ch_is_sorted := ?b \<or> is_sorted_uncached ?chunk\<rparr>"
  have c': "row_sliced kb new_id index len c = c'"
    using True hi(1) by (simp add: row_sliced_def Let_def c'_def flip: hi_def)
  have sub: "sub_slice index ?len xs = take_indices ?ids xs" if "length xs = num_rows c" for xs :: "'x list"
    using sub_slice_indices [OF that, of index ?len] by (simp only: hi(3))
  have ids: "ch_row_ids c' = take_indices ?ids (ch_row_ids c)"
    by (simp add: c'_def sub num_rows_def)
  have tl: "ch_timelines c' = map (\<lambda>(name, tc). (name, tc_row_sliced index ?len tc)) (ch_timelines c)"
    by (simp add: c'_def chunk_ok_keys [OF ok])
  have cs: "ch_components c' = map (\<lambda>(k, col). (k, col\<lparr>cc_list_array :=
      (\<lambda>la. la_kernel kb (sub_slice index ?len (la_cells la)) la) (cc_list_array col)\<rparr>)) (ch_components c)"
    by (simp add: c'_def chunk_ok_keys [OF ok])
  have "?b \<longrightarrow> row_ids_sorted (ch_row_ids c')"
    unfolding ids using row_ids_select_sorted [OF ok, of ?ids] hi(2) by simp
  then have sorted: "ch_is_sorted c' = row_ids_sorted (ch_row_ids c')"
    by (auto simp: c'_def is_sorted_uncached_def)
  note tcs = tc_row_sliced_ok [OF _ hi]
  have "selects ?ids c c'"
    by (rule rebuilt_selects [OF ok ids tl cs]) (use tcs in \<open>auto simp: la_len_def sub\<close>)
  moreover have "chunk_ok c'"
    by (rule rebuilt_ok [OF ok _ tl cs sorted, where n = ?len])
      (use tcs hi(1,2) in \<open>auto simp: ids la_len_def sub_slice_def\<close>)
  ultimately show ?thesis by (simp add: c' flip: hi_def)
qed

text \<open>The rows of a slice.\<close>

lemma row_sliced_rows:
  assumes "chunk_ok c"
  shows "chunk_ok (row_sliced kb new_id index len c)
    \<and> chunk_rows (row_sliced kb new_id index len c) = take len (drop index (chunk_rows c))"
proof -
  have "map (chunk_row c) [index..<min (index + len) (num_rows c)] = take len (drop index (chunk_rows c))"
    by (rule nth_equalityI) (auto simp: min_def split: if_splits)
  then show ?thesis using row_sliced_selects [OF assms] selects_rows by metis
qed

text \<open>C23: slicing a chunk keeps the invariant and yields exactly the rows of the slice, clipped
  to the chunk.\<close>

theorem row_sliced_correct:
  assumes "chunk_ok c"
  shows "chunk_ok (row_sliced kb new_id index len c)
    \<and> chunk_rows (row_sliced kb new_id index len c) = take len (drop index (chunk_rows c))"
  using assms by (rule row_sliced_rows)

section \<open>Filters\<close>

lemma length_filter_id: "length (filter id keep) = length (filter (\<lambda>i. keep ! i) [0..<length keep])"
proof -
  have "map (\<lambda>i. keep ! i) [0..<length keep] = keep" by (rule map_nth)
  then have "filter id keep = map (\<lambda>i. keep ! i) (filter (\<lambda>i. keep ! i) [0..<length keep])"
    by (metis (mono_tags, lifting) comp_apply filter_cong filter_map id_apply)
  then show ?thesis by simp
qed

lemma masked_selects:
  assumes ok: "chunk_ok c" and len: "length keep = num_rows c"
  defines "indices \<equiv> filter (\<lambda>i. keep ! i) [0..<num_rows c]"
  shows "selects indices c (masked kb new_id keep c) \<and> chunk_ok (masked kb new_id keep c)"
proof -
  have kept: "length (filter id keep) = length indices"
    by (simp add: length_filter_id len indices_def)
  have small: "sorted indices" "\<forall>i\<in>set indices. i < num_rows c"
    by (auto simp: indices_def sorted_wrt_filter)
  have sub: "mask_filter keep xs = take_indices indices xs" if "length xs = num_rows c" for xs :: "'x list"
    using mask_filter_indices [of keep xs] that len by (simp add: indices_def)
  let ?b = "ch_is_sorted c \<or> length indices < 2"
  let ?g = "\<lambda>la. la_kernel kb (mask_filter keep (la_cells la)) la"
  let ?chunk = "\<lparr>ch_id = new_id, ch_entity_path = ch_entity_path c, ch_is_sorted = ?b,
      ch_row_ids = mask_filter keep (ch_row_ids c),
      ch_timelines = on_timelines (tc_filtered keep) (ch_timelines c),
      ch_components = on_columns ?g (ch_components c)\<rparr>"
  define c' where "c' = ?chunk\<lparr>ch_is_sorted := ?b \<or> is_sorted_uncached ?chunk\<rparr>"
  have c': "masked kb new_id keep c = c'"
    by (simp add: masked_def Let_def c'_def kept)
  have ids: "ch_row_ids c' = take_indices indices (ch_row_ids c)"
    by (simp add: c'_def sub num_rows_def)
  have tl: "ch_timelines c' = map (\<lambda>(name, tc). (name, tc_filtered keep tc)) (ch_timelines c)"
    by (simp add: c'_def chunk_ok_keys [OF ok])
  have cs: "ch_components c' = map (\<lambda>(k, col). (k, col\<lparr>cc_list_array := ?g (cc_list_array col)\<rparr>)) (ch_components c)"
    by (simp add: c'_def chunk_ok_keys [OF ok])
  have "?b \<longrightarrow> row_ids_sorted (ch_row_ids c')"
    unfolding ids using row_ids_select_sorted [OF ok small] by simp
  then have sorted: "ch_is_sorted c' = row_ids_sorted (ch_row_ids c')"
    by (auto simp: c'_def is_sorted_uncached_def)
  have tcs: "tc_ok (length indices) (tc_filtered keep tc)
      \<and> tc_times (tc_filtered keep tc) = take_indices indices (tc_times tc)" if "tc_ok (num_rows c) tc" for tc
  proof -
    have "length (tc_times tc) = num_rows c" using that by (simp add: tc_ok_def)
    then show ?thesis
      using tc_select_ok [OF that small refl] by (simp add: tc_filtered_def Let_def sub kept)
  qed
  have "selects indices c c'"
    by (rule rebuilt_selects [OF ok ids tl cs]) (use tcs in \<open>auto simp: la_len_def sub\<close>)
  moreover have "chunk_ok c'"
    by (rule rebuilt_ok [OF ok _ tl cs sorted, where n = "length indices"])
      (use tcs in \<open>auto simp: ids la_len_def sub\<close>)
  ultimately show ?thesis by (simp add: c')
qed

lemma masked_rows:
  assumes "chunk_ok c" "length keep = num_rows c"
  shows "chunk_rows (masked kb new_id keep c) = mask_filter keep (chunk_rows c)"
proof -
  let ?indices = "filter (\<lambda>i. keep ! i) [0..<num_rows c]"
  have "chunk_rows (masked kb new_id keep c) = map (chunk_row c) ?indices"
    using masked_selects [OF assms] selects_rows by blast
  also have "\<dots> = take_indices ?indices (chunk_rows c)" by (rule map_chunk_row) auto
  also have "\<dots> = mask_filter keep (chunk_rows c)"
    using mask_filter_indices [of keep "chunk_rows c"] assms(2) by simp
  finally show ?thesis .
qed

text \<open>C24: filtering by a mask keeps the invariant and exactly the rows the mask selects; it is
  refused exactly when the mask has the wrong length.\<close>

theorem filtered_correct:
  assumes "chunk_ok c"
  shows "(filtered kb new_id keep c = None \<longleftrightarrow> length keep \<noteq> num_rows c)
    \<and> (\<forall>c'. filtered kb new_id keep c = Some c' \<longrightarrow>
         chunk_ok c' \<and> chunk_rows c' = mask_filter keep (chunk_rows c))"
proof (intro conjI allI impI)
  show "filtered kb new_id keep c = None \<longleftrightarrow> length keep \<noteq> num_rows c"
    by (simp add: filtered_def)
  fix c' assume c': "filtered kb new_id keep c = Some c'"
  then have len: "length keep = num_rows c" by (simp add: filtered_def split: if_splits)
  consider "num_rows c = 0" "c' = c" | "length (filter id keep) = 0" "c' = emptied kb new_id c"
    | "c' = masked kb new_id keep c"
    using c' by (auto simp: filtered_def chunk_is_empty_def split: if_splits)
  then have "chunk_ok c' \<and> chunk_rows c' = mask_filter keep (chunk_rows c)"
  proof cases
    case 1
    then show ?thesis using assms by (simp add: chunk_rows_def mask_filter_def)
  next
    case 2
    then have "filter (\<lambda>i. keep ! i) [0..<num_rows c] = []"
      using length_filter_id [of keep] len by simp
    then have "mask_filter keep (chunk_rows c) = []"
      using mask_filter_indices [of keep "chunk_rows c"] len by (simp add: take_indices_def)
    then show ?thesis using 2 emptied_selects [OF assms] selects_rows by fastforce
  next
    case 3
    then show ?thesis using masked_selects [OF assms len] masked_rows [OF assms len] by simp
  qed
  then show "chunk_ok c'" "chunk_rows c' = mask_filter keep (chunk_rows c)" by auto
qed

section \<open>Densifying\<close>

lemma mask_filter_map: "mask_filter (map P xs) (map f xs) = map f (filter P xs)"
  by (induction xs) (auto simp: mask_filter_def)

lemma chunk_rows_cong:
  assumes "ch_row_ids c' = ch_row_ids c" "ch_timelines c' = ch_timelines c"
    "\<And>k. map_option la_cells (cc_get_array (ch_components c') k) =
      map_option la_cells (cc_get_array (ch_components c) k)"
  shows "chunk_rows c' = chunk_rows c"
proof -
  have "row_cell c' i k = row_cell c i k" for i k
    using assms(3) [of k]
    by (cases "cc_get_array (ch_components c) k"; cases "cc_get_array (ch_components c') k")
      (auto simp: row_cell_def)
  then show ?thesis
    using assms(1,2) by (simp add: chunk_rows_def chunk_row_def num_rows_def row_time_def fun_eq_iff)
qed

text \<open>The rows of a densified chunk.\<close>

lemma densified_rows:
  assumes ok: "chunk_ok c" and la: "cc_get_array (ch_components c) k = Some la"
    and d: "densified kb new_id k c = (c', b)"
  shows "chunk_ok c' \<and> chunk_rows c' = filter (\<lambda>(_, _, cells). cells k \<noteq> None) (chunk_rows c)"
proof (cases "chunk_is_empty c \<or> \<not> la_nulls la")
  case True
  then have c': "c' = c" using d la by (simp add: densified_def split: if_splits)
  have "la_cells la ! i \<noteq> None" if "i < num_rows c" "\<not> la_nulls la" for i
    using chunk_ok_array [OF ok la] that by (metis la_len_def la_ok_def nth_mem)
  then have "(case row of (_, _, cells) \<Rightarrow> cells k \<noteq> None)" if "row \<in> set (chunk_rows c)" for row
    using that True la by (auto simp: chunk_rows_def chunk_row_def row_cell_def chunk_is_empty_def)
  then show ?thesis using ok by (simp add: c' filter_id_conv)
next
  case False
  let ?m = "masked kb new_id (la_validity la) c"
  let ?clear = "\<lambda>column. if cd_component (cc_descriptor column) = k
      then column\<lparr>cc_list_array := (cc_list_array column)\<lparr>la_nulls := False\<rparr>\<rparr> else column"
  have c': "c' = ?m\<lparr>ch_components := map (\<lambda>(component, column). (component, ?clear column)) (ch_components ?m)\<rparr>"
    using False d la by (auto simp: densified_def Let_def)
  have len: "length (la_validity la) = num_rows c"
    using chunk_ok_array [OF ok la] by (simp add: la_validity_def la_len_def)
  note m = masked_selects [OF ok len, of kb new_id]
  have cells: "map_option la_cells (cc_get_array (ch_components c') j) =
      map_option la_cells (cc_get_array (ch_components ?m) j)" for j
    by (cases "map_of (ch_components ?m) j") (auto simp: c' cc_get_array_def map_of_map_snd)
  then have "chunk_rows c' = chunk_rows ?m" by (intro chunk_rows_cong) (simp_all add: c')
  also have "\<dots> = mask_filter (la_validity la) (chunk_rows c)" by (rule masked_rows [OF ok len])
  also have "\<dots> = filter (\<lambda>(_, _, cells). cells k \<noteq> None) (chunk_rows c)"
  proof -
    have "la_validity la = map (\<lambda>i. la_cells la ! i \<noteq> None) [0..<num_rows c]"
      by (rule nth_equalityI) (use len in \<open>auto simp: la_validity_def\<close>)
    then show ?thesis
      by (simp add: chunk_rows_def mask_filter_map filter_map comp_def chunk_row_def row_cell_def la)
  qed
  finally have rows: "chunk_rows c' = filter (\<lambda>(_, _, cells). cells k \<noteq> None) (chunk_rows c)" .
  have dense: "None \<notin> set (la_cells la')" if la': "cc_get_array (ch_components ?m) k = Some la'" for la'
  proof
    assume "None \<in> set (la_cells la')"
    then obtain i where i: "i < length (la_cells la')" "la_cells la' ! i = None"
      by (auto simp: in_set_conv_nth)
    then have "i < num_rows ?m" using chunk_ok_array [of ?m k la'] m la' by (simp add: la_len_def)
    then have "chunk_row ?m i \<in> set (chunk_rows ?m)" by (simp add: chunk_rows_def)
    then have "row_cell ?m i k \<noteq> None"
      using rows \<open>chunk_rows c' = chunk_rows ?m\<close> by (auto simp: chunk_row_def)
    then show False using i la' by (simp add: row_cell_def)
  qed
  have "column_ok (num_rows c') (j, ?clear col)" if j: "(j, col) \<in> set (ch_components ?m)" for j col
  proof -
    have "column_ok (num_rows ?m) (j, col)" "map_of (ch_components ?m) j = Some col"
      using m j by (auto simp: chunk_ok_def)
    then show ?thesis using dense [of "cc_list_array col"]
      by (auto simp: column_ok_def c' num_rows_def la_len_def la_ok_def cc_get_array_def)
  qed
  then have "chunk_ok c'"
    using m by (auto simp: chunk_ok_def c' num_rows_def comp_def case_prod_beta)
  with rows show ?thesis by simp
qed

text \<open>Densifying on a component keeps the invariant and exactly the rows that have a cell of
  the component; afterwards that column has no null and no bitmap.\<close>

theorem densified_correct:
  assumes ok: "chunk_ok c" and la: "cc_get_array (ch_components c) k = Some la"
    and d: "densified kb new_id k c = (c', b)"
  shows "chunk_ok c' \<and> chunk_rows c' = filter (\<lambda>(_, _, cells). cells k \<noteq> None) (chunk_rows c)"
  using assms by (rule densified_rows)

section \<open>Sorting\<close>

lemma insort_key_map: "insort_key f (g x) (map g xs) = map g (insort_key (\<lambda>x. f (g x)) x xs)"
  by (induction xs) auto

lemma sort_key_map: "sort_key f (map g xs) = map g (sort_key (\<lambda>x. f (g x)) xs)"
  by (induction xs) (simp_all add: insort_key_map)

lemma shuffle_selects:
  assumes ok: "chunk_ok c" and perm: "mset swaps = mset [0..<num_rows c]"
  shows "selects swaps c (shuffle_with new_id swaps c) \<and> chunk_ok (shuffle_with new_id swaps c)"
proof -
  have len: "length swaps = num_rows c" using perm by (metis length_upt minus_nat.diff_0 size_mset)
  have set: "set swaps = {0..<num_rows c}" using perm by (metis set_mset_mset set_upt)
  have swaps: "apply_swaps swaps xs = take_indices swaps xs" if "length xs = num_rows c" for xs :: "'x list"
    using that len by (simp add: apply_swaps_indices)
  have same: "set (take_indices swaps xs) = set xs" if "length xs = num_rows c" for xs :: "'x list"
    using that by (auto simp: take_indices_def set in_set_conv_nth)
  let ?c = "shuffle_with new_id swaps c"
  have ids: "ch_row_ids ?c = take_indices swaps (ch_row_ids c)"
    by (simp add: shuffle_with_def Let_def swaps num_rows_def)
  have tl: "ch_timelines ?c = map (\<lambda>(name, tc). (name, tc_shuffle_with swaps tc)) (ch_timelines c)"
    and cs: "ch_components ?c = map (\<lambda>(k, col). (k, col\<lparr>cc_list_array :=
      la_shuffle_with swaps (cc_list_array col)\<rparr>)) (ch_components c)"
    by (simp_all add: shuffle_with_def Let_def)
  have sorted: "ch_is_sorted ?c = row_ids_sorted (ch_row_ids ?c)"
    by (simp add: shuffle_with_def Let_def is_sorted_uncached_def)
  have tcs: "tc_ok (length swaps) (tc_shuffle_with swaps tc)
      \<and> tc_times (tc_shuffle_with swaps tc) = take_indices swaps (tc_times tc)" if "tc_ok (num_rows c) tc" for tc
  proof -
    have "length (tc_times tc) = num_rows c" using that by (simp add: tc_ok_def)
    note sw = swaps [OF this] same [OF this]
    have "take_indices swaps (tc_times tc) = [] \<longleftrightarrow> tc_times tc = []" by (simp add: sw flip: set_empty)
    then show ?thesis
      using that by (simp add: tc_shuffle_with_def Let_def tc_ok_def sw len)
  qed
  have las: "la_cells (la_shuffle_with swaps la) = take_indices swaps (la_cells la)" for la :: "'a ListArray"
    by (simp add: la_shuffle_with_def take_indices_def)
  have las_ok: "la_len (la_shuffle_with swaps la) = length swaps \<and> la_ok (la_shuffle_with swaps la)"
    if "la_len la = num_rows c" "la_ok la" for la :: "'a ListArray"
  proof -
    have "la_nulls (la_shuffle_with swaps la) = la_nulls la" by (simp add: la_shuffle_with_def)
    then show ?thesis using that same [of "la_cells la"] by (simp add: la_ok_def la_len_def las)
  qed
  have "selects swaps c ?c"
    by (rule rebuilt_selects [OF ok ids tl cs]) (use tcs las in auto)
  moreover have "chunk_ok ?c"
    by (rule rebuilt_ok [OF ok _ tl cs sorted, where n = "length swaps"])
      (use tcs las_ok in \<open>auto simp: ids\<close>)
  ultimately show ?thesis by simp
qed

lemma insort_key_cong:
  "(\<And>y. y \<in> insert x (set xs) \<Longrightarrow> f y = g y) \<Longrightarrow> insort_key f x xs = insort_key g x xs"
  by (induction xs) auto

lemma sort_key_cong': "(\<And>y. y \<in> set xs \<Longrightarrow> f y = g y) \<Longrightarrow> sort_key f xs = sort_key g xs"
proof (induction xs)
  case (Cons x xs)
  then show ?case using insort_key_cong [of x "sort_key g xs" f g] by simp
qed simp

lemma shuffle_sort_key:
  assumes ok: "chunk_ok c"
    and key: "\<And>i. i < num_rows c \<Longrightarrow> f i = g (chunk_row c i)"
  shows "chunk_ok (shuffle_with new_id (sort_key f [0..<num_rows c]) c)
    \<and> chunk_rows (shuffle_with new_id (sort_key f [0..<num_rows c]) c) = sort_key g (chunk_rows c)"
proof -
  have perm: "mset (sort_key f [0..<num_rows c]) = mset [0..<num_rows c]" by simp
  have "sort_key f [0..<num_rows c] = sort_key (\<lambda>i. g (chunk_row c i)) [0..<num_rows c]"
    using key by (intro sort_key_cong') auto
  then have "map (chunk_row c) (sort_key f [0..<num_rows c]) = sort_key g (chunk_rows c)"
    by (simp add: chunk_rows_def sort_key_map)
  then show ?thesis using shuffle_selects [OF ok perm] selects_rows by metis
qed

lemma map_fst_chunk_rows: "map fst (chunk_rows c) = ch_row_ids c"
  by (rule nth_equalityI) (auto simp: num_rows_def chunk_rows_def chunk_row_def)

text \<open>The rows of a sorted chunk.\<close>

lemma sort_if_unsorted_rows:
  assumes "chunk_ok c"
  shows "chunk_ok (sort_if_unsorted new_id c)
    \<and> chunk_rows (sort_if_unsorted new_id c) = sort_key fst (chunk_rows c)
    \<and> ch_is_sorted (sort_if_unsorted new_id c)"
proof (cases "ch_is_sorted c")
  case True
  then have "sorted (map fst (chunk_rows c))"
    using assms by (simp add: map_fst_chunk_rows chunk_ok_def row_ids_sorted_iff)
  with True assms show ?thesis by (simp add: sort_if_unsorted_def sort_key_id_if_sorted)
next
  case False
  have "chunk_ok (sort_if_unsorted new_id c)
      \<and> chunk_rows (sort_if_unsorted new_id c) = sort_key fst (chunk_rows c)"
    using False shuffle_sort_key [OF assms, of "\<lambda>i. ch_row_ids c ! i" fst]
    by (simp add: sort_if_unsorted_def chunk_row_def flip: num_rows_def)
  moreover from this have "sorted (ch_row_ids (sort_if_unsorted new_id c))"
    by (simp flip: map_fst_chunk_rows)
  ultimately show ?thesis by (simp add: chunk_ok_def row_ids_sorted_iff)
qed

text \<open>C21: sorting a chunk by row id is a stable sort of its rows and sets the flag.\<close>

theorem sort_if_unsorted_correct:
  assumes "chunk_ok c"
  shows "chunk_ok (sort_if_unsorted new_id c)
    \<and> chunk_rows (sort_if_unsorted new_id c) = sort_key fst (chunk_rows c)
    \<and> ch_is_sorted (sort_if_unsorted new_id c)"
  using assms by (rule sort_if_unsorted_rows)

text \<open>The rows of a chunk sorted by a timeline.\<close>

lemma sorted_by_timeline_rows:
  assumes ok: "chunk_ok c" and tc: "map_of (ch_timelines c) timeline = Some tc"
    and c'_def: "c' = sorted_by_timeline_if_unsorted new_id timeline c"
  shows "chunk_ok c' \<and> is_timeline_sorted timeline c'
    \<and> (if is_timeline_sorted timeline c then c' = c
       else chunk_rows c' = sort_key (\<lambda>(r, times, _). (sint (the (times timeline)), r)) (chunk_rows c))"
proof (cases "tc_is_sorted tc")
  case True
  then show ?thesis using ok tc
    by (auto simp: c'_def sorted_by_timeline_if_unsorted_def is_timeline_sorted_def)
next
  case False
  let ?key = "\<lambda>(r, times, _). (sint (the (times timeline)), r)"
  have n: "length (tc_times tc) = num_rows c" using chunk_ok_timeline [OF ok tc] by (simp add: tc_ok_def)
  have not_static: "\<not> chunk_is_static c" using tc by (auto simp: chunk_is_static_def)
  have c': "chunk_ok c' \<and> chunk_rows c' = sort_key ?key (chunk_rows c)"
    using False tc shuffle_sort_key [OF ok, of "\<lambda>i. (sint (tc_times tc ! i), ch_row_ids c ! i)" ?key]
    by (simp add: c'_def sorted_by_timeline_if_unsorted_def n chunk_row_def row_time_def)
  obtain tc' where tc': "map_of (ch_timelines c') timeline = Some tc'"
    using False tc
    by (auto simp: c'_def sorted_by_timeline_if_unsorted_def shuffle_with_def Let_def map_of_map_snd)
  have tc'_ok: "tc_ok (num_rows c') tc'" using chunk_ok_timeline c' tc' by blast
  have "sorted (map ?key (chunk_rows c'))" using c' by simp
  then have "sorted (map fst (map ?key (chunk_rows c')))"
    by (auto simp: sorted_map elim!: sorted_wrt_mono_rel [rotated])
  moreover have "map fst (map ?key (chunk_rows c')) = map sint (tc_times tc')"
    using tc'_ok by (intro nth_equalityI) (auto simp: tc_ok_def chunk_row_def row_time_def tc')
  ultimately have "tc_is_sorted tc'" using tc'_ok by (simp add: tc_ok_def times_sorted_iff)
  then show ?thesis using c' False tc tc' not_static by (simp add: is_timeline_sorted_def)
qed

text \<open>C22: sorting by a timeline is a stable sort by time, then row id, of a chunk whose timeline
  is out of order, and leaves every other chunk as it is.\<close>

theorem sorted_by_timeline_correct:
  assumes ok: "chunk_ok c" and tc: "map_of (ch_timelines c) timeline = Some tc"
    and c'_def: "c' = sorted_by_timeline_if_unsorted new_id timeline c"
  shows "chunk_ok c' \<and> is_timeline_sorted timeline c'
    \<and> (if is_timeline_sorted timeline c then c' = c
       else chunk_rows c' = sort_key (\<lambda>(r, times, _). (sint (the (times timeline)), r)) (chunk_rows c))"
  using assms by (rule sorted_by_timeline_rows)

section \<open>Splitting\<close>

lemma split_loop_rows:
  assumes ok: "chunk_ok c" and "0 < target"
  shows "concat (map chunk_rows (split_loop kb new_ids k target start c)) = drop start (chunk_rows c)
    \<and> (\<forall>p \<in> set (split_loop kb new_ids k target start c).
         chunk_ok p \<and> 0 < num_rows p \<and> num_rows p \<le> target \<and> num_rows p \<le> num_rows c)"
  using assms
proof (induction kb new_ids k target start c rule: split_loop.induct)
  case (1 kb new_ids k target start c)
  note ok = 1(2)
  note step = split_loop.simps [of kb new_ids k target start c]
  show ?case
  proof (cases "start < num_rows c")
    case False
    then show ?thesis by (simp add: step)
  next
    case True
    let ?size = "min (num_rows c - start) target"
    let ?p = "row_sliced kb (new_ids k) start ?size c"
    have p: "chunk_ok ?p" "chunk_rows ?p = take ?size (drop start (chunk_rows c))"
      using row_sliced_rows [OF ok] by auto
    have n: "num_rows ?p = ?size"
      using arg_cong [OF p(2), of length] by simp
    note IH = 1(1) [OF conjI [OF 1(3) True] refl refl ok 1(3)]
    have "take ?size (drop start (chunk_rows c)) @ drop (start + ?size) (chunk_rows c) = drop start (chunk_rows c)"
      using append_take_drop_id [of ?size "drop start (chunk_rows c)"] by (simp only: drop_drop add.commute)
    then show ?thesis using IH p n True 1(3) by (simp add: step Let_def)
  qed
qed

text \<open>The rows of the pieces of a chunk.\<close>

lemma split_chunk_rows:
  assumes ok: "chunk_ok c"
    and limit: "limit = (if is_time_sorted c then chunk_max_rows cfg else chunk_max_rows_if_unsorted cfg)"
  shows "concat (map chunk_rows (split_chunk_if_needed kb new_ids cfg size_bytes c)) = chunk_rows c
    \<and> (\<forall>p \<in> set (split_chunk_if_needed kb new_ids cfg size_bytes c).
         chunk_ok p \<and> (0 < limit \<longrightarrow> num_rows p \<le> limit))"
proof -
  let ?n = "num_rows c"
  let ?nb = "0 < chunk_max_bytes cfg \<and> chunk_max_bytes cfg < size_bytes"
  let ?nr = "0 < chunk_max_rows cfg \<and> chunk_max_rows cfg < ?n"
  let ?nu = "0 < chunk_max_rows_if_unsorted cfg \<and> chunk_max_rows_if_unsorted cfg < ?n \<and> \<not> is_time_sorted c"
  let ?target = "if ?nu then chunk_max_rows_if_unsorted cfg else if ?nr then chunk_max_rows cfg
      else chunk_max_bytes cfg div (max (size_bytes div (max ?n 1)) 1)"
  show ?thesis
  proof (cases "?n \<le> 1 \<or> \<not> ?nb \<and> \<not> ?nr \<and> \<not> ?nu")
    case True
    then consider "?n \<le> 1" | "\<not> ?n \<le> 1" "\<not> ?nb" "\<not> ?nr" "\<not> ?nu" by blast
    then have "split_chunk_if_needed kb new_ids cfg size_bytes c = [c]"
    proof cases
      case 2
      then show ?thesis
        unfolding split_chunk_if_needed_def Let_def by (simp only: if_True if_False simp_thms)
    qed (simp add: split_chunk_if_needed_def)
    moreover have "?n \<le> limit" if "0 < limit"
      using True that limit by (cases "is_time_sorted c") auto
    ultimately show ?thesis using ok by simp
  next
    case False
    then have loop: "split_chunk_if_needed kb new_ids cfg size_bytes c =
        split_loop kb new_ids 0 (max ?target 1) 0 c"
      unfolding split_chunk_if_needed_def Let_def de_Morgan_disj not_not
      by (simp only: if_False if_True simp_thms if_split_eq1)
    have "0 < max ?target 1" by simp
    note rows = split_loop_rows [OF ok this, of kb new_ids 0 0]
    have "max ?target 1 \<le> limit \<or> ?n \<le> limit" if "0 < limit"
    proof -
      consider "?nu" | "\<not> ?nu" "?nr" "is_time_sorted c" | "\<not> ?nu" "\<not> (?nr \<and> is_time_sorted c)" by blast
      then show ?thesis
      proof cases
        case 1
        then have "?target = limit" by (simp only: limit if_True if_False simp_thms)
        with that show ?thesis by simp
      next
        case 2
        then have "?target = limit" by (simp only: limit if_True if_False simp_thms)
        with that show ?thesis by simp
      next
        case 3
        with that limit have "?n \<le> limit" by (cases "is_time_sorted c") auto
        then show ?thesis ..
      qed
    qed
    moreover have "\<forall>p \<in> set (split_loop kb new_ids 0 (max ?target 1) 0 c).
        chunk_ok p \<and> num_rows p \<le> max ?target 1 \<and> num_rows p \<le> ?n" using rows by blast
    ultimately have "\<forall>p \<in> set (split_loop kb new_ids 0 (max ?target 1) 0 c).
        chunk_ok p \<and> (0 < limit \<longrightarrow> num_rows p \<le> limit)" by (meson le_trans)
    then show ?thesis using rows unfolding loop drop_0 by blast
  qed
qed

text \<open>C19: splitting loses and reorders nothing. The pieces, one after the other, have the rows of
  the chunk; every piece is a valid chunk, and none is longer than the row limit that applies to
  the chunk (in order of time or not) when that limit is set.\<close>

theorem split_chunk_correct:
  assumes ok: "chunk_ok c"
    and limit: "limit = (if is_time_sorted c then chunk_max_rows cfg else chunk_max_rows_if_unsorted cfg)"
  shows "concat (map chunk_rows (split_chunk_if_needed kb new_ids cfg size_bytes c)) = chunk_rows c
    \<and> (\<forall>p \<in> set (split_chunk_if_needed kb new_ids cfg size_bytes c).
         chunk_ok p \<and> (0 < limit \<longrightarrow> num_rows p \<le> limit))"
  using assms by (rule split_chunk_rows)

end
