(* ===== verification/Chunk_Merge.thy ===== *)
theory Chunk_Merge
  imports Chunk_Slices
begin

text \<open>Concatenation keeps the invariant of chunks and appends their rows.\<close>

section \<open>Time columns\<close>

lemma not_min_temporal: "as_i64 t \<noteq> i64_min \<Longrightarrow> is_temporal t"
  by (cases t) (auto simp: as_i64_def is_temporal_def nm_ok_iff_get split: option.splits)

lemma tc_ok_range:
  assumes "tc_ok n tc" "0 < n"
  shows "is_temporal (range_min (tc_time_range tc))" "is_temporal (range_max (tc_time_range tc))"
    "as_i64 (range_min (tc_time_range tc)) \<in> set (tc_times tc)"
    "as_i64 (range_max (tc_time_range tc)) \<in> set (tc_times tc)"
  using assms by (auto simp: tc_ok_def intro!: not_min_temporal)

lemma range_union_ends:
  assumes "is_temporal (range_min a)" "is_temporal (range_min b)" "is_temporal (range_max a)" "is_temporal (range_max b)"
  shows "sint (as_i64 (range_min (range_union a b))) = min (sint (as_i64 (range_min a))) (sint (as_i64 (range_min b)))"
    "sint (as_i64 (range_max (range_union a b))) = max (sint (as_i64 (range_max a))) (sint (as_i64 (range_max b)))"
    "range_min (range_union a b) \<in> {range_min a, range_min b}"
    "range_max (range_union a b) \<in> {range_max a, range_max b}"
  using assms by (auto simp: range_union_def time_less_eq_iff min_def max_def)

lemma tc_concatenated_ok:
  assumes l: "tc_ok nl l" "0 < nl" and r: "tc_ok nr r" "0 < nr" and tl: "tc_timeline l = tc_timeline r"
  shows "\<exists>tc. tc_concatenated l r = Some tc \<and> tc_ok (nl + nr) tc \<and> tc_times tc = tc_times l @ tc_times r"
proof -
  note L = tc_ok_range [OF l] and R = tc_ok_range [OF r]
  let ?l = "tc_time_range l" and ?r = "tc_time_range r"
  note u = range_union_ends [OF L(1) R(1) L(2) R(2)]
  have sorted: "(tc_is_sorted l \<and> tc_is_sorted r \<and> range_max ?l \<le> range_min ?r) =
      times_sorted (tc_times l @ tc_times r)"
  proof -
    have "range_max ?l \<le> range_min ?r \<longleftrightarrow> (\<forall>x\<in>set (tc_times l). \<forall>y\<in>set (tc_times r). sint x \<le> sint y)"
    proof
      assume "range_max ?l \<le> range_min ?r"
      then have "sint (as_i64 (range_max ?l)) \<le> sint (as_i64 (range_min ?r))"
        using L(2) R(1) by (simp add: time_less_eq_iff)
      then show "\<forall>x\<in>set (tc_times l). \<forall>y\<in>set (tc_times r). sint x \<le> sint y"
        using l(1) r(1) by (meson order_trans tc_ok_def)
    next
      assume "\<forall>x\<in>set (tc_times l). \<forall>y\<in>set (tc_times r). sint x \<le> sint y"
      then show "range_max ?l \<le> range_min ?r"
        using L(2,4) R(1,3) by (simp add: time_less_eq_iff)
    qed
    then show ?thesis using l(1) r(1) by (auto simp: tc_ok_def times_sorted_iff sorted_append)
  qed
  have within: "sint (as_i64 (range_min (range_union ?l ?r))) \<le> sint t \<and> sint t \<le> sint (as_i64 (range_max (range_union ?l ?r)))"
    if "t \<in> set (tc_times l @ tc_times r)" for t
    using that l(1) r(1) by (auto simp: u(1,2) tc_ok_def min_le_iff_disj le_max_iff_disj)
  have tight: "as_i64 (range_min (range_union ?l ?r)) \<in> set (tc_times l @ tc_times r)"
    "as_i64 (range_max (range_union ?l ?r)) \<in> set (tc_times l @ tc_times r)"
    using u(3,4) L(3,4) R(3,4) by auto
  let ?tc = "\<lparr>tc_timeline = tc_timeline r, tc_times = tc_times l @ tc_times r,
      tc_is_sorted = (tc_is_sorted l \<and> tc_is_sorted r \<and> range_max ?l \<le> range_min ?r),
      tc_time_range = range_union ?l ?r\<rparr>"
  have len: "length (tc_times l @ tc_times r) = nl + nr" "i64_min \<notin> set (tc_times l @ tc_times r)"
    using l(1) r(1) by (simp_all add: tc_ok_def)
  have "tc_ok (nl + nr) ?tc"
    unfolding tc_ok_def TimeColumn.simps sorted using within tight len by blast
  moreover have "tc_concatenated l r = Some ?tc" by (simp add: tc_concatenated_def tl)
  ultimately show ?thesis by simp
qed

section \<open>Components\<close>

definition merged_column ::
  "keeps_bitmap \<Rightarrow> nat \<Rightarrow> 'a ComponentColumn option \<Rightarrow> 'a ComponentColumn option \<Rightarrow> 'a ComponentColumn option" where
  "merged_column kb n l r =
     (case (l, r) of
        (Some lc, Some rc) \<Rightarrow> map_option (\<lambda>la. lc\<lparr>cc_list_array := la\<rparr>)
           (concat_arrays kb (cc_list_array lc) (cc_list_array rc))
      | (Some lc, None) \<Rightarrow> Some (lc\<lparr>cc_list_array := pad_list_array_back n (cc_list_array lc)\<rparr>)
      | (None, Some rc) \<Rightarrow> Some (rc\<lparr>cc_list_array := pad_list_array_front n (cc_list_array rc)\<rparr>)
      | (None, None) \<Rightarrow> None)"

lemma distinct_map_filter_pairs:
  "distinct (map fst cs) \<Longrightarrow> distinct (map fst (List.map_filter (\<lambda>(k, col). map_option (Pair k) (f col)) cs))"
proof -
  have "map fst (List.map_filter (\<lambda>(k, col). map_option (Pair k) (f col)) cs) =
      map fst (filter (\<lambda>(k, col). f col \<noteq> None) cs)"
    by (induction cs) (auto simp: List.map_filter_simps split: option.splits)
  then show "distinct (map fst cs) \<Longrightarrow> ?thesis" by (simp add: distinct_map_filter)
qed

lemma map_of_map_filter_pairs:
  "distinct (map fst cs) \<Longrightarrow>
     map_of (List.map_filter (\<lambda>(k, col). map_option (Pair k) (f col)) cs) k = Option.bind (map_of cs k) f"
proof (induction cs)
  case (Cons p cs)
  obtain j col where p: "p = (j, col)" by (cases p)
  have "map_of cs j = None" using Cons.prems by (simp add: p map_of_eq_None_iff)
  moreover have "map_of (List.map_filter (\<lambda>(k, col). map_option (Pair k) (f col)) cs) k = Option.bind (map_of cs k) f"
    using Cons by (simp add: p)
  ultimately show ?case by (cases "f col") (auto simp: p List.map_filter_simps)
qed (simp add: List.map_filter_simps)

lemma map_of_collected:
  assumes "distinct (map fst cs)" "\<And>k col col'. (k, col) \<in> set cs \<Longrightarrow> f col = Some col' \<Longrightarrow>
      cd_component (cc_descriptor col') = k"
  shows "map_of (cc_collect (List.map_filter (\<lambda>(_, col). f col) cs)) k = Option.bind (map_of cs k) f"
    "distinct (map fst (cc_collect (List.map_filter (\<lambda>(_, col). f col) cs)))"
proof -
  have "map (\<lambda>c. (cd_component (cc_descriptor c), c)) (List.map_filter (\<lambda>(_, col). f col) cs) =
      List.map_filter (\<lambda>(k, col). map_option (Pair k) (f col)) cs"
    using assms(2) by (induction cs) (force simp: List.map_filter_simps split: option.splits)+
  then have "cc_collect (List.map_filter (\<lambda>(_, col). f col) cs) =
      List.map_filter (\<lambda>(k, col). map_option (Pair k) (f col)) cs"
    using distinct_map_filter_pairs [OF assms(1), of f] by (simp add: cc_collect_im im_collect_distinct)
  then show "map_of (cc_collect (List.map_filter (\<lambda>(_, col). f col) cs)) k = Option.bind (map_of cs k) f"
    "distinct (map fst (cc_collect (List.map_filter (\<lambda>(_, col). f col) cs)))"
    using assms(1) by (simp_all add: map_of_map_filter_pairs distinct_map_filter_pairs)
qed

lemma map_of_rev_distinct: "distinct (map fst kvs) \<Longrightarrow> map_of (rev kvs) = map_of kvs"
  by (rule map_of_eqI) (auto simp: rev_map [symmetric] intro: map_of_is_SomeI)

lemma map_of_fold_insert_filter:
  assumes "distinct (map fst kvs)"
  shows "map_of (fold (\<lambda>(k, v). im_insert k v) kvs m) k = (case map_of kvs k of None \<Rightarrow> map_of m k | Some v \<Rightarrow> Some v)"
  using assms by (simp add: map_of_fold_im_insert map_add_def map_of_rev_distinct)

definition zip_filter ::
  "('v \<Rightarrow> 'v \<Rightarrow> 'w option) \<Rightarrow> ('k \<times> 'v) list \<Rightarrow> ('k \<times> 'v) list \<Rightarrow> ('k \<times> 'w) list" where
  "zip_filter f ls rs =
     List.map_filter (\<lambda>((n, l), (_, r)). map_option (\<lambda>x. (n, x)) (f l r)) (zip ls rs)"

lemma zip_filter_simps:
  "zip_filter f [] [] = []"
  "zip_filter f ((n, l) # ls) ((m, r) # rs) =
     (case f l r of None \<Rightarrow> zip_filter f ls rs | Some x \<Rightarrow> (n, x) # zip_filter f ls rs)"
  by (auto simp: zip_filter_def List.map_filter_simps split: option.splits)

lemma zip_filter_map:
  assumes "length ls = length rs"
  shows "\<forall>p \<in> set (zip ls rs). f (snd (fst p)) (snd (snd p)) \<noteq> None \<Longrightarrow>
    zip_filter f ls rs = map (\<lambda>p. (fst (fst p), the (f (snd (fst p)) (snd (snd p))))) (zip ls rs)"
  using assms by (induction ls rs rule: list_induct2) (auto simp: zip_filter_simps)

lemma map_of_zip_filter:
  assumes "map fst ls = map fst rs" "\<forall>p \<in> set (zip ls rs). f (snd (fst p)) (snd (snd p)) \<noteq> None"
  shows "map fst (zip_filter f ls rs) = map fst ls"
    "map_of (zip_filter f ls rs) k =
      (case (map_of ls k, map_of rs k) of (Some l, Some r) \<Rightarrow> f l r | _ \<Rightarrow> None)"
proof -
  have len: "length ls = length rs" using assms(1) by (metis length_map)
  have "map fst (zip_filter f ls rs) = map fst (map fst (zip ls rs))"
    using zip_filter_map [OF len assms(2)] by simp
  then show "map fst (zip_filter f ls rs) = map fst ls" using len by (simp only: map_fst_zip)
  show "map_of (zip_filter f ls rs) k =
      (case (map_of ls k, map_of rs k) of (Some l, Some r) \<Rightarrow> f l r | _ \<Rightarrow> None)"
    unfolding zip_filter_map [OF len assms(2)] using len assms
  proof (induction ls rs rule: list_induct2)
    case (Cons p ls q rs)
    obtain n l r where pq: "p = (n, l)" "q = (n, r)" using Cons.prems(1) by (cases p; cases q) auto
    then show ?case using Cons by (cases "k = n") auto
  qed simp
qed

lemma map_of_zip_pair:
  assumes "map fst ls = map fst rs" "distinct (map fst ls)" "map_of ls n = Some a" "map_of rs n = Some b"
  shows "((n, a), (n, b)) \<in> set (zip ls rs)"
proof -
  have "length ls = length rs" using assms(1) by (metis length_map)
  then show ?thesis using assms
  proof (induction ls rs rule: list_induct2)
    case (Cons p ls q rs)
    obtain m l r where pq: "p = (m, l)" "q = (m, r)" using Cons.prems(1) by (cases p; cases q) auto
    then show ?case using Cons by (cases "n = m") auto
  qed simp
qed

section \<open>The concatenation\<close>

definition cells_of :: "nat \<Rightarrow> 'a ComponentColumn option \<Rightarrow> 'a option list" where
  "cells_of n col = (case col of None \<Rightarrow> replicate n None | Some c \<Rightarrow> la_cells (cc_list_array c))"

lemma merged_column_ok:
  assumes "\<And>c. l = Some c \<Longrightarrow> column_ok nl (k, c)" "\<And>c. r = Some c \<Longrightarrow> column_ok nr (k, c)"
    and "0 < nl" "0 < nr"
    and types: "\<And>a b. l = Some a \<Longrightarrow> r = Some b \<Longrightarrow>
      la_datatype (cc_list_array a) = la_datatype (cc_list_array b)"
  shows "merged_column kb (nl + nr) l r = None \<longleftrightarrow> l = None \<and> r = None"
    "merged_column kb (nl + nr) l r = Some c \<Longrightarrow> column_ok (nl + nr) (k, c)
       \<and> la_cells (cc_list_array c) = cells_of nl l @ cells_of nr r"
proof -
  show "merged_column kb (nl + nr) l r = None \<longleftrightarrow> l = None \<and> r = None"
    using types by (auto simp: merged_column_def concat_arrays_def split: option.splits)
  assume m: "merged_column kb (nl + nr) l r = Some c"
  have pads: "nl + nr - nl \<noteq> 0" "nl + nr - nr \<noteq> 0" "nl + nr - nl = nr" "nl + nr - nr = nl"
    using assms(3,4) by simp_all
  show "column_ok (nl + nr) (k, c) \<and> la_cells (cc_list_array c) = cells_of nl l @ cells_of nr r"
  proof (cases l)
    case None
    then obtain rc where r: "r = Some rc" using m by (cases r) (auto simp: merged_column_def)
    have rc: "cd_component (cc_descriptor rc) = k" "la_len (cc_list_array rc) = nr"
      using assms(2) [OF r] by (simp_all add: column_ok_def)
    have c: "c = rc\<lparr>cc_list_array := pad_list_array_front (nl + nr) (cc_list_array rc)\<rparr>"
      using m None r by (simp add: merged_column_def)
    show ?thesis using rc pads
      by (simp add: c None r cells_of_def pad_list_array_front_def Let_def column_ok_def la_len_def la_ok_def)
  next
    case (Some lc)
    have lc: "cd_component (cc_descriptor lc) = k" "la_len (cc_list_array lc) = nl"
      using assms(1) [OF Some] by (simp_all add: column_ok_def)
    show ?thesis
    proof (cases r)
      case None
      have c: "c = lc\<lparr>cc_list_array := pad_list_array_back (nl + nr) (cc_list_array lc)\<rparr>"
        using m None Some by (simp add: merged_column_def)
      show ?thesis using lc pads
        by (simp add: c None Some cells_of_def pad_list_array_back_def Let_def column_ok_def la_len_def la_ok_def)
    next
      case r: (Some rc)
      have "la_len (cc_list_array rc) = nr" using assms(2) [OF r] by (simp add: column_ok_def)
      moreover obtain l' where "c = lc\<lparr>cc_list_array :=
          la_kernel kb (la_cells (cc_list_array lc) @ la_cells (cc_list_array rc)) l'\<rparr>"
        using m Some r types [OF Some r] by (auto simp: merged_column_def concat_arrays_def)
      ultimately show ?thesis using lc
        by (simp add: Some r cells_of_def column_ok_def la_len_def)
    qed
  qed
qed

lemma map_filter_cong': "(\<And>x. x \<in> set xs \<Longrightarrow> f x = g x) \<Longrightarrow> List.map_filter f xs = List.map_filter g xs"
  by (induction xs) (auto simp: List.map_filter_simps split: option.splits)

text \<open>The components of the result, by the two passes of the code.\<close>

lemma two_passes:
  assumes l: "distinct (map fst (ch_components cl))" "\<forall>p\<in>set (ch_components cl). column_ok (num_rows cl) p"
    and r: "distinct (map fst (ch_components cr))" "\<forall>p\<in>set (ch_components cr). column_ok (num_rows cr) p"
    and types: "same_datatypes cl cr"
    and first_def: "first = cc_collect (List.map_filter (\<lambda>(_, column). concat_r2l kb cl cr column) (ch_components cl))"
    and second_def: "second = List.map_filter (\<lambda>(_, column). concat_l2r kb cl cr first column) (ch_components cr)"
  shows "map_of (fold (\<lambda>(component, column). im_insert component column) second first) k =
      merged_column kb (num_rows cl + num_rows cr) (map_of (ch_components cl) k) (map_of (ch_components cr) k)
    \<and> distinct (map fst (fold (\<lambda>(component, column). im_insert component column) second first))"
proof -
  let ?l = "ch_components cl" and ?r = "ch_components cr" and ?n = "num_rows cl + num_rows cr"
  have keys: "cd_component (cc_descriptor col) = k" if "(k, col) \<in> set ?l \<or> (k, col) \<in> set ?r" for k col
    using that l(2) r(2) by (auto simp: column_ok_def)
  have r2l: "concat_r2l kb cl cr col = merged_column kb ?n (Some col) (map_of ?r k)" if "(k, col) \<in> set ?l" for k col
    using keys [of k col] that by (auto simp: concat_r2l_def merged_column_def cc_get_def split: option.splits)
  have desc: "cd_component (cc_descriptor col') = k" if "(k, col) \<in> set ?l" "concat_r2l kb cl cr col = Some col'" for k col col'
    using that keys [of k col] by (auto simp: concat_r2l_def split: option.splits)
  have f: "map_of first k = Option.bind (map_of ?l k) (concat_r2l kb cl cr)" "distinct (map fst first)" for k
    unfolding first_def using map_of_collected [OF l(1), of "concat_r2l kb cl cr"] desc by blast+
  have first: "map_of first k = (case map_of ?l k of None \<Rightarrow> None
      | Some col \<Rightarrow> merged_column kb ?n (Some col) (map_of ?r k))" for k
    using r2l [of k] by (auto simp: f map_of_SomeD split: option.splits)
  have contains: "cc_contains first k \<longleftrightarrow> map_of first k \<noteq> None" for k
    by (simp add: cc_contains_def map_of_eq_None_iff)
  have second: "second = List.map_filter (\<lambda>(k, col). map_option (Pair k) (map_option snd (concat_l2r kb cl cr first col))) ?r"
    unfolding second_def
  proof (rule map_filter_cong', clarify)
    fix k col assume "(k, col) \<in> set ?r"
    then show "concat_l2r kb cl cr first col = map_option (Pair k) (map_option snd (concat_l2r kb cl cr first col))"
      using keys [of k col] by (auto simp: concat_l2r_def Let_def option.map_comp comp_def split: option.splits)
  qed
  have map_second: "map_of second k = Option.bind (map_of ?r k) (\<lambda>col. map_option snd (concat_l2r kb cl cr first col))" for k
    unfolding second using r(1) by (rule map_of_map_filter_pairs)
  have "distinct (map fst second)" unfolding second using r(1) by (rule distinct_map_filter_pairs)
  note total = map_of_fold_insert_filter [OF this, of first k]
  have "(case map_of second k of None \<Rightarrow> map_of first k | Some v \<Rightarrow> Some v) =
      merged_column kb ?n (map_of ?l k) (map_of ?r k)"
  proof (cases "map_of ?r k")
    case None
    then show ?thesis by (cases "map_of ?l k") (simp_all add: map_second first merged_column_def)
  next
    case (Some rc)
    then have rc: "cd_component (cc_descriptor rc) = k" using keys map_of_SomeD by fast
    show ?thesis
    proof (cases "map_of ?l k")
      case None
      then show ?thesis using Some rc contains [of k]
        by (simp add: map_second first concat_l2r_def Let_def cc_get_def merged_column_def)
    next
      case l_Some: (Some lc)
      have lc: "cd_component (cc_descriptor lc) = k" "(k, lc) \<in> set ?l"
        using keys l_Some map_of_SomeD by fast+
      then have "la_datatype (cc_list_array lc) = la_datatype (cc_list_array rc)"
        using types Some by (fastforce simp: same_datatypes_def list_all_iff cc_get_def)
      then have "map_of first k \<noteq> None"
        using l_Some Some by (simp add: first merged_column_def concat_arrays_def)
      then show ?thesis using Some l_Some rc contains [of k]
        by (simp add: map_second concat_l2r_def Let_def) (simp add: first)
    qed
  qed
  then show ?thesis using total f(2) by (simp add: distinct_fold_im_insert)
qed

lemma row_id_range_ok:
  assumes "chunk_ok c" "0 < num_rows c"
  shows "row_id_range c = Some (Min (set (ch_row_ids c)), Max (set (ch_row_ids c)))"
proof -
  have ne: "ch_row_ids c \<noteq> []" using assms(2) by (auto simp: num_rows_def)
  have "hd (ch_row_ids c) = Min (set (ch_row_ids c)) \<and> last (ch_row_ids c) = Max (set (ch_row_ids c))"
    if "ch_is_sorted c"
  proof -
    have srt: "sorted (ch_row_ids c)" using assms(1) that by (simp add: chunk_ok_def row_ids_sorted_iff)
    obtain x xs where x: "ch_row_ids c = x # xs" using ne by (cases "ch_row_ids c") auto
    obtain ys y where y: "ch_row_ids c = ys @ [y]" using ne by (metis rev_exhaust)
    have "Min (set (ch_row_ids c)) = x" using srt by (intro Min_eqI) (auto simp: x)
    moreover have "Max (set (ch_row_ids c)) = y" using srt by (intro Max_eqI) (auto simp: y sorted_append)
    moreover have "hd (ch_row_ids c) = x" "last (ch_row_ids c) = y" by (simp add: x, simp add: y)
    ultimately show ?thesis by simp
  qed
  then show ?thesis using assms(2) by (auto simp: row_id_range_def chunk_is_empty_def)
qed

lemma sorted_append_Max_Min:
  assumes "xs \<noteq> []" "ys \<noteq> []"
  shows "sorted (xs @ ys) \<longleftrightarrow> sorted xs \<and> sorted ys \<and> Max (set xs) \<le> Min (set ys)"
  using assms by (auto simp: sorted_append)

lemma chunk_rows_append:
  assumes ids: "ch_row_ids c = ch_row_ids l @ ch_row_ids r"
    and times: "\<And>name. map_option tc_times (map_of (ch_timelines c) name) =
      (case (map_of (ch_timelines l) name, map_of (ch_timelines r) name) of
         (Some a, Some b) \<Rightarrow> Some (tc_times a @ tc_times b) | _ \<Rightarrow> None)"
    and same: "\<And>name. map_of (ch_timelines l) name = None \<longleftrightarrow> map_of (ch_timelines r) name = None"
    and cells: "\<And>k. map_of (ch_components c) k = None \<longleftrightarrow>
        map_of (ch_components l) k = None \<and> map_of (ch_components r) k = None"
      "\<And>k col. map_of (ch_components c) k = Some col \<Longrightarrow> la_cells (cc_list_array col) =
        cells_of (num_rows l) (map_of (ch_components l) k) @ cells_of (num_rows r) (map_of (ch_components r) k)"
    and ok: "chunk_ok l" "chunk_ok r"
  shows "chunk_rows c = chunk_rows l @ chunk_rows r"
proof (rule nth_equalityI)
  show "length (chunk_rows c) = length (chunk_rows l @ chunk_rows r)" by (simp add: num_rows_def ids)
  fix i assume "i < length (chunk_rows c)"
  then have i: "i < num_rows l + num_rows r" by (simp add: num_rows_def ids)
  have len_t: "length (tc_times tc) = num_rows d" if "map_of (ch_timelines d) name = Some tc" "chunk_ok d" for d name and tc
    using chunk_ok_timeline [OF that(2,1)] by (simp add: tc_ok_def)
  have len_c: "length (la_cells (cc_list_array col)) = num_rows d" if "map_of (ch_components d) k = Some col" "chunk_ok d"
    for d :: "'a Chunk" and k col
    using chunk_ok_array [OF that(2), of k "cc_list_array col"] that(1) by (simp add: cc_get_array_def la_len_def)
  have t: "row_time c i name = (if i < num_rows l then row_time l i name else row_time r (i - num_rows l) name)" for name
    using times [of name] same [of name] len_t [of l name, OF _ ok(1)]
    by (cases "map_of (ch_timelines l) name"; cases "map_of (ch_timelines r) name"; cases "map_of (ch_timelines c) name")
      (auto simp: row_time_def nth_append)
  have c: "row_cell c i k = (if i < num_rows l then row_cell l i k else row_cell r (i - num_rows l) k)" for k
  proof (cases "map_of (ch_components c) k")
    case None
    then show ?thesis using cells(1) [of k] by (simp add: row_cell_def cc_get_array_def)
  next
    case (Some col)
    have "length (cells_of (num_rows l) (map_of (ch_components l) k)) = num_rows l"
      using len_c [OF _ ok(1), of k] by (auto simp: cells_of_def split: option.splits)
    then show ?thesis using cells(2) [OF Some] i Some
      by (auto simp: row_cell_def cc_get_array_def nth_append cells_of_def split: option.splits)
  qed
  show "chunk_rows c ! i = (chunk_rows l @ chunk_rows r) ! i"
    using i by (auto simp: nth_append chunk_row_def t c num_rows_def ids fun_eq_iff)
qed

text \<open>The rows of a concatenation.\<close>

lemma concatenated_rows:
  assumes okl: "chunk_ok l" and okr: "chunk_ok r" and "0 < num_rows l" "0 < num_rows r"
    and conc: "concatenable l r"
    and types: "\<forall>((_, tl), (_, tr)) \<in> set (zip (ch_timelines l) (ch_timelines r)). tc_timeline tl = tc_timeline tr"
  shows "\<exists>c. concatenated True kb new_id l r = Inr c \<and> chunk_ok c \<and> chunk_rows c = chunk_rows l @ chunk_rows r
    \<and> ch_id c = new_id \<and> ch_entity_path c = ch_entity_path l
    \<and> map fst (ch_timelines c) = map fst (ch_timelines l)
    \<and> (\<forall>k. map_of (ch_components c) k = None \<longleftrightarrow> map_of (ch_components l) k = None \<and> map_of (ch_components r) k = None)
    \<and> (\<forall>name tc. map_of (ch_timelines c) name = Some tc \<longrightarrow>
         (\<exists>tl. map_of (ch_timelines l) name = Some tl \<and> tc_timeline tc = tc_timeline tl))"
proof -
  let ?nl = "num_rows l" and ?nr = "num_rows r"
  let ?first = "cc_collect (List.map_filter (\<lambda>(_, column). concat_r2l kb l r column) (ch_components l))"
  let ?rhs = "List.map_filter (\<lambda>(_, column). concat_l2r kb l r ?first column) (ch_components r)"
  define c where "c = \<lparr>ch_id = new_id, ch_entity_path = ch_entity_path l,
      ch_is_sorted = (ch_is_sorted l \<and> ch_is_sorted r \<and> Max (set (ch_row_ids l)) \<le> Min (set (ch_row_ids r))),
      ch_row_ids = ch_row_ids l @ ch_row_ids r,
      ch_timelines = im_collect (zip_filter tc_concatenated (ch_timelines l) (ch_timelines r)),
      ch_components = fold (\<lambda>(component, column). im_insert component column) ?rhs ?first\<rparr>"
  have conc_eq: "concatenated True kb new_id l r = bind_res (sanity_check True c) (\<lambda>_. Inr c)"
    using conc row_id_range_ok [OF okl] row_id_range_ok [OF okr] assms(3,4)
    by (simp add: concatenated_def Let_def zip_filter_def c_def)
  have keys: "map fst (ch_timelines l) = map fst (ch_timelines r)" "distinct (map fst (ch_timelines l))"
    and same: "same_datatypes l r"
    using conc okl by (simp_all add: concatenable_def same_timelines_def chunk_ok_def)
  have tc_l: "tc_ok ?nl tl" if "(n, tl) \<in> set (ch_timelines l)" for n tl using okl that by (auto simp: chunk_ok_def)
  have tc_r: "tc_ok ?nr tr" if "(n, tr) \<in> set (ch_timelines r)" for n tr using okr that by (auto simp: chunk_ok_def)
  have joined: "\<exists>tc. tc_concatenated tl tr = Some tc \<and> tc_ok (?nl + ?nr) tc \<and> tc_times tc = tc_times tl @ tc_times tr"
    if "((n, tl), (m, tr)) \<in> set (zip (ch_timelines l) (ch_timelines r))" for n tl m tr
  proof -
    have "tc_timeline tl = tc_timeline tr" using types that by auto
    moreover have "(n, tl) \<in> set (ch_timelines l)" "(m, tr) \<in> set (ch_timelines r)"
      using that by (auto dest: set_zip_leftD set_zip_rightD)
    ultimately show ?thesis using tc_concatenated_ok [OF tc_l _ tc_r] assms(3,4) by blast
  qed
  then have "\<forall>p \<in> set (zip (ch_timelines l) (ch_timelines r)). tc_concatenated (snd (fst p)) (snd (snd p)) \<noteq> None"
    by (metis option.distinct(1) prod.collapse)
  note z = map_of_zip_filter [OF keys(1) this]
  have tl: "ch_timelines c = zip_filter tc_concatenated (ch_timelines l) (ch_timelines r)"
    using keys(2) by (simp add: c_def im_collect_distinct z(1))
  have both: "map_of (ch_timelines l) name = None \<longleftrightarrow> map_of (ch_timelines r) name = None" for name
    using keys(1) by (metis map_of_eq_None_iff list.set_map)
  have joined': "\<exists>tc. map_of (ch_timelines c) name = Some tc \<and> tc_ok (?nl + ?nr) tc \<and> tc_times tc = tc_times a @ tc_times b"
    if "map_of (ch_timelines l) name = Some a" "map_of (ch_timelines r) name = Some b" for name a b
    using joined [OF map_of_zip_pair [OF keys that]] that by (simp add: tl z(2))
  note passes = two_passes [OF _ _ _ _ same refl refl, where kb = kb]
  have comp: "map_of (ch_components c) k = merged_column kb (?nl + ?nr) (map_of (ch_components l) k) (map_of (ch_components r) k)
      \<and> distinct (map fst (ch_components c))" for k
    unfolding c_def Chunk.simps by (rule passes) (use okl okr in \<open>auto simp: chunk_ok_def\<close>)
  have merged: "merged_column kb (?nl + ?nr) (map_of (ch_components l) k) (map_of (ch_components r) k) = None \<longleftrightarrow>
        map_of (ch_components l) k = None \<and> map_of (ch_components r) k = None"
    "merged_column kb (?nl + ?nr) (map_of (ch_components l) k) (map_of (ch_components r) k) = Some col \<Longrightarrow>
        column_ok (?nl + ?nr) (k, col) \<and> la_cells (cc_list_array col) =
          cells_of ?nl (map_of (ch_components l) k) @ cells_of ?nr (map_of (ch_components r) k)" for k col
  proof -
    have l: "column_ok ?nl (k, d)" if "map_of (ch_components l) k = Some d" for d
      using okl map_of_SomeD [OF that] by (auto simp: chunk_ok_def)
    have r: "column_ok ?nr (k, d)" if "map_of (ch_components r) k = Some d" for d
      using okr map_of_SomeD [OF that] by (auto simp: chunk_ok_def)
    have t: "la_datatype (cc_list_array a) = la_datatype (cc_list_array b)"
      if "map_of (ch_components l) k = Some a" "map_of (ch_components r) k = Some b" for a b
      using same l [OF that(1)] that map_of_SomeD [OF that(1)]
      by (fastforce simp: same_datatypes_def list_all_iff cc_get_def column_ok_def)
    note m = merged_column_ok [OF l r assms(3,4) t, where kb = kb]
    show "merged_column kb (?nl + ?nr) (map_of (ch_components l) k) (map_of (ch_components r) k) = None \<longleftrightarrow>
        map_of (ch_components l) k = None \<and> map_of (ch_components r) k = None" by (rule m(1))
    show "merged_column kb (?nl + ?nr) (map_of (ch_components l) k) (map_of (ch_components r) k) = Some col \<Longrightarrow>
        column_ok (?nl + ?nr) (k, col) \<and> la_cells (cc_list_array col) =
          cells_of ?nl (map_of (ch_components l) k) @ cells_of ?nr (map_of (ch_components r) k)" by (rule m(2))
  qed
  have ids: "ch_row_ids c = ch_row_ids l @ ch_row_ids r" by (simp add: c_def)
  have n: "num_rows c = ?nl + ?nr" by (simp add: num_rows_def ids)
  have rows: "chunk_rows c = chunk_rows l @ chunk_rows r"
  proof (rule chunk_rows_append [OF ids _ both _ _ okl okr])
    show "map_option tc_times (map_of (ch_timelines c) name) =
      (case (map_of (ch_timelines l) name, map_of (ch_timelines r) name) of
         (Some a, Some b) \<Rightarrow> Some (tc_times a @ tc_times b) | _ \<Rightarrow> None)" for name
      using joined' [of name] both [of name] by (auto simp: tl z(2) split: option.splits)
  qed (use comp merged in auto)
  have "ch_is_sorted c = row_ids_sorted (ch_row_ids c)"
    using okl okr assms(3,4) sorted_append_Max_Min [of "ch_row_ids l" "ch_row_ids r"]
    by (auto simp: c_def row_ids_sorted_iff chunk_ok_def num_rows_def)
  moreover have "tc_ok (num_rows c) tc" if "(name, tc) \<in> set (ch_timelines c)" for name tc
  proof -
    have tc: "map_of (ch_timelines c) name = Some tc" using that keys(2) by (simp add: tl z(1))
    then obtain a b where "map_of (ch_timelines l) name = Some a" "map_of (ch_timelines r) name = Some b"
      by (auto simp: tl z(2) split: option.splits)
    then show ?thesis using joined' [of name a b] tc by (auto simp: n)
  qed
  moreover have "column_ok (num_rows c) p" if "p \<in> set (ch_components c)" for p
  proof -
    obtain k col where p: "p = (k, col)" by (cases p)
    have "distinct (map fst (ch_components c))" using comp by blast
    then have "map_of (ch_components c) k = Some col" using that by (simp add: p map_of_is_SomeI)
    then show ?thesis using comp [of k] merged(2) [of k col] by (simp add: p n)
  qed
  ultimately have "chunk_ok c"
    using keys(2) comp by (auto simp: chunk_ok_def tl z(1))
  moreover have "\<exists>a. map_of (ch_timelines l) name = Some a \<and> tc_timeline tc = tc_timeline a"
    if "map_of (ch_timelines c) name = Some tc" for name tc
    using that by (auto simp: tl z(2) tc_concatenated_def split: option.splits if_splits)
  moreover have "map fst (ch_timelines c) = map fst (ch_timelines l)" by (simp add: tl z(1))
  moreover have "map_of (ch_components c) k = None \<longleftrightarrow> map_of (ch_components l) k = None \<and> map_of (ch_components r) k = None" for k
    using comp [of k] merged(1) [of k] by simp
  ultimately show ?thesis using rows chunk_ok_sane [of c]
    by (intro exI [of _ c] conjI) (simp_all add: conc_eq, simp_all add: c_def)
qed

text \<open>C17: concatenation appends. Two valid, non-empty chunks of one entity with the same timelines
  and compatible columns concatenate to a valid chunk whose rows are those of the left chunk
  followed by those of the right one; a component that only one of them has reads as null in the
  rows of the other.\<close>

theorem concatenated_correct:
  assumes okl: "chunk_ok l" and okr: "chunk_ok r" and "0 < num_rows l" "0 < num_rows r"
    and conc: "concatenable l r"
    and types: "\<forall>((_, tl), (_, tr)) \<in> set (zip (ch_timelines l) (ch_timelines r)). tc_timeline tl = tc_timeline tr"
  shows "\<exists>c. concatenated True kb new_id l r = Inr c \<and> chunk_ok c \<and> chunk_rows c = chunk_rows l @ chunk_rows r"
  using concatenated_rows [OF assms] by blast

end
