(* ===== verification/Store_Indexing.thy ===== *)
theory Store_Indexing
  imports Store_Query Store_Index_Props Chunk_Merge
begin

text \<open>
  Adding and removing a chunk act on every index of a store, per entity, timeline and component, as
  the contract \<open>time_index\<close> says: the nested maps are updated at the places where the chunk has an
  interval, and nowhere else.
\<close>

section \<open>Updates of nested maps\<close>

definition im_get :: "'v \<Rightarrow> ('k \<times> 'v) list \<Rightarrow> 'k \<Rightarrow> 'v" where
  "im_get dflt m k = (case map_of m k of None \<Rightarrow> dflt | Some v \<Rightarrow> v)"

lemma im_get_entry: "im_get d (im_entry k d f m) k' = (if k' = k then f (im_get d m k) else im_get d m k')"
  by (simp add: im_get_def im_entry_def map_of_im_insert)

lemma im_get_Nil [simp]: "im_get d [] k = d"
  by (simp add: im_get_def)

lemma im_get_fold_entry:
  assumes "distinct (map fst xs)"
  shows "im_get d (fold (\<lambda>(k, x). im_entry k d (f x)) xs m) k =
     (case map_of xs k of None \<Rightarrow> im_get d m k | Some x \<Rightarrow> f x (im_get d m k))"
  using assms
proof (induction xs arbitrary: m)
  case (Cons p xs)
  obtain k' x where p: "p = (k', x)" by (cases p)
  have "map_of xs k' = None" using Cons.prems by (simp add: p map_of_eq_None_iff)
  then show ?case using Cons by (auto simp: p im_get_entry split: option.splits)
qed simp

text \<open>An update of the entries that exist; a missing one counts as the default, which the update
  leaves alone.\<close>

definition visit_step ::
  "('x \<Rightarrow> 'v \<Rightarrow> bool \<Rightarrow> 'v \<times> bool) \<Rightarrow> 'k \<times> 'x \<Rightarrow> ('k \<times> 'v) list \<times> bool \<Rightarrow> ('k \<times> 'v) list \<times> bool" where
  "visit_step g = (\<lambda>(k, x) (m, b).
     case map_of m k of None \<Rightarrow> (m, b) | Some v \<Rightarrow> let (v, b) = g x v b in (im_insert k v m, b))"

definition visits :: "('x \<Rightarrow> 'v \<Rightarrow> 'v) \<Rightarrow> ('k \<times> 'x) list \<Rightarrow> ('k \<times> 'v) list \<Rightarrow> ('k \<times> 'v) list" where
  "visits h = fold (\<lambda>(k, x) m. case map_of m k of None \<Rightarrow> m | Some v \<Rightarrow> im_insert k (h x v) m)"

lemma fst_fold_visit:
  assumes "\<And>x v b. fst (g x v b) = h x v"
  shows "fst (fold (visit_step g) xs mb) = visits h xs (fst mb)"
proof (induction xs arbitrary: mb)
  case (Cons p xs)
  have "fst (visit_step g p mb) = visits h [p] (fst mb)"
    using assms by (cases p; cases mb) (simp add: visit_step_def visits_def case_prod_unfold Let_def split: option.splits)
  then show ?case using Cons by (simp add: visits_def)
qed (simp add: visits_def)

lemma im_get_visits:
  assumes "distinct (map fst xs)" "\<And>x. h x d = d"
  shows "im_get d (visits h xs m) k =
     (case map_of xs k of None \<Rightarrow> im_get d m k | Some x \<Rightarrow> h x (im_get d m k))"
  using assms(1)
proof (induction xs arbitrary: m)
  case (Cons p xs)
  obtain k' x where p: "p = (k', x)" by (cases p)
  have "map_of xs k' = None" using Cons.prems by (simp add: p map_of_eq_None_iff)
  moreover have "im_get d (visits h [p] m) j = (if j = k' then h x (im_get d m k') else im_get d m j)" for j
    by (auto simp: p visits_def im_get_def map_of_im_insert assms(2) split: option.splits)
  moreover have "visits h (p # xs) m = visits h xs (visits h [p] m)" by (simp add: visits_def)
  ultimately show ?case using Cons by (auto simp: p split: option.splits)
qed (simp add: visits_def)

section \<open>The indices of a store\<close>

text \<open>The index of a component on a timeline, or, without a component, that of the timeline; and
  the interval a chunk is indexed with there.\<close>

definition idx_at ::
  "'a ChunkStore \<Rightarrow> rstr list \<Rightarrow> TimelineName \<Rightarrow> ComponentIdentifier option \<Rightarrow> ChunkIdSetPerTime" where
  "idx_at s e timeline k =
     (case k of
        None \<Rightarrow> im_get index_default (im_get [] (temporal_ids s) e) timeline
      | Some component \<Rightarrow>
          im_get index_default (im_get [] (im_get [] (temporal_ids_per_component s) e) timeline) component)"

definition span :: "'a Chunk \<Rightarrow> TimelineName \<Rightarrow> ComponentIdentifier option \<Rightarrow> AbsoluteTimeRange option" where
  "span c timeline k =
     (case k of
        None \<Rightarrow> map_option tc_time_range (map_of (ch_timelines c) timeline)
      | Some component \<Rightarrow>
          Option.bind (map_of (time_range_per_component c) timeline) (\<lambda>ranges. map_of ranges component))"

lemma distinct_map_filter_keys:
  assumes "distinct (map fst xs)" "\<And>p q. f p = Some q \<Longrightarrow> fst q = fst p"
  shows "distinct (map fst (List.map_filter f xs))"
  using assms(1)
proof (induction xs)
  case (Cons p xs)
  have "fst ` set (List.map_filter f xs) \<subseteq> fst ` set xs"
    using assms(2) by (force simp: List.map_filter_def)
  then show ?case using Cons assms(2) [of p]
    by (cases "f p") (auto simp: List.map_filter_simps)
qed (simp add: List.map_filter_simps)

lemma distinct_time_ranges:
  assumes "chunk_ok c"
  shows "distinct (map fst (time_range_per_component c))"
    "(timeline, ranges) \<in> set (time_range_per_component c) \<Longrightarrow> distinct (map fst ranges)"
proof -
  show "distinct (map fst (time_range_per_component c))"
    using assms by (simp add: time_range_per_component_def chunk_ok_def comp_def case_prod_unfold)
  assume "(timeline, ranges) \<in> set (time_range_per_component c)"
  then obtain tc where "ranges = tc_time_range_per_component tc (ch_components c)"
    by (auto simp: time_range_per_component_def)
  moreover have "distinct (map fst (tc_time_range_per_component tc (ch_components c)))"
    unfolding tc_time_range_per_component_def Let_def
    by (rule distinct_map_filter_keys) (use assms in \<open>auto simp: chunk_ok_def split: if_splits prod.splits\<close>)
  ultimately show "distinct (map fst ranges)" by simp
qed

text \<open>Adding a chunk adds its interval to each of its indices, and nothing else.\<close>

lemma im_get_add_ranges:
  "distinct (map fst ranges) \<Longrightarrow> im_get index_default (add_ranges cid ranges m) component =
     (case map_of ranges component of None \<Rightarrow> im_get index_default m component
      | Some r \<Rightarrow> index_add r cid (im_get index_default m component))"
  unfolding add_ranges_def by (rule im_get_fold_entry)

lemma im_get_add_to_components:
  "chunk_ok c \<Longrightarrow> im_get [] (add_to_components c m) timeline =
     (case map_of (time_range_per_component c) timeline of None \<Rightarrow> im_get [] m timeline
      | Some ranges \<Rightarrow> add_ranges (ch_id c) ranges (im_get [] m timeline))"
  unfolding add_to_components_def by (rule im_get_fold_entry [OF distinct_time_ranges(1)])

lemma im_get_add_to_timelines:
  "chunk_ok c \<Longrightarrow> im_get index_default (add_to_timelines c m) timeline =
     (case map_of (ch_timelines c) timeline of None \<Rightarrow> im_get index_default m timeline
      | Some tc \<Rightarrow> index_add (tc_time_range tc) (ch_id c) (im_get index_default m timeline))"
  unfolding add_to_timelines_def by (rule im_get_fold_entry) (simp add: chunk_ok_def)

lemma idx_at_index:
  assumes "chunk_ok c"
  shows "idx_at (index_temporal_chunk c s) e timeline k =
     (case if e = ch_entity_path c then span c timeline k else None of
        None \<Rightarrow> idx_at s e timeline k
      | Some r \<Rightarrow> index_add r (ch_id c) (idx_at s e timeline k))"
proof (cases k)
  case None
  then show ?thesis
    by (simp add: idx_at_def index_temporal_chunk_def im_get_entry im_get_add_to_timelines [OF assms] span_def
        split: option.splits)
next
  case (Some component)
  show ?thesis
  proof (cases "map_of (time_range_per_component c) timeline")
    case None
    then show ?thesis
      by (simp add: Some idx_at_def index_temporal_chunk_def im_get_entry im_get_add_to_components [OF assms] span_def)
  next
    case (Some ranges)
    then have "distinct (map fst ranges)" using distinct_time_ranges(2) [OF assms] by (auto dest: map_of_SomeD)
    then show ?thesis
      using \<open>k = Some component\<close> Some
      by (simp add: idx_at_def index_temporal_chunk_def im_get_entry im_get_add_to_components [OF assms] span_def
          im_get_add_ranges split: option.splits)
  qed
qed

text \<open>Removing it takes them away.\<close>

lemma index_remove_default: "index_remove r cid index_default = (index_default, False)"
  by (simp add: index_remove_def index_default_def per_time_remove_def)

lemma remove_at_visit:
  "remove_at r cid k mb = visit_step (\<lambda>r v b. (fst (index_remove r cid v), b \<or> snd (index_remove r cid v))) (k, r) mb"
  by (cases mb) (simp add: remove_at_def visit_step_def Let_def case_prod_unfold split: option.splits)

definition remove_ranges ::
  "ChunkId \<Rightarrow> (ComponentIdentifier \<times> AbsoluteTimeRange) list \<Rightarrow> PerComponent \<Rightarrow> bool \<Rightarrow> PerComponent \<times> bool" where
  "remove_ranges cid ranges m b = fold (\<lambda>(component, r). remove_at r cid component) ranges (m, b)"

lemma fold_remove_at:
  "fold (\<lambda>(k, r). remove_at r cid k) xs mb =
     fold (visit_step (\<lambda>r v b. (fst (index_remove r cid v), b \<or> snd (index_remove r cid v)))) xs mb"
  by (induction xs arbitrary: mb) (simp_all add: remove_at_visit split_def)

lemma fst_remove_ranges:
  "fst (remove_ranges cid ranges m b) = visits (\<lambda>r idx. fst (index_remove r cid idx)) ranges m"
  unfolding remove_ranges_def fold_remove_at by (subst fst_fold_visit) simp_all

lemma im_get_remove_ranges:
  "distinct (map fst ranges) \<Longrightarrow> im_get index_default (fst (remove_ranges cid ranges m b)) component =
     (case map_of ranges component of None \<Rightarrow> im_get index_default m component
      | Some r \<Rightarrow> fst (index_remove r cid (im_get index_default m component)))"
  unfolding fst_remove_ranges by (rule im_get_visits) (simp_all add: index_remove_default)

lemma fst_remove_from_components:
  "fst (remove_from_components c mb) =
     visits (visits (\<lambda>r idx. fst (index_remove r (ch_id c) idx))) (time_range_per_component c) (fst mb)"
proof -
  have "remove_from_components c mb = fold (visit_step (remove_ranges (ch_id c))) (time_range_per_component c) mb"
    unfolding remove_from_components_def visit_step_def remove_ranges_def ..
  then show ?thesis by (simp add: fst_fold_visit [OF fst_remove_ranges])
qed

lemma remove_from_timelines_visit:
  "remove_from_timelines c mb = fold (visit_step (\<lambda>tc v b. (fst (index_remove (tc_time_range tc) (ch_id c) v),
     b \<or> snd (index_remove (tc_time_range tc) (ch_id c) v)))) (ch_timelines c) mb"
  unfolding remove_from_timelines_def
  by (rule fold_cong) (auto simp: fun_eq_iff remove_at_def visit_step_def Let_def case_prod_unfold split: option.split)

lemma fst_remove_from_timelines:
  "fst (remove_from_timelines c mb) =
     visits (\<lambda>tc idx. fst (index_remove (tc_time_range tc) (ch_id c) idx)) (ch_timelines c) (fst mb)"
  unfolding remove_from_timelines_visit by (rule fst_fold_visit) simp

text \<open>An entry of the outer map that is missing holds nothing to remove.\<close>

lemma visits_Nil [simp]: "visits h xs [] = []"
  by (induction xs) (auto simp: visits_def)

lemma temporal_maps_unindex:
  "im_get [] (temporal_ids_per_component (fst (unindex_chunk c s))) e =
     (if e = ch_entity_path c
      then fst (remove_from_components c (im_get [] (temporal_ids_per_component s) e, False))
      else im_get [] (temporal_ids_per_component s) e)"
  "im_get [] (temporal_ids (fst (unindex_chunk c s))) e =
     (if e = ch_entity_path c then visits (\<lambda>tc idx. fst (index_remove (tc_time_range tc) (ch_id c) idx))
          (ch_timelines c) (im_get [] (temporal_ids s) e)
      else im_get [] (temporal_ids s) e)"
  by (simp_all add: unindex_chunk_def im_get_def map_of_im_insert Let_def case_prod_unfold
      fst_remove_from_components fst_remove_from_timelines split: option.splits)

lemma idx_at_unindex:
  assumes "chunk_ok c"
  shows "idx_at (fst (unindex_chunk c s)) e timeline k =
     (case if e = ch_entity_path c then span c timeline k else None of
        None \<Rightarrow> idx_at s e timeline k
      | Some r \<Rightarrow> fst (index_remove r (ch_id c) (idx_at s e timeline k)))"
proof (cases k)
  case None
  have "distinct (map fst (ch_timelines c))" using assms by (simp add: chunk_ok_def)
  then show ?thesis
    by (simp add: None idx_at_def temporal_maps_unindex span_def im_get_visits index_remove_default split: option.splits)
next
  case (Some component)
  have *: "im_get [] (fst (remove_from_components c (m, b))) timeline =
     (case map_of (time_range_per_component c) timeline of None \<Rightarrow> im_get [] m timeline
      | Some ranges \<Rightarrow> visits (\<lambda>r idx. fst (index_remove r (ch_id c) idx)) ranges (im_get [] m timeline))" for m b
    unfolding fst_remove_from_components fst_conv by (subst im_get_visits [OF distinct_time_ranges(1) [OF assms]]) simp_all
  show ?thesis
  proof (cases "map_of (time_range_per_component c) timeline")
    case None
    then show ?thesis by (simp add: Some idx_at_def temporal_maps_unindex span_def *)
  next
    case (Some ranges)
    then have "distinct (map fst ranges)" using distinct_time_ranges(2) [OF assms] by (auto dest: map_of_SomeD)
    then show ?thesis using \<open>k = Some component\<close> Some
      by (simp add: idx_at_def temporal_maps_unindex span_def * im_get_visits index_remove_default split: option.splits)
  qed
qed

section \<open>What the indices hold\<close>

type_synonym spans = "rstr list \<Rightarrow> TimelineName \<Rightarrow> ComponentIdentifier option \<Rightarrow> ChunkId \<rightharpoonup> AbsoluteTimeRange"

definition indexed :: "spans \<Rightarrow> 'a ChunkStore \<Rightarrow> bool" where
  "indexed E s \<longleftrightarrow> (\<forall>e timeline k. index_repr (E e timeline k) (idx_at s e timeline k))"

definition own_span :: "'a Chunk \<Rightarrow> rstr list \<Rightarrow> TimelineName \<Rightarrow> ComponentIdentifier option \<Rightarrow> AbsoluteTimeRange option" where
  "own_span c e timeline k = (if e = ch_entity_path c then span c timeline k else None)"

definition put_spans :: "'a Chunk \<Rightarrow> spans \<Rightarrow> spans" where
  "put_spans c E = (\<lambda>e timeline k. (E e timeline k)(ch_id c := own_span c e timeline k))"

definition drop_spans :: "ChunkId \<Rightarrow> spans \<Rightarrow> spans" where
  "drop_spans cid E = (\<lambda>e timeline k. (E e timeline k)(cid := None))"

lemma indexed_index:
  assumes "indexed E s" "chunk_ok c" "\<And>e timeline k. E e timeline k (ch_id c) = None"
  shows "indexed (put_spans c E) (index_temporal_chunk c s)"
  unfolding indexed_def
proof (intro allI)
  fix e timeline k
  have rep: "index_repr (E e timeline k) (idx_at s e timeline k)" using assms(1) by (simp add: indexed_def)
  show "index_repr (put_spans c E e timeline k) (idx_at (index_temporal_chunk c s) e timeline k)"
  proof (cases "own_span c e timeline k")
    case None
    then show ?thesis using rep assms(3) [of e timeline k]
      by (simp add: idx_at_index [OF assms(2)] put_spans_def fun_upd_idem own_span_def)
  next
    case (Some r)
    then show ?thesis using chunk_index.repr_add [OF rep, of "ch_id c" r] assms(3) [of e timeline k]
      by (simp add: idx_at_index [OF assms(2)] put_spans_def own_span_def)
  qed
qed

lemma indexed_unindex:
  assumes "indexed E s" "chunk_ok c"
    "\<And>e timeline k. E e timeline k (ch_id c) = own_span c e timeline k \<or> E e timeline k (ch_id c) = None"
  shows "indexed (drop_spans (ch_id c) E) (fst (unindex_chunk c s))"
  unfolding indexed_def
proof (intro allI)
  fix e timeline k
  have rep: "index_repr (E e timeline k) (idx_at s e timeline k)" using assms(1) by (simp add: indexed_def)
  show "index_repr (drop_spans (ch_id c) E e timeline k) (idx_at (fst (unindex_chunk c s)) e timeline k)"
  proof (cases "own_span c e timeline k")
    case None
    then show ?thesis using rep assms(3) [of e timeline k]
      by (simp add: idx_at_unindex [OF assms(2)] drop_spans_def fun_upd_idem own_span_def)
  next
    case (Some r)
    then show ?thesis using chunk_index.repr_del [OF rep, of "ch_id c" r] assms(3) [of e timeline k]
      by (auto simp: idx_at_unindex [OF assms(2)] drop_spans_def own_span_def)
  qed
qed

lemma idx_at_cong:
  "temporal_ids_per_component s' = temporal_ids_per_component s \<Longrightarrow> temporal_ids s' = temporal_ids s \<Longrightarrow>
     idx_at s' e timeline k = idx_at s e timeline k"
  by (cases k) (simp_all add: idx_at_def)

lemma indexed_cong:
  "indexed E s \<Longrightarrow> temporal_ids_per_component s' = temporal_ids_per_component s \<Longrightarrow> temporal_ids s' = temporal_ids s \<Longrightarrow>
     (\<And>e timeline k. E' e timeline k = E e timeline k) \<Longrightarrow> indexed E' s'"
  by (simp add: indexed_def idx_at_cong [of s' s])

end
