(* ===== verification/Store_Inv.thy ===== *)
theory Store_Inv
  imports Store_Indexing "HOL-Library.Multiset"
begin

text \<open>
  The invariant of a chunk store: the map of loaded chunks, the chunks in order of their first row,
  the statistics and the indices agree. What a store holds is the multiset of the rows of its
  loaded chunks, each with its entity.
\<close>

section \<open>Loaded chunks as a multiset\<close>

definition chunks_mset :: "'a ChunkStore \<Rightarrow> 'a Chunk multiset" where
  "chunks_mset s = mset (physical_chunks s)"

definition rows_of :: "'a Chunk \<Rightarrow> (rstr list \<times> 'a row) multiset" where
  "rows_of c = image_mset (Pair (ch_entity_path c)) (mset (chunk_rows c))"

definition store_rows :: "'a ChunkStore \<Rightarrow> (rstr list \<times> 'a row) multiset" where
  "store_rows s = \<Sum>\<^sub># (image_mset rows_of (chunks_mset s))"

lemma mset_om_insert_new:
  assumes "om_get lin_cmp m k = None"
  shows "mset (om_insert lin_cmp k v m) = add_mset (k, v) (mset m)"
  using assms by (induction m) (auto simp: lin_cmp_def split: if_splits)

lemma mset_om_remove:
  assumes "om_sorted lin_cmp m" "om_get lin_cmp m k = Some v"
  shows "mset m = add_mset (k, v) (mset (om_remove lin_cmp k m))"
  using assms
proof (induction m)
  case (Cons p m)
  show ?case
  proof (cases "fst p = k")
    case True
    have "om_remove lin_cmp k m = m"
      using Cons.prems(1) True by (force simp: om_remove_def om_sorted_lin filter_id_conv)
    then show ?thesis using True Cons.prems(2) by (cases p) (auto simp: om_remove_def)
  next
    case False
    then show ?thesis using Cons by (cases p) (auto simp: om_remove_def om_sorted_Cons)
  qed
qed simp

lemma physical_chunk_in:
  "om_sorted lin_cmp (physical_chunks_per_chunk_id s) \<Longrightarrow>
     physical_chunk s cid = Some c \<longleftrightarrow> (cid, c) \<in> set (physical_chunks_per_chunk_id s)"
  using lin.om_get_in_Some [of "physical_chunks_per_chunk_id s" cid c cid]
  by (auto simp: physical_chunk_def dest: om_get_in)

lemma chunks_mset_put:
  assumes "physical_chunk s (ch_id c) = None"
    and "physical_chunks_per_chunk_id s' = om_insert lin_cmp (ch_id c) c (physical_chunks_per_chunk_id s)"
  shows "chunks_mset s' = add_mset c (chunks_mset s)"
  using mset_om_insert_new [of "physical_chunks_per_chunk_id s" "ch_id c" c] assms
  by (simp add: chunks_mset_def physical_chunks_def physical_chunk_def flip: mset_map) (metis image_mset_add_mset snd_conv mset_map)

section \<open>Statistics of a multiset of chunks\<close>

definition stats_of :: "('a Chunk \<Rightarrow> nat) \<Rightarrow> 'a Chunk multiset \<Rightarrow> ChunkStoreChunkStats" where
  "stats_of size_of M = \<lparr>stat_num_chunks = of_nat (size M),
     stat_total_size_bytes = (\<Sum>c\<in>#M. of_nat (size_of c)),
     stat_num_rows = (\<Sum>c\<in>#M. of_nat (num_rows c)),
     stat_num_events = (\<Sum>c\<in>#M. of_nat (num_events_cumulative c))\<rparr>"

lemma stats_of_empty [simp]: "stats_of size_of {#} = stats_default"
  by (simp add: stats_of_def stats_default_def)

lemma stats_of_add: "stats_add (stats_of size_of M) (stats_from_chunk size_of c) = stats_of size_of (add_mset c M)"
  by (simp add: stats_of_def stats_add_def stats_from_chunk_def)

lemma stats_of_sub: "stats_sub (stats_of size_of (add_mset c M)) (stats_from_chunk size_of c) = stats_of size_of M"
  by (simp add: stats_of_def stats_sub_def stats_from_chunk_def)

section \<open>The invariant\<close>

definition phys_ok :: "'a ChunkStore \<Rightarrow> bool" where
  "phys_ok s \<longleftrightarrow> om_sorted lin_cmp (physical_chunks_per_chunk_id s)
     \<and> (\<forall>(cid, c) \<in> set (physical_chunks_per_chunk_id s).
          ch_id c = cid \<and> chunk_ok c \<and> ch_is_sorted c \<and> 0 < num_rows c)"

definition first_row_id :: "'a Chunk \<Rightarrow> RowId" where
  "first_row_id c = hd (ch_row_ids c)"

definition row_order_ok :: "'a ChunkStore \<Rightarrow> bool" where
  "row_order_ok s \<longleftrightarrow> sorted (physical_chunk_ids_per_min_row_id s) \<and> distinct (physical_chunk_ids_per_min_row_id s)
     \<and> set (physical_chunk_ids_per_min_row_id s) = (\<lambda>(cid, c). (first_row_id c, cid)) ` set (physical_chunks_per_chunk_id s)"

text \<open>In the middle of an insertion, chunks \<open>P\<close> are counted that are not in the map yet.\<close>

definition stats_ok :: "('a Chunk \<Rightarrow> nat) \<Rightarrow> 'a Chunk multiset \<Rightarrow> 'a ChunkStore \<Rightarrow> bool" where
  "stats_ok size_of P s \<longleftrightarrow>
     temporal_physical_chunks_stats s = stats_of size_of (filter_mset (\<lambda>c. \<not> chunk_is_static c) (P + chunks_mset s))
     \<and> static_chunks_stats s = stats_of size_of (filter_mset chunk_is_static (P + chunks_mset s))"

definition spans_of :: "'a ChunkStore \<Rightarrow> spans" where
  "spans_of s = (\<lambda>e timeline k cid. Option.bind (physical_chunk s cid) (\<lambda>c. own_span c e timeline k))"

text \<open>\<open>V\<close> holds the intervals of the virtual chunks.\<close>

definition store_inv :: "('a Chunk \<Rightarrow> nat) \<Rightarrow> 'a Chunk multiset \<Rightarrow> spans \<Rightarrow> 'a ChunkStore \<Rightarrow> bool" where
  "store_inv size_of P V s \<longleftrightarrow> phys_ok s \<and> row_order_ok s \<and> stats_ok size_of P s
     \<and> indexed (\<lambda>e timeline k. V e timeline k ++ spans_of s e timeline k) s
     \<and> (\<forall>e timeline k cid. physical_chunk s cid \<noteq> None \<longrightarrow> V e timeline k cid = None)"

lemma phys_ok_get:
  "phys_ok s \<Longrightarrow> physical_chunk s cid = Some c \<Longrightarrow> ch_id c = cid \<and> chunk_ok c \<and> ch_is_sorted c \<and> 0 < num_rows c"
  by (auto simp: phys_ok_def physical_chunk_in)

lemma store_inv_new: "store_inv size_of {#} (\<lambda>_ _ _. Map.empty) (chunk_store_new config)"
  by (auto simp: store_inv_def phys_ok_def row_order_ok_def stats_ok_def indexed_def spans_of_def chunk_store_new_def
      physical_chunk_def chunks_mset_def physical_chunks_def idx_at_def index_repr_default map_add_def split: option.split)

section \<open>Unloading chunks\<close>

lemma row_id_range_sorted:
  "0 < num_rows c \<Longrightarrow> ch_is_sorted c \<Longrightarrow> row_id_range c = Some (first_row_id c, last (ch_row_ids c))"
  by (simp add: row_id_range_def chunk_is_empty_def first_row_id_def)

definition unload :: "('a Chunk \<Rightarrow> nat) \<Rightarrow> 'a Chunk \<Rightarrow> 'a ChunkStore \<Rightarrow> 'a ChunkStore" where
  "unload size_of c s = s\<lparr>
     physical_chunk_ids_per_min_row_id := bs_remove (first_row_id c, ch_id c) (physical_chunk_ids_per_min_row_id s),
     physical_chunks_per_chunk_id := om_remove lin_cmp (ch_id c) (physical_chunks_per_chunk_id s),
     temporal_physical_chunks_stats := stats_sub (temporal_physical_chunks_stats s) (stats_from_chunk size_of c)\<rparr>"

lemma unload_fields:
  "temporal_physical_chunks_stats (unload size_of c s) = stats_sub (temporal_physical_chunks_stats s) (stats_from_chunk size_of c)"
  "static_chunks_stats (unload size_of c s) = static_chunks_stats s"
  "temporal_ids_per_component (unload size_of c s) = temporal_ids_per_component s"
  "temporal_ids (unload size_of c s) = temporal_ids s"
  by (simp_all add: unload_def)

lemma physical_chunk_unload: "physical_chunk (unload size_of c s) = (physical_chunk s)(ch_id c := None)"
  by (simp add: physical_chunk_def unload_def lin.om_get_remove fun_eq_iff)

lemma chunks_mset_unload:
  assumes "phys_ok s" "physical_chunk s (ch_id c) = Some c"
  shows "chunks_mset s = add_mset c (chunks_mset (unload size_of c s))"
  using mset_om_remove [of "physical_chunks_per_chunk_id s" "ch_id c" c] assms
  by (simp add: chunks_mset_def physical_chunks_def unload_def phys_ok_def physical_chunk_def)

lemma set_om_remove: "set (om_remove lin_cmp k m) = {p \<in> set m. fst p \<noteq> k}"
  by (auto simp: om_remove_def)

lemma store_inv_unload:
  assumes inv: "store_inv size_of P V s" and c: "physical_chunk s (ch_id c) = Some c" and "\<not> chunk_is_static c"
  shows "store_inv size_of P (put_spans c V) (unload size_of c s)"
  unfolding store_inv_def
proof (intro conjI allI impI)
  have phys: "phys_ok s" and order: "row_order_ok s" and stats: "stats_ok size_of P s"
    and ind: "indexed (\<lambda>e timeline k. V e timeline k ++ spans_of s e timeline k) s"
    and disj: "\<And>e timeline k cid. physical_chunk s cid \<noteq> None \<Longrightarrow> V e timeline k cid = None"
    using inv by (auto simp: store_inv_def)
  show "phys_ok (unload size_of c s)"
    using phys by (auto simp: phys_ok_def unload_def lin.om_sorted_insert om_sorted_remove set_om_remove)
  have keys: "distinct (map fst (physical_chunks_per_chunk_id s))"
    using phys by (simp add: phys_ok_def om_sorted_distinct)
  have mem: "(ch_id c, c) \<in> set (physical_chunks_per_chunk_id s)"
    using phys c by (simp add: phys_ok_def physical_chunk_in)
  show "row_order_ok (unload size_of c s)"
  proof -
    have "(\<lambda>(cid, c). (first_row_id c, cid)) ` {p \<in> set (physical_chunks_per_chunk_id s). fst p \<noteq> ch_id c}
        = (\<lambda>(cid, c). (first_row_id c, cid)) ` set (physical_chunks_per_chunk_id s) - {(first_row_id c, ch_id c)}"
      using keys mem by (force dest: eq_key_imp_eq_value)
    then show ?thesis using order
      by (simp add: row_order_ok_def unload_def set_om_remove bs_ordered_remove [unfolded conj_imp_eq_imp_imp])
  qed
  show "stats_ok size_of P (unload size_of c s)"
    using stats assms(3)
    by (simp add: stats_ok_def chunks_mset_unload [OF phys c, of size_of] unload_fields) (simp add: stats_of_sub)
  show "indexed (\<lambda>e timeline k. put_spans c V e timeline k ++ spans_of (unload size_of c s) e timeline k) (unload size_of c s)"
  proof (rule indexed_cong [OF ind])
    show "put_spans c V e timeline k ++ spans_of (unload size_of c s) e timeline k
        = V e timeline k ++ spans_of s e timeline k" for e timeline k
      using c disj [of "ch_id c" e timeline k]
      by (auto simp: put_spans_def spans_of_def physical_chunk_unload map_add_def fun_eq_iff split: option.split)
  qed (simp_all add: unload_fields)
  show "put_spans c V e timeline k cid = None" if "physical_chunk (unload size_of c s) cid \<noteq> None" for e timeline k cid
    using that disj [of cid] by (auto simp: put_spans_def physical_chunk_unload split: if_splits)
qed

text \<open>What removals leave alone.\<close>

definition same_lineage :: "'a ChunkStore \<Rightarrow> 'a ChunkStore \<Rightarrow> bool" where
  "same_lineage s s' \<longleftrightarrow> st_config s' = st_config s \<and> chunks_lineage s' = chunks_lineage s
     \<and> dangling_splits s' = dangling_splits s \<and> split_on_ingest s' = split_on_ingest s
     \<and> leaky_compactions s' = leaky_compactions s
     \<and> static_chunk_ids_per_entity s' = static_chunk_ids_per_entity s"

lemma same_lineage_refl [simp]: "same_lineage s s"
  by (simp add: same_lineage_def)

lemma same_lineage_trans: "same_lineage s s' \<Longrightarrow> same_lineage s' s'' \<Longrightarrow> same_lineage s s''"
  by (simp add: same_lineage_def)

lemma same_lineage_unload [simp]: "same_lineage s (unload size_of c s)"
  by (simp add: same_lineage_def unload_def)

text \<open>A chunk that is handed in for removal is the one the store has under its id, if any.\<close>

definition removable :: "'a ChunkStore \<Rightarrow> 'a Chunk \<Rightarrow> bool" where
  "removable s c \<longleftrightarrow> \<not> chunk_is_static c \<and> (physical_chunk s (ch_id c) = None \<or> physical_chunk s (ch_id c) = Some c)"

lemma removable_unload: "removable s c \<Longrightarrow> removable (unload size_of c' s) c"
  by (auto simp: removable_def physical_chunk_unload)

lemma shallow_step:
  assumes inv: "store_inv size_of P V s" and c: "removable s c"
  shows "shallow_loop exhausted size_of n (c # chunks) s =
    (if physical_chunk s (ch_id c) = None then shallow_loop exhausted size_of n chunks s
     else if exhausted n then ([c], unload size_of c s)
     else let (dels, s') = shallow_loop exhausted size_of (n + 1) chunks (unload size_of c s) in (c # dels, s'))"
proof (cases "physical_chunk s (ch_id c)")
  case None
  have "(r, ch_id c) \<notin> set (physical_chunk_ids_per_min_row_id s)" for r
    using inv None by (auto simp: store_inv_def row_order_ok_def phys_ok_def physical_chunk_in [symmetric])
  then have "bs_remove (r, ch_id c) (physical_chunk_ids_per_min_row_id s) = physical_chunk_ids_per_min_row_id s" for r
    by (auto simp: bs_remove_def filter_id_conv)
  then show ?thesis by (simp add: None split: option.split)
next
  case (Some c')
  then have "c' = c" "row_id_range c = Some (first_row_id c, last (ch_row_ids c))"
    using c inv phys_ok_get [of s "ch_id c" c'] by (auto simp: removable_def store_inv_def row_id_range_sorted)
  then show ?thesis using Some by (simp add: physical_chunk_def unload_def Let_def)
qed

lemma subset_add_mset: "A \<subseteq># B \<Longrightarrow> A \<subseteq># add_mset x B"
  by (metis add_mset_add_single mset_subset_eq_add_left subset_mset.order_trans)

lemma shallow_loop_inv:
  assumes "store_inv size_of P V s" "\<forall>c \<in> set chunks. removable s c"
    and "shallow_loop exhausted size_of n chunks s = (dels, s')"
  shows "store_inv size_of P (fold put_spans dels V) s' \<and> set dels \<subseteq> set chunks \<and> mset dels \<subseteq># mset chunks
    \<and> chunks_mset s = mset dels + chunks_mset s'
    \<and> physical_chunk s' = physical_chunk s |` (- ch_id ` set dels)
    \<and> (\<forall>c \<in> set dels. physical_chunk s (ch_id c) = Some c)
    \<and> ((\<forall>i. \<not> exhausted i) \<longrightarrow> (\<forall>c \<in> set chunks. physical_chunk s' (ch_id c) = None))
    \<and> same_lineage s s' \<and> temporal_ids_per_component s' = temporal_ids_per_component s \<and> temporal_ids s' = temporal_ids s"
  using assms
proof (induction chunks arbitrary: n V s dels)
  case (Cons c chunks)
  note step = shallow_step [OF Cons.prems(1), of c exhausted n chunks]
  show ?case
  proof (cases "physical_chunk s (ch_id c)")
    case None
    then have "shallow_loop exhausted size_of n chunks s = (dels, s')" using Cons.prems step by simp
    from Cons.IH [OF Cons.prems(1) _ this] Cons.prems(2) None show ?thesis
      by (auto simp: restrict_map_def intro: subset_add_mset)
  next
    case (Some c')
    then have c: "physical_chunk s (ch_id c) = Some c" "\<not> chunk_is_static c"
      using Cons.prems(2) by (auto simp: removable_def)
    note inv' = store_inv_unload [OF Cons.prems(1) c]
    have phys: "phys_ok s" using Cons.prems(1) by (simp add: store_inv_def)
    show ?thesis
    proof (cases "exhausted n")
      case True
      then have eq: "dels = [c]" "s' = unload size_of c s" using c Cons.prems step by auto
      show ?thesis unfolding eq using c inv' True chunks_mset_unload [OF phys c(1), of size_of]
        by (auto simp: physical_chunk_unload unload_fields fun_eq_iff restrict_map_def)
    next
      case False
      obtain ds where rec: "shallow_loop exhausted size_of (n + 1) chunks (unload size_of c s) = (ds, s')"
        and eq: "dels = c # ds"
        using c Cons.prems False step by (auto split: prod.splits)
      have rem: "\<forall>c \<in> set chunks. removable (unload size_of c' s) c" for c'
        using Cons.prems(2) by (simp add: removable_unload)
      note IH = Cons.IH [OF inv' rem rec]
      have gone: "physical_chunk s' (ch_id c) = None"
        using IH by (simp add: eq restrict_map_def physical_chunk_unload)
      show ?thesis
        using IH c gone chunks_mset_unload [OF phys c(1), of size_of]
          same_lineage_trans [OF same_lineage_unload, of size_of c s s']
        by (auto simp: eq physical_chunk_unload unload_fields fun_eq_iff restrict_map_def split: if_splits)
    qed
  qed
qed (auto simp: restrict_map_def)

section \<open>Removing chunks from the indices\<close>

lemma unindex_fields:
  "same_lineage s (fst (unindex_chunk c s))"
  "physical_chunks_per_chunk_id (fst (unindex_chunk c s)) = physical_chunks_per_chunk_id s"
  "physical_chunk_ids_per_min_row_id (fst (unindex_chunk c s)) = physical_chunk_ids_per_min_row_id s"
  "temporal_physical_chunks_stats (fst (unindex_chunk c s)) = temporal_physical_chunks_stats s"
  "static_chunks_stats (fst (unindex_chunk c s)) = static_chunks_stats s"
  by (simp_all add: unindex_chunk_def same_lineage_def Let_def case_prod_unfold split: option.split)

text \<open>The parts of the state that the indices are not.\<close>

definition same_physical :: "'a ChunkStore \<Rightarrow> 'a ChunkStore \<Rightarrow> bool" where
  "same_physical s s' \<longleftrightarrow> physical_chunks_per_chunk_id s' = physical_chunks_per_chunk_id s
     \<and> physical_chunk_ids_per_min_row_id s' = physical_chunk_ids_per_min_row_id s
     \<and> temporal_physical_chunks_stats s' = temporal_physical_chunks_stats s
     \<and> static_chunks_stats s' = static_chunks_stats s"

lemma same_physical_ok:
  assumes "same_physical s s'"
  shows "physical_chunk s' = physical_chunk s" "chunks_mset s' = chunks_mset s"
    "phys_ok s' = phys_ok s" "row_order_ok s' = row_order_ok s" "stats_ok size_of P s' = stats_ok size_of P s"
    "spans_of s' = spans_of s"
  using assms by (simp_all add: same_physical_def physical_chunk_def chunks_mset_def physical_chunks_def
      phys_ok_def row_order_ok_def stats_ok_def spans_of_def)

definition drop_all :: "ChunkId set \<Rightarrow> spans \<Rightarrow> spans" where
  "drop_all ids E = (\<lambda>e timeline k. E e timeline k |` (- ids))"

lemma drop_all_insert: "drop_all (insert cid ids) E = drop_all ids (drop_spans cid E)"
  by (auto simp: drop_all_def drop_spans_def fun_eq_iff restrict_map_def)

lemma deep_loop_Cons:
  "snd (deep_loop (c # chunks) s) = snd (deep_loop chunks (fst (unindex_chunk c s)))"
  by (simp add: case_prod_unfold Let_def)

lemma deep_loop_indexed:
  assumes "indexed E s" "\<forall>c \<in> set chunks. chunk_ok c"
    "\<And>c e timeline k. c \<in> set chunks \<Longrightarrow>
       E e timeline k (ch_id c) = own_span c e timeline k \<or> E e timeline k (ch_id c) = None"
  shows "indexed (drop_all (ch_id ` set chunks) E) (snd (deep_loop chunks s))
    \<and> same_physical s (snd (deep_loop chunks s)) \<and> same_lineage s (snd (deep_loop chunks s))"
  using assms
proof (induction chunks arbitrary: s E)
  case Nil
  then show ?case by (simp add: drop_all_def same_physical_def)
next
  case (Cons c chunks)
  have ind: "indexed (drop_spans (ch_id c) E) (fst (unindex_chunk c s))"
    using Cons.prems by (intro indexed_unindex) auto
  have vals: "drop_spans (ch_id c) E e timeline k (ch_id c') = own_span c' e timeline k
      \<or> drop_spans (ch_id c) E e timeline k (ch_id c') = None" if "c' \<in> set chunks" for c' e timeline k
    using Cons.prems(3) [of c' e timeline k] that by (auto simp: drop_spans_def)
  have "\<forall>c \<in> set chunks. chunk_ok c" using Cons.prems(2) by simp
  note IH = Cons.IH [OF ind this vals, folded deep_loop_Cons]
  then have IH: "indexed (drop_all (ch_id ` set chunks) (drop_spans (ch_id c) E)) (snd (deep_loop (c # chunks) s))"
    "same_physical (fst (unindex_chunk c s)) (snd (deep_loop (c # chunks) s))"
    "same_lineage (fst (unindex_chunk c s)) (snd (deep_loop (c # chunks) s))"
    by blast+
  then show ?case
    using same_lineage_trans [OF unindex_fields(1) IH(3)]
    by (simp add: drop_all_insert del: deep_loop.simps) (simp add: same_physical_def unindex_fields del: deep_loop.simps)
qed

lemma fold_put_spans_other: "cid \<notin> ch_id ` set dels \<Longrightarrow> fold put_spans dels V e timeline k cid = V e timeline k cid"
  by (induction dels arbitrary: V) (auto simp: put_spans_def)

lemma fold_put_spans_cases:
  "fold put_spans dels V e timeline k cid = V e timeline k cid
   \<or> (\<exists>c' \<in> set dels. ch_id c' = cid \<and> fold put_spans dels V e timeline k cid = own_span c' e timeline k)"
proof (induction dels arbitrary: V)
  case (Cons c dels)
  show ?case using Cons.IH [of "put_spans c V"] by (auto simp: put_spans_def split: if_splits)
qed simp

text \<open>Without a time limit, deep removal takes the chunks out of the store and of its indices.\<close>

lemma remove_chunks_deep_inv:
  assumes inv: "store_inv size_of P V s" and rem: "\<forall>c \<in> set chunks. removable s c \<and> chunk_ok c"
    and V: "\<And>c e timeline k. c \<in> set chunks \<Longrightarrow>
      V e timeline k (ch_id c) = own_span c e timeline k \<or> V e timeline k (ch_id c) = None"
    and s': "s' = snd (remove_chunks_deep (\<lambda>_. False) size_of chunks s)"
  shows "store_inv size_of P (drop_all (ch_id ` set chunks) V) s'
    \<and> physical_chunk s' = physical_chunk s |` (- ch_id ` set chunks) \<and> same_lineage s s'
    \<and> (\<exists>gone. chunks_mset s = gone + chunks_mset s' \<and> gone \<subseteq># mset chunks \<and> set_mset gone = {c \<in> set chunks. physical_chunk s (ch_id c) = Some c})"
proof -
  obtain dels s1 where sh: "shallow_loop (\<lambda>_. False) size_of 0 chunks s = (dels, s1)" by fastforce
  have rem': "\<forall>c \<in> set chunks. removable s c" using rem by simp
  note sh' = shallow_loop_inv [OF inv rem' sh]
  have gone: "physical_chunk s1 (ch_id c) = None" if "c \<in> set chunks" for c using sh' that by blast
  have subset: "ch_id ` set dels \<subseteq> ch_id ` set chunks" using sh' by auto
  have phys1: "physical_chunk s1 = physical_chunk s |` (- ch_id ` set chunks)"
    using sh' gone subset by (fastforce simp: fun_eq_iff restrict_map_def)
  let ?E = "\<lambda>e timeline k. fold put_spans dels V e timeline k ++ spans_of s1 e timeline k"
  have s'_eq: "s' = snd (deep_loop chunks s1)" by (simp add: s' remove_chunks_deep_def remove_chunks_shallow_def sh)
  have vals: "fold put_spans dels V e timeline k (ch_id c) \<in> {own_span c e timeline k, None}"
    if "c \<in> set chunks" for c e timeline k
  proof (cases "ch_id c \<in> ch_id ` set dels")
    case False
    then show ?thesis using V [OF that] by (auto simp: fold_put_spans_other)
  next
    case True
    have "c' = c" if "c' \<in> set dels" "ch_id c' = ch_id c" for c'
      using rem \<open>c \<in> set chunks\<close> that sh' by (metis option.inject option.distinct(1) removable_def)
    then show ?thesis using V [OF that, of e timeline k] fold_put_spans_cases [of dels V e timeline k "ch_id c"] by auto
  qed
  have "indexed ?E s1" using sh' by (simp add: store_inv_def)
  then have deep: "indexed (drop_all (ch_id ` set chunks) ?E) s' \<and> same_physical s1 s' \<and> same_lineage s1 s'"
    unfolding s'_eq
  proof (rule deep_loop_indexed)
    show "\<forall>c \<in> set chunks. chunk_ok c" using rem by simp
    show "?E e timeline k (ch_id c) = own_span c e timeline k \<or> ?E e timeline k (ch_id c) = None"
      if "c \<in> set chunks" for c e timeline k
      using vals [OF that] gone [OF that] by (simp add: spans_of_def map_add_def)
  qed
  have E: "drop_all (ch_id ` set chunks) ?E e timeline k = drop_all (ch_id ` set chunks) V e timeline k ++ spans_of s' e timeline k"
    for e timeline k
  proof
    fix cid
    have spans: "spans_of s' = spans_of s1" using same_physical_ok(6) [of s1 s'] deep by simp
    show "drop_all (ch_id ` set chunks) ?E e timeline k cid = (drop_all (ch_id ` set chunks) V e timeline k ++ spans_of s' e timeline k) cid"
    proof (cases "cid \<in> ch_id ` set chunks")
      case True
      then show ?thesis using gone unfolding spans by (auto simp: drop_all_def map_add_def spans_of_def)
    next
      case False
      then have "fold put_spans dels V e timeline k cid = V e timeline k cid" using subset by (intro fold_put_spans_other) auto
      then show ?thesis using False unfolding spans by (simp add: drop_all_def map_add_def split: option.split)
    qed
  qed
  have "indexed (\<lambda>e timeline k. drop_all (ch_id ` set chunks) V e timeline k ++ spans_of s' e timeline k) s'"
    using deep unfolding E [symmetric] by simp
  moreover have "drop_all (ch_id ` set chunks) V e timeline k cid = None" if "physical_chunk s' cid \<noteq> None" for e timeline k cid
    using that same_physical_ok(1) [of s1 s'] deep phys1 inv
    by (auto simp: drop_all_def restrict_map_def store_inv_def split: if_splits)
  ultimately have inv': "store_inv size_of P (drop_all (ch_id ` set chunks) V) s'"
    using same_physical_ok [of s1 s'] deep sh' by (simp add: store_inv_def)
  have mset: "chunks_mset s = mset dels + chunks_mset s'" using same_physical_ok(2) [of s1 s'] deep sh' by simp
  have set: "set dels = {c \<in> set chunks. physical_chunk s (ch_id c) = Some c}"
  proof -
    have "c \<in> set dels" if c: "c \<in> set chunks" "physical_chunk s (ch_id c) = Some c" for c
    proof -
      have "ch_id c \<in> ch_id ` set dels" using gone [OF c(1)] c(2) sh' by (auto simp: restrict_map_def split: if_splits)
      then show ?thesis using sh' c(2) by fastforce
    qed
    then show ?thesis using sh' by auto
  qed
  have "mset dels \<subseteq># mset chunks" "same_lineage s s1" using sh' by blast+
  moreover have "same_lineage s1 s'" using deep by blast
  moreover have "physical_chunk s' = physical_chunk s |` (- ch_id ` set chunks)"
    using phys1 same_physical_ok(1) [of s1 s'] deep by simp
  ultimately show ?thesis using inv' mset set same_lineage_trans by (metis set_mset_mset)
qed

end
