(* ===== verification/Store_Pieces.thy ===== *)
theory Store_Pieces
  imports Store_Inv
begin

text \<open>
  What splitting and compaction do to a chunk, as the store needs it: the pieces of a chunk, and the
  concatenation of two chunks, are chunks of the same entity on the same timelines.
\<close>

section \<open>Chunks of an entity\<close>

text \<open>Every timeline of a store has one type.\<close>

definition typed :: "(TimelineName \<Rightarrow> Timeline) \<Rightarrow> 'a Chunk \<Rightarrow> bool" where
  "typed ty c \<longleftrightarrow> (\<forall>(name, tc) \<in> set (ch_timelines c). tc_timeline tc = ty name)"

text \<open>A chunk that insertion accepts, and what it hands on.\<close>

definition storable :: "(TimelineName \<Rightarrow> Timeline) \<Rightarrow> 'a Chunk \<Rightarrow> bool" where
  "storable ty c \<longleftrightarrow> chunk_ok c \<and> ch_is_sorted c \<and> 0 < num_rows c \<and> ch_components c \<noteq> [] \<and> typed ty c"

definition same_shape :: "'a Chunk \<Rightarrow> 'a Chunk \<Rightarrow> bool" where
  "same_shape c c' \<longleftrightarrow> ch_entity_path c' = ch_entity_path c \<and> map fst (ch_timelines c') = map fst (ch_timelines c)
     \<and> map fst (ch_components c') = map fst (ch_components c)
     \<and> map (\<lambda>(_, tc). tc_timeline tc) (ch_timelines c') = map (\<lambda>(_, tc). tc_timeline tc) (ch_timelines c)"

lemma typed_iff: "typed ty c \<longleftrightarrow> map (\<lambda>(_, tc). tc_timeline tc) (ch_timelines c) = map ty (map fst (ch_timelines c))"
  by (auto simp: typed_def)

lemma same_shape_refl [simp]: "same_shape c c"
  by (simp add: same_shape_def)

lemma same_shape_trans: "same_shape c c' \<Longrightarrow> same_shape c' c'' \<Longrightarrow> same_shape c c''"
  by (simp add: same_shape_def)

lemma same_shapeD:
  assumes "same_shape c c'"
  shows "typed ty c' = typed ty c" "chunk_is_static c' = chunk_is_static c"
    "ch_components c' = [] \<longleftrightarrow> ch_components c = []" "ch_entity_path c' = ch_entity_path c"
proof -
  show "typed ty c' = typed ty c" using assms by (simp add: typed_iff same_shape_def)
  show "chunk_is_static c' = chunk_is_static c" "ch_components c' = [] \<longleftrightarrow> ch_components c = []"
    "ch_entity_path c' = ch_entity_path c"
    using assms by (auto simp: same_shape_def chunk_is_static_def dest: arg_cong [of _ _ length])
qed

lemma tc_row_sliced_timeline: "tc_timeline (tc_row_sliced index len tc) = tc_timeline tc"
  by (simp add: tc_row_sliced_def tc_emptied_def Let_def)

lemma row_sliced_shape:
  assumes "chunk_ok c" "index < num_rows c" "0 < len"
  shows "same_shape c (row_sliced kb new_id index len c) \<and> ch_id (row_sliced kb new_id index len c) = new_id"
proof -
  define hi where "hi = min (index + len) (num_rows c)"
  let ?b = "ch_is_sorted c \<or> hi - index < 2"
  let ?chunk = "\<lparr>ch_id = new_id, ch_entity_path = ch_entity_path c, ch_is_sorted = ?b,
      ch_row_ids = sub_slice index (hi - index) (ch_row_ids c),
      ch_timelines = on_timelines (tc_row_sliced index (hi - index)) (ch_timelines c),
      ch_components = on_columns (\<lambda>la. la_kernel kb (sub_slice index (hi - index) (la_cells la)) la) (ch_components c)\<rparr>"
  have eq: "row_sliced kb new_id index len c = ?chunk\<lparr>ch_is_sorted := ?b \<or> is_sorted_uncached ?chunk\<rparr>"
    using assms(2,3) by (simp add: row_sliced_def Let_def flip: hi_def) (simp add: hi_def)
  show ?thesis unfolding eq
    by (simp add: same_shape_def chunk_ok_keys [OF assms(1)] comp_def case_prod_unfold tc_row_sliced_timeline)
qed

section \<open>Splitting\<close>

lemma split_loop_shape:
  assumes "chunk_ok c" "0 < target"
  shows "(\<forall>p \<in> set (split_loop kb new_ids k target start c). same_shape c p)
    \<and> map ch_id (split_loop kb new_ids k target start c)
        = map new_ids [k..<k + length (split_loop kb new_ids k target start c)]"
  using assms
proof (induction kb new_ids k target start c rule: split_loop.induct)
  case (1 kb new_ids k target start c)
  note ok = 1(2)
  note step = split_loop.simps [of kb new_ids k target start c]
  show ?case
  proof (cases "start < num_rows c")
    case True
    let ?size = "min (num_rows c - start) target"
    note IH = 1(1) [OF conjI [OF 1(3) True] refl refl ok 1(3)]
    have "same_shape c (row_sliced kb (new_ids k) start ?size c) \<and> ch_id (row_sliced kb (new_ids k) start ?size c) = new_ids k"
      using True 1(3) by (intro row_sliced_shape ok) auto
    moreover have "[k..<k + Suc n] = k # [k + 1..<k + 1 + n]" for n by (simp add: upt_conv_Cons)
    ultimately show ?thesis using IH True 1(3) by (simp add: step Let_def del: upt_Suc)
  qed (simp add: step)
qed

text \<open>The pieces of a chunk are the chunk itself, or have fresh ids.\<close>

definition pieces_of :: "'a Chunk \<Rightarrow> (nat \<Rightarrow> ChunkId) \<Rightarrow> 'a Chunk list \<Rightarrow> bool" where
  "pieces_of c new_ids ps \<longleftrightarrow> concat (map chunk_rows ps) = chunk_rows c
     \<and> (\<forall>p \<in> set ps. chunk_ok p \<and> 0 < num_rows p \<and> same_shape c p)
     \<and> (ps = [c] \<or> map ch_id ps = map new_ids [0..<length ps])"

lemma split_cases:
  "(\<forall>ids. split_chunk_if_needed kb ids cfg size_bytes c = [c])
   \<or> (\<exists>target. \<forall>ids. split_chunk_if_needed kb ids cfg size_bytes c = split_loop kb ids 0 (max target 1) 0 c)"
proof -
  have choice: "(\<forall>ids. (if P then x else if Q then x else f t ids) = x)
      \<or> (\<exists>u. \<forall>ids. (if P then x else if Q then x else f t ids) = f u ids)"
    for P Q and x :: "'a Chunk list" and f :: "nat \<Rightarrow> (nat \<Rightarrow> ChunkId) \<Rightarrow> 'a Chunk list" and t by auto
  show ?thesis unfolding split_chunk_if_needed_def Let_def
    by (rule choice [where f = "\<lambda>target ids. split_loop kb ids 0 (max target 1) 0 c"])
qed

lemma split_pieces:
  assumes ok: "chunk_ok c" and pos: "0 < num_rows c"
  shows "pieces_of c new_ids (split_chunk_if_needed kb new_ids cfg size_bytes c)"
  using split_cases [of kb cfg size_bytes c]
proof
  assume "\<forall>ids. split_chunk_if_needed kb ids cfg size_bytes c = [c]"
  then show ?thesis using assms by (simp add: pieces_of_def)
next
  assume "\<exists>target. \<forall>ids. split_chunk_if_needed kb ids cfg size_bytes c = split_loop kb ids 0 (max target 1) 0 c"
  then obtain target where eq: "split_chunk_if_needed kb new_ids cfg size_bytes c = split_loop kb new_ids 0 (max target 1) 0 c" by blast
  show ?thesis
    using split_loop_rows [OF ok, of "max target 1" kb new_ids 0 0] split_loop_shape [OF ok, of "max target 1" kb new_ids 0 0]
    by (simp add: eq pieces_of_def)
qed

lemma length_pieces: "\<forall>p \<in> set ps. 0 < num_rows p \<Longrightarrow> length ps \<le> length (concat (map chunk_rows ps))"
  by (induction ps) (auto simp: Suc_le_eq trans_le_add2 intro: add_mono [of 1, simplified])

lemma split_once_ok:
  assumes "chunk_ok p" "0 < num_rows p" "split_once kb size_of ids s n p = (n', qs)"
  shows "n < n' \<and> n' \<le> n + num_rows p \<and> concat (map chunk_rows qs) = chunk_rows p
    \<and> (\<forall>q \<in> set qs. chunk_ok q \<and> 0 < num_rows q \<and> same_shape p q) \<and> qs \<noteq> []
    \<and> (qs = [p] \<or> map ch_id qs = map ids [n..<n'])"
proof -
  have n': "n' = n + length qs" and qs: "pieces_of p (\<lambda>k. ids (n + k)) qs"
    using split_pieces [OF assms(1,2), of "\<lambda>k. ids (n + k)" kb "split_config (st_config s)" "size_of p"] assms(3)
    by (auto simp: split_once_def Let_def)
  have "qs \<noteq> []" using qs assms(2) by (auto simp: pieces_of_def num_rows_def chunk_rows_def)
  moreover have "map (\<lambda>k. ids (n + k)) [0..<length qs] = map ids [n..<n']"
    by (rule nth_equalityI) (simp_all add: n')
  moreover have "length qs \<le> num_rows p"
    using length_pieces [of qs] qs by (auto simp: pieces_of_def)
  ultimately show ?thesis using qs by (auto simp: pieces_of_def n')
qed

lemma fresh_upt: "map (\<lambda>k. ids (n + k)) [0..<m] = map ids [n..<n + m]"
  by (rule nth_equalityI) simp_all

text \<open>Whether a chunk is split does not depend on the fresh ids.\<close>

lemma split_once_cases:
  assumes "chunk_ok p" "split_once kb size_of ids s n p = (n', qs)"
  shows "(\<forall>n. split_once kb size_of ids s n p = (n + 1, [p])) \<or> map ch_id qs = map ids [n..<n']"
  using split_cases [of kb "split_config (st_config s)" "size_of p" p]
proof
  assume "\<forall>ids. split_chunk_if_needed kb ids (split_config (st_config s)) (size_of p) p = [p]"
  then show ?thesis by (simp add: split_once_def)
next
  assume "\<exists>target. \<forall>ids. split_chunk_if_needed kb ids (split_config (st_config s)) (size_of p) p
    = split_loop kb ids 0 (max target 1) 0 p"
  then obtain target where "split_chunk_if_needed kb (\<lambda>k. ids (n + k)) (split_config (st_config s)) (size_of p) p
    = split_loop kb (\<lambda>k. ids (n + k)) 0 (max target 1) 0 p" by blast
  then have "qs = split_loop kb (\<lambda>k. ids (n + k)) 0 (max target 1) 0 p" "n' = n + length qs"
    using assms(2) by (auto simp: split_once_def Let_def)
  moreover have "0 < max target 1" by simp
  ultimately show ?thesis
    using split_loop_shape [OF assms(1), of "max target 1" kb "\<lambda>k. ids (n + k)" 0 0] by (auto simp: fresh_upt)
qed

lemma sorted_concat: "sorted (concat xss) \<Longrightarrow> xs \<in> set xss \<Longrightarrow> sorted xs"
  by (induction xss) (auto simp: sorted_append)

lemma sorted_piece:
  assumes "concat (map chunk_rows ps) = chunk_rows c" "chunk_ok c" "ch_is_sorted c" "p \<in> set ps" "chunk_ok p"
  shows "ch_is_sorted p"
proof -
  have "sorted (map fst (concat (map chunk_rows ps)))"
    using assms(1-3) by (simp add: map_fst_chunk_rows chunk_ok_def row_ids_sorted_iff)
  then have "sorted (concat (map ch_row_ids ps))" by (simp add: map_concat comp_def map_fst_chunk_rows)
  then have "sorted (ch_row_ids p)" using assms(4) by (intro sorted_concat [of _ "ch_row_ids p"]) auto
  then show ?thesis using assms(5) by (simp add: chunk_ok_def row_ids_sorted_iff)
qed

lemma descends_from_a_compaction_root:
  "(\<forall>parent siblings. chunks_lineage s cid \<noteq> Some (SplitFrom parent siblings)) \<Longrightarrow>
   (\<forall>parents. chunks_lineage s cid \<noteq> Some (CompactedFrom parents)) \<Longrightarrow>
   descends_from_a_compaction s cid = Some False"
  by (subst descends_from_a_compaction.simps) (auto split: option.split ChunkDirectLineage.split)

lemma disjoint_parts:
  "A \<subseteq> {x} \<union> I \<Longrightarrow> B \<subseteq> P \<union> J \<Longrightarrow> I \<inter> J = {} \<Longrightarrow> x \<notin> J \<Longrightarrow> I \<inter> P = {} \<Longrightarrow> x \<notin> P \<Longrightarrow> A \<inter> B = {}"
  by blast

lemma union_parts:
  "A \<subseteq> {x} \<union> I \<Longrightarrow> B \<subseteq> P \<union> J \<Longrightarrow> I \<union> J \<subseteq> K \<Longrightarrow> A \<union> B \<subseteq> insert x P \<union> K"
  by blast

lemma member_parts: "x \<in> A \<union> I \<Longrightarrow> A \<subseteq> P \<union> J \<Longrightarrow> I \<union> J \<subseteq> K \<Longrightarrow> x \<in> P \<union> K"
  by blast

lemma chain_parts: "A \<subseteq> B \<union> J \<Longrightarrow> B \<subseteq> P \<union> I \<Longrightarrow> I \<union> J \<subseteq> K \<Longrightarrow> A \<subseteq> P \<union> K"
  by blast

lemma subset_parts: "A \<subseteq> B \<union> J \<Longrightarrow> B \<subseteq> I \<Longrightarrow> I \<union> J \<subseteq> K \<Longrightarrow> A \<subseteq> K"
  by blast

lemma split_pass_ok:
  assumes "\<forall>p \<in> set ps. chunk_ok p \<and> 0 < num_rows p \<and> descends_from_a_compaction s (ch_id p) = Some False"
    and "inj_on ids {n..<N}" "distinct (map ch_id ps)" "\<forall>k \<in> {n..<N}. ids k \<notin> ch_id ` set ps"
    and "n + length (concat (map chunk_rows ps)) \<le> N"
  shows "\<exists>n' qs. split_pass kb size_of ids s n ps = Some (n', qs)
    \<and> n \<le> n' \<and> n' \<le> n + length (concat (map chunk_rows ps))
    \<and> concat (map chunk_rows qs) = concat (map chunk_rows ps)
    \<and> (\<forall>q \<in> set qs. chunk_ok q \<and> 0 < num_rows q \<and> (\<exists>p \<in> set ps. same_shape p q))
    \<and> distinct (map ch_id qs) \<and> ch_id ` set qs \<subseteq> ch_id ` set ps \<union> ids ` {n..<n'} \<and> length ps \<le> length qs"
  using assms
proof (induction ps arbitrary: n)
  case (Cons p ps)
  obtain n1 qs1 where once: "split_once kb size_of ids s n p = (n1, qs1)" by fastforce
  have p: "chunk_ok p" "0 < num_rows p" using Cons.prems(1) by auto
  note o = split_once_ok [OF p once]
  have inj: "inj_on ids {n1..<N}" using Cons.prems(2) by (rule inj_on_subset) (use o in auto)
  have room: "n1 + length (concat (map chunk_rows ps)) \<le> N" using Cons.prems(5) o by simp
  obtain n2 qs2 where rec: "split_pass kb size_of ids s n1 ps = Some (n2, qs2)"
    "n1 \<le> n2 \<and> n2 \<le> n1 + length (concat (map chunk_rows ps))"
    "concat (map chunk_rows qs2) = concat (map chunk_rows ps)"
    "\<forall>q \<in> set qs2. chunk_ok q \<and> 0 < num_rows q \<and> (\<exists>p \<in> set ps. same_shape p q)"
    "distinct (map ch_id qs2)" "ch_id ` set qs2 \<subseteq> ch_id ` set ps \<union> ids ` {n1..<n2}" "length ps \<le> length qs2"
    using Cons.IH [OF _ inj _ _ room] Cons.prems(1,3,4) o by auto
  have le: "n1 \<le> N" "n2 \<le> N" using room rec(2) by auto
  have ids1: "distinct (map ch_id qs1)" "ch_id ` set qs1 \<subseteq> {ch_id p} \<union> ids ` {n..<n1}"
  proof -
    have "distinct (map ids [n..<n1])" using Cons.prems(2) le by (auto simp: distinct_map intro: inj_on_subset)
    then show "distinct (map ch_id qs1)" using o by auto
    have "qs1 = [p] \<or> map ch_id qs1 = map ids [n..<n1]" using o by blast
    then show "ch_id ` set qs1 \<subseteq> {ch_id p} \<union> ids ` {n..<n1}"
    proof
      assume "map ch_id qs1 = map ids [n..<n1]"
      from arg_cong [OF this, of set] show ?thesis by auto
    qed simp
  qed
  have I: "ids ` {n..<n1} \<inter> ids ` {n1..<n2} = {}" using Cons.prems(2) le o by (auto dest!: inj_onD)
  have N: "ch_id p \<notin> ids ` {n1..<n2}" "ids ` {n..<n1} \<inter> ch_id ` set ps = {}" "ch_id p \<notin> ch_id ` set ps"
  proof -
    have new: "ids k \<notin> ch_id ` set (p # ps)" if "n \<le> k" "k < N" for k using Cons.prems(4) that by auto
    show "ch_id p \<notin> ids ` {n1..<n2}"
    proof
      assume "ch_id p \<in> ids ` {n1..<n2}"
      then obtain k where k: "n1 \<le> k" "k < n2" "ch_id p = ids k" by auto
      then show False using new [of k] o le by simp
    qed
    show "ids ` {n..<n1} \<inter> ch_id ` set ps = {}"
    proof -
      have "ids k \<notin> ch_id ` set ps" if "k \<in> {n..<n1}" for k using new [of k] that le by simp
      then show ?thesis by blast
    qed
    show "ch_id p \<notin> ch_id ` set ps" using Cons.prems(3) by simp
  qed
  have disj: "ch_id ` set qs1 \<inter> ch_id ` set qs2 = {}"
    by (rule disjoint_parts [OF ids1(2) rec(6) I N])
  have eq: "split_pass kb size_of ids s n (p # ps) = Some (n2, qs1 @ qs2)"
    using Cons.prems(1) by (simp add: once rec(1))
  have sub: "ids ` {n..<n1} \<union> ids ` {n1..<n2} \<subseteq> ids ` {n..<n2}" using o rec(2) by auto
  have "length (p # ps) \<le> length (qs1 @ qs2)" using rec(7) o by (cases qs1) auto
  moreover have "ch_id ` set (qs1 @ qs2) \<subseteq> ch_id ` set (p # ps) \<union> ids ` {n..<n2}"
    using union_parts [OF ids1(2) rec(6) sub] by (simp add: image_Un)
  moreover have "distinct (map ch_id (qs1 @ qs2))" using ids1(1) rec(5) disj by auto
  moreover have "n \<le> n2 \<and> n2 \<le> n + length (concat (map chunk_rows (p # ps)))" using o rec(2) by simp
  ultimately show ?case unfolding eq using o rec by auto
qed simp

text \<open>Every pass that does not end the loop makes at least one more piece, and there are no more
  pieces than rows.\<close>

lemma split_passes_ok:
  assumes "\<forall>p \<in> set ps. chunk_ok p \<and> 0 < num_rows p \<and> same_shape c p"
    and "inj_on ids {n..<N}" "distinct (map ch_id ps)" "\<forall>k \<in> {n..<N}. ids k \<notin> ch_id ` set ps"
    and "\<And>cid. cid \<in> ch_id ` set ps \<union> ids ` {n..<N} \<Longrightarrow> descends_from_a_compaction s cid = Some False"
    and R: "R = length (concat (map chunk_rows ps))" "n + R * (R - length ps + 1) \<le> N"
  shows "\<exists>n' qs. split_passes kb size_of ids s n ps = Some (n', qs) \<and> n \<le> n' \<and> n' \<le> n + R * (R - length ps + 1)
    \<and> concat (map chunk_rows qs) = concat (map chunk_rows ps)
    \<and> (\<forall>q \<in> set qs. chunk_ok q \<and> 0 < num_rows q \<and> same_shape c q)
    \<and> distinct (map ch_id qs) \<and> ch_id ` set qs \<subseteq> ch_id ` set ps \<union> ids ` {n..<n'}"
  using assms
proof (induction "length (concat (map chunk_rows ps)) - length ps" arbitrary: ps n rule: less_induct)
  case less
  have ps: "\<forall>p \<in> set ps. chunk_ok p \<and> 0 < num_rows p \<and> descends_from_a_compaction s (ch_id p) = Some False"
    using less.prems(1,5) by auto
  have "R \<le> R * (R - length ps + 1)" by simp
  then have room: "n + length (concat (map chunk_rows ps)) \<le> N" using less.prems(6,7) by linarith
  obtain n1 qs where pass: "split_pass kb size_of ids s n ps = Some (n1, qs)"
    "n \<le> n1 \<and> n1 \<le> n + length (concat (map chunk_rows ps))"
    "concat (map chunk_rows qs) = concat (map chunk_rows ps)"
    "\<forall>q \<in> set qs. chunk_ok q \<and> 0 < num_rows q \<and> (\<exists>p \<in> set ps. same_shape p q)"
    "distinct (map ch_id qs)" "ch_id ` set qs \<subseteq> ch_id ` set ps \<union> ids ` {n..<n1}" "length ps \<le> length qs"
    using split_pass_ok [OF ps less.prems(2,3,4) room, of kb size_of] by blast
  have qs: "\<forall>q \<in> set qs. chunk_ok q \<and> 0 < num_rows q \<and> same_shape c q"
    using pass(4) less.prems(1) same_shape_trans by blast
  show ?case
  proof (cases "length qs = length ps")
    case True
    moreover have "n1 \<le> n + R * (R - length ps + 1)" using pass(2) less.prems(6) by (simp add: trans_le_add1)
    ultimately show ?thesis using pass qs by (subst split_passes.simps) auto
  next
    case False
    have "length qs \<le> length (concat (map chunk_rows ps))"
      using length_pieces [of qs] qs by (simp only: pass(3) [symmetric]) simp
    then have smaller: "length (concat (map chunk_rows qs)) - length qs < length (concat (map chunk_rows ps)) - length ps"
      using False pass(7) by (simp only: pass(3))
    have bound: "n1 + R * (R - length qs + 1) \<le> n + R * (R - length ps + 1)"
    proof -
      have "R - length qs + 1 \<le> R - length ps"
        using False pass(7) \<open>length qs \<le> length (concat (map chunk_rows ps))\<close> less.prems(6) by linarith
      then have "R * (R - length qs + 1) \<le> R * (R - length ps)" by (rule mult_le_mono2)
      then show ?thesis using pass(2) less.prems(6) by simp
    qed
    then have le: "n1 \<le> N" using less.prems(7) by linarith
    have inj: "inj_on ids {n1..<N}" using less.prems(2) by (rule inj_on_subset) (use pass(2) in auto)
    have fresh: "\<forall>k \<in> {n1..<N}. ids k \<notin> ch_id ` set qs"
    proof
      fix k assume k: "k \<in> {n1..<N}"
      then have "ids k \<notin> ids ` {n..<n1}" using less.prems(2) pass(2) le by (auto dest!: inj_onD)
      moreover have "ids k \<notin> ch_id ` set ps" using less.prems(4) k pass(2) by simp
      ultimately show "ids k \<notin> ch_id ` set qs" using pass(6) by blast
    qed
    have desc: "descends_from_a_compaction s cid = Some False" if "cid \<in> ch_id ` set qs \<union> ids ` {n1..<N}" for cid
    proof (rule less.prems(5))
      have "ids ` {n1..<N} \<union> ids ` {n..<n1} \<subseteq> ids ` {n..<N}" using pass(2) le by auto
      then show "cid \<in> ch_id ` set ps \<union> ids ` {n..<N}" by (rule member_parts [OF that pass(6)])
    qed
    have R': "R = length (concat (map chunk_rows qs))" using less.prems(6) pass(3) by simp
    have room': "n1 + R * (R - length qs + 1) \<le> N" using bound less.prems(7) by linarith
    from less.hyps [OF smaller qs inj pass(5) fresh desc R' room']
    obtain n' rs where rs: "split_passes kb size_of ids s n1 qs = Some (n', rs)"
      "n1 \<le> n' \<and> n' \<le> n1 + R * (R - length qs + 1)"
      "concat (map chunk_rows rs) = concat (map chunk_rows qs)"
      "\<forall>q \<in> set rs. chunk_ok q \<and> 0 < num_rows q \<and> same_shape c q"
      "distinct (map ch_id rs)" "ch_id ` set rs \<subseteq> ch_id ` set qs \<union> ids ` {n1..<n'}" by blast
    have sub: "ids ` {n..<n1} \<union> ids ` {n1..<n'} \<subseteq> ids ` {n..<n'}" using pass(2) rs(2) by auto
    have "ch_id ` set rs \<subseteq> ch_id ` set ps \<union> ids ` {n..<n'}" by (rule chain_parts [OF rs(6) pass(6) sub])
    moreover have "split_passes kb size_of ids s n ps = Some (n', rs)"
      using False by (subst split_passes.simps) (simp add: pass(1) rs(1))
    moreover have "n \<le> n' \<and> n' \<le> n + R * (R - length ps + 1)" using pass(2) rs(2) bound by linarith
    ultimately show ?thesis using rs(3,4,5) pass(3) by (intro exI [of _ n'] exI [of _ rs]) simp
  qed
qed

section \<open>Compaction\<close>

lemma concatenable_sym:
  assumes "chunk_ok l" "chunk_ok r" "concatenable l r"
  shows "concatenable r l"
proof -
  have "same_datatypes r l"
    unfolding same_datatypes_def list_all_iff
  proof (intro ballI)
    fix p assume p: "p \<in> set (ch_components r)"
    obtain k rcol where eq: "p = (k, rcol)" by (cases p)
    have r: "map_of (ch_components r) k = Some rcol" "cd_component (cc_descriptor rcol) = k"
      using assms(2) p by (auto simp: eq chunk_ok_def column_ok_def)
    have "la_datatype (cc_list_array rcol) = la_datatype (cc_list_array lcol)" if l: "map_of (ch_components l) k = Some lcol" for lcol
    proof -
      have "(k, lcol) \<in> set (ch_components l)" using l by (rule map_of_SomeD)
      moreover from this have "cd_component (cc_descriptor lcol) = k" using assms(1) by (auto simp: chunk_ok_def column_ok_def)
      ultimately show ?thesis using assms(3) r by (fastforce simp: concatenable_def same_datatypes_def list_all_iff cc_get_def)
    qed
    then show "case p of (_, lhs_column) \<Rightarrow> case cc_get (ch_components l) (cd_component (cc_descriptor lhs_column)) of
        None \<Rightarrow> True | Some rhs_column \<Rightarrow> la_datatype (cc_list_array lhs_column) = la_datatype (cc_list_array rhs_column)"
      by (auto simp: eq r cc_get_def split: option.split)
  qed
  then show ?thesis using assms(3) by (simp add: concatenable_def same_entity_paths_def same_timelines_def)
qed

lemma shuffle_shape: "same_shape c (shuffle_with new_id swaps c) \<and> ch_id (shuffle_with new_id swaps c) = new_id"
  by (simp add: shuffle_with_def same_shape_def comp_def case_prod_unfold tc_shuffle_with_def Let_def)

lemma sort_shape:
  assumes "chunk_ok c"
  shows "same_shape c (sort_if_unsorted new_id c)
    \<and> ch_id (sort_if_unsorted new_id c) = (if ch_is_sorted c then ch_id c else new_id)"
  by (simp add: sort_if_unsorted_def shuffle_shape)

lemma concatenated_release: "concatenated True kb new_id l r = Inr c \<Longrightarrow> concatenated False kb new_id l r = Inr c"
proof -
  have "sanity_check False c = Inr ()" if "sanity_check True c = Inr ()" for c :: "'a Chunk"
  proof -
    have "check_timelines False n tcs = Inr ()" if "check_timelines True n tcs = Inr ()" for n tcs
      using that by (induction tcs) (auto simp: bind_res_Inr_iff tc_sanity_check_def split: if_splits)
    then show ?thesis using that by (auto simp: sanity_check_def bind_res_Inr_iff split: if_splits)
  qed
  then show "concatenated True kb new_id l r = Inr c \<Longrightarrow> ?thesis"
    by (auto simp: concatenated_def Let_def bind_res_Inr_iff split: if_splits option.splits prod.splits)
qed

lemma concatenated_merge:
  assumes l: "storable ty l" "\<not> chunk_is_static l" and r: "storable ty r" and conc: "concatenable l r"
  shows "\<exists>c. concatenated False kb new_id l r = Inr c \<and> chunk_ok c \<and> 0 < num_rows c
    \<and> chunk_rows c = chunk_rows l @ chunk_rows r \<and> ch_id c = new_id \<and> ch_entity_path c = ch_entity_path l
    \<and> typed ty c \<and> \<not> chunk_is_static c \<and> ch_components c \<noteq> []"
proof -
  have ok: "chunk_ok l" "chunk_ok r" "0 < num_rows l" "0 < num_rows r" using l r by (auto simp: storable_def)
  have "tc_timeline tl = tc_timeline tr" if "((n, tl), (m, tr)) \<in> set (zip (ch_timelines l) (ch_timelines r))" for n tl m tr
  proof -
    have "n = m" using that conc by (auto simp: concatenable_def same_timelines_def in_set_zip) (metis fst_conv nth_map)
    moreover have "(n, tl) \<in> set (ch_timelines l)" "(m, tr) \<in> set (ch_timelines r)"
      using that by (auto dest: set_zip_leftD set_zip_rightD)
    ultimately show ?thesis using l r by (fastforce simp: storable_def typed_def)
  qed
  then have "\<forall>((_, tl), (_, tr)) \<in> set (zip (ch_timelines l) (ch_timelines r)). tc_timeline tl = tc_timeline tr" by auto
  from concatenated_rows [OF ok conc this, of kb new_id] obtain c where c: "concatenated True kb new_id l r = Inr c"
    "chunk_ok c" "chunk_rows c = chunk_rows l @ chunk_rows r" "ch_id c = new_id" "ch_entity_path c = ch_entity_path l"
    "map fst (ch_timelines c) = map fst (ch_timelines l)"
    "\<And>k. map_of (ch_components c) k = None \<longleftrightarrow> map_of (ch_components l) k = None \<and> map_of (ch_components r) k = None"
    "\<And>name tc. map_of (ch_timelines c) name = Some tc \<Longrightarrow>
       \<exists>tl. map_of (ch_timelines l) name = Some tl \<and> tc_timeline tc = tc_timeline tl" by blast
  have "typed ty c"
  proof -
    have "tc_timeline tc = ty name" if "(name, tc) \<in> set (ch_timelines c)" for name tc
    proof -
      have "map_of (ch_timelines c) name = Some tc" using c(2) that by (simp add: chunk_ok_def)
      then obtain tl where "map_of (ch_timelines l) name = Some tl" "tc_timeline tc = tc_timeline tl" using c(8) by blast
      then show ?thesis using l by (auto simp: storable_def typed_def dest: map_of_SomeD)
    qed
    then show ?thesis by (auto simp: typed_def)
  qed
  moreover have "\<not> chunk_is_static c" using c(6) l(2) by (auto simp: chunk_is_static_def)
  moreover have "ch_components c \<noteq> []"
  proof -
    obtain k col rest where "ch_components l = (k, col) # rest"
      using l by (cases "ch_components l") (auto simp: storable_def)
    then have "map_of (ch_components l) k \<noteq> None" by simp
    then have "map_of (ch_components c) k \<noteq> None" using c(7) [of k] by simp
    then show ?thesis by auto
  qed
  moreover have "0 < num_rows c" using arg_cong [OF c(3), of length] ok by simp
  ultimately show ?thesis using c(1-5) by (intro exI [of _ c]) (simp add: concatenated_release)
qed

lemma compaction_ok:
  assumes e: "storable ty e" "\<not> chunk_is_static e" and c: "storable ty c" "\<not> chunk_is_static c"
    and conc: "concatenable c e"
  shows "\<exists>m. concat_and_sort False kb new_id e c = Inr m \<and> storable ty m \<and> \<not> chunk_is_static m
    \<and> ch_id m = new_id \<and> ch_entity_path m = ch_entity_path c \<and> rows_of m = rows_of e + rows_of c"
proof -
  have conc': "concatenable e c" using concatenable_sym [OF _ _ conc] e c by (auto simp: storable_def)
  have path: "ch_entity_path e = ch_entity_path c" using conc by (simp add: concatenable_def same_entity_paths_def)
  have "\<exists>m. (if map_option fst (row_id_range e) < map_option fst (row_id_range c)
      then concatenated False kb new_id e c else concatenated False kb new_id c e) = Inr m
    \<and> chunk_ok m \<and> 0 < num_rows m \<and> mset (chunk_rows m) = mset (chunk_rows e) + mset (chunk_rows c)
    \<and> ch_id m = new_id \<and> ch_entity_path m = ch_entity_path c \<and> typed ty m \<and> \<not> chunk_is_static m \<and> ch_components m \<noteq> []"
  proof (cases "map_option fst (row_id_range e) < map_option fst (row_id_range c)")
    case True
    then show ?thesis using concatenated_merge [OF e c(1) conc', of kb new_id] path by auto
  next
    case False
    then show ?thesis using concatenated_merge [OF c e(1) conc, of kb new_id] path by auto
  qed
  then obtain m where m: "(if map_option fst (row_id_range e) < map_option fst (row_id_range c)
      then concatenated False kb new_id e c else concatenated False kb new_id c e) = Inr m"
    "chunk_ok m" "0 < num_rows m" "mset (chunk_rows m) = mset (chunk_rows e) + mset (chunk_rows c)" "ch_id m = new_id"
    "ch_entity_path m = ch_entity_path c" "typed ty m" "\<not> chunk_is_static m" "ch_components m \<noteq> []" by blast
  let ?m = "sort_if_unsorted new_id m"
  note sorted = sort_if_unsorted_rows [OF m(2), of new_id] and shape = sort_shape [OF m(2), of new_id]
  have "0 < num_rows ?m" using arg_cong [of "chunk_rows ?m" _ length] sorted m(3) by (metis length_chunk_rows length_sort)
  then have "storable ty ?m \<and> \<not> chunk_is_static ?m \<and> ch_id ?m = new_id \<and> ch_entity_path ?m = ch_entity_path c"
    using m sorted shape same_shapeD [of m ?m] by (auto simp: storable_def)
  moreover have "rows_of ?m = rows_of e + rows_of c"
    using m(4,6) sorted shape same_shapeD(4) [of m ?m] path by (simp add: rows_of_def)
  moreover have "concat_and_sort False kb new_id e c = Inr ?m" using m(1) by (simp add: concat_and_sort_def Let_def)
  ultimately show ?thesis by blast
qed

end
