(* ===== verification/Store_Insert.thy ===== *)
theory Store_Insert
  imports Store_Pieces
begin

text \<open>
  Insertion keeps the invariant of the store and adds exactly the rows of the inserted chunk,
  whatever splitting and compaction make of it.
\<close>

section \<open>Counting and indexing, then filing\<close>

definition count_chunk :: "('a Chunk \<Rightarrow> nat) \<Rightarrow> 'a Chunk \<Rightarrow> 'a ChunkStore \<Rightarrow> 'a ChunkStore" where
  "count_chunk size_of c s = s\<lparr>temporal_physical_chunks_stats :=
     stats_add (temporal_physical_chunks_stats s) (stats_from_chunk size_of c)\<rparr>"

lemma index_fields:
  "same_lineage s (index_temporal_chunk c s)"
  "same_physical s (index_temporal_chunk c s)"
  by (simp_all add: index_temporal_chunk_def same_lineage_def same_physical_def)

lemma count_fields:
  "same_lineage s (count_chunk size_of c s)" "physical_chunk (count_chunk size_of c s) = physical_chunk s"
  "chunks_mset (count_chunk size_of c s) = chunks_mset s" "phys_ok (count_chunk size_of c s) = phys_ok s"
  "row_order_ok (count_chunk size_of c s) = row_order_ok s" "spans_of (count_chunk size_of c s) = spans_of s"
  "temporal_ids_per_component (count_chunk size_of c s) = temporal_ids_per_component s"
  "temporal_ids (count_chunk size_of c s) = temporal_ids s"
  "temporal_physical_chunks_stats (count_chunk size_of c s) = stats_add (temporal_physical_chunks_stats s) (stats_from_chunk size_of c)"
  "static_chunks_stats (count_chunk size_of c s) = static_chunks_stats s"
  by (simp_all add: count_chunk_def same_lineage_def physical_chunk_def chunks_mset_def physical_chunks_def phys_ok_def
      row_order_ok_def spans_of_def)

lemma index_step:
  assumes inv: "store_inv size_of P V s" and c: "chunk_ok c" "\<not> chunk_is_static c"
    and new: "physical_chunk s (ch_id c) = None" "\<And>e timeline k. V e timeline k (ch_id c) = None"
    and s': "s' = count_chunk size_of c (index_temporal_chunk c s)"
  shows "store_inv size_of (add_mset c P) (put_spans c V) s' \<and> physical_chunk s' = physical_chunk s
    \<and> chunks_mset s' = chunks_mset s \<and> same_lineage s s'"
proof -
  note same = same_physical_ok [OF index_fields(2) [of s c]]
  have ind: "indexed (\<lambda>e timeline k. V e timeline k ++ spans_of s e timeline k) s" using inv by (simp add: store_inv_def)
  have "indexed (put_spans c (\<lambda>e timeline k. V e timeline k ++ spans_of s e timeline k)) (index_temporal_chunk c s)"
    by (rule indexed_index [OF ind c(1)]) (simp add: new spans_of_def map_add_def)
  then have "indexed (\<lambda>e timeline k. put_spans c V e timeline k ++ spans_of s' e timeline k) s'"
  proof (rule indexed_cong)
    show "put_spans c V e timeline k ++ spans_of s' e timeline k
        = put_spans c (\<lambda>e timeline k. V e timeline k ++ spans_of s e timeline k) e timeline k" for e timeline k
      using new by (auto simp: s' put_spans_def count_fields same spans_of_def map_add_def fun_eq_iff split: option.split)
  qed (simp_all add: s' count_fields)
  moreover have "stats_ok size_of (add_mset c P) s'"
    using inv c(2) same(2)
    by (simp add: store_inv_def stats_ok_def s' count_fields index_temporal_chunk_def flip: stats_of_add)
  moreover have "phys_ok s'" "row_order_ok s'" using inv by (simp_all add: store_inv_def s' count_fields same)
  moreover have "put_spans c V e timeline k cid = None" if "physical_chunk s' cid \<noteq> None" for e timeline k cid
    using that new inv by (auto simp: put_spans_def s' count_fields same store_inv_def)
  moreover have "same_lineage s s'" unfolding s' by (rule same_lineage_trans [OF index_fields(1) count_fields(1)])
  ultimately show ?thesis by (simp add: store_inv_def s' count_fields same)
qed

lemma finish_fields:
  assumes "0 < num_rows m" "ch_is_sorted m"
  shows "physical_chunks_per_chunk_id (finish_insertion m lineage s)
      = om_insert lin_cmp (ch_id m) m (physical_chunks_per_chunk_id s)"
    "physical_chunk_ids_per_min_row_id (finish_insertion m lineage s)
      = bs_insert (first_row_id m, ch_id m) (physical_chunk_ids_per_min_row_id s)"
    "temporal_physical_chunks_stats (finish_insertion m lineage s) = temporal_physical_chunks_stats s"
    "static_chunks_stats (finish_insertion m lineage s) = static_chunks_stats s"
    "temporal_ids_per_component (finish_insertion m lineage s) = temporal_ids_per_component s"
    "temporal_ids (finish_insertion m lineage s) = temporal_ids s"
    "st_config (finish_insertion m lineage s) = st_config s"
    "dangling_splits (finish_insertion m lineage s) = dangling_splits s"
    "leaky_compactions (finish_insertion m lineage s) = leaky_compactions s"
    "cid \<noteq> ch_id m \<Longrightarrow> chunks_lineage (finish_insertion m lineage s) cid = chunks_lineage s cid"
  using row_id_range_sorted [OF assms]
  by (simp_all add: finish_insertion_def Let_def split: ChunkDirectLineageReport.split)

lemma finish_step:
  assumes inv: "store_inv size_of (add_mset m P) (put_spans m V) s"
    and m: "chunk_ok m" "ch_is_sorted m" "0 < num_rows m"
    and new: "physical_chunk s (ch_id m) = None" "\<And>e timeline k. V e timeline k (ch_id m) = None"
    and s': "s' = finish_insertion m lineage s"
  shows "store_inv size_of P V s' \<and> physical_chunk s' = (physical_chunk s)(ch_id m \<mapsto> m)
    \<and> chunks_mset s' = add_mset m (chunks_mset s)"
proof -
  note f = finish_fields [OF m(3,2), where lineage = lineage and s = s, folded s']
  have phys: "phys_ok s" using inv by (simp add: store_inv_def)
  have get: "physical_chunk s' = (physical_chunk s)(ch_id m \<mapsto> m)"
    by (auto simp: physical_chunk_def f(1) lin.om_get_insert fun_eq_iff)
  have mset: "chunks_mset s' = add_mset m (chunks_mset s)" by (rule chunks_mset_put [OF new(1) f(1)])
  have set: "set (physical_chunks_per_chunk_id s') = insert (ch_id m, m) (set (physical_chunks_per_chunk_id s))"
  proof -
    have "om_get lin_cmp (physical_chunks_per_chunk_id s) (ch_id m) = None" using new(1) by (simp add: physical_chunk_def)
    from arg_cong [OF mset_om_insert_new [OF this, of m], of set_mset] show ?thesis by (simp add: f(1))
  qed
  have "phys_ok s'" using phys m unfolding phys_ok_def set by (auto simp: f(1) lin.om_sorted_insert)
  moreover have "row_order_ok s'"
    using inv unfolding row_order_ok_def set
    by (simp add: f(2) store_inv_def row_order_ok_def bs_ordered_insert [unfolded conj_imp_eq_imp_imp])
  moreover have "stats_ok size_of P s'"
    using inv by (simp add: store_inv_def stats_ok_def f(3,4) mset)
  moreover have "indexed (\<lambda>e timeline k. V e timeline k ++ spans_of s' e timeline k) s'"
  proof (rule indexed_cong)
    show "indexed (\<lambda>e timeline k. put_spans m V e timeline k ++ spans_of s e timeline k) s"
      using inv by (simp add: store_inv_def)
    show "V e timeline k ++ spans_of s' e timeline k = put_spans m V e timeline k ++ spans_of s e timeline k" for e timeline k
      using new by (auto simp: put_spans_def spans_of_def get map_add_def fun_eq_iff split: option.split)
  qed (simp_all add: f)
  moreover have "V e timeline k cid = None" if "physical_chunk s' cid \<noteq> None" for e timeline k cid
  proof (cases "cid = ch_id m")
    case False
    then have "physical_chunk s cid \<noteq> None" using that by (simp add: get)
    then have "put_spans m V e timeline k cid = None" using inv unfolding store_inv_def by blast
    then show ?thesis using False by (simp add: put_spans_def)
  qed (simp add: new)
  ultimately show ?thesis using get mset by (simp add: store_inv_def)
qed

section \<open>Electing a chunk to compact with\<close>

lemma candidates_positive:
  assumes "(cid, p) \<in> set (fold (\<lambda>(cid, weight). im_entry cid 0 (\<lambda>p. p + candidate_points size_of s c cid * weight)) vis acc)"
    and "0 < p" "\<forall>(cid, p) \<in> set acc. 0 < p \<longrightarrow> 0 < candidate_points size_of s c cid"
  shows "0 < candidate_points size_of s c cid"
  using assms
proof (induction vis arbitrary: acc)
  case (Cons v vis)
  obtain k w where v: "v = (k, w)" by (cases v)
  let ?acc = "im_entry k 0 (\<lambda>p. p + candidate_points size_of s c k * w) acc"
  have mem: "(j, q) \<in> set (im_insert k x m) \<Longrightarrow> (j, q) \<in> set m \<or> (j, q) = (k, x)" for j q x and m :: "(ChunkId \<times> nat) list"
    by (induction m) (auto split: if_splits)
  have "\<forall>(cid, p) \<in> set ?acc. 0 < p \<longrightarrow> 0 < candidate_points size_of s c cid"
    using Cons.prems(3) by (auto simp: im_entry_def dest!: mem dest: map_of_SomeD split: option.splits)
  then show ?case using Cons.IH [of ?acc] Cons.prems(1,2) by (simp add: v)
qed auto

lemma elected_ok:
  assumes perm: "\<And>xs. mset (hash_order xs) = mset xs"
    and e: "find_and_elect_compaction_candidate hash_order size_of s c = Some e"
  shows "\<exists>cid. physical_chunk s cid = Some e \<and> concatenable c e \<and> cid \<noteq> ch_id c \<and> \<not> descends_from_a_split s cid"
proof -
  define cands where "cands vis = fold (\<lambda>(cid, weight).
      im_entry cid 0 (\<lambda>p. p + candidate_points size_of s c cid * weight)) vis []" for vis
  have "\<exists>vis rest. List.map_filter (physical_chunk s)
      (map fst (filter (\<lambda>(_, points). 0 < points) (rev (sort_key snd (hash_order (cands vis)))))) = e # rest"
    using e unfolding find_and_elect_compaction_candidate_def Let_def cands_def [symmetric]
    by (auto split: if_splits option.splits list.splits)
  then obtain vis rest where "List.map_filter (physical_chunk s)
      (map fst (filter (\<lambda>(_, points). 0 < points) (rev (sort_key snd (hash_order (cands vis)))))) = e # rest" by blast
  then have "e \<in> set (List.map_filter (physical_chunk s)
      (map fst (filter (\<lambda>(_, points). 0 < points) (rev (sort_key snd (hash_order (cands vis)))))))" by simp
  then obtain cid p where cid: "physical_chunk s cid = Some e" "0 < p" "(cid, p) \<in> set (hash_order (cands vis))"
    by (auto simp: List.map_filter_def)
  then have "(cid, p) \<in> set (cands vis)" using perm [of "cands vis"] by (metis set_mset_mset)
  then have "0 < candidate_points size_of s c cid" unfolding cands_def using cid(2) by (rule candidates_positive) simp
  then show ?thesis using cid(1) by (auto simp: candidate_points_def split: if_splits)
qed

section \<open>Inserting a chunk whole\<close>

definition store_ok :: "('a Chunk \<Rightarrow> nat) \<Rightarrow> (TimelineName \<Rightarrow> Timeline) \<Rightarrow> spans \<Rightarrow> 'a ChunkStore \<Rightarrow> bool" where
  "store_ok size_of ty V s \<longleftrightarrow> store_inv size_of {#} V s \<and> (\<forall>cid c. physical_chunk s cid = Some c \<longrightarrow> storable ty c)"

text \<open>Ids other than those in \<open>A\<close> are as unknown to the store as before.\<close>

definition only_new :: "ChunkId set \<Rightarrow> 'a ChunkStore \<Rightarrow> 'a ChunkStore \<Rightarrow> bool" where
  "only_new A s s' \<longleftrightarrow> st_config s' = st_config s \<and> (\<forall>cid. cid \<notin> A \<longrightarrow>
     (physical_chunk s cid = None \<longrightarrow> physical_chunk s' cid = None \<and> leaky_compactions s' cid = leaky_compactions s cid)
     \<and> chunks_lineage s' cid = chunks_lineage s cid \<and> dangling_splits s' cid = dangling_splits s cid)"

lemma only_new_trans: "only_new A s s' \<Longrightarrow> only_new B s' s'' \<Longrightarrow> A \<subseteq> C \<Longrightarrow> B \<subseteq> C \<Longrightarrow> only_new C s s''"
  unfolding only_new_def by (metis subsetD)

lemma remove_chunks_deep_subset: "set (fst (remove_chunks_deep b size_of chunks s)) \<subseteq> set chunks"
proof -
  have "set (fst (deep_loop chunks s)) \<subseteq> set chunks" for s
  proof (induction chunks arbitrary: s)
    case (Cons c chunks)
    then show ?case using Cons [of "fst (unindex_chunk c s)"] by (auto simp: Let_def case_prod_unfold)
  qed simp
  then show ?thesis by (simp add: remove_chunks_deep_def)
qed

lemma store_inv_cong:
  assumes "same_physical s s'" "temporal_ids_per_component s' = temporal_ids_per_component s" "temporal_ids s' = temporal_ids s"
  shows "store_inv size_of P V s' = store_inv size_of P V s"
  using same_physical_ok [OF assms(1)] assms(2,3) idx_at_cong [OF assms(2,3)]
  by (simp add: store_inv_def indexed_def)

lemma drop_unknown:
  "(\<And>e timeline k. V e timeline k cid = None) \<Longrightarrow> drop_all {cid} V = V"
  by (auto simp: drop_all_def fun_eq_iff restrict_map_def)

lemma insert_temporal_ok:
  assumes perm: "\<And>xs. mset (hash_order xs) = mset xs"
    and ok: "store_ok size_of ty V s" and c: "storable ty c" "\<not> chunk_is_static c"
    and new: "physical_chunk s (ch_id c) = None" "\<And>e timeline k. V e timeline k (ch_id c) = None"
      "physical_chunk s new_id = None" "\<And>e timeline k. V e timeline k new_id = None"
  shows "\<exists>s1 m lin. insert_temporal hash_order kb size_of new_id c lineage s = Inr (s1, m, lin)
    \<and> store_inv size_of {#m#} (put_spans m V) s1 \<and> storable ty m \<and> \<not> chunk_is_static m
    \<and> ch_id m \<in> {ch_id c, new_id} \<and> physical_chunk s1 (ch_id m) = None \<and> physical_chunk s1 \<subseteq>\<^sub>m physical_chunk s
    \<and> (\<exists>gone. chunks_mset s = gone + chunks_mset s1 \<and> \<Sum>\<^sub># (image_mset rows_of gone) + rows_of c = rows_of m)
    \<and> only_new {ch_id c, new_id} s s1"
proof -
  have inv: "store_inv size_of {#} V s" using ok by (simp add: store_ok_def)
  have temporal: "insert_temporal hash_order kb size_of new_id c lineage s =
    (let elected = find_and_elect_compaction_candidate hash_order size_of s c in
      bind_res (case elected of
          None \<Rightarrow> Inr c
        | Some e \<Rightarrow> (case concat_and_sort False kb new_id e c of
            Inl err \<Rightarrow> Inl (ChunkStoreChunkError err) | Inr c \<Rightarrow> Inr c))
        (\<lambda>m. case elected of
               None \<Rightarrow> Inr (count_chunk size_of m (index_temporal_chunk m s), m, lineage)
             | Some e \<Rightarrow>
                 let (dels, s) = remove_chunks_deep (\<lambda>_. False) size_of [e] (count_chunk size_of m (index_temporal_chunk m s));
                     srcs = om_extend lin_cmp [] ((ch_id c, c) # map (\<lambda>c. (ch_id c, c)) dels)
                 in Inr (note_compaction (map fst srcs) (ch_id m) s, m, CompactedFromReport srcs)))"
    by (simp only: insert_temporal_def Let_def count_chunk_def)
  show ?thesis
  proof (cases "find_and_elect_compaction_candidate hash_order size_of s c")
    case None
    have "chunk_ok c" using c(1) by (simp add: storable_def)
    from index_step [OF inv this c(2) new(1,2) refl] have step:
      "store_inv size_of {#c#} (put_spans c V) (count_chunk size_of c (index_temporal_chunk c s))"
      "physical_chunk (count_chunk size_of c (index_temporal_chunk c s)) = physical_chunk s"
      "chunks_mset (count_chunk size_of c (index_temporal_chunk c s)) = chunks_mset s"
      "same_lineage s (count_chunk size_of c (index_temporal_chunk c s))" by simp_all
    have "only_new {ch_id c, new_id} s (count_chunk size_of c (index_temporal_chunk c s))"
      using step(2,4) by (simp add: only_new_def same_lineage_def)
    moreover have "insert_temporal hash_order kb size_of new_id c lineage s =
        Inr (count_chunk size_of c (index_temporal_chunk c s), c, lineage)"
      unfolding temporal None by simp
    ultimately show ?thesis using step(1) c new(1)
      by (intro exI [of _ "count_chunk size_of c (index_temporal_chunk c s)"] exI [of _ c] exI [of _ lineage])
        (simp add: step(2,3))
  next
    case (Some e)
    obtain cid where cid: "physical_chunk s cid = Some e" "concatenable c e"
      using elected_ok [OF perm Some] by blast
    have e: "ch_id e = cid" using cid(1) inv phys_ok_get by (auto simp: store_inv_def)
    have est: "storable ty e" using ok cid(1) by (auto simp: store_ok_def)
    have etemp: "\<not> chunk_is_static e"
      using cid(2) c(2) by (auto simp: concatenable_def same_timelines_def chunk_is_static_def)
    obtain m where m: "concat_and_sort False kb new_id e c = Inr m" "storable ty m" "\<not> chunk_is_static m"
      "ch_id m = new_id" "ch_entity_path m = ch_entity_path c" "rows_of m = rows_of e + rows_of c"
      using compaction_ok [OF est etemp c cid(2)] by blast
    let ?s0 = "count_chunk size_of m (index_temporal_chunk m s)"
    obtain dels s2 where deep: "remove_chunks_deep (\<lambda>_. False) size_of [e] ?s0 = (dels, s2)" by fastforce
    have mok: "chunk_ok m" using m(2) by (simp add: storable_def)
    have newm: "physical_chunk s (ch_id m) = None" "V e' timeline k (ch_id m) = None" for e' timeline k
      using new m(4) by auto
    from index_step [OF inv mok m(3) newm refl] have step:
      "store_inv size_of {#m#} (put_spans m V) ?s0" "physical_chunk ?s0 = physical_chunk s"
      "chunks_mset ?s0 = chunks_mset s" "same_lineage s ?s0" by simp_all
    have ne: "cid \<noteq> new_id" using cid(1) new(3) by auto
    have Ve: "put_spans m V e' timeline k cid = None" for e' timeline k
      using inv cid(1) ne m(4) by (auto simp: put_spans_def store_inv_def)
    have rem: "\<forall>c \<in> set [e]. removable ?s0 c \<and> chunk_ok c"
      using est etemp cid(1) by (simp add: removable_def step(2) e storable_def)
    have deep': "store_inv size_of {#m#} (drop_all (ch_id ` set [e]) (put_spans m V)) s2
        \<and> physical_chunk s2 = physical_chunk ?s0 |` (- ch_id ` set [e]) \<and> same_lineage ?s0 s2
        \<and> (\<exists>gone. chunks_mset ?s0 = gone + chunks_mset s2 \<and> gone \<subseteq># mset [e] \<and> set_mset gone = {c \<in> set [e]. physical_chunk ?s0 (ch_id c) = Some c})"
      by (rule remove_chunks_deep_inv [OF step(1) rem]) (use Ve in \<open>simp_all add: e deep\<close>)
    then have s2: "store_inv size_of {#m#} (put_spans m V) s2" "physical_chunk s2 = physical_chunk s |` (- {cid})"
      "same_lineage s s2" using Ve same_lineage_trans [OF step(4)] by (simp_all add: e drop_unknown step(2))
    let ?srcs = "om_extend lin_cmp [] ((ch_id c, c) # map (\<lambda>c. (ch_id c, c)) dels)"
    let ?s3 = "note_compaction (map fst ?srcs) (ch_id m) s2"
    have keys: "fst ` set ?srcs \<subseteq> {ch_id c, cid}"
      using remove_chunks_deep_subset [of "\<lambda>_. False" size_of "[e]" ?s0] deep e om_extend_keys [of _ lin_cmp "[]" "(ch_id c, c) # map (\<lambda>c. (ch_id c, c)) dels"]
      by fastforce
    have leaky: "leaky_compactions ?s3 k = leaky_compactions s k" if "k \<notin> {ch_id c, cid}" for k
    proof -
      have "k \<notin> fst ` set ?srcs" using that keys by blast
      then have "map_of (map (\<lambda>source. (source, ch_id m)) (map fst ?srcs)) k = None"
        by (simp add: map_of_eq_None_iff comp_def image_image)
      then show ?thesis using s2(3) by (simp add: note_compaction_def same_lineage_def map_add_def)
    qed
    have s3: "physical_chunk ?s3 = physical_chunk s2" "chunks_mset ?s3 = chunks_mset s2" "st_config ?s3 = st_config s2"
      "chunks_lineage ?s3 = chunks_lineage s2" "dangling_splits ?s3 = dangling_splits s2"
      by (simp_all add: note_compaction_def physical_chunk_def chunks_mset_def physical_chunks_def)
    have inv3: "store_inv size_of {#m#} (put_spans m V) ?s3"
      using s2(1) by (subst store_inv_cong [of s2]) (simp_all add: note_compaction_def same_physical_def)
    have gone: "chunks_mset s = {#e#} + chunks_mset s2"
    proof -
      obtain gone where g: "chunks_mset s = gone + chunks_mset s2" "set_mset gone = {e}" "gone \<subseteq># {#e#}"
        using deep' cid(1) e by (auto simp: step(2,3))
      then have "gone = {#e#}" by (metis insert_not_empty set_mset_eq_empty_iff subset_mset.antisym mset_subset_eq_single singletonI)
      then show ?thesis using g(1) by simp
    qed
    have "only_new {ch_id c, new_id} s ?s3"
      unfolding only_new_def
    proof (intro conjI allI impI)
      fix k assume k: "k \<notin> {ch_id c, new_id}"
      show "physical_chunk ?s3 k = None" if "physical_chunk s k = None" using that by (simp add: s3 s2(2) restrict_map_def)
      show "leaky_compactions ?s3 k = leaky_compactions s k" if "physical_chunk s k = None"
        using that k cid(1) by (intro leaky) auto
      show "chunks_lineage ?s3 k = chunks_lineage s k" "dangling_splits ?s3 k = dangling_splits s k"
        using s2(3) by (simp_all add: s3 same_lineage_def)
    qed (use s2(3) in \<open>simp add: s3 same_lineage_def\<close>)
    moreover have "insert_temporal hash_order kb size_of new_id c lineage s = Inr (?s3, m, CompactedFromReport ?srcs)"
      unfolding temporal Some by (simp add: m(1) deep Let_def)
    moreover have "physical_chunk ?s3 \<subseteq>\<^sub>m physical_chunk s" by (auto simp: s3 s2(2) map_le_def restrict_map_def dom_def split: if_splits)
    moreover have "physical_chunk ?s3 (ch_id m) = None" using newm by (simp add: s3 s2(2) restrict_map_def)
    moreover have "\<Sum>\<^sub># (image_mset rows_of {#e#}) + rows_of c = rows_of m" by (simp add: m(6))
    ultimately show ?thesis using inv3 m(2,3,4) gone unfolding s3(2) [symmetric] by blast
  qed
qed

lemma store_rows_parts:
  "chunks_mset s = gone + chunks_mset s1 \<Longrightarrow> store_rows s = \<Sum>\<^sub># (image_mset rows_of gone) + store_rows s1"
  by (simp add: store_rows_def)

lemma insert_whole_ok:
  assumes perm: "\<And>xs. mset (hash_order xs) = mset xs"
    and ok: "store_ok size_of ty V s" and c: "storable ty c" "\<not> chunk_is_static c"
    and new: "physical_chunk s (ch_id c) = None" "\<And>e timeline k. V e timeline k (ch_id c) = None"
      "physical_chunk s new_id = None" "\<And>e timeline k. V e timeline k new_id = None"
  shows "\<exists>s' ds. insert_whole hash_order kb size_of new_id c lineage s = (s', Inr ds) \<and> store_ok size_of ty V s'
    \<and> store_rows s' = store_rows s + rows_of c \<and> only_new {ch_id c, new_id} s s'"
proof -
  let ?s0 = "s\<lparr>insert_id := insert_id s + 1\<rparr>"
  have same: "physical_chunk ?s0 = physical_chunk s" "chunks_mset ?s0 = chunks_mset s" "only_new {} s ?s0"
    by (simp_all add: physical_chunk_def chunks_mset_def physical_chunks_def only_new_def)
  have "store_inv size_of {#} V ?s0 = store_inv size_of {#} V s"
    by (rule store_inv_cong) (simp_all add: same_physical_def)
  then have ok0: "store_ok size_of ty V ?s0" using ok by (simp add: store_ok_def same)
  from insert_temporal_ok [OF perm ok0 c, unfolded same, OF new, where kb = kb and lineage = lineage]
  obtain s1 m lin gone where t: "insert_temporal hash_order kb size_of new_id c lineage ?s0 = Inr (s1, m, lin)"
    "store_inv size_of {#m#} (put_spans m V) s1" "storable ty m" "\<not> chunk_is_static m" "ch_id m \<in> {ch_id c, new_id}"
    "physical_chunk s1 (ch_id m) = None" "physical_chunk s1 \<subseteq>\<^sub>m physical_chunk s"
    "chunks_mset s = gone + chunks_mset s1" "\<Sum>\<^sub># (image_mset rows_of gone) + rows_of c = rows_of m"
    "only_new {ch_id c, new_id} ?s0 s1" by blast
  let ?s' = "finish_insertion m lin s1"
  have m: "chunk_ok m" "ch_is_sorted m" "0 < num_rows m" using t(3) by (auto simp: storable_def)
  have "V e timeline k (ch_id m) = None" for e timeline k using t(5) new by auto
  from finish_step [OF t(2) m t(6) this refl, of lin] have f: "store_inv size_of {#} V ?s'"
    "physical_chunk ?s' = (physical_chunk s1)(ch_id m \<mapsto> m)" "chunks_mset ?s' = add_mset m (chunks_mset s1)" by auto
  have "storable ty d" if "physical_chunk ?s' cid = Some d" for cid d
    using that t(3,7) ok by (auto simp: f(2) store_ok_def map_le_def dom_def split: if_splits)
  then have "store_ok size_of ty V ?s'" using f(1) by (simp add: store_ok_def)
  moreover have "store_rows ?s' = store_rows s + rows_of c"
    unfolding store_rows_parts [OF t(8)] using t(9) by (simp add: store_rows_def f(3) ac_simps)
  moreover have "only_new {ch_id c, new_id} s ?s'"
  proof (rule only_new_trans [OF only_new_trans [OF same(3) t(10), where C = "{ch_id c, new_id}"]])
    show "only_new {ch_id m} s1 ?s'"
      using finish_fields [OF m(3,2), where lineage = lin and s = s1] by (simp add: only_new_def f(2))
  qed (use t(5) in auto)
  moreover have "insert_whole hash_order kb size_of new_id c lineage s = (?s', Inr [diff_addition c m lin])"
    using c(2) by (simp add: insert_whole_def t(1))
  ultimately show ?thesis by blast
qed

section \<open>Inserting the pieces of a split\<close>

definition unknown :: "spans \<Rightarrow> 'a ChunkStore \<Rightarrow> ChunkId \<Rightarrow> bool" where
  "unknown V s cid \<longleftrightarrow> physical_chunk s cid = None \<and> chunks_lineage s cid = None \<and> dangling_splits s cid = None
     \<and> leaky_compactions s cid = None \<and> (\<forall>e timeline k. V e timeline k cid = None)"

lemma unknown_only_new: "unknown V s cid \<Longrightarrow> only_new A s s' \<Longrightarrow> cid \<notin> A \<Longrightarrow> unknown V s' cid"
  by (simp add: unknown_def only_new_def)

lemma find_compacted_None: "leaky_compactions s cid = None \<Longrightarrow> find_compacted s cid = Some None"
  by (simp add: find_compacted.simps)

lemma note_lineage_new:
  assumes "unknown V s (ch_id c)"
  shows "note_lineage c lineage s = s\<lparr>chunks_lineage := (chunks_lineage s)(ch_id c \<mapsto> lineage_of_report lineage)\<rparr>"
  using assms by (simp add: note_lineage_def unknown_def)

lemma note_lineage_ok:
  assumes "unknown V s (ch_id c)"
  shows "store_ok size_of ty V (note_lineage c lineage s) = store_ok size_of ty V s"
    "physical_chunk (note_lineage c lineage s) = physical_chunk s"
    "store_rows (note_lineage c lineage s) = store_rows s"
    "only_new {ch_id c} s (note_lineage c lineage s)"
    "chunks_lineage (note_lineage c lineage s) (ch_id c) = Some (lineage_of_report lineage)"
proof -
  have "store_inv size_of {#} V (note_lineage c lineage s) = store_inv size_of {#} V s"
    by (rule store_inv_cong) (simp_all add: note_lineage_def same_physical_def)
  then show "store_ok size_of ty V (note_lineage c lineage s) = store_ok size_of ty V s"
    by (simp add: store_ok_def note_lineage_def physical_chunk_def)
  show "physical_chunk (note_lineage c lineage s) = physical_chunk s" "store_rows (note_lineage c lineage s) = store_rows s"
    by (simp_all add: note_lineage_def physical_chunk_def store_rows_def chunks_mset_def physical_chunks_def)
  show "only_new {ch_id c} s (note_lineage c lineage s)"
    by (simp add: only_new_def note_lineage_def physical_chunk_def)
  show "chunks_lineage (note_lineage c lineage s) (ch_id c) = Some (lineage_of_report lineage)"
    using assms by (simp add: note_lineage_new)
qed

text \<open>Of a chunk the store has never heard of, nothing needs to be removed first.\<close>

lemma insert_body_new:
  assumes "unknown V s (ch_id c)" "storable ty c"
  shows "insert_body hash_order kb size_of ids rec n c lineage s =
    (let s' = note_lineage c lineage s;
         whole = (\<lambda>n. case insert_whole hash_order kb size_of (ids n) c lineage s' of (s, r) \<Rightarrow> Some (n + 1, s, r)) in
      Option.bind (descends_from_a_compaction s' (ch_id c)) (\<lambda>compacted.
        if \<not> chunk_is_static c \<and> \<not> descends_from_a_split s' (ch_id c) \<and> \<not> compacted then
          let (n, pieces) = split_once kb size_of ids s' n c in
          Option.bind (split_passes kb size_of ids s' n pieces) (\<lambda>(n, pieces).
            if 1 < length pieces then insert_pieces rec c pieces pieces [] n (note_split c pieces s') else whole n)
        else whole n))"
proof -
  have "remove_virtual size_of c s = ([], s)" "remove_dangling_splits size_of c s = ([], s)"
    "find_compacted s (ch_id c) = Some None"
    using assms(1) by (simp_all add: remove_virtual_def remove_dangling_splits_def unknown_def find_compacted_None)
  moreover have "\<not> chunk_is_empty c" "ch_components c \<noteq> []" "ch_is_sorted c" "physical_chunk s (ch_id c) = None"
    using assms by (auto simp: storable_def chunk_is_empty_def unknown_def)
  moreover have "map_sum (\<lambda>e. e) (\<lambda>ds. ds) r = r" for r :: "ChunkStoreError + 'a ChunkStoreDiff list" by (cases r) auto
  ultimately show ?thesis by (simp add: insert_body_def Let_def) (simp only: append_Nil case_prod_unfold prod.collapse)
qed

end
