(* ===== verification/Store_Insert_Props.thy ===== *)
theory Store_Insert_Props
  imports Store_Insert
begin

text \<open>
  Insertion as a whole: a chunk that is new to the store goes in, split and compacted as the
  configuration has it, and the store then holds the rows it held and those of the chunk.
\<close>

section \<open>The pieces of a split\<close>

declare insert_chunk_impl.simps [simp del]
declare insert_pieces.simps(2) [simp del]

lemma insert_piece_ok:
  assumes perm: "\<And>xs. mset (hash_order xs) = mset xs"
    and ok: "store_ok size_of ty V s" and p: "storable ty p" "\<not> chunk_is_static p" "unknown V s (ch_id p)"
    and new: "unknown V s (ids n)" and parent: "chunks_lineage s (ch_id c) = Some Volatile"
  shows "\<exists>s' ds. insert_chunk_impl hash_order kb size_of ids (Suc fuel) n p (SplitFromReport c siblings) s = Some (n + 1, s', Inr ds)
    \<and> store_ok size_of ty V s' \<and> store_rows s' = store_rows s + rows_of p \<and> only_new {ch_id p, ids n} s s'"
proof -
  let ?s = "note_lineage p (SplitFromReport c siblings) s"
  note l = note_lineage_ok [OF p(3), where lineage = "SplitFromReport c siblings"]
  have split: "descends_from_a_split ?s (ch_id p)" by (simp add: descends_from_a_split_def l(5))
  have "ch_id c \<noteq> ch_id p" using parent p(3) by (auto simp: unknown_def)
  then have "chunks_lineage ?s (ch_id c) = Some Volatile" using parent l(4) by (simp add: only_new_def)
  then have "descends_from_a_compaction ?s (ch_id c) = Some False" by (intro descends_from_a_compaction_root) auto
  then have desc: "descends_from_a_compaction ?s (ch_id p) = Some False"
    by (subst descends_from_a_compaction.simps) (simp add: l(5))
  have ok': "store_ok size_of ty V ?s" using ok by (simp add: l(1))
  obtain s' ds where w: "insert_whole hash_order kb size_of (ids n) p (SplitFromReport c siblings) ?s = (s', Inr ds)"
    "store_ok size_of ty V s'" "store_rows s' = store_rows ?s + rows_of p" "only_new {ch_id p, ids n} ?s s'"
    using insert_whole_ok [OF perm ok' p(1,2), where new_id = "ids n" and kb = kb and lineage = "SplitFromReport c siblings"] p(3) new
    by (auto simp: unknown_def l(2))
  have "insert_chunk_impl hash_order kb size_of ids (Suc fuel) n p (SplitFromReport c siblings) s = Some (n + 1, s', Inr ds)"
    by (simp add: insert_chunk_impl.simps(2) insert_body_new [OF p(3,1)] desc split w(1))
  moreover have "only_new {ch_id p, ids n} s s'" by (rule only_new_trans [OF l(4) w(4)]) auto
  ultimately show ?thesis using w l(3) by simp
qed

lemma insert_pieces_ok:
  assumes perm: "\<And>xs. mset (hash_order xs) = mset xs" and inj: "inj_on ids {n..<N}"
    and ok: "store_ok size_of ty V s" and ps: "\<forall>p \<in> set ps. storable ty p \<and> \<not> chunk_is_static p \<and> unknown V s (ch_id p)"
    and distinct: "distinct (map ch_id ps)" and new: "\<forall>k \<in> {n..<N}. unknown V s (ids k) \<and> ids k \<notin> ch_id ` set ps"
    and room: "n + length ps \<le> N" and parent: "chunks_lineage s (ch_id c) = Some Volatile"
  shows "\<exists>n' s' ds'. insert_pieces (insert_chunk_impl hash_order kb size_of ids (Suc fuel)) c all ps ds n s = Some (n', s', Inr ds')
    \<and> n' = n + length ps \<and> store_ok size_of ty V s' \<and> store_rows s' = store_rows s + \<Sum>\<^sub># (image_mset rows_of (mset ps))
    \<and> only_new (ch_id ` set ps \<union> ids ` {n..<n'}) s s'"
  using assms(2-)
proof (induction ps arbitrary: n s ds)
  case Nil
  then show ?case by (intro exI [of _ n] exI [of _ s] exI [of _ ds]) (simp add: only_new_def)
next
  case (Cons p ps)
  let ?l = "SplitFromReport c (filter (\<lambda>d. ch_id d \<noteq> ch_id p) all)"
  obtain s1 ds1 where one: "insert_chunk_impl hash_order kb size_of ids (Suc fuel) n p ?l s = Some (n + 1, s1, Inr ds1)"
    "store_ok size_of ty V s1" "store_rows s1 = store_rows s + rows_of p" "only_new {ch_id p, ids n} s s1"
    using insert_piece_ok [OF perm Cons.prems(2), of p ids n c kb fuel] Cons.prems(3,5,6,7) by fastforce
  have "ids k \<noteq> ids n" if "n < k" "k < N" for k using Cons.prems(1) that by (auto dest: inj_onD)
  then have new': "\<forall>k \<in> {n + 1..<N}. unknown V s1 (ids k) \<and> ids k \<notin> ch_id ` set ps"
    using Cons.prems(5) unknown_only_new [OF _ one(4)] by auto
  have ps': "\<forall>q \<in> set ps. storable ty q \<and> \<not> chunk_is_static q \<and> unknown V s1 (ch_id q)"
  proof
    fix q assume q: "q \<in> set ps"
    then have in_ps: "ch_id q \<in> ch_id ` set ps" by (rule imageI)
    then have "ch_id q \<noteq> ch_id p" using Cons.prems(4) by auto
    moreover have "ids n \<notin> ch_id ` set (p # ps)" using Cons.prems(5,6) by (simp del: set_simps)
    then have "ch_id q \<noteq> ids n" using in_ps by auto
    ultimately show "storable ty q \<and> \<not> chunk_is_static q \<and> unknown V s1 (ch_id q)"
      using Cons.prems(3) q unknown_only_new [OF _ one(4)] by auto
  qed
  have parent': "chunks_lineage s1 (ch_id c) = Some Volatile"
  proof -
    have "ch_id c \<noteq> ch_id p" "ch_id c \<noteq> ids n" using Cons.prems(3,5,6,7) by (auto simp: unknown_def)
    then show ?thesis using one(4) Cons.prems(7) by (simp add: only_new_def)
  qed
  have room': "n + 1 + length ps \<le> N" using Cons.prems(6) by simp
  have inj': "inj_on ids {n + 1..<N}" using Cons.prems(1) by (rule inj_on_subset) auto
  have distinct': "distinct (map ch_id ps)" using Cons.prems(4) by simp
  obtain n' s' ds' where rest: "insert_pieces (insert_chunk_impl hash_order kb size_of ids (Suc fuel)) c all ps
      (ds @ map (with_parent c) ds1) (n + 1) s1 = Some (n', s', Inr ds')"
    "n' = n + 1 + length ps" "store_ok size_of ty V s'" "store_rows s' = store_rows s1 + \<Sum>\<^sub># (image_mset rows_of (mset ps))"
    "only_new (ch_id ` set ps \<union> ids ` {n + 1..<n'}) s1 s'"
    using Cons.IH [OF inj' one(2) ps' distinct' new' room' parent', of "ds @ map (with_parent c) ds1"] by blast
  have "only_new (ch_id ` set (p # ps) \<union> ids ` {n..<n'}) s s'"
    by (rule only_new_trans [OF one(4) rest(5)]) (use rest(2) in auto)
  moreover have "insert_pieces (insert_chunk_impl hash_order kb size_of ids (Suc fuel)) c all (p # ps) ds n s = Some (n', s', Inr ds')"
    using rest(1) by (simp add: insert_pieces.simps(2) one(1))
  ultimately show ?case using rest(2-4) one(3) by (intro exI [of _ n'] exI [of _ s'] exI [of _ ds']) (simp add: ac_simps)
qed

section \<open>Insertion\<close>

lemma rows_of_pieces:
  assumes "concat (map chunk_rows ps) = chunk_rows c" "\<forall>p \<in> set ps. ch_entity_path p = ch_entity_path c"
  shows "\<Sum>\<^sub># (image_mset rows_of (mset ps)) = rows_of c"
proof -
  have "\<Sum>\<^sub># (image_mset rows_of (mset ps)) = image_mset (Pair (ch_entity_path c)) (mset (concat (map chunk_rows ps)))"
    using assms(2) by (induction ps) (auto simp: rows_of_def)
  then show ?thesis by (simp add: assms(1) rows_of_def)
qed

lemma note_split_fields:
  "store_ok size_of ty V (note_split c ps s) = store_ok size_of ty V s" "store_rows (note_split c ps s) = store_rows s"
  "only_new {ch_id c} s (note_split c ps s)" "chunks_lineage (note_split c ps s) = chunks_lineage s"
proof -
  have "store_inv size_of {#} V (note_split c ps s) = store_inv size_of {#} V s"
    by (rule store_inv_cong) (simp_all add: note_split_def same_physical_def)
  then show "store_ok size_of ty V (note_split c ps s) = store_ok size_of ty V s"
    by (simp add: store_ok_def note_split_def physical_chunk_def)
  show "store_rows (note_split c ps s) = store_rows s"
    by (simp add: store_rows_def note_split_def chunks_mset_def physical_chunks_def)
  show "only_new {ch_id c} s (note_split c ps s)" "chunks_lineage (note_split c ps s) = chunks_lineage s"
    by (simp_all add: only_new_def note_split_def physical_chunk_def)
qed

lemma insert_new_ok:
  assumes perm: "\<And>xs. mset (hash_order xs) = mset xs" and inj: "inj_on ids {n..<N}"
    and ok: "store_ok size_of ty V s" and c: "storable ty c" "\<not> chunk_is_static c" "unknown V s (ch_id c)"
    and new: "\<forall>k \<in> {n..<N}. unknown V s (ids k) \<and> ids k \<noteq> ch_id c"
    and room: "n + num_rows c * (num_rows c + 2) \<le> N"
  shows "\<exists>n' s' ds. insert_chunk_impl hash_order kb size_of ids 2 n c VolatileReport s = Some (n', s', Inr ds)
    \<and> n \<le> n' \<and> n' \<le> n + num_rows c * (num_rows c + 2)
    \<and> store_ok size_of ty V s' \<and> store_rows s' = store_rows s + rows_of c
    \<and> only_new (insert (ch_id c) (ids ` {n..<n'})) s s'"
proof -
  let ?s = "note_lineage c VolatileReport s"
  note l = note_lineage_ok [OF c(3), where lineage = VolatileReport]
  have vol: "chunks_lineage ?s (ch_id c) = Some Volatile" by (simp add: l(5))
  have ok': "store_ok size_of ty V ?s" using ok by (simp add: l(1))
  have new': "unknown V ?s (ids k)" if "n \<le> k" "k < N" for k
    using unknown_only_new [OF _ l(4)] new that by simp
  have desc: "descends_from_a_compaction ?s cid = Some False" if "cid \<in> {ch_id c} \<union> ids ` {n..<N}" for cid
    using that vol new' by (intro descends_from_a_compaction_root) (auto simp: unknown_def)
  have split: "\<not> descends_from_a_split ?s (ch_id c)" by (simp add: descends_from_a_split_def vol)
  obtain n1 ps1 where once: "split_once kb size_of ids ?s n c = (n1, ps1)" by fastforce
  have cok: "chunk_ok c" "0 < num_rows c" using c(1) by (auto simp: storable_def)
  note o = split_once_ok [OF cok once]
  let ?R = "num_rows c"
  have R: "?R = length (concat (map chunk_rows ps1))" using o by simp
  have len: "1 \<le> length ps1" using o by (cases ps1) auto
  have bounds: "n1 \<le> n + ?R" "?R * (?R - length ps1 + 1) \<le> ?R * ?R" "?R * (?R + 2) = ?R * ?R + ?R + ?R" "1 \<le> ?R"
  proof -
    show "n1 \<le> n + ?R" using o by blast
    have "?R - length ps1 + 1 \<le> ?R" using len cok(2) by linarith
    then show "?R * (?R - length ps1 + 1) \<le> ?R * ?R" by (rule mult_le_mono2)
  qed (use cok(2) in \<open>simp_all add: algebra_simps\<close>)
  have room1: "n1 + ?R * (?R - length ps1 + 1) \<le> N" using bounds room by linarith
  then have le1: "n1 \<le> N" by linarith
  have inj1: "inj_on ids {n1..<N}" using inj by (rule inj_on_subset) (use o in auto)
  have either: "(\<forall>n. split_once kb size_of ids ?s n c = (n + 1, [c])) \<or> map ch_id ps1 = map ids [n..<n1]"
    by (rule split_once_cases [OF cok(1) once])
  have ids_of: "distinct (map ch_id ps1) \<and> ch_id ` set ps1 \<subseteq> ids ` {n..<n1}" if eq: "map ch_id ps1 = map ids [n..<n1]"
  proof
    show "distinct (map ch_id ps1)" unfolding eq using inj le1 by (auto simp: distinct_map intro: inj_on_subset)
    show "ch_id ` set ps1 \<subseteq> ids ` {n..<n1}" using arg_cong [OF eq, of set] by simp
  qed
  have ids1: "distinct (map ch_id ps1)" "ch_id ` set ps1 \<subseteq> {ch_id c} \<union> ids ` {n..<n1}"
    using o ids_of by auto
  have fresh1: "\<forall>k \<in> {n1..<N}. ids k \<notin> ch_id ` set ps1"
  proof
    fix k assume k: "k \<in> {n1..<N}"
    then have "ids k \<notin> ids ` {n..<n1}" using inj o le1 by (auto dest!: inj_onD)
    moreover have "ids k \<noteq> ch_id c" using new k o by auto
    ultimately show "ids k \<notin> ch_id ` set ps1" using ids1(2) by blast
  qed
  have desc1: "descends_from_a_compaction ?s cid = Some False" if "cid \<in> ch_id ` set ps1 \<union> ids ` {n1..<N}" for cid
  proof (rule desc)
    have "ids ` {n1..<N} \<union> ids ` {n..<n1} \<subseteq> ids ` {n..<N}" using o le1 by auto
    then show "cid \<in> {ch_id c} \<union> ids ` {n..<N}" by (rule member_parts [OF that ids1(2)])
  qed
  have ps1: "\<forall>p \<in> set ps1. chunk_ok p \<and> 0 < num_rows p \<and> same_shape c p" using o by blast
  from split_passes_ok [OF ps1 inj1 ids1(1) fresh1 desc1 R room1, of kb size_of]
  obtain n2 ps where ps: "split_passes kb size_of ids ?s n1 ps1 = Some (n2, ps)"
    "n1 \<le> n2 \<and> n2 \<le> n1 + ?R * (?R - length ps1 + 1)"
    "concat (map chunk_rows ps) = concat (map chunk_rows ps1)"
    "\<forall>p \<in> set ps. chunk_ok p \<and> 0 < num_rows p \<and> same_shape c p"
    "distinct (map ch_id ps)" "ch_id ` set ps \<subseteq> ch_id ` set ps1 \<union> ids ` {n1..<n2}" by blast
  have le: "n \<le> n2" "n2 + ?R \<le> n + ?R * (?R + 2)" using o ps(2) bounds by linarith+
  have lt: "n2 < N" using le(2) room bounds(4) by linarith
  have impl: "insert_chunk_impl hash_order kb size_of ids 2 n c VolatileReport s =
      (if 1 < length ps
       then insert_pieces (insert_chunk_impl hash_order kb size_of ids (Suc 0)) c ps ps [] n2 (note_split c ps ?s)
       else case insert_whole hash_order kb size_of (ids n2) c VolatileReport ?s of (s, r) \<Rightarrow> Some (n2 + 1, s, r))"
    using c(2) desc split once ps(1)
    by (simp add: numeral_2_eq_2 insert_chunk_impl.simps(2) insert_body_new [OF c(3,1)] Let_def)
  show ?thesis
  proof (cases "1 < length ps")
    case False
    obtain s' ds where w: "insert_whole hash_order kb size_of (ids n2) c VolatileReport ?s = (s', Inr ds)"
      "store_ok size_of ty V s'" "store_rows s' = store_rows ?s + rows_of c" "only_new {ch_id c, ids n2} ?s s'"
      using insert_whole_ok [OF perm ok' c(1,2), where new_id = "ids n2" and kb = kb and lineage = VolatileReport]
        c(3) new' [OF le(1) lt] by (auto simp: unknown_def l(2))
    have "only_new (insert (ch_id c) (ids ` {n..<n2 + 1})) s s'"
      by (rule only_new_trans [OF l(4) w(4)]) (use le(1) in auto)
    moreover have "insert_chunk_impl hash_order kb size_of ids 2 n c VolatileReport s = Some (n2 + 1, s', Inr ds)"
      using False by (simp add: impl w(1))
    ultimately show ?thesis using w(2,3) le bounds(4) by (intro exI [of _ "n2 + 1"] exI [of _ s'] exI [of _ ds]) (simp add: l(3))
  next
    case True
    let ?s2 = "note_split c ps ?s"
    have "map ch_id ps1 = map ids [n..<n1]"
    proof (rule ccontr)
      assume "map ch_id ps1 \<noteq> map ids [n..<n1]"
      then have never: "\<And>n. split_once kb size_of ids ?s n c = (n + 1, [c])" using either by blast
      then have "split_passes kb size_of ids ?s n1 ps1 = Some (n1 + 1, [c])"
        using once desc by (subst split_passes.simps) auto
      then show False using ps(1) True by simp
    qed
    then have "ch_id ` set ps1 \<subseteq> ids ` {n..<n1}" by (rule ids_of [THEN conjunct2])
    moreover have "ids ` {n..<n1} \<union> ids ` {n1..<n2} \<subseteq> ids ` {n..<n2}" using o ps(2) by auto
    ultimately have idps: "ch_id ` set ps \<subseteq> ids ` {n..<n2}" by (rule subset_parts [OF ps(6)])
    note f = note_split_fields [where c = c and ps = ps and s = ?s]
    have new2: "unknown V ?s2 (ids k)" if "n \<le> k" "k < N" for k
      using unknown_only_new [OF new' [OF that] f(3)] new that by simp
    have inj2: "inj_on ids {n2..<N}" using inj by (rule inj_on_subset) (use le in auto)
    have "length ps \<le> ?R" using length_pieces [of ps] ps(3,4) o by auto
    then have room2: "n2 + length ps \<le> N" using le(2) room by linarith
    have "\<forall>p \<in> set ps. storable ty p \<and> \<not> chunk_is_static p \<and> unknown V ?s2 (ch_id p)"
    proof
      fix p assume p: "p \<in> set ps"
      then have "ch_id p \<in> ids ` {n..<n2}" using idps by blast
      then have "unknown V ?s2 (ch_id p)" using new2 lt by auto
      moreover have "same_shape c p" "chunk_ok p" "0 < num_rows p" using ps(4) p by auto
      moreover from this have "ch_is_sorted p"
        using ps(3) o c(1) p by (intro sorted_piece [of ps c p]) (auto simp: storable_def)
      ultimately show "storable ty p \<and> \<not> chunk_is_static p \<and> unknown V ?s2 (ch_id p)"
        using c(1,2) same_shapeD [of c p] by (simp add: storable_def)
    qed
    moreover have "\<forall>k \<in> {n2..<N}. unknown V ?s2 (ids k) \<and> ids k \<notin> ch_id ` set ps"
    proof (intro ballI conjI)
      fix k assume k: "k \<in> {n2..<N}"
      then show "unknown V ?s2 (ids k)" using new2 le by simp
      have "ids k \<notin> ids ` {n..<n2}" using inj k le by (auto dest!: inj_onD)
      then show "ids k \<notin> ch_id ` set ps" using idps by blast
    qed
    moreover have "chunks_lineage ?s2 (ch_id c) = Some Volatile" by (simp add: f vol)
    moreover have "store_ok size_of ty V ?s2" using ok' by (simp add: f)
    ultimately obtain n' s' ds where ins: "insert_pieces (insert_chunk_impl hash_order kb size_of ids (Suc 0)) c ps ps [] n2 ?s2 = Some (n', s', Inr ds)"
      "n' = n2 + length ps" "store_ok size_of ty V s'" "store_rows s' = store_rows ?s2 + \<Sum>\<^sub># (image_mset rows_of (mset ps))"
      "only_new (ch_id ` set ps \<union> ids ` {n2..<n'}) ?s2 s'"
      using insert_pieces_ok [OF perm inj2, of size_of ty V ?s2 ps c kb 0 ps "[]"] ps(5) room2 by blast
    have "\<Sum>\<^sub># (image_mset rows_of (mset ps)) = rows_of c"
      using ps(3,4) o by (intro rows_of_pieces) (auto dest: same_shapeD(4))
    then have rows: "store_rows s' = store_rows s + rows_of c" using ins(4) by (simp add: f l(3))
    have "only_new {ch_id c} s ?s2" by (rule only_new_trans [OF l(4) f(3)]) auto
    then have "only_new (insert (ch_id c) (ids ` {n..<n'})) s s'"
    proof (rule only_new_trans [OF _ ins(5)])
      have "ids ` {n..<n2} \<union> ids ` {n2..<n'} \<subseteq> ids ` {n..<n'}" using le ins(2) by auto
      then show "ch_id ` set ps \<union> ids ` {n2..<n'} \<subseteq> insert (ch_id c) (ids ` {n..<n'})" using idps by blast
    qed simp
    moreover have "insert_chunk_impl hash_order kb size_of ids 2 n c VolatileReport s = Some (n', s', Inr ds)"
      using True by (simp add: impl ins(1))
    ultimately show ?thesis using ins(2,3) rows le \<open>length ps \<le> ?R\<close> by (intro exI [of _ n'] exI [of _ s'] exI [of _ ds]) simp
  qed
qed

lemma store_ok_event_id: "store_ok size_of ty V (s\<lparr>event_id := i\<rparr>) = store_ok size_of ty V s"
proof -
  have "store_inv size_of {#} V (s\<lparr>event_id := i\<rparr>) = store_inv size_of {#} V s"
    by (rule store_inv_cong) (simp_all add: same_physical_def)
  then show ?thesis by (simp add: store_ok_def physical_chunk_def)
qed

text \<open>Insertion into a valid store ends, keeps it valid and adds the rows of the chunk.\<close>

lemma insert_chunk_ok:
  assumes perm: "\<forall>xs. mset (hash_order xs) = mset xs" and inj: "inj_on ids {n..<N}"
    and ok: "store_ok size_of ty V s" and c: "storable ty c" "\<not> chunk_is_static c" "unknown V s (ch_id c)"
    and new: "\<forall>k \<in> {n..<N}. unknown V s (ids k) \<and> ids k \<noteq> ch_id c"
    and room: "n + num_rows c * (num_rows c + 2) \<le> N"
  shows "\<exists>n' s' events. insert_chunk hash_order kb size_of ids n c s = Some (n', s', Inr events)
    \<and> n \<le> n' \<and> n' \<le> N \<and> store_ok size_of ty V s' \<and> store_rows s' = store_rows s + rows_of c"
proof -
  obtain n' s' ds where ins: "insert_chunk_impl hash_order kb size_of ids 2 n c VolatileReport s = Some (n', s', Inr ds)"
    "n \<le> n' \<and> n' \<le> n + num_rows c * (num_rows c + 2)" "store_ok size_of ty V s'"
    "store_rows s' = store_rows s + rows_of c"
    using insert_new_ok [OF _ inj ok c new room, of hash_order kb] perm by blast
  have "is_root_chunk s (ch_id c)" using c(3) by (simp add: is_root_chunk_def unknown_def)
  then have "insert_chunk hash_order kb size_of ids n c s =
      (let (events, s'') = finalize_events ds s' in Some (n', s'', Inr events))"
    by (simp add: insert_chunk_def ins(1))
  moreover have "store_rows (s'\<lparr>event_id := i\<rparr>) = store_rows s'" for i
    by (simp add: store_rows_def chunks_mset_def physical_chunks_def)
  ultimately show ?thesis using ins(2-4) room
    by (simp add: finalize_events_def store_ok_event_id)
qed



end
