(* ===== verification/Chunk_Latest.thy ===== *)
theory Chunk_Latest
  imports Chunk_Rows
begin

text \<open>
  The latest-at query on a chunk returns the valid row with the greatest time not after the
  query time, the greatest row id among equal times.
\<close>

section \<open>What the query means\<close>

definition candidate :: "LatestAtQuery \<Rightarrow> ComponentIdentifier \<Rightarrow> 'a Chunk \<Rightarrow> nat \<Rightarrow> bool" where
  "candidate query k c i \<longleftrightarrow> i < num_rows c \<and> row_cell c i k \<noteq> None
     \<and> (chunk_is_static c
        \<or> (\<exists>t. row_time c i (la_timeline query) = Some t \<and> sint t \<le> sint (as_i64 (la_at query))))"

definition recency :: "LatestAtQuery \<Rightarrow> 'a Chunk \<Rightarrow> nat \<Rightarrow> int \<times> RowId" where
  "recency query c i =
     ((if chunk_is_static c then 0 else sint (the (row_time c i (la_timeline query)))), ch_row_ids c ! i)"

definition is_latest :: "LatestAtQuery \<Rightarrow> ComponentIdentifier \<Rightarrow> 'a Chunk \<Rightarrow> nat \<Rightarrow> bool" where
  "is_latest query k c i \<longleftrightarrow> candidate query k c i
     \<and> (\<forall>j. candidate query k c j \<longrightarrow> recency query c j \<le> recency query c i)"

section \<open>Searching from the end\<close>

lemma last_valid_below_Some:
  "last_valid_below la m = Some i \<longleftrightarrow>
     i < m \<and> la_is_valid la i \<and> (\<forall>j. i < j \<longrightarrow> j < m \<longrightarrow> \<not> la_is_valid la j)"
proof (induction m)
  case (Suc m)
  then show ?case
    by (cases "la_is_valid la m") (auto simp: last_valid_below_def less_Suc_eq)
qed (simp add: last_valid_below_def)

lemma last_valid_is_latest:
  assumes cand: "\<And>i. candidate query k c i \<longleftrightarrow> i < m \<and> la_is_valid la i"
    and mono: "\<And>i j. i < j \<Longrightarrow> j < m \<Longrightarrow> recency query c i < recency query c j"
  shows "last_valid_below la m = Some i \<longleftrightarrow> is_latest query k c i"
proof
  assume "last_valid_below la m = Some i"
  then have i: "i < m" "la_is_valid la i" "\<forall>j. i < j \<longrightarrow> j < m \<longrightarrow> \<not> la_is_valid la j"
    by (simp_all add: last_valid_below_Some)
  have "recency query c j \<le> recency query c i" if "candidate query k c j" for j
  proof -
    have "j < m" "la_is_valid la j" using that cand by auto
    then have "j = i \<or> j < i" using i by (meson linorder_neqE_nat)
    then show ?thesis using mono [of j i] i(1) by auto
  qed
  then show "is_latest query k c i" using i cand by (simp add: is_latest_def)
next
  assume i: "is_latest query k c i"
  have "\<not> la_is_valid la j" if "i < j" "j < m" for j
  proof
    assume "la_is_valid la j"
    then have "recency query c j \<le> recency query c i" using i that cand by (simp add: is_latest_def)
    with mono [OF that] show False by simp
  qed
  then show "last_valid_below la m = Some i"
    using i cand by (auto simp: is_latest_def last_valid_below_Some)
qed

section \<open>Scanning\<close>

text \<open>
  Both scans keep the best row so far. The scan over a prefix is described by what it means for
  the chunk cut to that prefix.
\<close>

definition best_below :: "(nat \<Rightarrow> bool) \<Rightarrow> (nat \<Rightarrow> 'k :: linorder) \<Rightarrow> nat \<Rightarrow> nat option \<Rightarrow> bool" where
  "best_below P key m r \<longleftrightarrow> (case r of
      None \<Rightarrow> (\<forall>i<m. \<not> P i)
    | Some i \<Rightarrow> i < m \<and> P i \<and> (\<forall>j<m. P j \<longrightarrow> key j \<le> key i))"

lemma best_below_Suc:
  assumes "best_below P key m r"
  shows "best_below P key (Suc m)
    (if P m \<and> (case r of None \<Rightarrow> True | Some i \<Rightarrow> key i < key m) then Some m else r)"
  using assms by (cases r) (auto simp: best_below_def less_Suc_eq not_less)

lemma enumerate_upt: "enumerate 0 xs = map (\<lambda>i. (i, xs ! i)) [0..<length xs]"
  by (rule nth_equalityI) (auto simp: nth_enumerate_eq)

lemma new_temporal_less_iff:
  assumes "a \<noteq> i64_min" "b \<noteq> i64_min"
  shows "new_temporal a < new_temporal b \<longleftrightarrow> sint a < sint b"
    "new_temporal a = new_temporal b \<longleftrightarrow> a = b"
proof -
  show "new_temporal a < new_temporal b \<longleftrightarrow> sint a < sint b"
    using assms by (simp add: time_less_iff as_i64_new_temporal)
  show "new_temporal a = new_temporal b \<longleftrightarrow> a = b"
    using assms by (metis as_i64_new_temporal)
qed

lemma static_scan:
  assumes "\<forall>i<m. ids ! i \<noteq> tuid_ZERO"
  shows "\<exists>closest. fold (closest_static_step la) (map (\<lambda>i. (i, ids ! i)) [0..<m]) (tuid_ZERO, None) = closest
     \<and> best_below (la_is_valid la) (\<lambda>i. ids ! i) m (snd closest)
     \<and> fst closest = (case snd closest of None \<Rightarrow> tuid_ZERO | Some i \<Rightarrow> ids ! i)"
  using assms
proof (induction m)
  case (Suc m)
  then obtain closest where c: "fold (closest_static_step la) (map (\<lambda>i. (i, ids ! i)) [0..<m]) (tuid_ZERO, None) = closest"
    "best_below (la_is_valid la) (\<lambda>i. ids ! i) m (snd closest)"
    "fst closest = (case snd closest of None \<Rightarrow> tuid_ZERO | Some i \<Rightarrow> ids ! i)" by auto
  have "ids ! m \<noteq> tuid_ZERO" using Suc.prems by blast
  then have "tuid_ZERO < ids ! m" using tuid_ZERO_least [of "ids ! m"] by (metis order_less_le)
  with c best_below_Suc [OF c(2)] show ?case
    by (cases closest; cases "snd closest") (auto simp: closest_static_step_def)
qed (simp add: best_below_def)

text \<open>The temporal scan, over a column without reserved values.\<close>

lemma closest_step_scan:
  assumes "\<forall>i<m. ids ! i \<noteq> tuid_ZERO" "\<forall>i<m. ts ! i \<noteq> i64_min" "is_temporal at"
  shows "\<exists>ct cr r. fold (closest_step at ts la) (map (\<lambda>i. (i, ids ! i)) [0..<m]) (time_MIN, tuid_ZERO, None) = (ct, cr, r)
     \<and> best_below (\<lambda>i. la_is_valid la i \<and> sint (ts ! i) \<le> sint (as_i64 at)) (\<lambda>i. (sint (ts ! i), ids ! i)) m r
     \<and> (case r of None \<Rightarrow> ct = time_MIN \<and> cr = tuid_ZERO | Some i \<Rightarrow> ct = new_temporal (ts ! i) \<and> cr = ids ! i)"
  using assms
proof (induction m)
  case (Suc m)
  let ?P = "\<lambda>i. la_is_valid la i \<and> sint (ts ! i) \<le> sint (as_i64 at)"
  let ?key = "\<lambda>i. (sint (ts ! i), ids ! i)"
  from Suc obtain ct cr r where
    fold: "fold (closest_step at ts la) (map (\<lambda>i. (i, ids ! i)) [0..<m]) (time_MIN, tuid_ZERO, None) = (ct, cr, r)"
    and best: "best_below ?P ?key m r"
    and state: "case r of None \<Rightarrow> ct = time_MIN \<and> cr = tuid_ZERO | Some i \<Rightarrow> ct = new_temporal (ts ! i) \<and> cr = ids ! i"
    by auto
  have ts_m: "ts ! m \<noteq> i64_min" "ids ! m \<noteq> tuid_ZERO" using Suc.prems by blast+
  then have zero: "tuid_ZERO < ids ! m" using tuid_ZERO_least [of "ids ! m"] by (metis order_less_le)
  have at: "new_temporal (ts ! m) \<le> at \<longleftrightarrow> sint (ts ! m) \<le> sint (as_i64 at)"
    using ts_m assms(3) by (simp add: time_less_eq_iff as_i64_new_temporal)
  have MIN: "time_MIN \<le> new_temporal (ts ! m)" by (rule is_temporal_MIN_le) simp
  have "closest_step at ts la (m, ids ! m) (ct, cr, r) =
      (if ?P m \<and> (case r of None \<Rightarrow> True | Some i \<Rightarrow> ?key i < ?key m)
       then (new_temporal (ts ! m), ids ! m, Some m) else (ct, cr, r))"
  proof (cases r)
    case None
    then have c: "ct = time_MIN" "cr = tuid_ZERO" using state by auto
    have "time_MIN \<le> at" using assms(3) by (rule is_temporal_MIN_le)
    then show ?thesis using None MIN zero at
      by (auto simp: closest_step_def c Let_def order_less_le)
  next
    case (Some i)
    then have c: "ct = new_temporal (ts ! i)" "cr = ids ! i" "i < m" "?P i"
      using state best by (auto simp: best_below_def)
    then have "ts ! i \<noteq> i64_min" using Suc.prems(2) by auto
    note less = new_temporal_less_iff [OF this ts_m(1)] new_temporal_less_iff(2) [OF ts_m(1) this]
    show ?thesis using Some c(4) at
      by (auto simp: closest_step_def c(1,2) Let_def less less_prod_def' sint_inject_i64)
  qed
  then show ?case using best_below_Suc [OF best] fold state by auto
qed (simp add: best_below_def)

section \<open>The query\<close>

lemma best_below_is_latest:
  assumes "best_below P key (num_rows c) r" "\<And>i. i < num_rows c \<and> P i \<longleftrightarrow> candidate query k c i"
    "\<And>i j. candidate query k c i \<Longrightarrow> candidate query k c j \<Longrightarrow>
       key i \<le> key j \<longleftrightarrow> recency query c i \<le> recency query c j"
    and inj: "\<And>i j. candidate query k c i \<Longrightarrow> candidate query k c j \<Longrightarrow>
       recency query c i = recency query c j \<Longrightarrow> i = j"
  shows "r = Some i \<longleftrightarrow> is_latest query k c i"
proof (cases r)
  case None
  then show ?thesis using assms(1,2) by (auto simp: best_below_def is_latest_def)
next
  case (Some j)
  then have best: "j < num_rows c \<and> P j" "\<forall>l<num_rows c. P l \<longrightarrow> key l \<le> key j"
    using assms(1) by (simp_all add: best_below_def)
  from best(1) have j: "candidate query k c j" by (simp only: assms(2))
  have max: "recency query c l \<le> recency query c j" if l: "candidate query k c l" for l
  proof -
    from l have "l < num_rows c \<and> P l" by (simp only: assms(2))
    then show ?thesis using best(2) assms(3) [OF l j] by blast
  qed
  have "is_latest query k c i \<longleftrightarrow> i = j"
  proof
    assume "is_latest query k c i"
    then have i: "candidate query k c i" "recency query c j \<le> recency query c i"
      using j by (simp_all add: is_latest_def)
    show "i = j" by (rule inj [OF i(1) j]) (rule antisym [OF max [OF i(1)] i(2)])
  next
    assume "i = j"
    then show "is_latest query k c i" using j max by (simp add: is_latest_def)
  qed
  then show ?thesis using Some by auto
qed

lemma recency_inj:
  assumes "distinct (ch_row_ids c)" "candidate query k c i" "candidate query k c j"
    "recency query c i = recency query c j"
  shows "i = j"
  using assms by (auto simp: candidate_def recency_def num_rows_def nth_eq_iff_index_eq)

lemma partition_point_sorted:
  assumes "sorted (map sint ts)"
  shows "i < partition_point (\<lambda>t. sint t \<le> b) ts \<longleftrightarrow> i < length ts \<and> sint (ts ! i) \<le> b"
  using assms
proof (induction ts arbitrary: i)
  case (Cons t ts)
  show ?case
  proof (cases "sint t \<le> b")
    case True
    then show ?thesis using Cons by (cases i) (auto simp: partition_point_def)
  next
    case False
    then have "\<not> sint ((t # ts) ! i) \<le> b" if "i < length (t # ts)"
      using Cons.prems that by (cases i) (auto simp: not_le dest: nth_mem intro: less_le_trans)
    then show ?thesis using False by (auto simp: partition_point_def)
  qed
qed (simp add: partition_point_def)

lemma latest_at_index_eq:
  assumes "\<not> chunk_is_empty c" "cc_get_array (ch_components c) k = Some la"
  shows "latest_at_index query k c =
     (if chunk_is_static c then
        if ch_is_sorted c then last_valid_below la (num_rows c)
        else snd (fold (closest_static_step la) (enumerate 0 (ch_row_ids c)) (tuid_ZERO, None))
      else case map_of (ch_timelines c) (la_timeline query) of
          None \<Rightarrow> None
        | Some tc \<Rightarrow>
            if tc_is_sorted tc then
              last_valid_below la
                (partition_point (\<lambda>t. sint t \<le> sint (as_i64 (la_at query))) (tc_times tc) - 1 + 1)
            else
              snd (snd (fold (closest_step (la_at query) (tc_times tc) la)
                (enumerate 0 (ch_row_ids c)) (time_MIN, tuid_ZERO, None))))"
  using assms by (simp add: latest_at_index_def Let_def split: option.splits)

text \<open>The index that the query finds.\<close>

lemma latest_at_index_iff:
  assumes ok: "chunk_ok c" and ids: "distinct (ch_row_ids c)" "tuid_ZERO \<notin> set (ch_row_ids c)"
    and at: "is_temporal (la_at query)"
    and rows: "is_timeline_sorted (la_timeline query) c \<and> \<not> chunk_is_static c \<longrightarrow> ch_is_sorted c
      \<and> sint (the (row_time c 0 (la_timeline query))) \<le> sint (as_i64 (la_at query))"
  shows "latest_at_index query k c = Some i \<longleftrightarrow> is_latest query k c i"
proof (cases "chunk_is_empty c \<or> cc_get_array (ch_components c) k = None")
  case True
  then show ?thesis
    by (auto simp: latest_at_index_def is_latest_def candidate_def chunk_is_empty_def row_cell_def)
next
  case False
  then obtain la where la: "cc_get_array (ch_components c) k = Some la" by auto
  let ?n = "num_rows c"
  have valid: "la_is_valid la i \<longleftrightarrow> i < ?n \<and> row_cell c i k \<noteq> None" for i
    using chunk_ok_array [OF ok la] by (auto simp: la_is_valid_def row_cell_def la)
  have ids_n: "length (ch_row_ids c) = ?n" by (simp add: num_rows_def)
  have zero: "\<forall>i<?n. ch_row_ids c ! i \<noteq> tuid_ZERO" using ids(2) by (metis ids_n nth_mem)
  have id_less: "ch_row_ids c ! i < ch_row_ids c ! j" if "ch_is_sorted c" "i < j" "j < ?n" for i j
  proof -
    have "sorted (ch_row_ids c)" using ok that(1) by (simp add: chunk_ok_def row_ids_sorted_iff)
    then have "ch_row_ids c ! i \<le> ch_row_ids c ! j" using that by (simp add: sorted_nth_mono num_rows_def)
    moreover have "ch_row_ids c ! i \<noteq> ch_row_ids c ! j"
      using ids(1) that by (simp add: nth_eq_iff_index_eq num_rows_def)
    ultimately show ?thesis by simp
  qed
  note index = latest_at_index_eq [OF _ la, of query]
  note inj = recency_inj [OF ids(1), of query k]
  have nonempty: "\<not> chunk_is_empty c" using False by simp
  show ?thesis
  proof (cases "chunk_is_static c")
    case static: True
    have cand: "candidate query k c i \<longleftrightarrow> i < ?n \<and> la_is_valid la i" for i
      using static valid by (auto simp: candidate_def)
    show ?thesis
    proof (cases "ch_is_sorted c")
      case True
      have "last_valid_below la ?n = Some i \<longleftrightarrow> is_latest query k c i"
        by (rule last_valid_is_latest [OF cand]) (use id_less [OF True] static in \<open>auto simp: recency_def\<close>)
      then show ?thesis using True static nonempty by (simp add: index)
    next
      case not_sorted: False
      from static_scan [OF zero, of la] obtain r where
        r: "snd (fold (closest_static_step la) (enumerate 0 (ch_row_ids c)) (tuid_ZERO, None)) = r"
        and best: "best_below (la_is_valid la) (\<lambda>i. ch_row_ids c ! i) ?n r"
        by (auto simp: enumerate_upt ids_n)
      have "r = Some i \<longleftrightarrow> is_latest query k c i"
        by (rule best_below_is_latest [OF best _ _ inj]) (use cand static in \<open>auto simp: recency_def\<close>)
      then show ?thesis using not_sorted static nonempty r by (simp add: index)
    qed
  next
    case temporal: False
    show ?thesis
    proof (cases "map_of (ch_timelines c) (la_timeline query)")
      case None
      then show ?thesis using temporal nonempty
        by (simp add: index is_latest_def candidate_def row_time_def)
    next
      case (Some tc)
      note tc = chunk_ok_timeline [OF ok Some]
      have n: "length (tc_times tc) = ?n" using tc by (simp add: tc_ok_def)
      let ?P = "\<lambda>i. la_is_valid la i \<and> sint (tc_times tc ! i) \<le> sint (as_i64 (la_at query))"
      have cand: "candidate query k c i \<longleftrightarrow> i < ?n \<and> ?P i" for i
        using temporal valid Some by (auto simp: candidate_def row_time_def)
      have rec: "recency query c i = (sint (tc_times tc ! i), ch_row_ids c ! i)" for i
        using temporal Some by (simp add: recency_def row_time_def)
      show ?thesis
      proof (cases "tc_is_sorted tc")
        case True
        then have srt: "ch_is_sorted c" "sint (tc_times tc ! 0) \<le> sint (as_i64 (la_at query))"
          using rows temporal Some by (auto simp: is_timeline_sorted_def row_time_def)
        have ts: "sorted (map sint (tc_times tc))" using True tc by (simp add: tc_ok_def times_sorted_iff)
        let ?p = "partition_point (\<lambda>t. sint t \<le> sint (as_i64 (la_at query))) (tc_times tc)"
        note p = partition_point_sorted [OF ts, of _ "sint (as_i64 (la_at query))"]
        have "0 < ?p" using p [of 0] srt(2) nonempty by (simp add: n chunk_is_empty_def)
        then have p1: "?p - 1 + 1 = ?p" by simp
        have "last_valid_below la ?p = Some i \<longleftrightarrow> is_latest query k c i"
        proof (rule last_valid_is_latest)
          show "candidate query k c i \<longleftrightarrow> i < ?p \<and> la_is_valid la i" for i
            using p [of i] by (auto simp: cand n)
          show "recency query c i < recency query c j" if "i < j" "j < ?p" for i j
          proof -
            have "j < ?n" using p [of j] that by (simp add: n)
            moreover have "map sint (tc_times tc) ! i \<le> map sint (tc_times tc) ! j"
              using ts that \<open>j < ?n\<close> by (intro sorted_nth_mono) (simp_all add: n)
            ultimately show ?thesis using id_less [OF srt(1) that(1)] that by (simp add: rec n)
          qed
        qed
        moreover have "latest_at_index query k c = last_valid_below la (?p - 1 + 1)"
          using True temporal nonempty Some by (simp add: index)
        ultimately show ?thesis by (simp only: p1)
      next
        case not_sorted: False
        have "\<forall>i<?n. tc_times tc ! i \<noteq> i64_min" using tc n by (metis nth_mem tc_ok_def)
        from closest_step_scan [OF zero this at, of la] obtain r where
          r: "snd (snd (fold (closest_step (la_at query) (tc_times tc) la)
                (enumerate 0 (ch_row_ids c)) (time_MIN, tuid_ZERO, None))) = r"
          and best: "best_below ?P (\<lambda>i. (sint (tc_times tc ! i), ch_row_ids c ! i)) ?n r"
          by (auto simp: enumerate_upt ids_n)
        have "r = Some i \<longleftrightarrow> is_latest query k c i"
          by (rule best_below_is_latest [OF best _ _ inj]) (use cand in \<open>auto simp: rec\<close>)
        then show ?thesis using not_sorted temporal nonempty Some r by (simp add: index)
      qed
    qed
  qed
qed


end
