(* ===== verification/Chunk_Range.thy ===== *)
theory Chunk_Range
  imports Chunk_Slices Chunk_Latest
begin

text \<open>
  The range query on a chunk, and the examples that instantiate the theorems on chunks.
\<close>

section \<open>Projections\<close>

text \<open>What a row says about one timeline and one component.\<close>

definition project :: "TimelineName \<Rightarrow> ComponentIdentifier \<Rightarrow> 'a row \<Rightarrow> RowId \<times> i64 option \<times> 'a option" where
  "project timeline k = (\<lambda>(r, times, cells). (r, times timeline, cells k))"

definition projected :: "TimelineName \<Rightarrow> ComponentIdentifier \<Rightarrow> 'a Chunk \<Rightarrow> (RowId \<times> i64 option \<times> 'a option) list" where
  "projected timeline k c = map (project timeline k) (chunk_rows c)"

definition time_row_key :: "RowId \<times> i64 option \<times> 'a option \<Rightarrow> int \<times> RowId" where
  "time_row_key = (\<lambda>(r, t, _). (sint (the t), r))"

definition in_time_range :: "AbsoluteTimeRange \<Rightarrow> RowId \<times> i64 option \<times> 'a option \<Rightarrow> bool" where
  "in_time_range rng = (\<lambda>(_, t, _). sint (as_i64 (range_min rng)) \<le> sint (the t)
     \<and> sint (the t) \<le> sint (as_i64 (range_max rng)))"

lemma filter_index_interval:
  assumes "\<And>i. i < length xs \<Longrightarrow> Q (xs ! i) \<longleftrightarrow> p \<le> i \<and> i < q"
  shows "filter Q xs = take (q - p) (drop p xs)"
proof -
  let ?a = "take p xs" and ?b = "take (q - p) (drop p xs)" and ?c = "drop (q - p) (drop p xs)"
  have xs: "xs = ?a @ ?b @ ?c" by (metis append_take_drop_id)
  have "filter Q ?a = []"
    using assms by (auto simp: filter_empty_conv in_set_conv_nth)
  moreover have "filter Q ?b = ?b"
  proof (rule filter_True, rule ballI)
    fix x assume "x \<in> set ?b"
    then obtain i where i: "i < length ?b" "x = ?b ! i" by (auto simp: in_set_conv_nth)
    then have "x = xs ! (p + i)" "p + i < length xs" "p + i < q" by auto
    then show "Q x" using assms [of "p + i"] by simp
  qed
  moreover have "filter Q ?c = []"
  proof (rule filter_False, rule ballI)
    fix x assume "x \<in> set ?c"
    then obtain i where i: "i < length ?c" "x = ?c ! i" by (auto simp: in_set_conv_nth)
    then have "x = xs ! (p + (q - p) + i)" "p + (q - p) + i < length xs"
      by (auto simp: add.commute add.left_commute)
    then show "\<not> Q x" using assms [of "p + (q - p) + i"] by auto
  qed
  ultimately show ?thesis by (metis append_Nil append_Nil2 filter_append xs)
qed

lemma partition_point_less_sorted:
  assumes "sorted (map sint ts)"
  shows "i < partition_point (\<lambda>t. sint t < b) ts \<longleftrightarrow> i < length ts \<and> sint (ts ! i) < b"
  using partition_point_sorted [OF assms, of i "b - 1"] by (simp add: le_diff_eq add1_zle_eq)

section \<open>Horizontal slices\<close>

lemma map_of_restricted:
  "map_of (filter (\<lambda>(k, _). P k) m) k = (if P k then map_of m k else None)"
  by (induction m) auto

lemma timeline_sliced_ok:
  assumes "chunk_ok c"
  shows "chunk_ok (timeline_sliced new_id timeline c)
    \<and> projected timeline k (timeline_sliced new_id timeline c) = projected timeline k c
    \<and> map_of (ch_timelines (timeline_sliced new_id timeline c)) timeline = map_of (ch_timelines c) timeline
    \<and> ch_components (timeline_sliced new_id timeline c) = ch_components c"
proof -
  have "map_of (ch_timelines (timeline_sliced new_id timeline c)) timeline = map_of (ch_timelines c) timeline"
    by (simp add: timeline_sliced_def split: option.splits)
  then show ?thesis
    using assms
    by (auto simp: projected_def chunk_rows_def project_def chunk_row_def row_time_def row_cell_def
        timeline_sliced_def num_rows_def chunk_ok_def dest: map_of_SomeD split: option.splits)
qed

lemma component_sliced_ok:
  assumes "chunk_ok c"
  shows "chunk_ok (component_sliced new_id k c)
    \<and> projected timeline k (component_sliced new_id k c) = projected timeline k c
    \<and> cc_get_array (ch_components (component_sliced new_id k c)) k = cc_get_array (ch_components c) k
    \<and> ch_timelines (component_sliced new_id k c) = ch_timelines c"
proof -
  have "ch_components (component_sliced new_id k c) =
      (case map_of (ch_components c) k of None \<Rightarrow> [] | Some col \<Rightarrow> [(k, col)])"
  proof (cases "map_of (ch_components c) k")
    case None
    then show ?thesis
      by (simp add: component_sliced_def components_sliced_def cc_get_def cc_collect_def List.map_filter_def)
  next
    case (Some col)
    then have "cd_component (cc_descriptor col) = k"
      using assms by (auto simp: chunk_ok_def column_ok_def dest!: map_of_SomeD)
    then show ?thesis using Some
      by (simp add: component_sliced_def components_sliced_def cc_get_def cc_collect_def cc_insert_def List.map_filter_def)
  qed
  moreover from this have "cc_get_array (ch_components (component_sliced new_id k c)) k = cc_get_array (ch_components c) k"
    by (simp add: cc_get_array_def split: option.splits)
  ultimately show ?thesis
    using assms
    by (auto simp: projected_def chunk_rows_def project_def chunk_row_def row_time_def row_cell_def
        component_sliced_def components_sliced_def num_rows_def chunk_ok_def dest: map_of_SomeD split: option.splits)
qed

section \<open>The range query\<close>

lemma filter_map_project:
  "filter Q (map (project timeline k) rows) = map (project timeline k) (filter (\<lambda>r. Q (project timeline k r)) rows)"
  by (simp add: filter_map comp_def)

lemma time_sorted_rows:
  assumes "chunk_ok c" "map_of (ch_timelines c) timeline = Some tc" "tc_is_sorted tc" "ch_is_sorted c"
  shows "sorted (map time_row_key (projected timeline k c))"
proof -
  have tc: "tc_ok (num_rows c) tc" using assms(1,2) by (rule chunk_ok_timeline)
  have "sint (tc_times tc ! i) \<le> sint (tc_times tc ! j) \<and> ch_row_ids c ! i \<le> ch_row_ids c ! j"
    if "i \<le> j" "j < num_rows c" for i j
  proof
    have "sorted (map sint (tc_times tc))" "length (tc_times tc) = num_rows c"
      using tc assms(3) by (simp_all add: tc_ok_def times_sorted_iff)
    then show "sint (tc_times tc ! i) \<le> sint (tc_times tc ! j)"
      using sorted_nth_mono [of "map sint (tc_times tc)" i j] that by simp
    show "ch_row_ids c ! i \<le> ch_row_ids c ! j"
      using assms(1,4) that by (intro sorted_nth_mono) (simp_all add: chunk_ok_def row_ids_sorted_iff num_rows_def)
  qed
  then show ?thesis
    by (auto simp: sorted_iff_nth_mono projected_def project_def time_row_key_def chunk_row_def
        row_time_def assms(2) chunk_rows_def less_eq_prod_simp le_less dest: order.strict_implies_order)
qed

lemma sort_projected:
  "sort_key time_row_key (projected timeline k c) =
     map (project timeline k) (sort_key (\<lambda>(r, times, _). (sint (the (times timeline)), r)) (chunk_rows c))"
  unfolding projected_def sort_key_map
  by (rule arg_cong [where f = "map (project timeline k)"], rule sort_key_cong')
    (auto simp: project_def time_row_key_def)

text \<open>Cutting a time-sorted chunk at the two partition points is filtering by time.\<close>

lemma partition_slice:
  fixes rng :: AbsoluteTimeRange
  assumes ok: "chunk_ok c" and tc: "map_of (ch_timelines c) timeline = Some tc" "tc_is_sorted tc"
  defines "p \<equiv> partition_point (\<lambda>t. sint t < sint (as_i64 (range_min rng))) (tc_times tc)"
    and "q \<equiv> partition_point (\<lambda>t. sint t \<le> sint (as_i64 (range_max rng))) (tc_times tc)"
  shows "chunk_ok (row_sliced kb new_id p (q - p) c)
    \<and> projected timeline k (row_sliced kb new_id p (q - p) c) = filter (in_time_range rng) (projected timeline k c)"
proof -
  have "tc_ok (num_rows c) tc" using ok tc(1) by (rule chunk_ok_timeline)
  then have n: "length (tc_times tc) = num_rows c" and ts: "sorted (map sint (tc_times tc))"
    using tc(2) by (simp_all add: tc_ok_def times_sorted_iff)
  have "filter (in_time_range rng) (projected timeline k c) = take (q - p) (drop p (projected timeline k c))"
  proof (rule filter_index_interval)
    fix i assume "i < length (projected timeline k c)"
    then have i: "i < num_rows c" by (simp add: projected_def)
    have "projected timeline k c ! i = (ch_row_ids c ! i, Some (tc_times tc ! i), row_cell c i k)"
      using i by (simp add: projected_def project_def chunk_row_def row_time_def tc(1))
    then show "in_time_range rng (projected timeline k c ! i) \<longleftrightarrow> p \<le> i \<and> i < q"
      using partition_point_sorted [OF ts, of i "sint (as_i64 (range_max rng))"]
        partition_point_less_sorted [OF ts, of i "sint (as_i64 (range_min rng))"] i
      by (auto simp: p_def q_def n in_time_range_def)
  qed
  then show ?thesis using row_sliced_rows [OF ok]
    by (simp add: projected_def take_map drop_map)
qed

lemma densified_timeline:
  assumes "chunk_ok c" "map_of (ch_timelines c) timeline = Some tc" "densified kb new_id k c = (c', b)"
  shows "\<exists>tc'. map_of (ch_timelines c') timeline = Some tc'"
  using assms
  by (auto simp: densified_def masked_def Let_def chunk_ok_keys map_of_map_snd split: if_splits option.splits)

lemma fst_mono_prod: "x \<le> y \<Longrightarrow> fst x \<le> fst (y :: int \<times> RowId)"
  by (cases x; cases y) auto

lemma times_sorted_keys:
  assumes "chunk_ok c" "map_of (ch_timelines c) timeline = Some tc"
    "sorted (map time_row_key (projected timeline k c))"
  shows "tc_is_sorted tc"
proof -
  have tc: "tc_ok (num_rows c) tc" using assms(1,2) by (rule chunk_ok_timeline)
  have "sorted (map fst (map time_row_key (projected timeline k c)))"
    using assms(3) by (auto simp: sorted_map fst_mono_prod elim!: sorted_wrt_mono_rel [rotated])
  moreover have "map fst (map time_row_key (projected timeline k c)) = map sint (tc_times tc)"
    using tc by (intro nth_equalityI)
      (auto simp: projected_def project_def time_row_key_def tc_ok_def chunk_row_def row_time_def assms(2))
  ultimately show ?thesis using tc by (simp add: tc_ok_def times_sorted_iff)
qed

text \<open>C10: the range query is right. On a valid chunk in row-id order that has the timeline and
  the component, the query without extended bounds returns a valid chunk whose rows, read on that
  timeline and component, are exactly the rows that have a cell and a time in the range, in order
  of time and then row id.\<close>

theorem chunk_range_correct:
  assumes ok: "chunk_ok c" and srt: "ch_is_sorted c"
    and la: "cc_get_array (ch_components c) k = Some la"
    and tc: "map_of (ch_timelines c) (rq_timeline query) = Some tc"
    and plain: "\<not> include_extended_bounds (rq_options query)"
  shows "\<exists>c'. chunk_range kb new_id query k c = Some c' \<and> chunk_ok c'
    \<and> projected (rq_timeline query) k c' =
        filter (\<lambda>row. snd (snd row) \<noteq> None \<and> in_time_range (rq_range query) row)
          (sort_key time_row_key (projected (rq_timeline query) k c))"
proof (cases "chunk_is_empty c")
  case True
  then have "chunk_rows c = []" by (simp add: chunk_rows_def chunk_is_empty_def)
  then show ?thesis using ok True by (simp add: chunk_range_def projected_def)
next
  case False
  let ?tl = "rq_timeline query"
  let ?o = "rq_options query"
  define c1 where "c1 = (if keep_extra_timelines ?o then c else timeline_sliced new_id ?tl c)"
  define c2 where "c2 = (if keep_extra_components ?o then c1 else component_sliced new_id k c1)"
  have c1: "chunk_ok c1" "projected ?tl k c1 = projected ?tl k c" "map_of (ch_timelines c1) ?tl = Some tc"
    "cc_get_array (ch_components c1) k = Some la" "ch_row_ids c1 = ch_row_ids c"
    using timeline_sliced_ok [OF ok] ok tc la by (auto simp: c1_def) (simp add: timeline_sliced_def)
  have c2: "chunk_ok c2" "projected ?tl k c2 = projected ?tl k c" "map_of (ch_timelines c2) ?tl = Some tc"
    "cc_get_array (ch_components c2) k = Some la" "ch_row_ids c2 = ch_row_ids c"
    using component_sliced_ok [OF c1(1)] c1 by (auto simp: c2_def)
      (simp add: component_sliced_def components_sliced_def)
  have c2_sorted: "ch_is_sorted c2" using c2(1,5) ok srt by (simp add: chunk_ok_def)
  obtain dense b where d: "densified kb new_id k c2 = (dense, b)" by fastforce
  note dense = densified_rows [OF c2(1,4) d]
  have dense_rows: "projected ?tl k dense = filter (\<lambda>row. snd (snd row) \<noteq> None) (projected ?tl k c)"
    unfolding c2(2) [symmetric] using dense
    by (simp add: projected_def filter_map_project) (auto simp: project_def case_prod_beta intro!: arg_cong [where f = "map _"] filter_cong)
  define c3 where "c3 = (if tc_is_sorted tc then dense else sorted_by_timeline_if_unsorted new_id ?tl dense)"
  have "\<exists>tc3. chunk_ok c3 \<and> map_of (ch_timelines c3) ?tl = Some tc3 \<and> tc_is_sorted tc3
      \<and> projected ?tl k c3 = sort_key time_row_key (projected ?tl k dense)"
  proof -
    obtain tcd where tcd: "map_of (ch_timelines dense) ?tl = Some tcd"
      using densified_timeline [OF c2(1,3) d] by blast
    have ok_d: "chunk_ok dense" using dense by simp
    have "sorted (map fst (chunk_rows c2))"
      using c2(1) c2_sorted by (simp add: map_fst_chunk_rows chunk_ok_def row_ids_sorted_iff)
    then have "sorted (map fst (chunk_rows dense))"
      using dense by (auto simp: sorted_map intro: sorted_wrt_filter)
    then have d_sorted: "ch_is_sorted dense"
      using ok_d by (simp add: map_fst_chunk_rows chunk_ok_def row_ids_sorted_iff)
    show ?thesis
    proof (cases "tc_is_sorted tc \<or> tc_is_sorted tcd")
      case True
      have "tc_is_sorted tcd"
      proof (cases "tc_is_sorted tc")
        case True
        have "sorted (map time_row_key (projected ?tl k dense))"
          unfolding dense_rows using time_sorted_rows [OF c2(1,3) True c2_sorted, of k]
          by (simp add: c2(2) sorted_map sorted_wrt_filter)
        then show ?thesis using times_sorted_keys [OF ok_d tcd] by blast
      qed (use True in simp)
      then have "sorted (map time_row_key (projected ?tl k dense))"
        using time_sorted_rows [OF ok_d tcd] d_sorted by blast
      moreover have "c3 = dense"
        using \<open>tc_is_sorted tcd\<close> tcd by (simp add: c3_def sorted_by_timeline_if_unsorted_def)
      ultimately show ?thesis using ok_d tcd \<open>tc_is_sorted tcd\<close>
        by (simp add: sort_key_id_if_sorted)
    next
      case False
      then have c3: "c3 = sorted_by_timeline_if_unsorted new_id ?tl dense" by (simp add: c3_def)
      have "\<not> is_timeline_sorted ?tl dense"
        using False tcd by (auto simp: is_timeline_sorted_def chunk_is_static_def)
      with sorted_by_timeline_rows [OF ok_d tcd c3]
      have 3: "chunk_ok c3" "is_timeline_sorted ?tl c3"
        "chunk_rows c3 = sort_key (\<lambda>(r, times, _). (sint (the (times ?tl)), r)) (chunk_rows dense)" by auto
      have "map_of (ch_timelines c3) ?tl \<noteq> None"
        using False tcd by (simp add: c3 sorted_by_timeline_if_unsorted_def shuffle_with_def Let_def map_of_map_snd)
      then obtain tc3 where tc3: "map_of (ch_timelines c3) ?tl = Some tc3" by blast
      then have "tc_is_sorted tc3" using 3(2) by (auto simp: is_timeline_sorted_def chunk_is_static_def)
      moreover have "projected ?tl k c3 = sort_key time_row_key (projected ?tl k dense)"
        unfolding sort_projected by (simp add: projected_def 3(3))
      ultimately show ?thesis using 3(1) tc3 by blast
    qed
  qed
  then obtain tc3 where c3: "chunk_ok c3" "map_of (ch_timelines c3) ?tl = Some tc3" "tc_is_sorted tc3"
    "projected ?tl k c3 = sort_key time_row_key (projected ?tl k dense)" by blast
  have not_static: "\<not> chunk_is_static c2" using c2(3) by (auto simp: chunk_is_static_def)
  let ?p = "partition_point (\<lambda>t. sint t < sint (as_i64 (range_min (rq_range query)))) (tc_times tc3)"
  let ?q = "partition_point (\<lambda>t. sint t \<le> sint (as_i64 (range_max (rq_range query)))) (tc_times tc3)"
  have "chunk_range kb new_id query k c = Some (row_sliced kb new_id ?p (?q - ?p) c3)"
    unfolding chunk_range_def Let_def c1_def [symmetric] c2_def [symmetric]
    by (simp only: False not_static plain c2(3) d c3_def [symmetric] c3(2) if_False
        option.case prod.case)
  moreover have "filter (in_time_range (rq_range query)) (projected ?tl k c3) =
      filter (\<lambda>row. snd (snd row) \<noteq> None \<and> in_time_range (rq_range query) row)
        (sort_key time_row_key (projected ?tl k c))"
    by (simp only: c3(4) dense_rows filter_sort filter_filter)
  ultimately show ?thesis
    using partition_slice [OF c3(1-3), of kb new_id "rq_range query" k] by simp
qed

end
