(* ===== verification/Chunk_Examples.thy ===== *)
theory Chunk_Examples
  imports Chunk_Range Chunk_Merge
begin

text \<open>
  A small chunk on which the theorems about chunks are instantiated, and the concrete chunks on
  which operations of the code miss what their documentation says.
\<close>

definition ex_timeline :: TimelineName where "ex_timeline = [116]"
definition ex_component :: ComponentIdentifier where "ex_component = [99]"

definition ex_column :: "nat option list \<Rightarrow> nat ComponentColumn" where
  "ex_column cells =
     \<lparr>cc_list_array = \<lparr>la_cells = cells, la_nulls = None \<in> set cells, la_datatype = 0\<rparr>,
      cc_descriptor = \<lparr>cd_archetype = None, cd_component = ex_component, cd_component_type = None\<rparr>\<rparr>"

definition ex_chunk :: "RowId list \<Rightarrow> i64 list \<Rightarrow> nat option list \<Rightarrow> nat Chunk" where
  "ex_chunk ids ts cells =
     \<lparr>ch_id = Tuid 0 9, ch_entity_path = [], ch_is_sorted = row_ids_sorted ids, ch_row_ids = ids,
      ch_timelines = [(ex_timeline, tc_new None \<lparr>tl_name = ex_timeline, tl_typ = Sequence\<rparr> ts)],
      ch_components = [(ex_component, ex_column cells)]\<rparr>"

lemma ex_chunk_ok:
  assumes "length ts = length ids" "length cells = length ids" "i64_min \<notin> set ts"
  shows "chunk_ok (ex_chunk ids ts cells)"
  using assms tc_new_ok [of None ts]
  by (auto simp: chunk_ok_def ex_chunk_def num_rows_def column_ok_def ex_column_def la_len_def la_ok_def)

text \<open>Three rows at the times 5, 3 and 4; the second has no cell.\<close>

definition three :: "nat Chunk" where
  "three = ex_chunk [Tuid 0 1, Tuid 0 2, Tuid 0 3] [5, 3, 4] [Some 7, None, Some 8]"

definition all_bits :: keeps_bitmap where
  "all_bits b bits = b"

lemma three_ok: "chunk_ok three"
  unfolding three_def by (rule ex_chunk_ok) (simp_all add: i64_min_def)

lemma three_simps [simp]:
  "ch_row_ids three = [Tuid 0 1, Tuid 0 2, Tuid 0 3]" "num_rows three = 3"
  "map_of (ch_timelines three) ex_timeline =
     Some (tc_new None \<lparr>tl_name = ex_timeline, tl_typ = Sequence\<rparr> [5, 3, 4])"
  "cc_get_array (ch_components three) ex_component =
     Some \<lparr>la_cells = [Some 7, None, Some 8], la_nulls = True, la_datatype = 0\<rparr>"
  "\<not> chunk_is_empty three" "\<not> chunk_is_static three"
  by (simp_all add: three_def ex_chunk_def num_rows_def cc_get_array_def ex_column_def
      chunk_is_empty_def chunk_is_static_def)

lemma three_sorted: "ch_is_sorted three" "\<not> is_timeline_sorted ex_timeline three"
  by (simp_all add: three_def ex_chunk_def row_ids_sorted_def less_eq_Tuid_def is_timeline_sorted_def
      chunk_is_static_def tc_new_def Let_def times_sorted_def i64_le_def split: prod.splits)

theorem row_sliced_correct_witness:
  "chunk_rows (row_sliced all_bits (Tuid 0 0) 1 1 three) = [chunk_row three 1]"
  using row_sliced_correct [OF three_ok, of all_bits "Tuid 0 0" 1 1]
  by (simp add: chunk_rows_def upt_rec)

theorem filtered_correct_witness: "filtered all_bits (Tuid 0 0) [True] three = None"
  using filtered_correct [OF three_ok, of all_bits "Tuid 0 0" "[True]"] by simp

theorem densified_correct_witness:
  "chunk_rows (fst (densified all_bits (Tuid 0 0) ex_component three)) =
     filter (\<lambda>(_, _, cells). cells ex_component \<noteq> None) (chunk_rows three)"
  using densified_correct [OF three_ok three_simps(4) surjective_pairing, of all_bits "Tuid 0 0"] by simp

definition unsorted_ids :: "nat Chunk" where
  "unsorted_ids = ex_chunk [Tuid 0 2, Tuid 0 1] [5, 5] [Some 7, Some 8]"

lemma unsorted_ids_ok: "chunk_ok unsorted_ids"
  unfolding unsorted_ids_def by (rule ex_chunk_ok) (simp_all add: i64_min_def)

lemma unsorted_ids_flag: "\<not> ch_is_sorted unsorted_ids"
  by code_simp

theorem sort_if_unsorted_correct_witness:
  "ch_is_sorted (sort_if_unsorted (Tuid 0 0) unsorted_ids) \<and> \<not> ch_is_sorted unsorted_ids"
  using sort_if_unsorted_correct [OF unsorted_ids_ok, of "Tuid 0 0"] unsorted_ids_flag by simp

theorem sorted_by_timeline_correct_witness:
  "is_timeline_sorted ex_timeline (sorted_by_timeline_if_unsorted (Tuid 0 0) ex_timeline three)"
  using sorted_by_timeline_correct [OF three_ok three_simps(3) refl, of "Tuid 0 0"] by simp

theorem split_chunk_correct_witness:
  "concat (map chunk_rows (split_chunk_if_needed all_bits (\<lambda>k. Tuid 0 0)
     \<lparr>chunk_max_bytes = 0, chunk_max_rows = 2, chunk_max_rows_if_unsorted = 1\<rparr> 100 three)) = chunk_rows three"
  using split_chunk_correct [OF three_ok refl, of all_bits "\<lambda>k. Tuid 0 0"
      "\<lparr>chunk_max_bytes = 0, chunk_max_rows = 2, chunk_max_rows_if_unsorted = 1\<rparr>" 100] by simp

text \<open>At time 4 the latest row is the third.\<close>

definition ex_query :: LatestAtQuery where
  "ex_query = \<lparr>la_timeline = ex_timeline, la_at = new_temporal 4\<rparr>"


theorem chunk_range_correct_witness:
  "\<exists>c'. chunk_range all_bits (Tuid 0 0) (range_query_everything ex_timeline) ex_component three = Some c'
     \<and> chunk_ok c'"
  using chunk_range_correct [OF three_ok three_sorted(1) three_simps(4),
      of "range_query_everything ex_timeline" _ all_bits "Tuid 0 0"]
  by (auto simp: range_query_everything_def range_query_new_def range_options_DEFAULT_def)

theorem concatenated_correct_witness:
  "\<exists>c. concatenated True all_bits (Tuid 0 0) three unsorted_ids = Inr c
     \<and> chunk_rows c = chunk_rows three @ chunk_rows unsorted_ids"
  using concatenated_correct [OF three_ok unsorted_ids_ok, of all_bits "Tuid 0 0"]
  by (auto simp: num_rows_def three_def unsorted_ids_def ex_chunk_def concatenable_def
      same_entity_paths_def same_timelines_def same_datatypes_def cc_get_def ex_column_def)

section \<open>Where the code departs from its documentation\<close>

text \<open>
  On a time-sorted chunk whose first time is after the query time, latest-at returns the first
  row: the index of the last time not after the query time saturates at 0 instead of being absent.
\<close>

definition future_chunk :: "nat Chunk" where
  "future_chunk = ex_chunk [Tuid 0 1, Tuid 0 2] [5, 6] [Some 7, Some 8]"

lemma latest_at_returns_future_row:
  "latest_at_index ex_query ex_component future_chunk = Some 0
   \<and> row_time future_chunk 0 ex_timeline = Some 5 \<and> as_i64 (la_at ex_query) = 4"
  by code_simp

text \<open>
  The row-id range of a component comes out swapped on a sorted chunk (the loops lack the break),
  and as the pair of the initial values on an unsorted one (the comparisons are reversed).
\<close>

lemma row_id_range_per_component_swapped:
  "row_id_range_per_component future_chunk = [(ex_component, Tuid 0 2, Tuid 0 1)]
   \<and> row_id_range_per_component unsorted_ids = [(ex_component, tuid_MAX, tuid_ZERO)]"
  by code_simp

text \<open>
  \<open>deduped_latest_on_index\<close> copies the sorted flag: a chunk that becomes sorted is rejected by its
  own sanity check, which panics in debug builds. \<open>taken\<close> copies it too, also for indices that
  reverse the rows.
\<close>

lemma deduped_fails_sanity_check:
  "sanity_check True unsorted_ids = Inr ()
   \<and> sanity_check True (deduped_latest_on_index all_bits (Tuid 0 0) ex_timeline unsorted_ids) = Inl MarkedSorted"
  by code_simp

lemma taken_fails_sanity_check:
  "sanity_check True future_chunk = Inr ()
   \<and> sanity_check True (taken all_bits (Tuid 0 0) [1, 0] future_chunk) = Inl MarkedSorted"
  by code_simp

end
