(* ===== verification/Store_Examples.thy ===== *)
theory Store_Examples
  imports Store_Insert_Props Chunk_Examples
begin

text \<open>
  The theorems about chunk stores on a small store, and states in which an operation of the store
  does not do what its documentation says.
\<close>

section \<open>Insertion\<close>

definition ex_config :: ChunkStoreConfig where
  "ex_config = \<lparr>enable_changelog = True, cfg_max_bytes = 1000, cfg_max_rows = 2, cfg_max_rows_if_unsorted = 2\<rparr>"

definition ex_store :: "nat ChunkStore" where
  "ex_store = chunk_store_new ex_config"

definition ex_ids :: "nat \<Rightarrow> ChunkId" where
  "ex_ids k = Tuid 1 (of_nat k)"

definition ex_types :: "TimelineName \<Rightarrow> Timeline" where
  "ex_types name = \<lparr>tl_name = name, tl_typ = Sequence\<rparr>"

definition no_spans :: spans where
  "no_spans = (\<lambda>_ _ _. Map.empty)"

lemma ex_ids_inj: "inj_on ex_ids {0..<15}"
proof -
  have "distinct (map ex_ids [0..<15])" by (simp add: ex_ids_def upt_rec)
  then show ?thesis by (simp add: distinct_map)
qed

lemma ex_store_ok: "store_ok size_of ty no_spans ex_store"
  using store_inv_new [of size_of ex_config]
  by (simp add: store_ok_def ex_store_def no_spans_def) (simp add: chunk_store_new_def physical_chunk_def)

lemma ex_store_empty:
  "physical_chunk ex_store cid = None" "chunks_lineage ex_store cid = None"
  "dangling_splits ex_store cid = None" "leaky_compactions ex_store cid = None"
  by (simp_all add: ex_store_def chunk_store_new_def physical_chunk_def)

lemma ex_store_unknown: "unknown no_spans ex_store cid"
  by (simp add: unknown_def ex_store_empty no_spans_def)

lemma three_storable: "storable ex_types three"
  using three_ok three_sorted
  by (simp add: storable_def typed_def) (simp add: three_def ex_chunk_def ex_types_def tc_new_def Let_def split: prod.split)



end
