(* ===== verification/Store_GC.thy ===== *)
theory Store_GC
  imports Store_Insert
begin

text \<open>
  Garbage collection: which chunks it marks, that it reaches its target when it can, and that what
  it removes leaves a valid store.
\<close>

section \<open>Marking\<close>

definition bytes_of :: "('a Chunk \<Rightarrow> nat) \<Rightarrow> 'a Chunk list \<Rightarrow> nat" where
  "bytes_of size_of cs = (\<Sum>c \<leftarrow> cs. size_of c)"

lemma bytes_of_simps [simp]:
  "bytes_of size_of [] = 0" "bytes_of size_of (c # cs) = size_of c + bytes_of size_of cs"
  "bytes_of size_of (xs @ ys) = bytes_of size_of xs + bytes_of size_of ys"
  by (simp_all add: bytes_of_def)

text \<open>Marking takes the first chunks, no more than are needed to reach the target.\<close>

lemma mark_loop_prefix:
  assumes "mark_loop exhausted size_of target n dropped cs = (marked, dropped', stop)"
  shows "(\<exists>k. marked = take k cs) \<and> dropped' = dropped + bytes_of size_of marked
    \<and> (\<not> stop \<longrightarrow> marked = cs)
    \<and> (stop \<longrightarrow> (\<forall>i. \<not> exhausted i) \<longrightarrow> target \<le> dropped')
    \<and> (dropped < target \<longrightarrow> dropped + bytes_of size_of (butlast marked) < target)"
  using assms
proof (induction exhausted size_of target n dropped cs arbitrary: marked rule: mark_loop.induct)
  case (2 exhausted size_of target n dropped c cs)
  show ?case
  proof (cases "exhausted n \<or> target \<le> dropped + size_of c")
    case True
    then have eq: "marked = [c]" "dropped' = dropped + size_of c" stop using 2 by simp_all
    have "\<exists>k. [c] = take k (c # cs)" by (rule exI [of _ "Suc 0"]) simp
    then show ?thesis using True eq by auto
  next
    case False
    then obtain marked' where rec: "mark_loop exhausted size_of target (n + 1) (dropped + size_of c) cs = (marked', dropped', stop)"
      and eq: "marked = c # marked'" using 2(2) by (auto simp: Let_def split: prod.splits)
    from 2(1) [OF refl False rec] obtain k where "marked' = take k cs" by blast
    then have "\<exists>k. marked = take k (c # cs)" by (intro exI [of _ "Suc k"]) (simp add: eq)
    moreover have "target > dropped + size_of c" using False by simp
    ultimately show ?thesis using 2(1) [OF refl False rec] by (auto simp: eq)
  qed
qed simp

text \<open>What the pass by row id may remove.\<close>

definition gc_eligible :: "'p GarbageCollectionOptions \<Rightarrow> 'a ChunkStore \<Rightarrow> 'a Chunk \<Rightarrow> bool" where
  "gc_eligible options s c \<longleftrightarrow> ch_id c \<notin> find_all_protected_physical_chunk_ids (protect_latest options) s
     \<and> \<not> chunk_is_static c \<and> \<not> is_chunk_protected options c"

definition chunks_by_row_id :: "'a ChunkStore \<Rightarrow> 'a Chunk list" where
  "chunks_by_row_id s = List.map_filter (physical_chunk s) (map snd (physical_chunk_ids_per_min_row_id s))"

lemma map_filter_filter_key:
  "(\<And>k v. k \<in> set ks \<Longrightarrow> f k = Some v \<Longrightarrow> g v = P k) \<Longrightarrow>
     List.map_filter f (filter P ks) = filter g (List.map_filter f ks)"
  by (induction ks) (auto simp: map_filter_simps split: option.split)

lemma candidates_eq:
  assumes "phys_ok s"
  shows "filter (\<lambda>c. \<not> is_chunk_protected options c) (filter (\<lambda>c. \<not> chunk_is_static c)
      (List.map_filter (physical_chunk s)
        (filter (\<lambda>cid. cid \<notin> find_all_protected_physical_chunk_ids (protect_latest options) s)
          (map snd (physical_chunk_ids_per_min_row_id s))))) = filter (gc_eligible options s) (chunks_by_row_id s)"
proof -
  have "List.map_filter (physical_chunk s)
        (filter (\<lambda>cid. cid \<notin> find_all_protected_physical_chunk_ids (protect_latest options) s)
          (map snd (physical_chunk_ids_per_min_row_id s)))
      = filter (\<lambda>c. ch_id c \<notin> find_all_protected_physical_chunk_ids (protect_latest options) s) (chunks_by_row_id s)"
    unfolding chunks_by_row_id_def using phys_ok_get [OF assms] by (intro map_filter_filter_key) auto
  then show ?thesis by (simp add: gc_eligible_def [abs_def] conj_commute conj_left_commute)
qed

lemma physical_chunks_iff:
  assumes "phys_ok s"
  shows "c \<in> set (physical_chunks s) \<longleftrightarrow> physical_chunk s (ch_id c) = Some c"
  using assms by (force simp: physical_chunks_def phys_ok_def physical_chunk_in)

lemma set_map_filter_iff: "c \<in> set (List.map_filter f xs) \<longleftrightarrow> (\<exists>x \<in> set xs. f x = Some c)"
  by (induction xs) (auto simp: map_filter_simps split: option.split)

lemma set_chunks_by_row_id:
  assumes "phys_ok s" "row_order_ok s"
  shows "set (chunks_by_row_id s) = set (physical_chunks s)"
proof -
  have "set (map snd (physical_chunk_ids_per_min_row_id s)) = fst ` set (physical_chunks_per_chunk_id s)"
    using assms(2) by (force simp: row_order_ok_def)
  then have "c \<in> set (chunks_by_row_id s) \<longleftrightarrow> (\<exists>cid \<in> fst ` set (physical_chunks_per_chunk_id s). physical_chunk s cid = Some c)" for c
    unfolding chunks_by_row_id_def set_map_filter_iff by blast
  moreover have "cid \<in> fst ` set (physical_chunks_per_chunk_id s)" if "physical_chunk s cid = Some c" for cid c
    using that assms(1) by (force simp: phys_ok_def physical_chunk_in)
  ultimately have "c \<in> set (chunks_by_row_id s) \<longleftrightarrow> (\<exists>cid. physical_chunk s cid = Some c)" for c by blast
  then show ?thesis using assms(1) by (auto simp: physical_chunks_iff dest: phys_ok_get)
qed

text \<open>Chunks come in the order of their first row.\<close>

lemma sorted_chunks_by_row_id:
  assumes "phys_ok s" "row_order_ok s"
  shows "sorted (map (\<lambda>c. (first_row_id c, ch_id c)) (chunks_by_row_id s))"
proof -
  have "map (\<lambda>c. (first_row_id c, ch_id c)) (List.map_filter (physical_chunk s) (map snd xs)) = xs"
    if "set xs \<subseteq> (\<lambda>(cid, c). (first_row_id c, cid)) ` set (physical_chunks_per_chunk_id s)" for xs
    using that
  proof (induction xs)
    case (Cons x xs)
    then obtain cid c where "x = (first_row_id c, cid)" "(cid, c) \<in> set (physical_chunks_per_chunk_id s)" by auto
    moreover from this have "physical_chunk s cid = Some c" "ch_id c = cid"
      using assms(1) phys_ok_get [OF assms(1)] by (auto simp: phys_ok_def physical_chunk_in)
    ultimately show ?case using Cons by (simp add: map_filter_simps)
  qed (simp add: map_filter_simps)
  then show ?thesis using assms(2) unfolding chunks_by_row_id_def by (simp add: row_order_ok_def)
qed

lemma furthest_in: "c \<in> set (chunks_furthest_by dist timeline s) \<Longrightarrow> c \<in> set (physical_chunks s) \<and> \<not> chunk_is_static c"
  by (auto simp: chunks_furthest_by_def map_filter_def chunk_is_static_def split: option.splits)

lemma gc_find_candidates_eq:
  assumes "phys_ok s" "0 < target"
  shows "gc_find_candidates exhausted size_of options target s =
    (case furthest_from options of
       None \<Rightarrow> fst (mark_loop exhausted size_of target 0 0 (filter (gc_eligible options s) (chunks_by_row_id s)))
     | Some (timeline, time) \<Rightarrow>
         let r = mark_loop (\<lambda>_. False) size_of target 0 0
               (filter (\<lambda>c. \<not> is_chunk_protected options c) (find_temporal_chunks_furthest_from timeline time s))
         in if snd (snd r) \<or> target \<le> fst (snd r) then fst r
            else fst r @ fst (mark_loop exhausted size_of target 0 (fst (snd r))
              (filter (gc_eligible options s) (chunks_by_row_id s))))"
  using assms(2) unfolding gc_find_candidates_def Let_def candidates_eq [OF assms(1)]
  by (simp add: case_prod_unfold del: filter_filter split: option.split)

lemma mark_loop_subset: "c \<in> set (fst (mark_loop exhausted size_of target n dropped cs)) \<Longrightarrow> c \<in> set cs"
  using mark_loop_prefix [of exhausted size_of target n dropped cs] by (metis prod.collapse in_set_takeD)

lemma gc_candidates_cases:
  assumes "c \<in> set (gc_find_candidates exhausted size_of options target s)" "phys_ok s"
  shows "(furthest_from options \<noteq> None \<and> (\<exists>dist timeline. c \<in> set (chunks_furthest_by dist timeline s))
      \<and> \<not> is_chunk_protected options c) \<or> c \<in> set (filter (gc_eligible options s) (chunks_by_row_id s))"
proof (cases "target = 0")
  case True
  then show ?thesis using assms(1) by (simp add: gc_find_candidates_def)
next
  case False
  show ?thesis
  proof (cases "furthest_from options")
    case None
    then have "c \<in> set (fst (mark_loop exhausted size_of target 0 0 (filter (gc_eligible options s) (chunks_by_row_id s))))"
      using assms(1) False by (simp add: gc_find_candidates_eq [OF assms(2)])
    then show ?thesis by (rule mark_loop_subset [THEN disjI2])
  next
    case (Some tt)
    obtain timeline time where tt: "tt = (timeline, time)" by fastforce
    let ?r = "mark_loop (\<lambda>_. False) size_of target 0 0
      (filter (\<lambda>c. \<not> is_chunk_protected options c) (find_temporal_chunks_furthest_from timeline time s))"
    have "c \<in> set (fst ?r) \<or> c \<in> set (filter (gc_eligible options s) (chunks_by_row_id s))"
      using assms(1) False Some unfolding gc_find_candidates_eq [OF assms(2) False [unfolded neq0_conv]] tt
      by (auto simp: Let_def simp del: set_filter split: if_splits dest: mark_loop_subset)
    moreover have "c \<in> set (chunks_furthest_by (time_distance time) timeline s) \<and> \<not> is_chunk_protected options c"
      if "c \<in> set (fst ?r)"
      using mark_loop_subset [OF that] by (simp add: find_temporal_chunks_furthest_from_def)
    ultimately show ?thesis using Some by blast
  qed
qed

section \<open>Sweeping\<close>

lemma snd_fold_visit:
  assumes "distinct (map fst xs)"
  shows "snd (fold (visit_step (\<lambda>x v b. (h x v, b \<or> p x v))) xs (m, b)) \<longleftrightarrow>
    b \<or> (\<exists>(k, x) \<in> set xs. \<exists>v. map_of m k = Some v \<and> p x v)"
  using assms
proof (induction xs arbitrary: m b)
  case (Cons y xs)
  obtain k x where y: "y = (k, x)" by (cases y)
  show ?case
  proof (cases "map_of m k")
    case None
    then show ?thesis using Cons y by (auto simp: visit_step_def)
  next
    case (Some v)
    have "map_of (im_insert k (h x v) m) k' = map_of m k'" if "k' \<in> fst ` set xs" for k'
      using that Cons.prems y by (auto simp: map_of_im_insert)
    then show ?thesis using Cons y Some by (force simp: visit_step_def)
  qed
qed simp

lemma om_get_lin: "om_get lin_cmp m k = map_of m k"
  by (induction m) (auto simp: lin_cmp_def)

text \<open>Whether the per-timeline index has an entry for the start of a chunk.\<close>

definition start_entry :: "'a ChunkStore \<Rightarrow> 'a Chunk \<Rightarrow> bool" where
  "start_entry s c \<longleftrightarrow> (\<exists>(timeline, tc) \<in> set (ch_timelines c).
     om_get lin_cmp (per_start_time (idx_at s (ch_entity_path c) timeline None)) (range_min (tc_time_range tc)) \<noteq> None)"

lemma unindex_reports:
  assumes "chunk_ok c" "start_entry s c"
  shows "snd (unindex_chunk c s)"
proof -
  obtain timeline tc where tc: "(timeline, tc) \<in> set (ch_timelines c)"
    "om_get lin_cmp (per_start_time (idx_at s (ch_entity_path c) timeline None)) (range_min (tc_time_range tc)) \<noteq> None"
    using assms(2) by (auto simp: start_entry_def)
  then obtain m idx where m: "map_of (temporal_ids s) (ch_entity_path c) = Some m" "map_of m timeline = Some idx"
    "om_get lin_cmp (per_start_time idx) (range_min (tc_time_range tc)) \<noteq> None"
    by (auto simp: idx_at_def im_get_def index_default_def split: option.splits)
  have "snd (index_remove (tc_time_range tc) (ch_id c) idx)"
    using m(3) by (auto simp: index_remove_def per_time_remove_def split: option.splits prod.splits)
  then have "snd (remove_from_timelines c (m, b))" for b
    using assms(1) tc(1) m(2) by (force simp: remove_from_timelines_visit snd_fold_visit chunk_ok_def)
  then show ?thesis using m(1)
    by (simp add: unindex_chunk_def Let_def case_prod_unfold split: option.split)
qed

lemma start_entry_unindex:
  assumes "chunk_ok c'" "start_entry s c"
  shows "start_entry (fst (unindex_chunk c' s)) c"
proof -
  have "om_get lin_cmp (per_start_time (fst (index_remove r cid idx))) t \<noteq> None"
    if "om_get lin_cmp (per_start_time idx) t \<noteq> None" for r cid idx t
    using that by (auto simp: index_remove_fst per_time_remove_def lin.om_get_insert split: option.split)
  then show ?thesis using assms(2)
    by (fastforce simp: start_entry_def idx_at_unindex [OF assms(1)] split: option.split)
qed

lemma deep_loop_reports:
  assumes "\<forall>c \<in> set chunks. chunk_ok c \<and> start_entry s c"
  shows "fst (deep_loop chunks s) = chunks"
  using assms
proof (induction chunks arbitrary: s)
  case (Cons c chunks)
  then have "\<forall>c' \<in> set chunks. chunk_ok c' \<and> start_entry (fst (unindex_chunk c s)) c'"
    by (auto intro: start_entry_unindex)
  then show ?case using Cons unindex_reports [of c s] by (simp add: case_prod_unfold Let_def)
qed simp

lemma loaded_start_entry:
  assumes "store_inv size_of P V s" "physical_chunk s (ch_id c) = Some c" "\<not> chunk_is_static c"
  shows "start_entry s c"
proof -
  obtain timeline tc where tc: "(timeline, tc) \<in> set (ch_timelines c)"
    using assms(3) by (cases "ch_timelines c") (auto simp: chunk_is_static_def)
  have "chunk_ok c" using assms by (auto simp: store_inv_def dest: phys_ok_get)
  then have "map_of (ch_timelines c) timeline = Some tc" using tc by (simp add: chunk_ok_def)
  then have "spans_of s (ch_entity_path c) timeline None (ch_id c) = Some (tc_time_range tc)"
    using assms(2) by (simp add: spans_of_def own_span_def span_def)
  moreover have "index_repr (V (ch_entity_path c) timeline None ++ spans_of s (ch_entity_path c) timeline None)
      (idx_at s (ch_entity_path c) timeline None)" using assms(1) by (simp add: store_inv_def indexed_def)
  ultimately obtain ids where "(range_min (tc_time_range tc), ids) \<in> set (per_start_time (idx_at s (ch_entity_path c) timeline None))"
    using index_repr_starts [of _ _ "range_min (tc_time_range tc)" "ch_id c"] by (fastforce simp: map_add_def)
  then have "om_get lin_cmp (per_start_time (idx_at s (ch_entity_path c) timeline None)) (range_min (tc_time_range tc)) \<noteq> None"
    unfolding om_get_lin by (auto dest: weak_map_of_SomeI)
  then show ?thesis using tc by (auto simp: start_entry_def)
qed

lemma start_entry_cong: "temporal_ids s' = temporal_ids s \<Longrightarrow> start_entry s' c = start_entry s c"
  by (simp add: start_entry_def idx_at_def)

lemma sweep_ok:
  assumes inv: "store_inv size_of {#} V s"
    and cands: "\<forall>c \<in> set roots \<union> set others. physical_chunk s (ch_id c) = Some c \<and> \<not> chunk_is_static c"
    and disj: "set roots \<inter> set others = {}"
    and s1: "remove_chunks_shallow budget size_of roots s = (dels1, s1)"
    and s2: "remove_chunks_deep (\<lambda>_. False) size_of others s1 = (dels2, s2)"
  shows "\<exists>V'. store_inv size_of {#} V' s2 \<and> set dels1 \<subseteq> set roots \<and> dels2 = others
    \<and> physical_chunk s2 = physical_chunk s |` (- ch_id ` (set dels1 \<union> set dels2)) \<and> same_lineage s s2"
proof -
  have rem: "\<forall>c \<in> set roots. removable s c" using cands by (auto simp: removable_def)
  note sh = shallow_loop_inv [OF inv rem s1 [unfolded remove_chunks_shallow_def]]
  have ok: "\<forall>c \<in> set roots \<union> set others. chunk_ok c"
    using cands inv by (auto simp: store_inv_def dest: phys_ok_get)
  have ids: "ch_id c \<notin> ch_id ` set dels1" if c: "c \<in> set others" for c
  proof
    assume "ch_id c \<in> ch_id ` set dels1"
    then obtain c' where c': "c' \<in> set dels1" "ch_id c' = ch_id c" by auto
    then have "c' \<in> set roots" using sh by blast
    then show False using c c'(2) cands disj by (metis UnCI disjoint_iff option.inject)
  qed
  then have loaded: "physical_chunk s1 (ch_id c) = Some c \<and> \<not> chunk_is_static c" if "c \<in> set others" for c
    using that cands sh by (auto simp: restrict_map_def)
  have V: "fold put_spans dels1 V e timeline k (ch_id c) = own_span c e timeline k
      \<or> fold put_spans dels1 V e timeline k (ch_id c) = None" if "c \<in> set others" for c e timeline k
    using that cands inv by (simp add: fold_put_spans_other [OF ids [OF that]] store_inv_def)
  let ?V = "drop_all (ch_id ` set others) (fold put_spans dels1 V)"
  have rem2: "\<forall>c \<in> set others. removable s1 c \<and> chunk_ok c" using loaded ok by (auto simp: removable_def)
  note inv1 = sh [THEN conjunct1]
  have deep: "store_inv size_of {#} ?V s2" "physical_chunk s2 = physical_chunk s1 |` (- ch_id ` set others)" "same_lineage s1 s2"
    using remove_chunks_deep_inv [OF inv1 rem2 V, of s2] s2 by simp_all
  obtain dels s1' where inner: "shallow_loop (\<lambda>_. False) size_of 0 others s1 = (dels, s1')" by fastforce
  have "\<forall>c \<in> set others. removable s1 c" using rem2 by blast
  from shallow_loop_inv [OF inv1 this inner] have "temporal_ids s1' = temporal_ids s1" by blast
  then have "start_entry s1' c" if "c \<in> set others" for c
    using loaded_start_entry [OF inv1, of c] loaded [OF that] start_entry_cong [of s1' s1 c] by simp
  then have "fst (deep_loop others s1') = others" using ok by (intro deep_loop_reports) blast
  then have "dels2 = others" using s2 by (simp add: remove_chunks_deep_def remove_chunks_shallow_def inner)
  moreover have "physical_chunk s2 = physical_chunk s |` (- ch_id ` (set dels1 \<union> set others))"
    using sh by (simp add: deep(2) image_Un)
  ultimately show ?thesis using deep sh by (metis same_lineage_trans)
qed

end
