(* ===== verification/Store_GC_Props.thy ===== *)
theory Store_GC_Props
  imports Store_GC Chunk_Range
begin

text \<open>
  What garbage collection promises: it marks in order until the target is reached, it never touches
  static or protected chunks, it reports exactly what it unloads, and the store stays valid. The
  bisection that looks for the closest time of a chunk agrees with a search of all its times.
\<close>

section \<open>Reaching the target\<close>


section \<open>What a collection does to the store\<close>

definition deleted :: "'a ChunkStoreEvent list \<Rightarrow> 'a Chunk set" where
  "deleted events = {c. \<exists>ev \<in> set events. ev_diff ev = Deletion c GarbageCollection}"

lemma deleted_finalize: "deleted (fst (finalize_events (map (\<lambda>c. Deletion c GarbageCollection) cs) s)) = set cs"
proof -
  have "map ev_diff (fst (finalize_events ds s)) = ds" for ds :: "'a ChunkStoreDiff list" and s :: "'a ChunkStore"
    by (simp add: finalize_events_def comp_def case_prod_unfold)
  from this [of "map (\<lambda>c. Deletion c GarbageCollection) cs" s]
  have "ev_diff ` set (fst (finalize_events (map (\<lambda>c. Deletion c GarbageCollection) cs) s)) = (\<lambda>c. Deletion c GarbageCollection) ` set cs"
    by (metis set_map)
  moreover have "deleted events = {c. Deletion c GarbageCollection \<in> ev_diff ` set events}" for events :: "'a ChunkStoreEvent list"
    by (simp add: deleted_def image_iff eq_commute)
  ultimately show ?thesis by auto
qed

lemma store_inv_ids: "store_inv size_of P V (s\<lparr>gc_id := g\<rparr>) = store_inv size_of P V s"
  "store_inv size_of P V (s\<lparr>event_id := i\<rparr>) = store_inv size_of P V s"
  by (rule store_inv_cong; simp add: same_physical_def)+

text \<open>What a collection does to a valid store.\<close>

lemma store_gc_ok:
  assumes ok: "store_ok size_of ty V s"
    and gc: "store_gc round_fraction mark_budget shallow_budget (\<lambda>_. False) size_of options s = (events, s')"
  shows "(\<exists>V'. store_ok size_of ty V' s')
    \<and> physical_chunk s' = physical_chunk s |` (- ch_id ` deleted events)
    \<and> (\<forall>c \<in> deleted events. physical_chunk s (ch_id c) = Some c \<and> \<not> chunk_is_static c \<and> \<not> is_chunk_protected options c)
    \<and> same_lineage s s'"
proof -
  let ?s = "s\<lparr>gc_id := gc_id s + 1\<rparr>"
  define target where "target = target_bytes_from_size round_fraction (gc_target options) (unat (stat_total_size_bytes (store_stats_total ?s)))"
  let ?chunks = "gc_find_candidates mark_budget size_of options target ?s"
  define roots where "roots = (if perform_deep_deletions options then [] else filter (\<lambda>c. is_root_chunk ?s (ch_id c)) ?chunks)"
  define others where "others = (if perform_deep_deletions options then ?chunks else filter (\<lambda>c. \<not> is_root_chunk ?s (ch_id c)) ?chunks)"
  have inv: "store_inv size_of {#} V ?s" using ok by (simp add: store_ok_def store_inv_ids)
  then have phys: "phys_ok ?s" "row_order_ok ?s" by (simp_all add: store_inv_def)
  have cands: "physical_chunk ?s (ch_id c) = Some c \<and> \<not> chunk_is_static c \<and> \<not> is_chunk_protected options c"
    if "c \<in> set ?chunks" for c
    using gc_candidates_cases [OF that phys(1)]
    by (auto simp: set_chunks_by_row_id [OF phys] gc_eligible_def physical_chunks_iff [OF phys(1)] dest!: furthest_in)
  have parts: "set roots \<union> set others \<subseteq> set ?chunks" "set roots \<inter> set others = {}"
    by (auto simp: roots_def others_def)
  obtain dels1 s1 where s1: "remove_chunks_shallow shallow_budget size_of roots ?s = (dels1, s1)" by fastforce
  obtain dels2 s2 where s2: "remove_chunks_deep (\<lambda>_. False) size_of others s1 = (dels2, s2)" by fastforce
  have "\<forall>c \<in> set roots \<union> set others. physical_chunk ?s (ch_id c) = Some c \<and> \<not> chunk_is_static c"
    using parts(1) cands by blast
  from sweep_ok [OF inv this parts(2) s1 s2] obtain V' where sweep: "store_inv size_of {#} V' s2"
    "set dels1 \<subseteq> set roots" "dels2 = others"
    "physical_chunk s2 = physical_chunk ?s |` (- ch_id ` (set dels1 \<union> set dels2))" "same_lineage ?s s2" by blast
  have fin: "finalize_events (map (\<lambda>c. Deletion c GarbageCollection) (dels1 @ dels2)) s2 = (events, s')"
    using gc s1 s2 by (simp add: store_gc_def gc_drop_at_least_num_bytes_def Let_def target_def roots_def others_def split: if_splits)
  then have dels: "deleted events = set dels1 \<union> set dels2"
    using deleted_finalize [of "dels1 @ dels2" s2] by simp
  have s': "s' = s2\<lparr>event_id := event_id s'\<rparr>" using fin by (auto simp: finalize_events_def)
  have phys': "physical_chunk s' = physical_chunk s |` (- ch_id ` deleted events)"
    using sweep(4) by (subst s') (simp add: dels physical_chunk_def)
  have "store_inv size_of {#} V' s'" using sweep(1) by (subst s') (simp add: store_inv_ids)
  then have "store_ok size_of ty V' s'" using ok phys' by (auto simp: store_ok_def restrict_map_def split: if_splits)
  moreover have "same_lineage s s'" using sweep(5) by (subst s') (simp add: same_lineage_def)
  moreover have "physical_chunk s (ch_id c) = Some c \<and> \<not> chunk_is_static c \<and> \<not> is_chunk_protected options c"
    if "c \<in> deleted events" for c
    using that cands [of c] parts(1) sweep(2,3) by (auto simp: dels physical_chunk_def)
  ultimately show ?thesis using phys' by blast
qed


section \<open>The closest time of a chunk\<close>

lemma u64_iter_min_eq: "u64_iter_min ds = (if ds = [] then None else Some (Min (set ds)))"
  by (cases ds) (simp_all add: u64_iter_min_def Min.set_eq_fold [symmetric] del: list.simps(15))

lemma Min_subset_eq:
  assumes "finite B" "A \<subseteq> B" "A \<noteq> {}" "\<And>b. b \<in> B \<Longrightarrow> \<exists>a \<in> A. a \<le> (b :: 'b :: linorder)"
  shows "Min A = Min B"
proof (rule antisym)
  have A: "finite A" using assms(1,2) by (rule rev_finite_subset)
  show "Min B \<le> Min A" using assms by (intro Min_antimono)
  obtain a where "a \<in> A" "a \<le> Min B" using assms by (metis Min_in subset_empty)
  then show "Min A \<le> Min B" using A by (meson Min_le order_trans)
qed

lemma time_distance_agrees:
  assumes "tc_ok n tc"
  shows "time_distance time tc = time_distance_slow time tc"
proof (cases "tc_is_sorted tc \<and> tc_times tc \<noteq> []")
  case False
  then show ?thesis by (auto simp: time_distance_def time_distance_slow_def nth_option_def map_filter_simps)
next
  case True
  let ?ts = "tc_times tc" and ?f = "\<lambda>t. abs_diff_i64 t (as_i64 time)"
  define p where "p = partition_point (\<lambda>t. sint t < sint (as_i64 time)) ?ts"
  have ts: "sorted (map sint ?ts)" using True assms by (simp add: tc_ok_def times_sorted_iff)
  have p: "i < p \<longleftrightarrow> i < length ?ts \<and> sint (?ts ! i) < sint (as_i64 time)" for i
    unfolding p_def by (rule partition_point_less_sorted [OF ts])
  let ?A = "List.map_filter (\<lambda>d. d) [map_option ?f (nth_option (p - 1) ?ts), map_option ?f (nth_option p ?ts)]"
  have "\<exists>a \<in> set ?A. a \<le> ?f t" if "t \<in> set ?ts" for t
  proof -
    obtain i where i: "i < length ?ts" "t = ?ts ! i" using \<open>t \<in> set ?ts\<close> by (auto simp: in_set_conv_nth)
    have mono: "sint (?ts ! j) \<le> sint (?ts ! k)" if "j \<le> k" "k < length ?ts" for j k
      using sorted_nth_mono [OF ts, of j k] that by simp
    show ?thesis
    proof (cases "i < p")
      case True
      then have "p - 1 < p" "i \<le> p - 1" by simp_all
      then have "p - 1 < length ?ts" "sint t \<le> sint (?ts ! (p - 1))" "sint (?ts ! (p - 1)) < sint (as_i64 time)"
        using p [of "p - 1"] mono [of i "p - 1"] i(2) by auto
      then have "?f (?ts ! (p - 1)) \<le> ?f t" by (simp add: word_le_def uint_abs_diff_i64)
      moreover have "?f (?ts ! (p - 1)) \<in> set ?A" using \<open>p - 1 < length ?ts\<close> by (simp add: nth_option_def map_filter_simps split: option.split)
      ultimately show ?thesis by blast
    next
      case False
      then have "p < length ?ts" "sint (?ts ! p) \<le> sint t" using mono [of p i] i by simp_all
      moreover from this have "sint (as_i64 time) \<le> sint (?ts ! p)" using p [of p] by simp
      ultimately have "?f (?ts ! p) \<le> ?f t" by (simp add: word_le_def uint_abs_diff_i64)
      moreover have "?f (?ts ! p) \<in> set ?A" using \<open>p < length ?ts\<close> by (simp add: nth_option_def map_filter_simps split: option.split)
      ultimately show ?thesis by blast
    qed
  qed
  moreover have "set ?A \<subseteq> ?f ` set ?ts" by (auto simp: nth_option_def map_filter_simps split: if_splits)
  moreover have ne: "?A \<noteq> []" using calculation(1) [of "hd ?ts"] True by (metis empty_iff hd_in_set list.set(1))
  ultimately have "Min (set ?A) = Min (?f ` set ?ts)" by (intro Min_subset_eq) auto
  then have "time_distance time tc = Some (Min (?f ` set ?ts))"
    using True ne by (simp add: time_distance_def u64_iter_min_eq Let_def flip: p_def)
  moreover have "(\<lambda>t. abs_diff_i64 (as_i64 (new_temporal t)) (as_i64 time)) ` set ?ts = ?f ` set ?ts"
  proof (rule image_cong [OF refl])
    fix t assume "t \<in> set ?ts"
    then have "t \<noteq> i64_min" using assms by (auto simp: tc_ok_def)
    then show "abs_diff_i64 (as_i64 (new_temporal t)) (as_i64 time) = ?f t" by (simp add: new_temporal_raw)
  qed
  ultimately show ?thesis using True by (simp add: time_distance_slow_def u64_iter_min_eq)
qed

lemma map_filter_cong: "(\<And>x. x \<in> set xs \<Longrightarrow> f x = g x) \<Longrightarrow> List.map_filter f xs = List.map_filter g xs"
  by (induction xs) (auto simp: map_filter_simps split: option.split)

text \<open>C32: the bisection finds the closest time. On the chunks of a valid store, the search for the
  chunks furthest from a time returns the same chunks in the same order as the slow search that
  computes the distance of every time of every chunk.\<close>

theorem furthest_from_agrees:
  assumes "store_inv size_of P V s"
  shows "find_temporal_chunks_furthest_from timeline time s = find_temporal_chunks_furthest_from_slow timeline time s"
proof -
  have phys: "phys_ok s" using assms by (simp add: store_inv_def)
  have "time_distance time tc = time_distance_slow time tc"
    if "c \<in> set (physical_chunks s)" "map_of (ch_timelines c) timeline = Some tc" for c tc
    using that phys_ok_get [OF phys, of "ch_id c" c]
    by (intro time_distance_agrees [of "num_rows c"]) (auto simp: physical_chunks_iff [OF phys] chunk_ok_def dest: map_of_SomeD)
  then show ?thesis
    unfolding find_temporal_chunks_furthest_from_def find_temporal_chunks_furthest_from_slow_def chunks_furthest_by_def
    by (intro arg_cong [where f = "map fst"] arg_cong [where f = "sort_key _"] map_filter_cong refl)
      (auto split: option.split)
qed

end
