(* ===== verification/Query_Cache.thy ===== *)
theory Query_Cache
  imports Store_Query Chunk_Query
begin

text \<open>
  The query caches (\<open>re_query/src/latest_at.rs\<close>, \<open>range.rs\<close>, \<open>latest_all.rs\<close> and \<open>cache.rs\<close>):
  per entity, timeline and component, the answers of latest-at queries by query time and the
  prepared chunks of range queries, and their invalidation by the events of the store. The locks
  around them are left out; the supply of fresh chunk ids and the tracker of the store are threaded
  through, and no result is a panic.
\<close>

section \<open>Cached answers of latest-at queries\<close>

record QueryCacheKey =
  qk_entity_path :: "rstr list"
  qk_timeline_name :: TimelineName
  qk_component :: ComponentIdentifier

record 'a LatestAtCachedChunk =
  lc_unit :: "'a UnitChunk"
  lc_is_reference :: bool

record 'a LatestAtCache =
  lac_cache_key :: QueryCacheKey
  lac_per_query_time :: "(TimeInt, 'a LatestAtCachedChunk) omap"
  lac_pending_invalidations :: "TimeInt list"

definition latest_at_cache_new :: "QueryCacheKey \<Rightarrow> 'a LatestAtCache" where
  "latest_at_cache_new key = \<lparr>lac_cache_key = key, lac_per_query_time = [], lac_pending_invalidations = []\<rparr>"

definition compare_indices :: "TimeInt \<times> RowId \<Rightarrow> TimeInt \<times> RowId \<Rightarrow> ordering" where
  "compare_indices lhs rhs =
     (if fst lhs = time_STATIC \<and> fst rhs = time_STATIC then lin_cmp (snd lhs) (snd rhs)
      else if fst rhs = time_STATIC then Less
      else if fst lhs = time_STATIC then Greater
      else lin_cmp lhs rhs)"

text \<open>\<open>max_by_key\<close> keeps the last of the greatest elements.\<close>

definition max_by_index :: "('i :: linorder \<times> 'b) list \<Rightarrow> ('i \<times> 'b) option" where
  "max_by_index xs =
     (case xs of [] \<Rightarrow> None | x # xs \<Rightarrow> Some (fold (\<lambda>y m. if fst m \<le> fst y then y else m) xs x))"

text \<open>The answers of the single chunks, with their indices.\<close>

fun latest_units ::
  "keeps_bitmap \<Rightarrow> (nat \<Rightarrow> ChunkId) \<Rightarrow> LatestAtQuery \<Rightarrow> ComponentIdentifier \<Rightarrow> nat \<Rightarrow> 'a Chunk list \<Rightarrow>
     (nat \<times> ((TimeInt \<times> RowId) \<times> 'a UnitChunk) list) option" where
  "latest_units kb ids query component n [] = Some (n, [])"
| "latest_units kb ids query component n (chunk # chunks) =
     (case chunk_latest_at kb (ids n) query component chunk of
        None \<Rightarrow> None
      | Some None \<Rightarrow> latest_units kb ids query component n chunks
      | Some (Some unit) \<Rightarrow>
          map_option (\<lambda>(n, units).
              (n, (case unit_index (la_timeline query) unit of None \<Rightarrow> [] | Some index \<Rightarrow> [(index, unit)]) @ units))
            (latest_units kb ids query component (n + 1) chunks))"

text \<open>\<open>entry(t).or_insert(v)\<close>\<close>

definition or_insert :: "'k :: linorder \<Rightarrow> 'v \<Rightarrow> ('k, 'v) omap \<Rightarrow> ('k, 'v) omap \<times> 'v" where
  "or_insert t v m = (case om_get lin_cmp m t of None \<Rightarrow> (om_insert lin_cmp t v m, v) | Some v' \<Rightarrow> (m, v'))"

definition cache_unit :: "TimeInt \<Rightarrow> TimeInt \<Rightarrow> 'a UnitChunk \<Rightarrow> 'a LatestAtCache \<Rightarrow> 'a UnitChunk \<times> 'a LatestAtCache" where
  "cache_unit at data_time unit cache =
     (let (m, cached) = or_insert data_time \<lparr>lc_unit = unit, lc_is_reference = False\<rparr> (lac_per_query_time cache);
          m = (if at \<noteq> data_time \<and> \<not> is_static data_time
               then fst (or_insert at \<lparr>lc_unit = lc_unit cached, lc_is_reference = True\<rparr> m) else m)
      in (lc_unit cached, cache\<lparr>lac_per_query_time := m\<rparr>))"

definition report_used :: "ChunkId \<Rightarrow> QueriedChunkIdTracker \<Rightarrow> QueriedChunkIdTracker" where
  "report_used cid tracker = tracker\<lparr>used_physical := insert cid (used_physical tracker)\<rparr>"

definition cache_latest_at ::
  "keeps_bitmap \<Rightarrow> (nat \<Rightarrow> ChunkId) \<Rightarrow> 'a ChunkStore \<Rightarrow> LatestAtQuery \<Rightarrow> rstr list \<Rightarrow> ComponentIdentifier \<Rightarrow>
     nat \<Rightarrow> QueriedChunkIdTracker \<Rightarrow> 'a LatestAtCache \<Rightarrow>
     (('a UnitChunk option \<times> ChunkId list) \<times> nat \<times> QueriedChunkIdTracker \<times> 'a LatestAtCache) option" where
  "cache_latest_at kb ids s query e component n tracker cache =
     (case om_get lin_cmp (lac_per_query_time cache) (la_at query) of
        Some cached \<Rightarrow>
          Some ((Some (lc_unit cached), []), n, report_used (uc_original_chunk_id (lc_unit cached)) tracker, cache)
      | None \<Rightarrow>
          (case latest_at_relevant_chunks Report query e component s tracker of
             None \<Rightarrow> None
           | Some (results, tracker) \<Rightarrow>
               if is_partial results then Some ((None, qr_missing_virtual results), n, tracker, cache)
               else case latest_units kb ids query component n (qr_chunks results) of
                 None \<Rightarrow> None
               | Some (n, units) \<Rightarrow>
                   (case max_by_index units of
                      None \<Rightarrow> Some ((None, []), n, tracker, cache)
                    | Some ((data_time, _), unit) \<Rightarrow>
                        let (unit, cache) = cache_unit (la_at query) data_time unit cache
                        in Some ((Some unit, []), n, tracker, cache))))"

definition latest_at_handle_pending :: "'a LatestAtCache \<Rightarrow> 'a LatestAtCache" where
  "latest_at_handle_pending cache =
     (case lac_pending_invalidations cache of
        [] \<Rightarrow> cache
      | oldest # _ \<Rightarrow>
          let discarded = filter (\<lambda>(t, _). oldest \<le> t) (lac_per_query_time cache)
          in cache\<lparr>lac_per_query_time := filter (\<lambda>(t, _). \<not> oldest \<le> t) (lac_per_query_time cache),
               lac_pending_invalidations := filter (\<lambda>d.
                 \<not> (case om_get lin_cmp discarded d of None \<Rightarrow> True | Some chunk \<Rightarrow> lc_is_reference chunk))
                 (lac_pending_invalidations cache)\<rparr>)"

section \<open>Cached chunks of range queries\<close>

record 'a RangeCachedChunk =
  rc_chunk :: "'a Chunk"
  rc_reallocated :: bool

record 'a RangeCache =
  rac_cache_key :: QueryCacheKey
  rac_chunks :: "(ChunkId \<times> 'a RangeCachedChunk) list"
  rac_pending_invalidations :: "ChunkId list"

definition range_cache_new :: "QueryCacheKey \<Rightarrow> 'a RangeCache" where
  "range_cache_new key = \<lparr>rac_cache_key = key, rac_chunks = [], rac_pending_invalidations = []\<rparr>"

definition with_id :: "ChunkId \<Rightarrow> 'a Chunk \<Rightarrow> 'a Chunk" where
  "with_id cid c = c\<lparr>ch_id := cid\<rparr>"

definition prepare_chunk ::
  "keeps_bitmap \<Rightarrow> ChunkId \<Rightarrow> ChunkId \<Rightarrow> TimelineName \<Rightarrow> ComponentIdentifier \<Rightarrow> 'a Chunk \<Rightarrow> 'a RangeCachedChunk" where
  "prepare_chunk kb id1 id2 timeline component raw_chunk =
     (let (chunk, is_densified) = densified kb id1 component raw_chunk;
          chunk = with_id (ch_id raw_chunk) (sorted_by_timeline_if_unsorted id2 timeline chunk)
      in \<lparr>rc_chunk = chunk, rc_reallocated = is_densified \<or> \<not> is_timeline_sorted timeline raw_chunk\<rparr>)"

definition cache_chunk ::
  "keeps_bitmap \<Rightarrow> (nat \<Rightarrow> ChunkId) \<Rightarrow> TimelineName \<Rightarrow> ComponentIdentifier \<Rightarrow> 'a Chunk \<Rightarrow>
     nat \<times> (ChunkId \<times> 'a RangeCachedChunk) list \<Rightarrow> nat \<times> (ChunkId \<times> 'a RangeCachedChunk) list" where
  "cache_chunk kb ids timeline component raw_chunk = (\<lambda>(n, m).
     case map_of m (ch_id raw_chunk) of
       Some _ \<Rightarrow> (n, m)
     | None \<Rightarrow> (n + 2, im_insert (ch_id raw_chunk) (prepare_chunk kb (ids n) (ids (n + 1)) timeline component raw_chunk) m))"

fun range_of_chunks ::
  "keeps_bitmap \<Rightarrow> (nat \<Rightarrow> ChunkId) \<Rightarrow> RangeQuery \<Rightarrow> ComponentIdentifier \<Rightarrow> nat \<Rightarrow> 'a Chunk list \<Rightarrow>
     (nat \<times> 'a Chunk list) option" where
  "range_of_chunks kb ids query component n [] = Some (n, [])"
| "range_of_chunks kb ids query component n (chunk # chunks) =
     (case chunk_range kb (ids n) query component chunk of
        None \<Rightarrow> None
      | Some c \<Rightarrow> map_option (\<lambda>(n, cs). (n, if chunk_is_empty c then cs else with_id (ch_id chunk) c # cs))
          (range_of_chunks kb ids query component (n + 1) chunks))"

definition cache_range ::
  "keeps_bitmap \<Rightarrow> (nat \<Rightarrow> ChunkId) \<Rightarrow> 'a ChunkStore \<Rightarrow> RangeQuery \<Rightarrow> rstr list \<Rightarrow> ComponentIdentifier \<Rightarrow>
     nat \<Rightarrow> QueriedChunkIdTracker \<Rightarrow> 'a RangeCache \<Rightarrow>
     (('a Chunk list \<times> ChunkId list) \<times> nat \<times> QueriedChunkIdTracker \<times> 'a RangeCache) option" where
  "cache_range kb ids s query e component n tracker cache =
     (case range_relevant_chunks Report query e component s tracker of
        None \<Rightarrow> None
      | Some (results, tracker) \<Rightarrow>
          let (n, m) = fold (cache_chunk kb ids (rq_timeline query) component) (qr_chunks results) (n, rac_chunks cache)
          in map_option (\<lambda>(n, chunks).
                ((chunks, qr_missing_virtual results), n, tracker, cache\<lparr>rac_chunks := m\<rparr>))
              (range_of_chunks kb ids query component n
                (List.map_filter (\<lambda>raw_chunk. map_option rc_chunk (map_of m (ch_id raw_chunk))) (qr_chunks results))))"

definition range_handle_pending :: "'a RangeCache \<Rightarrow> 'a RangeCache" where
  "range_handle_pending cache =
     cache\<lparr>rac_chunks := filter (\<lambda>(cid, _). cid \<notin> set (rac_pending_invalidations cache)) (rac_chunks cache),
       rac_pending_invalidations := []\<rparr>"

section \<open>The cache of a store\<close>

record 'a QueryCache =
  might_require_clearing :: "rstr list set"
  latest_at_per_cache_key :: "QueryCacheKey \<rightharpoonup> 'a LatestAtCache"
  range_per_cache_key :: "QueryCacheKey \<rightharpoonup> 'a RangeCache"

definition query_cache_new :: "'a QueryCache" where
  "query_cache_new = \<lparr>might_require_clearing = {}, latest_at_per_cache_key = Map.empty, range_per_cache_key = Map.empty\<rparr>"

definition query_cache_clear :: "'a QueryCache \<Rightarrow> 'a QueryCache" where
  "query_cache_clear qc = query_cache_new"

text \<open>What a query carries along: the supply of ids, the tracker of the store and the cache.\<close>

type_synonym 'a query_state = "nat \<times> QueriedChunkIdTracker \<times> 'a QueryCache"

definition keyed_latest_at ::
  "keeps_bitmap \<Rightarrow> (nat \<Rightarrow> ChunkId) \<Rightarrow> 'a ChunkStore \<Rightarrow> LatestAtQuery \<Rightarrow> rstr list \<Rightarrow> ComponentIdentifier \<Rightarrow>
     'a query_state \<Rightarrow> (('a UnitChunk option \<times> ChunkId list) \<times> 'a query_state) option" where
  "keyed_latest_at kb ids s query e component = (\<lambda>(n, tracker, qc).
     let key = \<lparr>qk_entity_path = e, qk_timeline_name = la_timeline query, qk_component = component\<rparr>;
         cache = (case latest_at_per_cache_key qc key of None \<Rightarrow> latest_at_cache_new key | Some cache \<Rightarrow> cache)
     in map_option (\<lambda>(r, n, tracker, cache).
            (r, n, tracker, qc\<lparr>latest_at_per_cache_key := (latest_at_per_cache_key qc)(key \<mapsto> cache)\<rparr>))
          (cache_latest_at kb ids s query e component n tracker (latest_at_handle_pending cache)))"

definition keyed_range ::
  "keeps_bitmap \<Rightarrow> (nat \<Rightarrow> ChunkId) \<Rightarrow> 'a ChunkStore \<Rightarrow> RangeQuery \<Rightarrow> rstr list \<Rightarrow> ComponentIdentifier \<Rightarrow>
     'a query_state \<Rightarrow> (('a Chunk list \<times> ChunkId list) \<times> 'a query_state) option" where
  "keyed_range kb ids s query e component = (\<lambda>(n, tracker, qc).
     let key = \<lparr>qk_entity_path = e, qk_timeline_name = rq_timeline query, qk_component = component\<rparr>;
         cache = (case range_per_cache_key qc key of None \<Rightarrow> range_cache_new key | Some cache \<Rightarrow> cache)
     in map_option (\<lambda>(r, n, tracker, cache).
            (r, n, tracker, qc\<lparr>range_per_cache_key := (range_per_cache_key qc)(key \<mapsto> cache)\<rparr>))
          (cache_range kb ids s query e component n tracker (range_handle_pending cache)))"

section \<open>Latest-at queries\<close>

record 'a LatestAtResults =
  lr_entity_path :: "rstr list"
  lr_query :: LatestAtQuery
  lr_missing_virtual :: "ChunkId list"
  lr_min_index :: "TimeInt \<times> RowId"
  lr_max_index :: "TimeInt \<times> RowId"
  lr_components :: "(ComponentIdentifier \<times> 'a UnitChunk) list"

definition latest_at_results_empty :: "rstr list \<Rightarrow> LatestAtQuery \<Rightarrow> 'a LatestAtResults" where
  "latest_at_results_empty e query = \<lparr>lr_entity_path = e, lr_query = query, lr_missing_virtual = [],
     lr_min_index = (time_MAX, tuid_MAX), lr_max_index = (time_STATIC, tuid_ZERO), lr_components = []\<rparr>"

definition latest_at_is_partial :: "'a LatestAtResults \<Rightarrow> bool" where
  "latest_at_is_partial results \<longleftrightarrow> lr_missing_virtual results \<noteq> []"

definition latest_at_is_empty :: "'a LatestAtResults \<Rightarrow> bool" where
  "latest_at_is_empty results \<longleftrightarrow> lr_missing_virtual results = []
     \<and> list_all (\<lambda>(_, unit). chunk_is_empty (uc_chunk unit)) (lr_components results)"

datatype QueryError = PrimaryNotFound ComponentIdentifier

definition latest_at_get_required :: "ComponentIdentifier \<Rightarrow> 'a LatestAtResults \<Rightarrow> QueryError + 'a UnitChunk" where
  "latest_at_get_required component results =
     (case map_of (lr_components results) component of
        None \<Rightarrow> Inl (PrimaryNotFound component) | Some unit \<Rightarrow> Inr unit)"

definition widen_index :: "TimeInt \<times> RowId \<Rightarrow> 'a LatestAtResults \<Rightarrow> 'a LatestAtResults" where
  "widen_index index results = results\<lparr>lr_min_index := min (lr_min_index results) index,
     lr_max_index := max (lr_max_index results) index\<rparr>"

definition latest_at_add ::
  "ComponentIdentifier \<Rightarrow> TimeInt \<times> RowId \<Rightarrow> 'a UnitChunk \<Rightarrow> 'a LatestAtResults \<Rightarrow> 'a LatestAtResults" where
  "latest_at_add component index unit results =
     (widen_index index results)\<lparr>lr_components := im_insert component unit (lr_components results)\<rparr>"

text \<open>The walk over the entity and its ancestors that looks for the most recent \<open>Clear\<close>. The
  component of \<open>Clear\<close> and the value of its flag belong to generated types and are parameters.\<close>

definition entity_parent :: "rstr list \<Rightarrow> rstr list option" where
  "entity_parent e = (if e = [] then None else Some (butlast e))"

definition self_and_ancestors :: "rstr list \<Rightarrow> rstr list list" where
  "self_and_ancestors e = map (\<lambda>k. take k e) (rev [0..<Suc (length e)])"

definition clear_step ::
  "keeps_bitmap \<Rightarrow> (nat \<Rightarrow> ChunkId) \<Rightarrow> ComponentIdentifier \<Rightarrow> ('a UnitChunk \<Rightarrow> bool) \<Rightarrow> 'a ChunkStore \<Rightarrow> LatestAtQuery \<Rightarrow>
     rstr list \<Rightarrow> rstr list \<Rightarrow> (TimeInt \<times> RowId) \<times> ChunkId list \<times> 'a query_state \<Rightarrow>
     ((TimeInt \<times> RowId) \<times> ChunkId list \<times> 'a query_state) option" where
  "clear_step kb ids clear recursive s query e clear_entity_path = (\<lambda>(max_clear_index, missing, qs).
     if clear_entity_path \<notin> might_require_clearing (snd (snd qs)) then Some (max_clear_index, missing, qs)
     else map_option (\<lambda>((cached, missing'), qs).
         (case cached of
            Some unit \<Rightarrow>
              (case unit_index (la_timeline query) unit of
                 Some index \<Rightarrow>
                   if (clear_entity_path = e \<or> recursive unit) \<and> compare_indices index max_clear_index = Greater
                   then (index, missing, qs) else (max_clear_index, missing, qs)
               | None \<Rightarrow> (max_clear_index, missing, qs))
          | None \<Rightarrow>
              if missing' \<noteq> [] then ((time_MAX, tuid_MAX), missing @ missing', qs)
              else (max_clear_index, missing, qs)))
       (keyed_latest_at kb ids s query clear_entity_path clear qs))"

definition component_step ::
  "keeps_bitmap \<Rightarrow> (nat \<Rightarrow> ChunkId) \<Rightarrow> ComponentIdentifier \<Rightarrow> 'a ChunkStore \<Rightarrow> LatestAtQuery \<Rightarrow> rstr list \<Rightarrow>
     TimeInt \<times> RowId \<Rightarrow> ComponentIdentifier \<Rightarrow> 'a LatestAtResults \<times> 'a query_state \<Rightarrow>
     ('a LatestAtResults \<times> 'a query_state) option" where
  "component_step kb ids clear s query e max_clear_index component = (\<lambda>(results, qs).
     map_option (\<lambda>((cached, missing), qs).
         let results = results\<lparr>lr_missing_virtual := lr_missing_virtual results @ missing\<rparr>
         in (case Option.bind cached (\<lambda>unit. map_option (\<lambda>index. (index, unit)) (unit_index (la_timeline query) unit)) of
               Some (index, unit) \<Rightarrow>
                 if component = clear \<or> compare_indices index max_clear_index = Greater
                 then (latest_at_add component index unit results, qs) else (results, qs)
             | None \<Rightarrow> (results, qs)))
       (keyed_latest_at kb ids s query e component qs))"

fun fold_option :: "('x \<Rightarrow> 's \<Rightarrow> 's option) \<Rightarrow> 'x list \<Rightarrow> 's \<Rightarrow> 's option" where
  "fold_option f [] s = Some s"
| "fold_option f (x # xs) s = Option.bind (f x s) (fold_option f xs)"

definition query_latest_at ::
  "keeps_bitmap \<Rightarrow> (nat \<Rightarrow> ChunkId) \<Rightarrow> ComponentIdentifier \<Rightarrow> ('a UnitChunk \<Rightarrow> bool) \<Rightarrow> 'a ChunkStore \<Rightarrow> LatestAtQuery \<Rightarrow>
     rstr list \<Rightarrow> ComponentIdentifier list \<Rightarrow> 'a query_state \<Rightarrow> ('a LatestAtResults \<times> 'a query_state) option" where
  "query_latest_at kb ids clear recursive s query e components qs =
     (let components = filter (\<lambda>k. entity_has_component_on_timeline (la_timeline query) e k s) components
      in Option.bind
           (fold_option (clear_step kb ids clear recursive s query e) (self_and_ancestors e)
             ((time_MIN, tuid_ZERO), [], qs))
           (\<lambda>(max_clear_index, missing, qs).
             fold_option (component_step kb ids clear s query e max_clear_index) components
               ((latest_at_results_empty e query)\<lparr>lr_missing_virtual := missing\<rparr>, qs)))"

section \<open>Range queries\<close>

record 'a RangeResults =
  rr_query :: RangeQuery
  rr_missing_virtual :: "ChunkId list"
  rr_components :: "(ComponentIdentifier \<times> 'a Chunk list) list"

definition range_results_new :: "RangeQuery \<Rightarrow> 'a RangeResults" where
  "range_results_new query = \<lparr>rr_query = query, rr_missing_virtual = [], rr_components = []\<rparr>"

definition range_is_partial :: "'a RangeResults \<Rightarrow> bool" where
  "range_is_partial results \<longleftrightarrow> rr_missing_virtual results \<noteq> []"

definition range_results_is_empty :: "'a RangeResults \<Rightarrow> bool" where
  "range_results_is_empty results \<longleftrightarrow> rr_missing_virtual results = []
     \<and> list_all (\<lambda>(_, chunks). chunks = []) (rr_components results)"

definition range_get_required :: "ComponentIdentifier \<Rightarrow> 'a RangeResults \<Rightarrow> QueryError + 'a Chunk list" where
  "range_get_required component results =
     (case map_of (rr_components results) component of
        None \<Rightarrow> Inl (PrimaryNotFound component) | Some chunks \<Rightarrow> Inr chunks)"

definition range_step ::
  "keeps_bitmap \<Rightarrow> (nat \<Rightarrow> ChunkId) \<Rightarrow> 'a ChunkStore \<Rightarrow> RangeQuery \<Rightarrow> rstr list \<Rightarrow> ComponentIdentifier \<Rightarrow>
     'a RangeResults \<times> 'a query_state \<Rightarrow> ('a RangeResults \<times> 'a query_state) option" where
  "range_step kb ids s query e component = (\<lambda>(results, qs).
     map_option (\<lambda>((cached, missing), qs).
         let results = results\<lparr>rr_missing_virtual := rr_missing_virtual results @ missing\<rparr>
         in (if cached = [] then results
             else results\<lparr>rr_components := im_insert component cached (rr_components results)\<rparr>, qs))
       (keyed_range kb ids s query e component qs))"

definition query_range ::
  "keeps_bitmap \<Rightarrow> (nat \<Rightarrow> ChunkId) \<Rightarrow> 'a ChunkStore \<Rightarrow> RangeQuery \<Rightarrow> rstr list \<Rightarrow> ComponentIdentifier list \<Rightarrow>
     'a query_state \<Rightarrow> ('a RangeResults \<times> 'a query_state) option" where
  "query_range kb ids s query e components qs =
     fold_option (range_step kb ids s query e)
       (filter (\<lambda>k. entity_has_component_on_timeline (rq_timeline query) e k s) components)
       (range_results_new query, qs)"

section \<open>All rows at the latest time\<close>

record 'a LatestAllComponentResults =
  lac_time :: TimeInt
  lac_chunks :: "'a Chunk list"

record 'a LatestAllResults =
  la_entity_path :: "rstr list"
  la_query :: LatestAtQuery
  la_missing_virtual :: "ChunkId list"
  la_components :: "(ComponentIdentifier \<times> 'a LatestAllComponentResults) list"

definition component_num_rows :: "'a LatestAllComponentResults \<Rightarrow> nat" where
  "component_num_rows r = sum_list (map num_rows (lac_chunks r))"

definition num_rows_total :: "'a LatestAllResults \<Rightarrow> nat" where
  "num_rows_total results = sum_list (map (\<lambda>(_, r). component_num_rows r) (la_components results))"

text \<open>The row with the highest row id, by the loop of \<open>latest_row\<close>; the position is that of the
  chunk and of the row in it.\<close>

definition latest_row_step ::
  "'a Chunk \<times> nat \<times> RowId \<Rightarrow> ('a Chunk \<times> nat \<times> RowId) option \<Rightarrow> ('a Chunk \<times> nat \<times> RowId) option" where
  "latest_row_step = (\<lambda>(chunk, i, row_id) best.
     case best of
       Some (_, _, best_row_id) \<Rightarrow> if row_id \<le> best_row_id then best else Some (chunk, i, row_id)
     | None \<Rightarrow> Some (chunk, i, row_id))"

definition latest_row_index :: "'a LatestAllComponentResults \<Rightarrow> ('a Chunk \<times> nat \<times> RowId) option" where
  "latest_row_index r =
     fold latest_row_step
       (concat (map (\<lambda>chunk. map (\<lambda>(i, row_id). (chunk, i, row_id)) (enumerate 0 (ch_row_ids chunk))) (lac_chunks r)))
       None"

definition latest_row :: "keeps_bitmap \<Rightarrow> ChunkId \<Rightarrow> 'a LatestAllComponentResults \<Rightarrow> 'a UnitChunk option" where
  "latest_row kb new_id r =
     Option.bind (latest_row_index r) (\<lambda>(chunk, i, _). row_sliced_unit kb new_id i chunk)"

definition try_as_unit :: "keeps_bitmap \<Rightarrow> ChunkId \<Rightarrow> 'a LatestAllComponentResults \<Rightarrow> 'a UnitChunk option" where
  "try_as_unit kb new_id r = (if component_num_rows r = 1 then latest_row kb new_id r else None)"

definition unit_row_id :: "'a UnitChunk \<Rightarrow> RowId option" where
  "unit_row_id unit = (case ch_row_ids (uc_chunk unit) of [] \<Rightarrow> None | r # _ \<Rightarrow> Some r)"

text \<open>Units in the order of their row ids; no result is the panic of a slice that is not a unit.\<close>

definition iter_units :: "keeps_bitmap \<Rightarrow> ChunkId \<Rightarrow> 'a LatestAllComponentResults \<Rightarrow> 'a UnitChunk option list" where
  "iter_units kb new_id r =
     map (\<lambda>(chunk, i, _). row_sliced_unit kb new_id i chunk)
       (sort_key (\<lambda>(_, _, row_id). row_id)
         (concat (map (\<lambda>chunk. map (\<lambda>(i, row_id). (chunk, i, row_id)) (enumerate 0 (ch_row_ids chunk))) (lac_chunks r))))"

definition empty_like :: "'a LatestAllResults \<Rightarrow> 'a LatestAtResults" where
  "empty_like results =
     (latest_at_results_empty (la_entity_path results) (la_query results))\<lparr>lr_missing_virtual := la_missing_virtual results\<rparr>"

definition try_as_latest_at :: "'a LatestAllResults \<Rightarrow> 'a LatestAtResults option" where
  "try_as_latest_at results =
     fold_option (\<lambda>(component, r) acc.
         if component_num_rows r \<noteq> 1 then None
         else case lac_chunks r of
           [] \<Rightarrow> None
         | chunk # _ \<Rightarrow> Option.bind (into_unit chunk) (\<lambda>unit.
             map_option (\<lambda>index. latest_at_add component index unit acc)
               (unit_index (la_timeline (la_query results)) unit)))
       (la_components results) (empty_like results)"

definition into_latest_at :: "keeps_bitmap \<Rightarrow> ChunkId \<Rightarrow> 'a LatestAllResults \<Rightarrow> 'a LatestAtResults" where
  "into_latest_at kb new_id results =
     fold (\<lambda>(component, r) acc.
         case Option.bind (latest_row kb new_id r) (\<lambda>unit. map_option (\<lambda>row_id. (row_id, unit)) (unit_row_id unit)) of
           None \<Rightarrow> acc
         | Some (row_id, unit) \<Rightarrow> latest_at_add component (lac_time r, row_id) unit acc)
       (la_components results) (empty_like results)"

definition latest_all_step ::
  "keeps_bitmap \<Rightarrow> (nat \<Rightarrow> ChunkId) \<Rightarrow> 'a ChunkStore \<Rightarrow> LatestAtQuery \<Rightarrow> rstr list \<Rightarrow>
     ComponentIdentifier \<times> 'a UnitChunk \<Rightarrow> 'a LatestAllResults \<times> 'a query_state \<Rightarrow>
     ('a LatestAllResults \<times> 'a query_state) option" where
  "latest_all_step kb ids s query e = (\<lambda>(component, unit) (results, qs).
     case unit_index (la_timeline query) unit of
       None \<Rightarrow> Some (results, qs)
     | Some (time, _) \<Rightarrow>
         if is_static time then
           Some (results\<lparr>la_components := im_insert component \<lparr>lac_time = time, lac_chunks = [uc_chunk unit]\<rparr>
             (la_components results)\<rparr>, qs)
         else map_option (\<lambda>(r, qs).
             let results = results\<lparr>la_missing_virtual := la_missing_virtual results @ rr_missing_virtual r\<rparr>
             in (case map_of (rr_components r) component of
                   None \<Rightarrow> results
                 | Some chunks \<Rightarrow> results\<lparr>la_components := im_insert component \<lparr>lac_time = time, lac_chunks = chunks\<rparr>
                     (la_components results)\<rparr>, qs))
           (query_range kb ids s (range_query_new (la_timeline query) (range_new (Some time) (Some time))) e [component] qs))"

definition query_latest_all ::
  "keeps_bitmap \<Rightarrow> (nat \<Rightarrow> ChunkId) \<Rightarrow> ComponentIdentifier \<Rightarrow> ('a UnitChunk \<Rightarrow> bool) \<Rightarrow> 'a ChunkStore \<Rightarrow> LatestAtQuery \<Rightarrow>
     rstr list \<Rightarrow> ComponentIdentifier list \<Rightarrow> 'a query_state \<Rightarrow> ('a LatestAllResults \<times> 'a query_state) option" where
  "query_latest_all kb ids clear recursive s query e components qs =
     Option.bind (query_latest_at kb ids clear recursive s query e components qs) (\<lambda>(r, qs).
       map_option (\<lambda>(results, qs).
           (results\<lparr>la_missing_virtual := fold bs_insert (la_missing_virtual results) []\<rparr>, qs))
         (fold_option (latest_all_step kb ids s query e) (lr_components r)
           (\<lparr>la_entity_path = e, la_query = query, la_missing_virtual = lr_missing_virtual r, la_components = []\<rparr>, qs)))"

section \<open>Invalidation\<close>

text \<open>What a batch of events amounts to.\<close>

record CompactedEvents =
  ce_static :: "((rstr list \<times> ComponentIdentifier) \<times> ChunkId list) list"
  ce_temporal_latest_at :: "(QueryCacheKey \<times> TimeInt) list"
  ce_temporal_range :: "(QueryCacheKey \<times> ChunkId list) list"

definition compacted_events_new :: CompactedEvents where
  "compacted_events_new = \<lparr>ce_static = [], ce_temporal_latest_at = [], ce_temporal_range = []\<rparr>"

definition touch_static :: "rstr list \<Rightarrow> ComponentIdentifier \<Rightarrow> ChunkId list \<Rightarrow> CompactedEvents \<Rightarrow> CompactedEvents" where
  "touch_static e component cids ce =
     ce\<lparr>ce_static := im_entry (e, component) [] (fold bs_insert cids) (ce_static ce)\<rparr>"

definition touch_latest_at :: "QueryCacheKey \<Rightarrow> TimeInt \<Rightarrow> CompactedEvents \<Rightarrow> CompactedEvents" where
  "touch_latest_at key data_time_min ce =
     ce\<lparr>ce_temporal_latest_at := im_entry key data_time_min (min data_time_min) (ce_temporal_latest_at ce)\<rparr>"

definition touch_range :: "QueryCacheKey \<Rightarrow> ChunkId list \<Rightarrow> CompactedEvents \<Rightarrow> CompactedEvents" where
  "touch_range key cids ce =
     ce\<lparr>ce_temporal_range := im_entry key [] (fold bs_insert cids) (ce_temporal_range ce)\<rparr>"

text \<open>The keys of a chunk, with the time range of the component of each.\<close>

definition chunk_keys :: "'a Chunk \<Rightarrow> (QueryCacheKey \<times> AbsoluteTimeRange) list" where
  "chunk_keys chunk = concat (map (\<lambda>(timeline, per_component).
     map (\<lambda>(component, time_range).
         (\<lparr>qk_entity_path = ch_entity_path chunk, qk_timeline_name = timeline, qk_component = component\<rparr>, time_range))
       per_component)
     (time_range_per_component chunk))"

definition compacted_ids :: "'a ChunkDirectLineageReport \<Rightarrow> ChunkId list" where
  "compacted_ids lineage = (case lineage of CompactedFromReport chunks \<Rightarrow> map fst chunks | _ \<Rightarrow> [])"

definition compact_virtual :: "RrdManifest \<Rightarrow> CompactedEvents \<Rightarrow> CompactedEvents" where
  "compact_virtual manifest ce =
     fold (\<lambda>(e, per_timeline). fold (\<lambda>(timeline, per_component). fold (\<lambda>(component, per_chunk).
         fold (\<lambda>(cid, entry).
           let key = \<lparr>qk_entity_path = e, qk_timeline_name = tl_name timeline, qk_component = component\<rparr>
           in touch_range key [cid] \<circ> touch_latest_at key (range_min (me_time_range entry))) per_chunk)
       per_component) per_timeline)
     (temporal_map manifest)
     (fold (\<lambda>(e, per_component). fold (\<lambda>(component, cid). touch_static e component [cid]) per_component)
       (static_map manifest) ce)"

definition compact_addition :: "'a ChunkStoreDiffAddition \<Rightarrow> CompactedEvents \<Rightarrow> CompactedEvents" where
  "compact_addition add ce =
     (let after = chunk_after_processing add;
          ids = ch_id after # compacted_ids (add_direct_lineage add);
          ce = (if chunk_is_static (chunk_before_processing add) then
                  fold (\<lambda>(component, _). touch_static (ch_entity_path after) component ids) (ch_components after) ce
                else ce);
          chunk = (case add_direct_lineage add of CompactedFromReport _ \<Rightarrow> after | _ \<Rightarrow> addition_delta_chunk add);
          ce = fold (\<lambda>(key, time_range). touch_latest_at key (range_min time_range)) (chunk_keys chunk) ce
      in fold (\<lambda>(key, _). touch_range key ids) (chunk_keys after) ce)"

definition compact_deletion :: "'a Chunk \<Rightarrow> CompactedEvents \<Rightarrow> CompactedEvents" where
  "compact_deletion chunk ce =
     (let ce = (if chunk_is_static chunk then
                  fold (\<lambda>(component, _). touch_static (ch_entity_path chunk) component [ch_id chunk]) (ch_components chunk) ce
                else ce)
      in fold (\<lambda>(key, time_range). touch_range key [ch_id chunk] \<circ> touch_latest_at key (range_min time_range))
           (chunk_keys chunk) ce)"

definition compact_diff :: "'a ChunkStoreDiff \<Rightarrow> CompactedEvents \<Rightarrow> CompactedEvents" where
  "compact_diff diff = (case diff of
     VirtualAddition manifest \<Rightarrow> compact_virtual manifest
   | Addition add \<Rightarrow> compact_addition add
   | Deletion chunk _ \<Rightarrow> compact_deletion chunk)"

definition invalidate_latest_at :: "CompactedEvents \<Rightarrow> 'a LatestAtCache \<Rightarrow> QueryCacheKey \<Rightarrow> 'a LatestAtCache" where
  "invalidate_latest_at ce cache key =
     cache\<lparr>lac_pending_invalidations :=
       (case map_of (ce_temporal_latest_at ce) key of None \<Rightarrow> (\<lambda>p. p) | Some t \<Rightarrow> bs_insert t)
       ((if map_of (ce_static ce) (qk_entity_path key, qk_component key) \<noteq> None
         then bs_insert time_STATIC else (\<lambda>p. p))
       (lac_pending_invalidations cache))\<rparr>"

definition invalidate_range :: "CompactedEvents \<Rightarrow> 'a RangeCache \<Rightarrow> QueryCacheKey \<Rightarrow> 'a RangeCache" where
  "invalidate_range ce cache key =
     cache\<lparr>rac_pending_invalidations :=
       fold bs_insert (case map_of (ce_temporal_range ce) key of None \<Rightarrow> [] | Some cids \<Rightarrow> cids)
       (fold bs_insert (case map_of (ce_static ce) (qk_entity_path key, qk_component key) of None \<Rightarrow> [] | Some cids \<Rightarrow> cids)
         (rac_pending_invalidations cache))\<rparr>"

definition on_events :: "ComponentIdentifier \<Rightarrow> 'a ChunkStoreEvent list \<Rightarrow> 'a QueryCache \<Rightarrow> 'a QueryCache" where
  "on_events clear events qc =
     (let ce = fold (\<lambda>event. compact_diff (ev_diff event)) events compacted_events_new
      in \<lparr>might_require_clearing = might_require_clearing qc
            \<union> set (map (\<lambda>((e, _), _). e) (filter (\<lambda>((_, component), _). component = clear) (ce_static ce)))
            \<union> set (map (\<lambda>(key, _). qk_entity_path key)
                (filter (\<lambda>(key, _). qk_component key = clear) (ce_temporal_latest_at ce))),
          latest_at_per_cache_key = (\<lambda>key. map_option (\<lambda>cache. invalidate_latest_at ce cache key) (latest_at_per_cache_key qc key)),
          range_per_cache_key = (\<lambda>key. map_option (\<lambda>cache. invalidate_range ce cache key) (range_per_cache_key qc key))\<rparr>)"

text \<open>Forgetting the older part of every cache; the split point is a product of floating-point
  numbers, given as a function of the greatest index.\<close>

definition query_cache_gc :: "(nat \<Rightarrow> nat) \<Rightarrow> 'a QueryCache \<Rightarrow> 'a QueryCache" where
  "query_cache_gc split_point qc =
     qc\<lparr>latest_at_per_cache_key := (\<lambda>key. map_option (\<lambda>cache.
        let m = lac_per_query_time cache; k = split_point (length m - 1)
        in if k < length m then cache\<lparr>lac_per_query_time := drop k m\<rparr> else cache)
      (latest_at_per_cache_key qc key))\<rparr>"

end
