(* ===== verification/Store_Latest.thy ===== *)
theory Store_Latest
  imports Query_Cache Store_Inv Chunk_Range
begin

text \<open>
  What latest-at means on a whole store: among all loaded rows of an entity with a cell of the
  component and a time not after the query time, the one with the greatest time, and the greatest
  row id at that time.
\<close>

section \<open>The interval of a component\<close>

lemma map_of_map_filter_keyed:
  assumes "distinct (map fst xs)" "\<And>k v r. f (k, v) = Some r \<Longrightarrow> fst r = k"
  shows "map_of (List.map_filter f xs) k = Option.bind (map_of xs k) (\<lambda>v. map_option snd (f (k, v)))"
  using assms(1)
proof (induction xs)
  case (Cons p xs)
  obtain k' v where p: "p = (k', v)" by (cases p)
  have "map_of xs k' = None" using Cons.prems by (simp add: p map_of_eq_None_iff)
  then show ?case using Cons assms(2) [of k' v]
    by (cases "f (k', v)") (auto simp: p map_filter_simps split: if_splits)
qed (simp add: map_filter_simps)

text \<open>The times of the rows that have a cell.\<close>

definition valid_times :: "'a ListArray \<Rightarrow> i64 list \<Rightarrow> i64 list" where
  "valid_times la ts = map snd (filter (\<lambda>(i, t). la_is_valid la i) (enumerate 0 ts))"

lemma set_valid_times: "set (valid_times la ts) = {ts ! i |i. i < length ts \<and> la_is_valid la i}"
  by (force simp: valid_times_def in_set_enumerate_eq image_iff)

lemma sorted_valid_times:
  assumes "sorted (map sint ts)"
  shows "sorted (map sint (valid_times la ts))"
proof -
  have "map (\<lambda>p. sint (snd p)) (enumerate 0 ts) = map sint ts"
    by (simp add: comp_def flip: map_map [of sint snd, unfolded comp_def])
  then have "sorted (map (\<lambda>p. sint (snd p)) (enumerate 0 ts))" using assms by simp
  then show ?thesis unfolding valid_times_def map_map comp_def by (rule sorted_filter)
qed

lemma valid_times_min:
  assumes "times_sorted ts \<longrightarrow> sorted (map sint ts)" "valid_times la ts \<noteq> []"
  shows "\<exists>m. (if times_sorted ts then (case valid_times la ts of [] \<Rightarrow> None | t # _ \<Rightarrow> Some t) else i64_iter_min (valid_times la ts)) = Some m
    \<and> m \<in> set (valid_times la ts) \<and> (\<forall>t \<in> set (valid_times la ts). sint m \<le> sint t)"
proof (cases "times_sorted ts")
  case True
  then have "sorted (map sint (valid_times la ts))" using assms(1) by (intro sorted_valid_times) simp
  then show ?thesis using True assms(2) by (cases "valid_times la ts") auto
qed (use assms(2) i64_iter_min_Some in simp)

lemma valid_times_max:
  assumes "times_sorted ts \<longrightarrow> sorted (map sint ts)" "valid_times la ts \<noteq> []"
  shows "\<exists>m. (if times_sorted ts then (if valid_times la ts = [] then None else Some (last (valid_times la ts))) else i64_iter_max (valid_times la ts)) = Some m
    \<and> m \<in> set (valid_times la ts) \<and> (\<forall>t \<in> set (valid_times la ts). sint t \<le> sint m)"
proof (cases "times_sorted ts")
  case True
  then have "sorted (map sint (valid_times la ts))" using assms(1) by (intro sorted_valid_times) simp
  then show ?thesis using True assms(2)
    by (cases "valid_times la ts" rule: rev_cases) (auto simp: sorted_append)
qed (use assms(2) i64_iter_max_Some in simp)

lemma component_span_eq:
  assumes "chunk_ok c" "map_of (ch_timelines c) timeline = Some tc" "cc_get_array (ch_components c) k = Some la"
    and "0 < num_rows c"
  shows "span c timeline (Some k) = Some (if la_nulls la \<and> False \<in> set (la_validity la)
    then range_new
      (Some (case if times_sorted (tc_times tc) then (case valid_times la (tc_times tc) of [] \<Rightarrow> None | t # _ \<Rightarrow> Some t)
                  else i64_iter_min (valid_times la (tc_times tc)) of None \<Rightarrow> time_MAX | Some t \<Rightarrow> new_temporal t))
      (Some (case if times_sorted (tc_times tc) then (if valid_times la (tc_times tc) = [] then None else Some (last (valid_times la (tc_times tc))))
                  else i64_iter_max (valid_times la (tc_times tc)) of None \<Rightarrow> time_MIN | Some t \<Rightarrow> new_temporal t))
    else tc_time_range tc)"
proof -
  obtain col where col: "map_of (ch_components c) k = Some col" "la = cc_list_array col"
    using assms(3) by (auto simp: cc_get_array_def)
  have "la_len la = num_rows c" using chunk_ok_array [OF assms(1,3)] by simp
  then have ne: "la_validity la \<noteq> []" using assms(4) by (auto simp: la_len_def la_validity_def)
  have dist: "distinct (map fst (ch_components c))" using assms(1) by (simp add: chunk_ok_def)
  have "map_of (time_range_per_component c) timeline = Some (tc_time_range_per_component tc (ch_components c))"
    using assms(2) by (simp add: time_range_per_component_def map_of_map)
  then have "span c timeline (Some k) = map_of (tc_time_range_per_component tc (ch_components c)) k"
    by (simp add: span_def)
  then show ?thesis using ne col
    unfolding tc_time_range_per_component_def Let_def valid_times_def [symmetric]
    by (subst (asm) map_of_map_filter_keyed [OF dist]) (auto split: if_splits)
qed

lemma as_i64_MAX: "as_i64 time_MAX = i64_max"
  by (simp add: as_i64_def time_MAX_def nm_MAX_def nm_new_unchecked_def nm_get_def i64_max_def i64_min_def)

lemma is_temporal_MAX [simp]: "is_temporal time_MAX"
  by (simp add: is_temporal_def time_MAX_def nm_MAX_def nm_ok_def nm_new_unchecked_def i64_max_def i64_min_def)

lemma temporal_MAX [simp]: "saturated_temporal (Some time_MAX) = time_MAX"
  by (rule saturated_temporal_id) simp

lemma raw_times:
  assumes "tc_ok n tc" "i < n"
  shows "tc_times tc ! i \<noteq> i64_min" "sint (as_i64 (range_min (tc_time_range tc))) \<le> sint (tc_times tc ! i)"
    "sint (tc_times tc ! i) \<le> sint (as_i64 (range_max (tc_time_range tc)))"
proof -
  have "tc_times tc ! i \<in> set (tc_times tc)" using assms by (auto simp: tc_ok_def)
  then show "tc_times tc ! i \<noteq> i64_min" "sint (as_i64 (range_min (tc_time_range tc))) \<le> sint (tc_times tc ! i)"
    "sint (tc_times tc ! i) \<le> sint (as_i64 (range_max (tc_time_range tc)))"
    using assms(1) by (auto simp: tc_ok_def)
qed

lemma as_i64_not_min: "as_i64 t \<noteq> i64_min \<Longrightarrow> new_temporal (as_i64 t) = t \<and> is_temporal t"
  by (cases t) (auto simp: as_i64_def new_temporal_def nm_new_def is_temporal_def nm_ok_def nm_get_def
      split: option.splits)

lemma tc_range_temporal:
  assumes "tc_ok n tc" "0 < n"
  shows "range_ok (tc_time_range tc)"
    "\<exists>i < n. range_min (tc_time_range tc) = new_temporal (tc_times tc ! i)"
proof -
  have ne: "tc_times tc \<noteq> []" using assms by (auto simp: tc_ok_def)
  then have mem: "as_i64 (range_min (tc_time_range tc)) \<in> set (tc_times tc)" "as_i64 (range_max (tc_time_range tc)) \<in> set (tc_times tc)"
    using assms(1) by (auto simp: tc_ok_def)
  then have "as_i64 (range_min (tc_time_range tc)) \<noteq> i64_min" "as_i64 (range_max (tc_time_range tc)) \<noteq> i64_min"
    using assms(1) by (auto simp: tc_ok_def)
  then show "range_ok (tc_time_range tc)"
    using as_i64_not_min by (simp add: range_ok_def)
  have "new_temporal (as_i64 (range_min (tc_time_range tc))) = range_min (tc_time_range tc)"
    using \<open>as_i64 (range_min (tc_time_range tc)) \<noteq> i64_min\<close> as_i64_not_min by blast
  then show "\<exists>i < n. range_min (tc_time_range tc) = new_temporal (tc_times tc ! i)"
    using mem(1) assms(1) by (metis in_set_conv_nth tc_ok_def)
qed

lemma new_temporal_le:
  assumes "is_temporal t" "a \<noteq> i64_min"
  shows "new_temporal a \<le> t \<longleftrightarrow> sint a \<le> sint (as_i64 t)" "t \<le> new_temporal a \<longleftrightarrow> sint (as_i64 t) \<le> sint a"
  using assms by (simp_all add: time_less_eq_iff as_i64_new_temporal)

text \<open>The interval of a component spans its cells, and starts at one of them unless there is none.\<close>

lemma component_span:
  assumes ok: "chunk_ok c" and tc: "map_of (ch_timelines c) timeline = Some tc" and n: "0 < num_rows c"
    and span: "span c timeline (Some k) = Some r"
  shows "(\<exists>j < num_rows c. row_cell c j k \<noteq> None \<and> range_min r = new_temporal (tc_times tc ! j))
      \<or> range_min r = time_MAX \<and> (\<forall>j < num_rows c. row_cell c j k = None)"
    and "\<And>i. i < num_rows c \<Longrightarrow> row_cell c i k \<noteq> None \<Longrightarrow> range_ok r
      \<and> range_min r \<le> new_temporal (tc_times tc ! i) \<and> new_temporal (tc_times tc ! i) \<le> range_max r"
proof -
  let ?ts = "tc_times tc"
  have tcok: "tc_ok (num_rows c) tc" using ok tc by (rule chunk_ok_timeline)
  then have len: "length ?ts = num_rows c" and srt: "times_sorted ?ts \<longrightarrow> sorted (map sint ?ts)"
    by (simp_all add: tc_ok_def times_sorted_iff)
  obtain la where la: "cc_get_array (ch_components c) k = Some la"
  proof (cases "cc_get_array (ch_components c) k")
    case None
    have "map_of (time_range_per_component c) timeline = Some (tc_time_range_per_component tc (ch_components c))"
      using tc by (simp add: time_range_per_component_def map_of_map)
    then have "k \<in> fst ` set (tc_time_range_per_component tc (ch_components c))"
      using span by (force simp: span_def dest: map_of_SomeD)
    then have "k \<in> fst ` set (ch_components c)"
      by (auto simp: tc_time_range_per_component_def Let_def map_filter_def split: if_splits) force+
    then show ?thesis using None by (simp add: cc_get_array_def map_of_eq_None_iff)
  qed blast
  have valid: "la_is_valid la i \<longleftrightarrow> i < num_rows c \<and> row_cell c i k \<noteq> None" for i
    using chunk_ok_array [OF ok la] by (auto simp: la_is_valid_def row_cell_def la)
  have vt: "set (valid_times la ?ts) = {?ts ! i |i. i < num_rows c \<and> row_cell c i k \<noteq> None}"
    by (auto simp: set_valid_times valid len)
  note eq = component_span_eq [OF ok tc la n, unfolded span option.inject]
  show 1: "(\<exists>j < num_rows c. row_cell c j k \<noteq> None \<and> range_min r = new_temporal (?ts ! j))
      \<or> range_min r = time_MAX \<and> (\<forall>j < num_rows c. row_cell c j k = None)"
  proof (cases "la_nulls la \<and> False \<in> set (la_validity la)")
    case False
    have "row_cell c j k \<noteq> None" if "j < num_rows c" for j
    proof -
      have "None \<notin> set (la_cells la)" using False chunk_ok_array [OF ok la] by (auto simp: la_ok_def la_validity_def)
      then show ?thesis using that chunk_ok_array [OF ok la] by (simp add: row_cell_def la la_len_def) (metis nth_mem option.exhaust)
    qed
    moreover have "r = tc_time_range tc" using eq unfolding if_not_P [OF False] .
    ultimately show ?thesis using tc_range_temporal(2) [OF tcok n] by auto
  next
    case True
    show ?thesis
    proof (cases "valid_times la ?ts = []")
      case nil: True
      then have "\<forall>j < num_rows c. row_cell c j k = None" using vt by auto
      then show ?thesis using True eq nil by (simp add: range_new_def i64_iter_min_def temporal_MAX)
    next
      case False
      obtain m where "m \<in> set (valid_times la ?ts)" "range_min r = new_temporal m"
        using valid_times_min [OF srt False] eq True by (auto simp: range_new_def)
      then show ?thesis unfolding vt by auto
    qed
  qed
  show "range_ok r \<and> range_min r \<le> new_temporal (?ts ! i) \<and> new_temporal (?ts ! i) \<le> range_max r"
    if i: "i < num_rows c" "row_cell c i k \<noteq> None" for i
  proof (cases "la_nulls la \<and> False \<in> set (la_validity la)")
    case False
    have r: "r = tc_time_range tc" using eq unfolding if_not_P [OF False] .
    show ?thesis using tc_range_temporal(1) [OF tcok n] raw_times [OF tcok i(1)]
      by (simp add: r range_ok_def new_temporal_le)
  next
    case True
    have mem: "?ts ! i \<in> set (valid_times la ?ts)" using i vt by auto
    then have ne: "valid_times la ?ts \<noteq> []" by auto
    obtain a where a: "a \<in> set (valid_times la ?ts)" "\<forall>t \<in> set (valid_times la ?ts). sint a \<le> sint t" "range_min r = new_temporal a"
      using valid_times_min [OF srt ne] eq True by (auto simp: range_new_def)
    obtain b where b: "b \<in> set (valid_times la ?ts)" "\<forall>t \<in> set (valid_times la ?ts). sint t \<le> sint b" "range_max r = new_temporal b"
      using valid_times_max [OF srt ne] eq True by (auto simp: range_new_def)
    have "t \<noteq> i64_min" if "t \<in> set (valid_times la ?ts)" for t
      using that raw_times(1) [OF tcok] vt by auto
    then have "a \<noteq> i64_min" "b \<noteq> i64_min" "?ts ! i \<noteq> i64_min" using a(1) b(1) mem by blast+
    then show ?thesis using a b mem by (simp add: range_ok_def new_temporal_le as_i64_new_temporal)
  qed
qed

lemma component_span_exists:
  assumes "chunk_ok c" "map_of (ch_timelines c) timeline = Some tc" "i < num_rows c" "row_cell c i k \<noteq> None"
  shows "\<exists>r. span c timeline (Some k) = Some r"
proof -
  obtain la where "cc_get_array (ch_components c) k = Some la" using assms(4) by (auto simp: row_cell_def split: option.splits)
  then show ?thesis using component_span_eq [OF assms(1,2)] assms(3) by fastforce
qed

section \<open>Reaching the chunk of the latest row\<close>

text \<open>What the walk needs of an index: times that are times, intervals no longer than
  \<open>i64::MAX\<close>, and data at every start time that a removal emptied.\<close>

definition times_ok :: "ChunkIdSetPerTime \<Rightarrow> bool" where
  "times_ok idx \<longleftrightarrow> (\<forall>(t, s) \<in> set (per_start_time idx). time_ok t)"

lemma index_latest_at_reaches:
  assumes rep: "index_repr E idx" and times: "times_ok idx" and short: "short_intervals idx"
    and cid: "E cid = Some r" and r: "range_ok r" "range_min r \<le> d" "d \<le> range_max r" "d \<le> at"
    and last: "\<And>t s. (t, s) \<in> set (per_start_time idx) \<Longrightarrow> t \<le> at \<Longrightarrow> (\<forall>(t', _) \<in> set (per_start_time idx). t' \<le> at \<longrightarrow> t' \<le> t) \<Longrightarrow> t \<le> d"
  shows "\<exists>ids. index_latest_at at idx = Some ids \<and> cid \<in> set ids"
proof -
  let ?m = "per_start_time idx"
  have sorted: "om_sorted lin_cmp ?m" using rep by (simp add: index_repr_def per_time_ok_def)
  obtain s where s: "(range_min r, s) \<in> set ?m" "cid \<in> set s"
    using index_repr_starts [OF rep, of "range_min r" cid] cid by auto
  have "range_min r \<le> at" using r(2,4) by (rule order_trans)
  then have "rev (om_upto at ?m) \<noteq> []" using s unfolding om_upto_Nil by auto
  then obtain u us rest where rev: "rev (om_upto at ?m) = (u, us) # rest"
    by (cases "rev (om_upto at ?m)") auto
  note u = om_upto_last [OF sorted rev]
  let ?low = "saturating_sub_i64 (as_i64 u) (clamp_i64 (uint (max_interval_length idx)))"
  let ?P = "\<lambda>(t, _). sint ?low \<le> sint (as_i64 t)"
  have "u \<le> d" using u by (intro last [of u us]) auto
  then have "u \<le> range_max r" using r(3) by (rule order_trans)
  moreover have "time_ok u" using times u by (auto simp: times_ok_def)
  moreover have "range_min r \<le> range_max r" using r(2,3) by (rule order_trans)
  moreover have "range_abs_length r \<le> max_interval_length idx" using rep cid by (auto simp: index_repr_def ran_def)
  ultimately have low: "sint ?low \<le> sint (as_i64 (range_min r))"
    using interval_start_lower [of r u] r(1) short by (simp add: short_intervals_def)
  have "sorted_wrt (\<lambda>a b. fst b < fst a \<and> time_ok (fst a) \<and> time_ok (fst b)) (rev (om_upto at ?m))"
    by (rule sorted_wrt_mono_rel [OF _ om_upto_rev_sorted [OF sorted]])
      (use times in \<open>auto simp: om_upto_def times_ok_def\<close>)
  then have tw: "takeWhile ?P (rev (om_upto at ?m)) = filter ?P (rev (om_upto at ?m))"
    by (rule takeWhile_antitone) (auto dest: less_imp_le simp: time_less_iff)
  have "index_latest_at at idx = Some (concat (map snd (filter ?P (rev (om_upto at ?m)))))"
    by (simp only: index_latest_at_def rev list.case prod.case Let_def tw [unfolded rev])
  moreover have "(range_min r, s) \<in> set (filter ?P (rev (om_upto at ?m)))"
    using s(1) low \<open>range_min r \<le> at\<close> by (auto simp: om_upto_def)
  then have "cid \<in> set (concat (map snd (filter ?P (rev (om_upto at ?m)))))" using s(2) by fastforce
  ultimately show ?thesis by blast
qed

lemma index_latest_at_first:
  assumes "rev (om_upto at (per_start_time idx)) = (u, us) # rest"
  shows "\<exists>ids. index_latest_at at idx = Some ids \<and> set us \<subseteq> set ids"
proof -
  have nonneg: "0 \<le> sint (clamp_i64 (uint n))" for n :: u64
    unfolding sint_clamp_i64 using uint_ge_0 [of n] by linarith
  have clamped: "max (- (2 ^ 63)) (min (2 ^ 63 - 1) (x - y)) \<le> x" if "0 \<le> y" "- (2 ^ 63) \<le> x" for x y :: int
    using that by linarith
  have "sint (saturating_sub_i64 (as_i64 u) (clamp_i64 (uint (max_interval_length idx)))) \<le> sint (as_i64 u)"
    unfolding saturating_sub_i64_def sint_clamp_i64 [of "_ - _"] by (rule clamped [OF nonneg sint_i64_lower])
  then show ?thesis using assms by (auto simp: index_latest_at_def Let_def)
qed

lemma index_latest_at_members:
  assumes "index_repr E idx" "index_latest_at at idx = Some ids" "cid \<in> set ids"
  shows "\<exists>r. E cid = Some r \<and> range_min r \<le> at"
proof -
  have sub: "\<exists>(t, s) \<in> set xs. cid \<in> set s" if "cid \<in> set (concat (map snd (takeWhile P xs)))" for P and xs :: "(TimeInt \<times> ChunkIdSet) list"
    using that by (auto dest!: set_takeWhileD)
  have "\<exists>P. ids = concat (map snd (takeWhile P (rev (om_upto at (per_start_time idx)))))"
    using assms(2) by (auto simp: index_latest_at_def Let_def simp del: takeWhile.simps split: list.splits prod.splits)
  then obtain t s where "(t, s) \<in> set (rev (om_upto at (per_start_time idx)))" "cid \<in> set s"
    using sub assms(3) by blast
  then have "t \<le> at" "\<exists>s. (t, s) \<in> set (per_start_time idx) \<and> cid \<in> set s" by (auto simp: om_upto_def)
  then show ?thesis using index_repr_starts [OF assms(1), of t cid] by auto
qed

section \<open>The answer\<close>

definition visible :: "'a ChunkStore \<Rightarrow> rstr list \<Rightarrow> ComponentIdentifier \<Rightarrow> 'a Chunk \<Rightarrow> bool" where
  "visible s e k c \<longleftrightarrow> physical_chunk s (ch_id c) = Some c
     \<and> (case static_chunk_id s e k of
          Some cid \<Rightarrow> ch_id c = cid
        | None \<Rightarrow> ch_entity_path c = e \<and> \<not> chunk_is_static c)"

definition visible_rows :: "'a ChunkStore \<Rightarrow> rstr list \<Rightarrow> ComponentIdentifier \<Rightarrow> 'a row set" where
  "visible_rows s e k = {chunk_row c i |c i. visible s e k c \<and> i < num_rows c \<and> row_cell c i k \<noteq> None}"

definition row_due :: "bool \<Rightarrow> LatestAtQuery \<Rightarrow> 'a row \<Rightarrow> bool" where
  "row_due static query = (\<lambda>(_, times, _).
     static \<or> (\<exists>t. times (la_timeline query) = Some t \<and> sint t \<le> sint (as_i64 (la_at query))))"

definition row_recency :: "bool \<Rightarrow> TimelineName \<Rightarrow> 'a row \<Rightarrow> int \<times> RowId" where
  "row_recency static timeline = (\<lambda>(row_id, times, _). (if static then 0 else sint (the (times timeline)), row_id))"

definition has_static :: "'a ChunkStore \<Rightarrow> rstr list \<Rightarrow> ComponentIdentifier \<Rightarrow> bool" where
  "has_static s e k \<longleftrightarrow> static_chunk_id s e k \<noteq> None"

definition is_answer :: "'a ChunkStore \<Rightarrow> LatestAtQuery \<Rightarrow> rstr list \<Rightarrow> ComponentIdentifier \<Rightarrow> 'a row \<Rightarrow> bool" where
  "is_answer s query e k row \<longleftrightarrow> row \<in> visible_rows s e k \<and> row_due (has_static s e k) query row
     \<and> (\<forall>row' \<in> visible_rows s e k. row_due (has_static s e k) query row' \<longrightarrow>
          row_recency (has_static s e k) (la_timeline query) row' \<le> row_recency (has_static s e k) (la_timeline query) row)"

text \<open>What the answer relies on, beside the invariant of the store: what is registered as static
  is static, row ids are distinct and not zero, and the index is fit for the walk.\<close>

definition statics_ok :: "'a ChunkStore \<Rightarrow> bool" where
  "statics_ok s \<longleftrightarrow> (\<forall>e k cid c. static_chunk_id s e k = Some cid \<longrightarrow> physical_chunk s cid = Some c \<longrightarrow> chunk_is_static c)"

definition row_ids_ok :: "'a ChunkStore \<Rightarrow> bool" where
  "row_ids_ok s \<longleftrightarrow> (\<forall>cid c. physical_chunk s cid = Some c \<longrightarrow> distinct (ch_row_ids c) \<and> tuid_ZERO \<notin> set (ch_row_ids c))"

definition starts_backed :: "'a ChunkStore \<Rightarrow> rstr list \<Rightarrow> TimelineName \<Rightarrow> ComponentIdentifier \<Rightarrow> TimeInt \<Rightarrow> bool" where
  "starts_backed s e timeline k at \<longleftrightarrow>
     (\<forall>t. (t, []) \<in> set (per_start_time (idx_at s e timeline (Some k))) \<longrightarrow> t \<le> at \<longrightarrow>
       (\<exists>(_, times, _) \<in> visible_rows s e k. \<exists>v. times timeline = Some v \<and> new_temporal v = t))"

definition index_fit :: "'a ChunkStore \<Rightarrow> LatestAtQuery \<Rightarrow> rstr list \<Rightarrow> ComponentIdentifier \<Rightarrow> bool" where
  "index_fit s query e k \<longleftrightarrow>
     times_ok (idx_at s e (la_timeline query) (Some k)) \<and> short_intervals (idx_at s e (la_timeline query) (Some k))
     \<and> starts_backed s e (la_timeline query) k (la_at query)
     \<and> (la_at query = time_MAX \<longrightarrow> (\<forall>c. visible s e k c \<longrightarrow> span c (la_timeline query) (Some k) \<noteq> None \<longrightarrow>
          (\<exists>i < num_rows c. row_cell c i k \<noteq> None)))"

lemma component_index_idx:
  "or_empty (Option.bind (component_index s e timeline k) f) =
     (case component_index s e timeline k of None \<Rightarrow> [] | Some idx \<Rightarrow> or_empty (f idx))"
  "idx_at s e timeline (Some k) = (case component_index s e timeline k of None \<Rightarrow> index_default | Some idx \<Rightarrow> idx)"
proof -
  show "or_empty (Option.bind (component_index s e timeline k) f) =
     (case component_index s e timeline k of None \<Rightarrow> [] | Some idx \<Rightarrow> or_empty (f idx))"
    by (cases "component_index s e timeline k") (simp_all add: or_empty_def)
  show "idx_at s e timeline (Some k) = (case component_index s e timeline k of None \<Rightarrow> index_default | Some idx \<Rightarrow> idx)"
    by (auto simp: component_index_def idx_at_def im_get_def split: option.split)
qed

lemma relevant_ids_temporal:
  assumes "static_chunk_id s e k = None"
  shows "latest_at_relevant_ids s query e k = or_empty (index_latest_at (la_at query) (idx_at s e (la_timeline query) (Some k)))"
proof -
  have "index_latest_at at index_default = None" for at
    by (simp add: index_latest_at_def index_default_def om_upto_def)
  then show ?thesis using assms
    by (auto simp: latest_at_relevant_ids_def component_index_idx or_empty_def split: option.split)
qed

lemma visible_ok:
  assumes "store_inv size_of P V s" "visible s e k c"
  shows "chunk_ok c" "ch_is_sorted c" "0 < num_rows c" "physical_chunk s (ch_id c) = Some c"
  using assms phys_ok_get [of s "ch_id c" c] by (auto simp: visible_def store_inv_def)

lemma visible_static:
  assumes "statics_ok s" "visible s e k c"
  shows "chunk_is_static c \<longleftrightarrow> has_static s e k"
  using assms by (auto simp: visible_def has_static_def statics_ok_def split: option.splits)

lemma candidate_row:
  assumes "statics_ok s" "visible s e k c" "i < num_rows c"
  shows "candidate query k c i \<longleftrightarrow> row_cell c i k \<noteq> None \<and> row_due (has_static s e k) query (chunk_row c i)"
    "recency query c i = row_recency (has_static s e k) (la_timeline query) (chunk_row c i)"
  using visible_static [OF assms(1,2)] assms(3)
  by (simp_all add: candidate_def row_due_def recency_def row_recency_def chunk_row_def)

text \<open>The loaded chunk of an interval in the index.\<close>

lemma loaded_span:
  assumes inv: "store_inv size_of P V s" and c: "physical_chunk s cid = Some c"
    and E: "(V e timeline (Some k) ++ spans_of s e timeline (Some k)) cid = Some r"
  shows "ch_entity_path c = e \<and> ch_id c = cid \<and> (\<exists>tc. map_of (ch_timelines c) timeline = Some tc) \<and> span c timeline (Some k) = Some r"
proof -
  have "V e timeline (Some k) cid = None" using inv c by (simp add: store_inv_def)
  then have "own_span c e timeline (Some k) = Some r" using E c by (simp add: map_add_def spans_of_def split: option.splits)
  moreover have "ch_id c = cid" using inv c by (auto simp: store_inv_def dest: phys_ok_get)
  ultimately show ?thesis
    by (auto simp: own_span_def span_def time_range_per_component_def map_of_map split: if_splits bind_splits)
qed

text \<open>The chunks that a complete walk returns: all can hold the answer, and the chunk of every
  answer is among them.\<close>

definition relevant :: "'a ChunkStore \<Rightarrow> LatestAtQuery \<Rightarrow> rstr list \<Rightarrow> ComponentIdentifier \<Rightarrow> 'a Chunk \<Rightarrow> bool" where
  "relevant s query e k c \<longleftrightarrow> visible s e k c \<and> (chunk_is_static c \<or>
     (\<exists>tc j. map_of (ch_timelines c) (la_timeline query) = Some tc \<and> j < num_rows c
        \<and> (sint (tc_times tc ! j) \<le> sint (as_i64 (la_at query)))))"

lemma relevant_temporal:
  assumes inv: "store_inv size_of P V s" and none: "static_chunk_id s e k = None" and at: "is_temporal (la_at query)"
    and statics: "statics_ok s" and c: "physical_chunk s cid = Some c"
    and E: "(V e (la_timeline query) (Some k) ++ spans_of s e (la_timeline query) (Some k)) cid = Some r" "range_min r \<le> la_at query"
  shows "relevant s query e k c"
proof -
  from loaded_span [OF inv c E(1)] obtain tc where tc: "ch_entity_path c = e" "ch_id c = cid"
    "map_of (ch_timelines c) (la_timeline query) = Some tc" "span c (la_timeline query) (Some k) = Some r" by blast
  have "\<not> chunk_is_static c" using tc(3) by (auto simp: chunk_is_static_def)
  then have v: "visible s e k c" using c tc none by (simp add: visible_def)
  note ok = visible_ok [OF inv v]
  have tcok: "tc_ok (num_rows c) tc" using chunk_ok_timeline [OF ok(1) tc(3)] .
  have "sint (tc_times tc ! j) \<le> sint (as_i64 time_MAX)" for j
    using sint_i64_upper [of "tc_times tc ! j"] by (simp add: as_i64_MAX i64_simps)
  moreover have "sint (as_i64 time_MAX) \<le> sint (as_i64 (la_at query))" if "time_MAX \<le> la_at query"
    using that at by (simp add: time_less_eq_iff)
  ultimately have "\<exists>j < num_rows c. sint (tc_times tc ! j) \<le> sint (as_i64 (la_at query))"
    using component_span(1) [OF ok(1) tc(3) ok(3) tc(4)] E(2) ok(3) at raw_times(1) [OF tcok]
    by (metis new_temporal_le(1) order_trans)
  then show ?thesis using v tc(3) by (auto simp: relevant_def)
qed

lemma answer_span:
  assumes inv: "store_inv size_of P V s" and none: "static_chunk_id s e k = None"
    and v: "visible s e k c" and i: "i < num_rows c" "row_cell c i k \<noteq> None" "row_time c i timeline = Some t"
  shows "t \<noteq> i64_min \<and> (\<exists>r. (V e timeline (Some k) ++ spans_of s e timeline (Some k)) (ch_id c) = Some r \<and> range_ok r
    \<and> range_min r \<le> new_temporal t \<and> new_temporal t \<le> range_max r)"
proof -
  note ok = visible_ok [OF inv v]
  obtain tc where tc: "map_of (ch_timelines c) timeline = Some tc" "t = tc_times tc ! i" using i(3) by (auto simp: row_time_def)
  obtain r where r: "span c timeline (Some k) = Some r" using component_span_exists [OF ok(1) tc(1) i(1,2)] by blast
  have "ch_entity_path c = e" using v none by (simp add: visible_def)
  then have "(V e timeline (Some k) ++ spans_of s e timeline (Some k)) (ch_id c) = Some r"
    using ok(4) r by (simp add: spans_of_def own_span_def)
  then show ?thesis using component_span(2) [OF ok(1) tc(1) ok(3) r i(1,2)] raw_times(1) [OF chunk_ok_timeline [OF ok(1) tc(1)] i(1)]
    unfolding tc(2) by auto
qed

lemma walk_ok:
  assumes inv: "store_inv size_of P V s" and statics: "statics_ok s" and at: "is_temporal (la_at query)"
    and fit: "static_chunk_id s e k = None \<Longrightarrow> index_fit s query e k"
    and loaded: "\<forall>cid \<in> set (latest_at_relevant_ids s query e k). physical_chunk s cid \<noteq> None"
  shows "\<forall>cid \<in> set (latest_at_relevant_ids s query e k). \<exists>c. physical_chunk s cid = Some c \<and> relevant s query e k c"
    and "\<And>c i. visible s e k c \<Longrightarrow> i < num_rows c \<Longrightarrow> row_cell c i k \<noteq> None \<Longrightarrow> is_answer s query e k (chunk_row c i) \<Longrightarrow>
      ch_id c \<in> set (latest_at_relevant_ids s query e k)"
proof -
  let ?ids = "latest_at_relevant_ids s query e k" and ?tl = "la_timeline query" and ?at = "la_at query"
  let ?idx = "idx_at s e ?tl (Some k)"
  define E where "E = V e ?tl (Some k) ++ spans_of s e ?tl (Some k)"
  have rep: "index_repr E ?idx" using inv by (simp add: E_def store_inv_def indexed_def)
  have rel: "relevant s query e k c" if none: "static_chunk_id s e k = None" and "physical_chunk s cid = Some c"
    "E cid = Some r" "range_min r \<le> ?at" for cid c r
    using relevant_temporal [OF inv none at statics that(2) that(3) [unfolded E_def] that(4)] .
  show "\<forall>cid \<in> set ?ids. \<exists>c. physical_chunk s cid = Some c \<and> relevant s query e k c"
  proof (cases "static_chunk_id s e k")
    case (Some cid)
    then obtain c where "physical_chunk s cid = Some c" "?ids = [cid]" using loaded by (auto simp: latest_at_relevant_ids_def)
    moreover from this have "chunk_is_static c" "ch_id c = cid"
      using statics Some inv phys_ok_get [of s cid c] by (auto simp: statics_ok_def store_inv_def)
    ultimately show ?thesis using Some by (simp add: relevant_def visible_def)
  next
    case None
    note ids = relevant_ids_temporal [OF None]
    show ?thesis
    proof
      fix cid assume cid: "cid \<in> set ?ids"
      then obtain xs where "index_latest_at ?at ?idx = Some xs" "cid \<in> set xs"
        by (cases "index_latest_at ?at ?idx") (auto simp: ids or_empty_def)
      from index_latest_at_members [OF rep this] obtain r where r: "E cid = Some r" "range_min r \<le> ?at" by metis
      obtain c where c: "physical_chunk s cid = Some c" using loaded cid by auto
      from rel [OF None c r] c show "\<exists>c. physical_chunk s cid = Some c \<and> relevant s query e k c" by auto
    qed
  qed
  fix c i assume v: "visible s e k c" and i: "i < num_rows c" "row_cell c i k \<noteq> None" and ans: "is_answer s query e k (chunk_row c i)"
  show "ch_id c \<in> set ?ids"
  proof (cases "static_chunk_id s e k")
    case (Some cid)
    then show ?thesis using v by (simp add: visible_def latest_at_relevant_ids_def)
  next
    case None
    note ids = relevant_ids_temporal [OF None] and fit = fit [OF None, unfolded index_fit_def]
    have no_static: "\<not> has_static s e k" by (simp add: has_static_def None)
    from ans obtain t where t: "row_time c i ?tl = Some t" "sint t \<le> sint (as_i64 ?at)"
      by (auto simp: is_answer_def row_due_def chunk_row_def no_static)
    have best: "sint v \<le> sint t"
      if "row \<in> visible_rows s e k" "fst (snd row) ?tl = Some v" "sint v \<le> sint (as_i64 ?at)" for row v
      using ans that t by (cases row) (force simp: is_answer_def row_due_def row_recency_def chunk_row_def no_static less_eq_prod_def)
    from answer_span [OF inv None v i t(1), folded E_def] obtain r where r: "t \<noteq> i64_min" "E (ch_id c) = Some r" "range_ok r"
      "range_min r \<le> new_temporal t" "new_temporal t \<le> range_max r" by metis
    have tat: "new_temporal t \<le> ?at" using at r(1) t(2) by (simp add: new_temporal_le)
    have last: "u \<le> new_temporal t"
      if u: "(u, us) \<in> set (per_start_time ?idx)" "u \<le> ?at" and mx: "\<forall>(t', _) \<in> set (per_start_time ?idx). t' \<le> ?at \<longrightarrow> t' \<le> u" for u us
    proof (cases us)
      case Nil
      then obtain row v where "row \<in> visible_rows s e k" "fst (snd row) ?tl = Some v" "new_temporal v = u"
        using fit u by (fastforce simp: starts_backed_def)
      moreover from this(1,2) have "v \<noteq> i64_min"
        using inv None answer_span [OF inv None] by (fastforce simp: visible_rows_def chunk_row_def)
      ultimately show ?thesis using best [of row v] u(2) at r(1) by (auto simp: new_temporal_le as_i64_new_temporal)
    next
      case (Cons cid us')
      obtain u' us'' rest where rev: "rev (om_upto ?at (per_start_time ?idx)) = (u', us'') # rest"
        using u by (cases "rev (om_upto ?at (per_start_time ?idx))") (auto simp: om_upto_def filter_empty_conv)
      have sorted: "om_sorted lin_cmp (per_start_time ?idx)" using rep by (simp add: index_repr_def per_time_ok_def)
      from om_upto_last [OF sorted rev] u mx have "u' = u" by (auto intro: antisym)
      then have "us'' = us" using om_upto_last [OF sorted rev] u(1) om_sorted_distinct [OF sorted] by (auto dest: eq_key_imp_eq_value)
      then obtain xs where "index_latest_at ?at ?idx = Some xs" "cid \<in> set xs" using index_latest_at_first [OF rev] Cons by auto
      then have "cid \<in> set ?ids" by (simp add: ids or_empty_def)
      then obtain c' where c': "physical_chunk s cid = Some c'" using loaded by blast
      from index_repr_starts [OF rep, of u cid] u(1) Cons obtain r' where r': "E cid = Some r'" "range_min r' = u" by auto
      from loaded_span [OF inv c' r'(1) [unfolded E_def]] obtain tc where tc: "map_of (ch_timelines c') ?tl = Some tc" "span c' ?tl (Some k) = Some r'" by blast
      have v': "visible s e k c'" using rel [OF None c' r'(1)] r'(2) u(2) by (simp add: relevant_def)
      note ok' = visible_ok [OF inv v']
      have start: "u \<le> new_temporal t" if j: "j < num_rows c'" "row_cell c' j k \<noteq> None" "u = new_temporal (tc_times tc ! j)" for j
      proof -
        have "tc_times tc ! j \<noteq> i64_min" using raw_times(1) [OF chunk_ok_timeline [OF ok'(1) tc(1)] j(1)] .
        then show ?thesis
          using best [of "chunk_row c' j" "tc_times tc ! j"] j v' tc(1) u(2) at r(1)
          by (force simp: visible_rows_def chunk_row_def row_time_def new_temporal_le as_i64_new_temporal)
      qed
      from component_span(1) [OF ok'(1) tc(1) ok'(3) tc(2)] r'(2) start show ?thesis
      proof (elim disjE exE conjE)
        assume max: "range_min r' = time_MAX" "\<forall>j < num_rows c'. row_cell c' j k = None"
        then have "?at = time_MAX" using u(2) r'(2) at
          by (metis as_i64_MAX as_i64_new_temporal antisym is_temporal_time_ok new_temporal_as_i64 sint_i64_upper sint_i64_max time_less_eq_iff is_temporal_MAX)
        then show ?thesis using fit v' tc(2) max(2) by auto
      qed blast
    qed
    have "times_ok ?idx" "short_intervals ?idx" using fit by simp_all
    then have "\<exists>xs. index_latest_at ?at ?idx = Some xs \<and> ch_id c \<in> set xs"
      by (rule index_latest_at_reaches [OF rep _ _ r(2,3,4,5) tat]) (rule last)
    then obtain xs where "index_latest_at ?at ?idx = Some xs" "ch_id c \<in> set xs" by auto
    then show ?thesis by (simp add: ids or_empty_def)
  qed
qed

end
