(* ===== verification/Query_Cache_Props.thy ===== *)
theory Query_Cache_Props
  imports Store_Latest
begin

text \<open>
  The cached latest-at query returns the latest row of the whole store, and the events of the store
  keep the caches coherent.
\<close>

section \<open>Single rows\<close>

definition unit_of :: "'a UnitChunk \<Rightarrow> 'a row \<Rightarrow> bool" where
  "unit_of u row \<longleftrightarrow> chunk_ok (uc_chunk u) \<and> chunk_rows (uc_chunk u) = [row]"

definition row_index :: "bool \<Rightarrow> TimelineName \<Rightarrow> 'a row \<Rightarrow> TimeInt \<times> RowId" where
  "row_index static timeline = (\<lambda>(row_id, times, _).
     (if static then time_STATIC else new_temporal (the (times timeline)), row_id))"

lemma row_sliced_unit_ok:
  assumes "chunk_ok c" "i < num_rows c"
  shows "\<exists>u. row_sliced_unit kb new_id i c = Some u \<and> unit_of u (chunk_row c i) \<and> uc_original_chunk_id u = ch_id c"
proof -
  note rows = row_sliced_rows [OF assms(1), of kb new_id i 1]
  have one: "take 1 (drop i (chunk_rows c)) = [chunk_row c i]"
    using assms(2) by (simp add: take_Suc_conv_app_nth drop_eq_Nil flip: Cons_nth_drop_Suc)
  then have "num_rows (row_sliced kb new_id i 1 c) = 1" using rows by (metis length_chunk_rows length_Cons list.size(3) One_nat_def)
  then show ?thesis using rows one
    by (simp add: row_sliced_unit_def into_unit_with_original_chunk_id_def unit_of_def)
qed

lemma unit_of_row:
  assumes "unit_of u row"
  shows "num_rows (uc_chunk u) = 1" "chunk_row (uc_chunk u) 0 = row"
proof -
  show n: "num_rows (uc_chunk u) = 1" using assms by (metis length_chunk_rows unit_of_def length_Cons list.size(3) One_nat_def)
  show "chunk_row (uc_chunk u) 0 = row" using assms chunk_rows_nth [of 0 "uc_chunk u"] n by (simp add: unit_of_def)
qed

lemma static_row: "chunk_is_static c \<longleftrightarrow> (\<forall>name. row_time c i name = None)"
  by (cases "ch_timelines c") (auto simp: chunk_is_static_def row_time_def)

lemma unit_index_row:
  assumes "unit_of u row"
  shows "unit_index timeline u =
    (if \<forall>name. fst (snd row) name = None then Some (row_index True timeline row)
     else if fst (snd row) timeline = None then None else Some (row_index False timeline row))"
proof -
  let ?c = "uc_chunk u"
  note row = unit_of_row [OF assms]
  obtain rid where ids: "ch_row_ids ?c = [rid]" using row(1) by (auto simp: num_rows_def length_Suc_conv)
  have rid: "fst row = rid" "fst (snd row) = row_time ?c 0" using row(2) ids by (auto simp: chunk_row_def)
  have len: "tc_times tc \<noteq> [] \<and> tc_times tc ! 0 = hd (tc_times tc)" if "map_of (ch_timelines ?c) timeline = Some tc" for tc
    using chunk_ok_timeline [OF _ that] assms row(1) by (cases "tc_times tc") (auto simp: unit_of_def tc_ok_def)
  show ?thesis
  proof (cases "chunk_is_static ?c")
    case True
    then show ?thesis using static_row [of ?c 0] ids rid by (auto simp: unit_index_def row_index_def Let_def split: prod.split)
  next
    case False
    then show ?thesis using static_row [of ?c 0] ids rid len
      by (cases "map_of (ch_timelines ?c) timeline")
        (auto simp: unit_index_def row_index_def Let_def row_time_def split: prod.split list.split)
  qed
qed

section \<open>The answers of the chunks\<close>

lemma candidate_latest:
  assumes "candidate query k c j"
  shows "\<exists>i. is_latest query k c i"
proof -
  let ?A = "{i. candidate query k c i}"
  have fin: "finite ?A" by (rule finite_subset [of _ "{..<num_rows c}"]) (auto simp: candidate_def)
  then obtain i where "i \<in> ?A" "recency query c i = Max (recency query c ` ?A)"
    using assms Max_in [of "recency query c ` ?A"] by (metis (mono_tags, lifting) empty_iff finite_imageI image_iff image_is_empty mem_Collect_eq)
  then show ?thesis using fin by (auto simp: is_latest_def)
qed

lemma relevant_latest_at:
  assumes inv: "store_inv size_of P V s" and rids: "row_ids_ok s" and at: "is_temporal (la_at query)" and rel: "relevant s query e k c"
  shows "latest_at_index query k c = Some i \<longleftrightarrow> is_latest query k c i"
proof (rule latest_at_index_iff [OF _ _ _ at])
  have v: "visible s e k c" using rel by (simp add: relevant_def)
  note ok = visible_ok [OF inv v]
  show "chunk_ok c" using ok by simp
  show "distinct (ch_row_ids c)" "tuid_ZERO \<notin> set (ch_row_ids c)" using rids ok(4) by (auto simp: row_ids_ok_def)
  show "is_timeline_sorted (la_timeline query) c \<and> \<not> chunk_is_static c \<longrightarrow> ch_is_sorted c
      \<and> sint (the (row_time c 0 (la_timeline query))) \<le> sint (as_i64 (la_at query))"
  proof
    assume sorted: "is_timeline_sorted (la_timeline query) c \<and> \<not> chunk_is_static c"
    then obtain tc j where tc: "map_of (ch_timelines c) (la_timeline query) = Some tc" "j < num_rows c"
      "sint (tc_times tc ! j) \<le> sint (as_i64 (la_at query))" "tc_is_sorted tc"
      using rel by (auto simp: relevant_def is_timeline_sorted_def)
    have "sorted (map sint (tc_times tc))" "length (tc_times tc) = num_rows c"
      using chunk_ok_timeline [OF ok(1) tc(1)] tc(4) by (auto simp: tc_ok_def times_sorted_iff)
    then have "sint (tc_times tc ! 0) \<le> sint (tc_times tc ! j)" using sorted_nth_mono [of "map sint (tc_times tc)" 0 j] tc(2) by simp
    then show "ch_is_sorted c \<and> sint (the (row_time c 0 (la_timeline query))) \<le> sint (as_i64 (la_at query))"
      using ok(2) tc by (simp add: row_time_def)
  qed
qed

text \<open>The rows that the chunks of a walk answer with.\<close>

definition chunk_answers :: "LatestAtQuery \<Rightarrow> ComponentIdentifier \<Rightarrow> 'a Chunk list \<Rightarrow> 'a row set" where
  "chunk_answers query k chunks = {chunk_row c i |c i. c \<in> set chunks \<and> is_latest query k c i}"

lemma chunk_answers_Cons:
  "chunk_answers query k (c # chunks) = {chunk_row c i |i. is_latest query k c i} \<union> chunk_answers query k chunks"
  by (auto simp: chunk_answers_def)

lemma latest_units_ok:
  assumes inv: "store_inv size_of P V s" and statics: "statics_ok s" and rids: "row_ids_ok s" and at: "is_temporal (la_at query)"
    and rel: "\<forall>c \<in> set chunks. relevant s query e k c"
  shows "\<exists>n' units. latest_units kb ids query k n chunks = Some (n', units)
    \<and> (\<forall>(index, u) \<in> set units. \<exists>row \<in> chunk_answers query k chunks. unit_of u row
         \<and> index = row_index (has_static s e k) (la_timeline query) row)
    \<and> (\<forall>row \<in> chunk_answers query k chunks. \<exists>u. (row_index (has_static s e k) (la_timeline query) row, u) \<in> set units)"
  using rel
proof (induction chunks arbitrary: n)
  case (Cons c chunks)
  then have c: "relevant s query e k c" "visible s e k c" by (simp_all add: relevant_def)
  note ok = visible_ok [OF inv c(2)] and latest = relevant_latest_at [OF inv rids at c(1)]
  show ?case
  proof (cases "latest_at_index query k c")
    case None
    then have "chunk_answers query k (c # chunks) = chunk_answers query k chunks"
      using latest by (auto simp: chunk_answers_Cons)
    then show ?thesis using Cons None by (simp add: chunk_latest_at_def)
  next
    case (Some i)
    have i: "is_latest query k c i" using Some latest by simp
    then have cand: "candidate query k c i" "i < num_rows c" by (auto simp: is_latest_def candidate_def)
    obtain u where u: "row_sliced_unit kb (ids n) i c = Some u" "unit_of u (chunk_row c i)"
      using row_sliced_unit_ok [OF ok(1) cand(2)] by blast
    have only: "{chunk_row c j |j. is_latest query k c j} = {chunk_row c i}"
    proof -
      have "is_latest query k c j \<longleftrightarrow> j = i" for j using latest [of j] Some by auto
      then show ?thesis by simp
    qed
    have static: "chunk_is_static c \<longleftrightarrow> has_static s e k" by (rule visible_static [OF statics c(2)])
    have index: "unit_index (la_timeline query) u = Some (row_index (has_static s e k) (la_timeline query) (chunk_row c i))"
      using static static_row [of c i] cand(1)
      by (auto simp: unit_index_row [OF u(2)] chunk_row_def candidate_def)
    from Cons.IH [of "n + 1"] Cons.prems obtain n' units where IH: "latest_units kb ids query k (n + 1) chunks = Some (n', units)"
      "\<forall>(index, u) \<in> set units. \<exists>row \<in> chunk_answers query k chunks. unit_of u row
         \<and> index = row_index (has_static s e k) (la_timeline query) row"
      "\<forall>row \<in> chunk_answers query k chunks. \<exists>u. (row_index (has_static s e k) (la_timeline query) row, u) \<in> set units" by auto
    have "latest_units kb ids query k n (c # chunks) = Some (n', (row_index (has_static s e k) (la_timeline query) (chunk_row c i), u) # units)"
      using Some u(1) IH(1) index by (simp add: chunk_latest_at_def)
    moreover have "\<forall>(index, u) \<in> set ((row_index (has_static s e k) (la_timeline query) (chunk_row c i), u) # units).
        \<exists>row \<in> chunk_answers query k (c # chunks). unit_of u row \<and> index = row_index (has_static s e k) (la_timeline query) row"
      using IH(2) u(2) by (auto simp: chunk_answers_Cons only)
    moreover have "\<forall>row \<in> chunk_answers query k (c # chunks). \<exists>u'. (row_index (has_static s e k) (la_timeline query) row, u')
        \<in> set ((row_index (has_static s e k) (la_timeline query) (chunk_row c i), u) # units)"
      using IH(3) by (auto simp: chunk_answers_Cons only)
    ultimately show ?thesis by blast
  qed
qed (simp add: chunk_answers_def)

lemma max_by_index_ok:
  fixes xs :: "('i :: linorder \<times> 'b) list"
  shows "case max_by_index xs of None \<Rightarrow> xs = [] | Some m \<Rightarrow> m \<in> set xs \<and> (\<forall>y \<in> set xs. fst y \<le> fst m)"
proof -
  have "fold (\<lambda>y m. if fst m \<le> fst y then y else m) ys x \<in> insert x (set ys)
      \<and> (\<forall>y \<in> insert x (set ys). fst y \<le> fst (fold (\<lambda>y m. if fst m \<le> fst y then y else m) ys x))" for x :: "'i :: linorder \<times> 'b" and ys
  proof (induction ys arbitrary: x)
    case (Cons y ys)
    show ?case using Cons [of "if fst x \<le> fst y then y else x"] by (auto split: if_splits intro: order_trans)
  qed simp
  from this [of "tl xs" "hd xs"] show ?thesis by (cases xs) (simp_all add: max_by_index_def)
qed

section \<open>The latest row of the store\<close>

lemma finite_visible_rows:
  assumes "store_inv size_of P V s"
  shows "finite (visible_rows s e k)"
proof (rule finite_subset)
  show "visible_rows s e k \<subseteq> (\<Union>c \<in> set (physical_chunks s). chunk_row c ` {..<num_rows c})"
  proof
    fix row assume "row \<in> visible_rows s e k"
    then obtain c i where c: "row = chunk_row c i" "visible s e k c" "i < num_rows c" unfolding visible_rows_def by fast
    have "(ch_id c, c) \<in> set (physical_chunks_per_chunk_id s)"
      using assms visible_ok(4) [OF assms c(2)] by (simp add: store_inv_def phys_ok_def physical_chunk_in)
    then have "c \<in> set (physical_chunks s)" by (force simp: physical_chunks_def)
    then show "row \<in> (\<Union>c \<in> set (physical_chunks s). chunk_row c ` {..<num_rows c})" using c(1,3) by blast
  qed
qed simp

lemma answer_exists:
  assumes "store_inv size_of P V s" "row \<in> visible_rows s e k" "row_due (has_static s e k) query row"
  shows "\<exists>row. is_answer s query e k row"
proof -
  let ?A = "{row \<in> visible_rows s e k. row_due (has_static s e k) query row}" and ?f = "row_recency (has_static s e k) (la_timeline query)"
  have fin: "finite ?A" using finite_visible_rows [OF assms(1)] by simp
  have "row \<in> ?A" using assms(2,3) by simp
  then have "?A \<noteq> {}" by (metis empty_iff)
  then have "?f ` ?A \<noteq> {}" unfolding image_is_empty .
  then have "Max (?f ` ?A) \<in> ?f ` ?A" by (rule Max_in [OF finite_imageI [OF fin]])
  then obtain row where row: "Max (?f ` ?A) = ?f row" "row \<in> ?A" by (rule imageE)
  have "\<forall>row' \<in> ?A. ?f row' \<le> ?f row" unfolding row(1) [symmetric] by (intro ballI Max_ge finite_imageI imageI fin)
  then have "is_answer s query e k row" using row(2) unfolding is_answer_def by blast
  then show ?thesis by blast
qed

lemma index_recency:
  assumes "row_index static timeline row \<le> row_index static timeline row'"
    and "static \<or> the (fst (snd row) timeline) \<noteq> i64_min \<and> the (fst (snd row') timeline) \<noteq> i64_min"
  shows "row_recency static timeline row \<le> row_recency static timeline row'"
proof (cases static)
  case False
  then have "the (fst (snd row) timeline) \<noteq> i64_min" "the (fst (snd row') timeline) \<noteq> i64_min" using assms(2) by simp_all
  from new_temporal_less_iff [OF this] show ?thesis using assms(1) False
    by (cases row; cases row') (auto simp: row_index_def row_recency_def less_eq_prod_def)
qed (use assms(1) in \<open>auto simp: row_index_def row_recency_def less_eq_prod_def split: prod.splits\<close>)

text \<open>What a complete walk answers with.\<close>

lemma visible_time:
  assumes "store_inv size_of P V s" "row \<in> visible_rows s e k" "fst (snd row) timeline = Some t"
  shows "t \<noteq> i64_min"
proof -
  obtain c i where c: "row = chunk_row c i" "visible s e k c" "i < num_rows c" using assms(2) unfolding visible_rows_def by fast
  then obtain tc where tc: "map_of (ch_timelines c) timeline = Some tc" "t = tc_times tc ! i"
    using assms(3) by (auto simp: chunk_row_def row_time_def)
  from raw_times(1) [OF chunk_ok_timeline [OF visible_ok(1) [OF assms(1) c(2)] tc(1)] c(3)] show ?thesis by (simp add: tc(2))
qed

lemma walk_answers:
  assumes inv: "store_inv size_of P V s" and statics: "statics_ok s" and rids: "row_ids_ok s" and at: "is_temporal (la_at query)"
    and rel: "\<forall>c \<in> set chunks. relevant s query e k c"
    and complete: "\<And>c i. visible s e k c \<Longrightarrow> i < num_rows c \<Longrightarrow> row_cell c i k \<noteq> None \<Longrightarrow> is_answer s query e k (chunk_row c i) \<Longrightarrow> c \<in> set chunks"
  shows "\<exists>n' units. latest_units kb ids query k n chunks = Some (n', units)
    \<and> (case max_by_index units of
         None \<Rightarrow> \<forall>row. \<not> is_answer s query e k row
       | Some (index, u) \<Rightarrow> \<exists>row. is_answer s query e k row \<and> unit_of u row
           \<and> index = row_index (has_static s e k) (la_timeline query) row)"
proof -
  let ?st = "has_static s e k" and ?tl = "la_timeline query"
  obtain n' units where units: "latest_units kb ids query k n chunks = Some (n', units)"
    "\<forall>(index, u) \<in> set units. \<exists>row \<in> chunk_answers query k chunks. unit_of u row \<and> index = row_index ?st ?tl row"
    "\<forall>row \<in> chunk_answers query k chunks. \<exists>u. (row_index ?st ?tl row, u) \<in> set units"
    using latest_units_ok [OF inv statics rids at rel, of kb ids n] by (elim exE conjE) (rule that)
  have due: "row \<in> visible_rows s e k \<and> row_due ?st query row" if row: "row \<in> chunk_answers query k chunks" for row
  proof -
    obtain c i where c: "row = chunk_row c i" "c \<in> set chunks" "is_latest query k c i" using row unfolding chunk_answers_def by fast
    then have "candidate query k c i" "visible s e k c" using rel by (auto simp: is_latest_def relevant_def)
    moreover from this have "i < num_rows c" by (simp add: candidate_def)
    ultimately show ?thesis using candidate_row(1) [OF statics, of e k c i query] c(1) by (auto simp: visible_rows_def)
  qed
  have found: "row \<in> chunk_answers query k chunks" if row: "is_answer s query e k row" for row
  proof -
    obtain c i where c: "row = chunk_row c i" "visible s e k c" "i < num_rows c" "row_cell c i k \<noteq> None"
      using row unfolding is_answer_def visible_rows_def by fast
    have cand: "candidate query k c j \<longleftrightarrow> chunk_row c j \<in> visible_rows s e k \<and> row_due ?st query (chunk_row c j) \<and> j < num_rows c \<and> row_cell c j k \<noteq> None" for j
      using candidate_row(1) [OF statics c(2), of j query] c(2) by (auto simp: visible_rows_def candidate_def)
    have "is_latest query k c i" unfolding is_latest_def
    proof (intro conjI allI impI)
      show "candidate query k c i" using row c cand unfolding is_answer_def by blast
      show "recency query c j \<le> recency query c i" if "candidate query k c j" for j
        using that row c cand candidate_row(2) [OF statics c(2)] unfolding is_answer_def by metis
    qed
    moreover have "c \<in> set chunks" using complete c row by blast
    ultimately show ?thesis using c(1) unfolding chunk_answers_def by blast
  qed
  show ?thesis
  proof (cases "max_by_index units")
    case None
    then have "units = []" using max_by_index_ok [of units] by simp
    then have "\<not> is_answer s query e k row" for row using units(3) found [of row] by fastforce
    then show ?thesis using units(1) None by simp
  next
    case (Some m)
    obtain index u where m: "m = (index, u)" by (cases m)
    have max: "(index, u) \<in> set units" "\<forall>y \<in> set units. fst y \<le> index" using max_by_index_ok [of units] Some m by simp_all
    obtain row where row: "row \<in> chunk_answers query k chunks" "unit_of u row" "index = row_index ?st ?tl row"
      using units(2) max(1) by blast
    note d = due [OF row(1)]
    obtain best where best: "is_answer s query e k best" using answer_exists [OF inv] d by blast
    obtain u' where u': "(row_index ?st ?tl best, u') \<in> set units" using units(3) found [OF best] by blast
    have time: "?st \<or> the (fst (snd r) ?tl) \<noteq> i64_min" if "r \<in> visible_rows s e k" "row_due ?st query r" for r
      using that visible_time [OF inv that(1)] by (cases r) (auto simp: row_due_def)
    have b: "best \<in> visible_rows s e k" "row_due ?st query best" using best unfolding is_answer_def by blast+
    have "row_index ?st ?tl best \<le> row_index ?st ?tl row" using bspec [OF max(2) u'] row(3) by simp
    then have "row_recency ?st ?tl best \<le> row_recency ?st ?tl row"
      using time [OF b] time [of row] d by (intro index_recency) auto
    then have "is_answer s query e k row" using best d unfolding is_answer_def by (metis order_trans)
    then have "\<exists>row. is_answer s query e k row \<and> unit_of u row \<and> index = row_index ?st ?tl row" using row by blast
    then show ?thesis using units(1) Some m by (simp del: split_paired_Ex)
  qed
qed

section \<open>The cache of a key\<close>

definition key_query :: "QueryCacheKey \<Rightarrow> TimeInt \<Rightarrow> LatestAtQuery" where
  "key_query key at = \<lparr>la_timeline = qk_timeline_name key, la_at = at\<rparr>"

text \<open>A cached unit holds the latest row at its query time.\<close>

definition cache_holds :: "'a ChunkStore \<Rightarrow> QueryCacheKey \<Rightarrow> TimeInt \<Rightarrow> 'a UnitChunk \<Rightarrow> bool" where
  "cache_holds s key at u \<longleftrightarrow>
     (\<exists>row. is_answer s (key_query key at) (qk_entity_path key) (qk_component key) row \<and> unit_of u row)"

definition entries_ok :: "'a ChunkStore \<Rightarrow> QueryCacheKey \<Rightarrow> (TimeInt, 'a LatestAtCachedChunk) omap \<Rightarrow> bool" where
  "entries_ok s key m \<longleftrightarrow> (\<forall>t c. map_of m t = Some c \<longrightarrow> cache_holds s key t (lc_unit c))"

text \<open>Between events and the next query, only the entries before every pending invalidation count.\<close>

definition latest_cache_ok :: "'a ChunkStore \<Rightarrow> QueryCacheKey \<Rightarrow> 'a LatestAtCache \<Rightarrow> bool" where
  "latest_cache_ok s key cache \<longleftrightarrow> lac_cache_key cache = key \<and> sorted (lac_pending_invalidations cache)
     \<and> (\<forall>t c. map_of (lac_per_query_time cache) t = Some c \<longrightarrow> (\<forall>d \<in> set (lac_pending_invalidations cache). t < d) \<longrightarrow>
          cache_holds s key t (lc_unit c))"

lemma om_get_lin': "om_get lin_cmp m k = map_of m k"
  by (induction m) (auto simp: lin_cmp_def)

lemma map_of_or_insert:
  "map_of (fst (or_insert t v m)) t' = (if t' = t \<and> map_of m t = None then Some v else map_of m t')"
  "snd (or_insert t v m) = (case map_of m t of None \<Rightarrow> v | Some v' \<Rightarrow> v')"
  using lin.om_get_insert [of t v m t']
  by (auto simp: or_insert_def om_get_lin' lin_cmp_def split: option.split)

lemma handle_pending_ok:
  assumes "latest_cache_ok s key cache"
  shows "latest_cache_ok s key (latest_at_handle_pending cache)
    \<and> entries_ok s key (lac_per_query_time (latest_at_handle_pending cache))"
proof (cases "lac_pending_invalidations cache")
  case Nil
  then show ?thesis using assms by (simp add: latest_at_handle_pending_def latest_cache_ok_def entries_ok_def)
next
  case (Cons oldest rest)
  have least: "\<forall>d \<in> set (lac_pending_invalidations cache). oldest \<le> d" using assms Cons by (auto simp: latest_cache_ok_def)
  have m: "lac_per_query_time (latest_at_handle_pending cache) = filter (\<lambda>(t, _). \<not> oldest \<le> t) (lac_per_query_time cache)"
    by (simp add: latest_at_handle_pending_def Cons Let_def)
  have "map_of (lac_per_query_time (latest_at_handle_pending cache)) t =
      (if \<not> oldest \<le> t then map_of (lac_per_query_time cache) t else None)" for t
    unfolding m by (rule map_of_restricted)
  then have "entries_ok s key (lac_per_query_time (latest_at_handle_pending cache))"
    using assms least by (fastforce simp: entries_ok_def latest_cache_ok_def split: if_splits intro: order.strict_trans2)
  moreover have "lac_cache_key (latest_at_handle_pending cache) = key" "sorted (lac_pending_invalidations (latest_at_handle_pending cache))"
    using assms by (auto simp: latest_at_handle_pending_def Cons Let_def latest_cache_ok_def sorted_wrt_filter)
  ultimately show ?thesis by (simp add: latest_cache_ok_def entries_ok_def)
qed

text \<open>The code keeps the pending invalidation of exactly the data it has just discarded.\<close>

lemma pending_stays:
  assumes "lac_pending_invalidations cache = t # rest" "map_of (lac_per_query_time cache) t = Some c" "\<not> lc_is_reference c"
  shows "t \<in> set (lac_pending_invalidations (latest_at_handle_pending cache))
    \<and> map_of (lac_per_query_time (latest_at_handle_pending cache)) t = None"
  using assms by (simp add: latest_at_handle_pending_def Let_def om_get_lin' map_of_restricted)

lemma pending_forgotten:
  assumes "lac_pending_invalidations cache = t # rest" "d \<in> set (lac_pending_invalidations cache)" "t \<le> d"
    and "map_of (lac_per_query_time cache) d = None"
  shows "d \<notin> set (lac_pending_invalidations (latest_at_handle_pending cache))"
  using assms by (auto simp: latest_at_handle_pending_def Let_def om_get_lin' map_of_restricted)

text \<open>The answer at a time is the answer at the time of its data, and the other way round.\<close>

lemma answer_at_data_time:
  assumes inv: "store_inv size_of P V s" and ans: "is_answer s (key_query key at) e k row"
    and d: "d = fst (row_index (has_static s e k) (qk_timeline_name key) row)"
  shows "is_answer s (key_query key d) e k row"
    and "is_answer s (key_query key d) e k row' \<Longrightarrow> is_answer s (key_query key at) e k row'"
proof -
  let ?st = "has_static s e k" and ?tl = "qk_timeline_name key"
  have v: "row \<in> visible_rows s e k" "row_due ?st (key_query key at) row" using ans unfolding is_answer_def by blast+
  have le: "row_due ?st (key_query key at) r" if "row_due ?st (key_query key d) r" for r
  proof (cases ?st)
    case False
    then obtain t where t: "fst (snd row) ?tl = Some t" "sint t \<le> sint (as_i64 at)"
      using v(2) by (cases row) (auto simp: row_due_def key_query_def)
    have "as_i64 d = t" using False t visible_time [OF inv v(1) t(1)] by (cases row) (simp add: d row_index_def as_i64_new_temporal)
    then show ?thesis using that False t(2) by (cases r) (auto simp: row_due_def key_query_def)
  qed (simp add: row_due_def split: prod.split)
  have due: "row_due ?st (key_query key d) row"
  proof (cases ?st)
    case False
    then obtain t where t: "fst (snd row) ?tl = Some t" using v(2) by (cases row) (auto simp: row_due_def key_query_def)
    have "as_i64 d = t" using False t visible_time [OF inv v(1) t] by (cases row) (simp add: d row_index_def as_i64_new_temporal)
    then show ?thesis using t by (cases row) (auto simp: row_due_def key_query_def)
  qed (simp add: row_due_def split: prod.split)
  have tl: "la_timeline (key_query key x) = ?tl" for x by (simp add: key_query_def)
  have best: "row_recency ?st ?tl r \<le> row_recency ?st ?tl row" if "r \<in> visible_rows s e k" "row_due ?st (key_query key at) r" for r
    using ans that unfolding is_answer_def tl by blast
  show "is_answer s (key_query key d) e k row"
    unfolding is_answer_def tl using v(1) due best le by blast
  assume ans': "is_answer s (key_query key d) e k row'"
  have "row_recency ?st ?tl row \<le> row_recency ?st ?tl row'" using ans' v(1) due unfolding is_answer_def tl by blast
  then have "row_recency ?st ?tl r \<le> row_recency ?st ?tl row'" if "r \<in> visible_rows s e k" "row_due ?st (key_query key at) r" for r
    using best [OF that] by (rule order_trans [rotated])
  then show "is_answer s (key_query key at) e k row'"
    using ans' le unfolding is_answer_def tl by blast
qed

lemma cache_unit_ok:
  assumes inv: "store_inv size_of P V s" and entries: "entries_ok s key (lac_per_query_time cache)"
    and ans: "is_answer s (key_query key at) (qk_entity_path key) (qk_component key) row" and u: "unit_of u row"
    and d: "d = fst (row_index (has_static s (qk_entity_path key) (qk_component key)) (qk_timeline_name key) row)"
    and r: "cache_unit at d u cache = (u', cache')"
  shows "cache_holds s key at u' \<and> entries_ok s key (lac_per_query_time cache')
    \<and> lac_cache_key cache' = lac_cache_key cache \<and> lac_pending_invalidations cache' = lac_pending_invalidations cache"
proof -
  let ?m = "lac_per_query_time cache"
  define m where "m = fst (or_insert d \<lparr>lc_unit = u, lc_is_reference = False\<rparr> ?m)"
  define c where "c = snd (or_insert d \<lparr>lc_unit = u, lc_is_reference = False\<rparr> ?m)"
  have "cache_unit at d u cache = (lc_unit c, cache\<lparr>lac_per_query_time :=
      if at \<noteq> d \<and> \<not> is_static d then fst (or_insert at \<lparr>lc_unit = lc_unit c, lc_is_reference = True\<rparr> m) else m\<rparr>)"
    by (simp add: cache_unit_def m_def c_def case_prod_unfold Let_def)
  then have r': "u' = lc_unit c" "cache' = cache\<lparr>lac_per_query_time :=
      if at \<noteq> d \<and> \<not> is_static d then fst (or_insert at \<lparr>lc_unit = lc_unit c, lc_is_reference = True\<rparr> m) else m\<rparr>"
    using r by simp_all
  note at_d = answer_at_data_time [OF inv ans d]
  have c_d: "cache_holds s key d (lc_unit c)"
    using entries u at_d(1) by (auto simp: c_def map_of_or_insert(2) entries_ok_def cache_holds_def simp del: split_paired_Ex split: option.split)
  then have c_at: "cache_holds s key at (lc_unit c)" using at_d(2) unfolding cache_holds_def by blast
  have "map_of m t = Some c' \<Longrightarrow> cache_holds s key t (lc_unit c')" for t c'
    using entries u at_d(1)
    by (auto simp: m_def map_of_or_insert(1) entries_ok_def cache_holds_def simp del: split_paired_Ex split: if_splits)
  then have "entries_ok s key (lac_per_query_time cache')"
    using c_at by (auto simp: r' entries_ok_def map_of_or_insert(1) split: if_splits)
  then show ?thesis using c_at by (simp add: r')
qed

text \<open>A query through the cache.\<close>

lemma cache_latest_at_ok:
  assumes inv: "store_inv size_of P V s" and statics: "statics_ok s" and rids: "row_ids_ok s" and at: "is_temporal at"
    and fit: "static_chunk_id s (qk_entity_path key) (qk_component key) = None \<Longrightarrow>
      index_fit s (key_query key at) (qk_entity_path key) (qk_component key)"
    and entries: "entries_ok s key (lac_per_query_time cache)"
  shows "\<exists>cached missing n' tracker' cache'.
    cache_latest_at kb ids s (key_query key at) (qk_entity_path key) (qk_component key) n tracker cache
      = Some ((cached, missing), n', tracker', cache')
    \<and> entries_ok s key (lac_per_query_time cache') \<and> lac_cache_key cache' = lac_cache_key cache
    \<and> lac_pending_invalidations cache' = lac_pending_invalidations cache
    \<and> (case cached of
         Some u \<Rightarrow> missing = [] \<and> cache_holds s key at u
       | None \<Rightarrow> missing \<noteq> [] \<or> (\<forall>row. \<not> is_answer s (key_query key at) (qk_entity_path key) (qk_component key) row))
    \<and> set missing \<subseteq> {cid. physical_chunk s cid = None}"
proof -
  let ?e = "qk_entity_path key" and ?k = "qk_component key" and ?q = "key_query key at"
  have q: "la_at ?q = at" "la_timeline ?q = qk_timeline_name key" by (simp_all add: key_query_def)
  have at': "is_temporal (la_at ?q)" using at by (simp add: q)
  let ?ids = "latest_at_relevant_ids s ?q ?e ?k"
  show ?thesis
  proof (cases "map_of (lac_per_query_time cache) at")
    case (Some c)
    then show ?thesis using entries by (simp add: cache_latest_at_def om_get_lin' q entries_ok_def)
  next
    case None
    let ?chunks = "List.map_filter (physical_chunk s) ?ids" and ?missing = "filter (\<lambda>cid. physical_chunk s cid = None) ?ids"
    obtain tracker' where res: "latest_at_relevant_chunks Report ?q ?e ?k s tracker
        = Some (\<lparr>qr_chunks = ?chunks, qr_missing_virtual = ?missing\<rparr>, tracker')"
      by (simp add: latest_at_relevant_chunks_def from_chunk_ids_def Let_def)
    show ?thesis
    proof (cases "?missing = []")
      case False
      then show ?thesis using entries None res by (auto simp: cache_latest_at_def om_get_lin' q is_partial_def)
    next
      case True
      then have loaded: "\<forall>cid \<in> set ?ids. physical_chunk s cid \<noteq> None" by (simp add: filter_empty_conv)
      have walk: "\<forall>cid \<in> set ?ids. \<exists>c. physical_chunk s cid = Some c \<and> relevant s ?q ?e ?k c"
        by (rule walk_ok(1) [OF inv statics at' _ loaded]) (rule fit)
      have set: "c \<in> set ?chunks \<longleftrightarrow> (\<exists>cid \<in> set ?ids. physical_chunk s cid = Some c)" for c
        by (auto simp: map_filter_def image_iff)
      have rel: "\<forall>c \<in> set ?chunks. relevant s ?q ?e ?k c" using walk by (fastforce simp: set)
      have complete: "c \<in> set ?chunks" if "visible s ?e ?k c" "i < num_rows c" "row_cell c i ?k \<noteq> None" "is_answer s ?q ?e ?k (chunk_row c i)" for c i
      proof -
        have "ch_id c \<in> set ?ids" by (rule walk_ok(2) [OF inv statics at' _ loaded that]) (rule fit)
        then show ?thesis using visible_ok(4) [OF inv that(1)] set by auto
      qed
      let ?case = "\<lambda>units. case max_by_index units of None \<Rightarrow> \<forall>row. \<not> is_answer s ?q ?e ?k row
         | Some (index, u) \<Rightarrow> \<exists>row. is_answer s ?q ?e ?k row \<and> unit_of u row \<and> index = row_index (has_static s ?e ?k) (la_timeline ?q) row"
      have "\<exists>n' units. latest_units kb ids ?q ?k n ?chunks = Some (n', units) \<and> ?case units"
        by (rule walk_answers [OF inv statics rids at' rel]) (rule complete)
      then obtain n' units where units: "latest_units kb ids ?q ?k n ?chunks = Some (n', units)" "?case units"
        by (elim exE conjE) (rule that)
      show ?thesis
      proof (cases "max_by_index units")
        case none: None
        then show ?thesis using units res None True entries
          by (simp add: cache_latest_at_def om_get_lin' q is_partial_def)
      next
        case (Some m)
        obtain d rid u where m: "m = ((d, rid), u)" by (metis prod.collapse)
        obtain row where row: "is_answer s ?q ?e ?k row" "unit_of u row" "(d, rid) = row_index (has_static s ?e ?k) (qk_timeline_name key) row"
          using units(2) Some m q(2) by auto
        obtain u' cache' where cu: "cache_unit at d u cache = (u', cache')" by fastforce
        have d: "d = fst (row_index (has_static s ?e ?k) (qk_timeline_name key) row)" using row(3) by (metis fst_conv)
        have ok: "cache_holds s key at u' \<and> entries_ok s key (lac_per_query_time cache')
            \<and> lac_cache_key cache' = lac_cache_key cache \<and> lac_pending_invalidations cache' = lac_pending_invalidations cache"
          by (rule cache_unit_ok [OF inv entries row(1,2) d cu])
        have "cache_latest_at kb ids s ?q ?e ?k n tracker cache = Some ((Some u', []), n', tracker', cache')"
          using units(1) Some m res None True cu by (simp add: cache_latest_at_def om_get_lin' q is_partial_def)
        then show ?thesis using ok by simp
      qed
    qed
  qed
qed


section \<open>Invalidation\<close>

text \<open>Touching a key never untouches another, nor makes its time later.\<close>

definition covers :: "CompactedEvents \<Rightarrow> QueryCacheKey \<Rightarrow> TimeInt \<Rightarrow> bool" where
  "covers ce key t \<longleftrightarrow> (\<exists>d \<le> t. map_of (ce_temporal_latest_at ce) key = Some d)"

definition ce_le :: "CompactedEvents \<Rightarrow> CompactedEvents \<Rightarrow> bool" where
  "ce_le ce ce' \<longleftrightarrow> (\<forall>key t. covers ce key t \<longrightarrow> covers ce' key t)
     \<and> (\<forall>x. map_of (ce_static ce) x \<noteq> None \<longrightarrow> map_of (ce_static ce') x \<noteq> None)"

lemma ce_le_refl [simp]: "ce_le ce ce"
  by (simp add: ce_le_def)

lemma ce_le_trans: "ce_le a b \<Longrightarrow> ce_le b c \<Longrightarrow> ce_le a c"
  by (simp add: ce_le_def)

lemma ce_le_touch:
  "ce_le ce (touch_static e k cids ce)" "ce_le ce (touch_range key cids ce)" "ce_le ce (touch_latest_at key t ce)"
proof -
  show "ce_le ce (touch_static e k cids ce)" "ce_le ce (touch_range key cids ce)"
    by (simp_all add: ce_le_def covers_def touch_static_def touch_range_def im_entry_def map_of_im_insert)
  have "covers (touch_latest_at key t ce) key' t'" if "covers ce key' t'" for key' t'
    using that by (auto simp: covers_def touch_latest_at_def im_entry_def map_of_im_insert min_le_iff_disj)
  then show "ce_le ce (touch_latest_at key t ce)" by (simp add: ce_le_def touch_latest_at_def)
qed

lemma covers_touch: "covers (touch_latest_at key t ce) key t"
  by (auto simp: covers_def touch_latest_at_def im_entry_def map_of_im_insert split: option.split)

lemma static_touch: "map_of (ce_static (touch_static e k cids ce)) (e, k) \<noteq> None"
  by (simp add: touch_static_def im_entry_def map_of_im_insert)

lemma ce_le_fold:
  "(\<And>x ce. x \<in> set xs \<Longrightarrow> ce_le ce (f x ce)) \<Longrightarrow> ce_le ce (fold f xs ce)"
proof (induction xs arbitrary: ce)
  case (Cons x xs)
  have "ce_le ce (f x ce)" "ce_le (f x ce) (fold f xs (f x ce))" using Cons by simp_all
  then show ?case by (simp add: ce_le_trans [of ce "f x ce"])
qed simp

lemma ce_le_fold_hit:
  assumes "x \<in> set xs" "\<And>x ce. x \<in> set xs \<Longrightarrow> ce_le ce (f x ce)" "\<And>ce. Q (f x ce)" "\<And>a b. ce_le a b \<Longrightarrow> Q a \<Longrightarrow> Q b"
  shows "Q (fold f xs ce)"
  using assms(1,2)
proof (induction xs arbitrary: ce)
  case (Cons y ys)
  show ?case
  proof (cases "x = y")
    case True
    have "ce_le (f y ce) (fold f ys (f y ce))" by (rule ce_le_fold) (simp add: Cons.prems)
    then show ?thesis using assms(3,4) True by auto
  qed (use Cons in auto)
qed simp

lemma covers_mono: "ce_le a b \<Longrightarrow> covers a key t \<Longrightarrow> covers b key t"
  by (simp add: ce_le_def)

lemma ce_le_compact: "ce_le ce (compact_diff diff ce)"
proof (cases diff)
  case (Addition add)
  show ?thesis unfolding Addition compact_diff_def ChunkStoreDiff.case compact_addition_def Let_def
    by (intro ce_le_trans [OF _ ce_le_fold] ce_le_trans [OF _ ce_le_fold])
      (auto intro!: ce_le_touch ce_le_fold split: if_splits)
next
  case (VirtualAddition m)
  show ?thesis unfolding VirtualAddition compact_diff_def ChunkStoreDiff.case compact_virtual_def
    by (intro ce_le_trans [OF ce_le_fold ce_le_fold])
      (auto intro!: ce_le_fold ce_le_touch ce_le_trans [OF ce_le_touch(3) ce_le_touch(2)] simp: Let_def split: prod.split)
next
  case (Deletion c reason)
  show ?thesis unfolding Deletion compact_diff_def ChunkStoreDiff.case compact_deletion_def Let_def
    by (intro ce_le_trans [OF _ ce_le_fold])
      (auto intro!: ce_le_fold ce_le_touch ce_le_trans [OF ce_le_touch(3) ce_le_touch(2)])
qed

text \<open>The chunk by which an event makes answers stale, and what an event says about static data.\<close>

definition stale_chunk :: "'a ChunkStoreDiff \<Rightarrow> 'a Chunk option" where
  "stale_chunk diff = (case diff of
     Addition add \<Rightarrow> Some (case add_direct_lineage add of
       CompactedFromReport _ \<Rightarrow> chunk_after_processing add | _ \<Rightarrow> addition_delta_chunk add)
   | VirtualAddition _ \<Rightarrow> None
   | Deletion c _ \<Rightarrow> Some c)"

definition static_diff :: "'a ChunkStoreDiff \<Rightarrow> rstr list \<Rightarrow> ComponentIdentifier \<Rightarrow> bool" where
  "static_diff diff e k \<longleftrightarrow> (case diff of
     Addition add \<Rightarrow> chunk_is_static (chunk_before_processing add)
       \<and> ch_entity_path (chunk_after_processing add) = e \<and> k \<in> fst ` set (ch_components (chunk_after_processing add))
   | VirtualAddition _ \<Rightarrow> False
   | Deletion c _ \<Rightarrow> chunk_is_static c \<and> ch_entity_path c = e \<and> k \<in> fst ` set (ch_components c))"

lemma ce_le_static: "ce_le a b \<Longrightarrow> map_of (ce_static a) x \<noteq> None \<Longrightarrow> map_of (ce_static b) x \<noteq> None"
  unfolding ce_le_def by blast

lemma touch_statics_hit:
  assumes "k \<in> fst ` set components"
  shows "map_of (ce_static (fold (\<lambda>(component, _). touch_static e component ids) components ce)) (e, k) \<noteq> None"
proof -
  obtain col where col: "(k, col) \<in> set components" using assms by auto
  show ?thesis
  proof (rule ce_le_fold_hit [where x = "(k, col)" and Q = "\<lambda>ce. map_of (ce_static ce) (e, k) \<noteq> None", OF col])
    show "ce_le ce ((case x of (component, _) \<Rightarrow> touch_static e component ids) ce)" for x ce
      by (cases x) (simp add: ce_le_touch)
    show "map_of (ce_static ((case (k, col) of (component, _) \<Rightarrow> touch_static e component ids) ce)) (e, k) \<noteq> None" for ce
      unfolding prod.case by (rule static_touch)
  qed (rule ce_le_static)
qed

lemma ce_le_touch_ranges: "ce_le ce (fold (\<lambda>(key, _). touch_range key ids) keys ce)"
  by (rule ce_le_fold) (auto intro: ce_le_touch)

lemma ce_le_touch_times: "ce_le ce (fold (\<lambda>(key, r). touch_latest_at key (range_min r)) keys ce)"
  by (rule ce_le_fold) (auto intro: ce_le_touch)

lemma ce_le_touch_both: "ce_le ce (fold (\<lambda>(key, r). touch_range key ids \<circ> touch_latest_at key (range_min r)) keys ce)"
  by (rule ce_le_fold) (auto intro: ce_le_trans [OF ce_le_touch(3) ce_le_touch(2)])

lemma compact_diff_static:
  assumes "static_diff diff e k"
  shows "map_of (ce_static (compact_diff diff ce)) (e, k) \<noteq> None"
proof (cases diff)
  case (Addition add)
  have add: "chunk_is_static (chunk_before_processing add)" "e = ch_entity_path (chunk_after_processing add)"
    "k \<in> fst ` set (ch_components (chunk_after_processing add))"
    using assms by (auto simp: static_diff_def Addition)
  show ?thesis
    unfolding Addition compact_diff_def ChunkStoreDiff.case compact_addition_def Let_def if_P [OF add(1)] add(2)
    by (rule ce_le_static [OF ce_le_trans [OF ce_le_touch_times ce_le_touch_ranges] touch_statics_hit [OF add(3)]])
next
  case (VirtualAddition m)
  then show ?thesis using assms by (simp add: static_diff_def)
next
  case (Deletion c reason)
  have del: "chunk_is_static c" "e = ch_entity_path c" "k \<in> fst ` set (ch_components c)"
    using assms by (auto simp: static_diff_def Deletion)
  show ?thesis
    unfolding Deletion compact_diff_def ChunkStoreDiff.case compact_deletion_def Let_def if_P [OF del(1)] del(2)
    by (rule ce_le_static [OF ce_le_touch_both touch_statics_hit [OF del(3)]])
qed

lemma compact_diff_covers:
  assumes "stale_chunk diff = Some c" "(key, r) \<in> set (chunk_keys c)"
  shows "covers (compact_diff diff ce) key (range_min r)"
proof (cases diff)
  case (Addition add)
  have c: "(case add_direct_lineage add of CompactedFromReport _ \<Rightarrow> chunk_after_processing add | _ \<Rightarrow> addition_delta_chunk add) = c"
    using assms(1) by (simp add: stale_chunk_def Addition)
  have hit: "covers (fold (\<lambda>(key, r). touch_latest_at key (range_min r)) (chunk_keys c) ce) key (range_min r)" for ce
    by (rule ce_le_fold_hit [where x = "(key, r)" and Q = "\<lambda>ce. covers ce key (range_min r)", OF assms(2)])
      (auto simp: covers_touch intro: ce_le_touch covers_mono)
  show ?thesis unfolding Addition compact_diff_def ChunkStoreDiff.case compact_addition_def Let_def c
    by (rule covers_mono [OF ce_le_touch_ranges hit])
next
  case (VirtualAddition m)
  then show ?thesis using assms by (simp add: stale_chunk_def)
next
  case (Deletion c' reason)
  then have c': "c' = c" using assms(1) by (simp add: stale_chunk_def)
  show ?thesis unfolding Deletion compact_diff_def ChunkStoreDiff.case compact_deletion_def Let_def c'
    by (rule ce_le_fold_hit [where x = "(key, r)" and Q = "\<lambda>ce. covers ce key (range_min r)", OF assms(2)])
      (auto intro: ce_le_trans [OF ce_le_touch(3) ce_le_touch(2)] covers_mono covers_mono [OF ce_le_touch(2) covers_touch])
qed

lemma chunk_keys_span:
  assumes "span c timeline (Some k) = Some r"
  shows "(\<lparr>qk_entity_path = ch_entity_path c, qk_timeline_name = timeline, qk_component = k\<rparr>, r) \<in> set (chunk_keys c)"
proof -
  obtain ranges where "(timeline, ranges) \<in> set (time_range_per_component c)" "(k, r) \<in> set ranges"
    using assms by (auto simp: span_def bind_eq_Some_conv dest!: map_of_SomeD)
  then show ?thesis by (force simp: chunk_keys_def)
qed

lemma time_le_new_temporal: "t \<noteq> time_STATIC \<Longrightarrow> a \<noteq> i64_min \<Longrightarrow> sint a \<le> sint (as_i64 t) \<Longrightarrow> new_temporal a \<le> t"
  by (cases t) (auto simp: time_STATIC_def new_temporal_def nm_new_eq as_i64_def less_eq_TimeInt_def
      less_eq_NonMinI64_def split: option.splits)

text \<open>Events explain a change of the store if they tell of every static component that changes, and of
  a chunk with the row for every other row that comes or goes.\<close>

definition explained :: "'a ChunkStoreEvent list \<Rightarrow> rstr list \<Rightarrow> 'a row \<Rightarrow> bool" where
  "explained events e row \<longleftrightarrow> (\<exists>event \<in> set events. \<exists>c i. stale_chunk (ev_diff event) = Some c \<and> chunk_ok c
     \<and> ch_entity_path c = e \<and> i < num_rows c \<and> row = chunk_row c i)"

definition events_explain :: "'a ChunkStore \<Rightarrow> 'a ChunkStore \<Rightarrow> 'a ChunkStoreEvent list \<Rightarrow> bool" where
  "events_explain s s' events \<longleftrightarrow> (\<forall>e k. (\<exists>event \<in> set events. static_diff (ev_diff event) e k) \<or>
     (has_static s' e k \<longleftrightarrow> has_static s e k) \<and>
     (if has_static s e k then visible_rows s' e k = visible_rows s e k
      else \<forall>row \<in> visible_rows s e k \<union> visible_rows s' e k - visible_rows s e k \<inter> visible_rows s' e k. explained events e row))"

lemma ce_le_events: "ce_le ce (fold (\<lambda>event. compact_diff (ev_diff event)) events ce)"
  by (rule ce_le_fold) (rule ce_le_compact)

lemma explained_covers:
  assumes "explained events e row" "snd (snd row) k \<noteq> None" "fst (snd row) timeline = Some v"
  shows "\<exists>t \<le> new_temporal v. covers (fold (\<lambda>event. compact_diff (ev_diff event)) events ce)
      \<lparr>qk_entity_path = e, qk_timeline_name = timeline, qk_component = k\<rparr> t \<and> v \<noteq> i64_min"
proof -
  obtain event c i where ev: "event \<in> set events" "stale_chunk (ev_diff event) = Some c" and c: "chunk_ok c"
    "ch_entity_path c = e" "i < num_rows c" "row = chunk_row c i" using assms(1) by (auto simp: explained_def)
  have cell: "row_cell c i k \<noteq> None" using assms(2) c(4) by (simp add: chunk_row_def)
  obtain tc where tc: "map_of (ch_timelines c) timeline = Some tc" "v = tc_times tc ! i"
    using assms(3) c(4) by (auto simp: chunk_row_def row_time_def)
  obtain r where r: "span c timeline (Some k) = Some r" using component_span_exists [OF c(1) tc(1) c(3) cell] by blast
  have le: "range_min r \<le> new_temporal v" "v \<noteq> i64_min"
    using component_span(2) [OF c(1) tc(1) _ r c(3) cell] c(3) raw_times(1) [OF chunk_ok_timeline [OF c(1) tc(1)] c(3)]
    by (auto simp: tc(2))
  have "covers (fold (\<lambda>event. compact_diff (ev_diff event)) events ce)
      \<lparr>qk_entity_path = e, qk_timeline_name = timeline, qk_component = k\<rparr> (range_min r)"
    by (rule ce_le_fold_hit [where Q = "\<lambda>ce. covers ce _ (range_min r)", OF ev(1)])
      (use compact_diff_covers [OF ev(2)] chunk_keys_span [OF r] c(2) in \<open>auto intro: ce_le_compact covers_mono\<close>)
  then show ?thesis using le by blast
qed

lemma answer_stays:
  assumes "is_answer s query e k row" "has_static s' e k = has_static s e k"
    and "\<And>r. row_due (has_static s e k) query r \<Longrightarrow> r \<in> visible_rows s' e k \<longleftrightarrow> r \<in> visible_rows s e k"
  shows "is_answer s' query e k row"
proof -
  note ans = assms(1) [unfolded is_answer_def]
  have "row_recency (has_static s e k) (la_timeline query) r \<le> row_recency (has_static s e k) (la_timeline query) row"
    if "r \<in> visible_rows s' e k" "row_due (has_static s e k) query r" for r
    using ans that assms(3) [of r] by blast
  moreover have "row \<in> visible_rows s' e k" using ans assms(3) [of row] by blast
  ultimately show ?thesis using ans unfolding is_answer_def assms(2) by blast
qed

text \<open>What the events do not invalidate is not concerned by the change.\<close>

lemma on_events_ok:
  assumes before: "\<forall>key cache. latest_at_per_cache_key qc key = Some cache \<longrightarrow> latest_cache_ok s key cache"
    and told: "events_explain s s' events"
    and cache: "latest_at_per_cache_key (on_events clear events qc) key = Some cache"
  shows "latest_cache_ok s' key cache"
proof -
  define ce where "ce = fold (\<lambda>event. compact_diff (ev_diff event)) events compacted_events_new"
  let ?e = "qk_entity_path key" and ?k = "qk_component key" and ?tl = "qk_timeline_name key"
  obtain cache0 where cache0: "latest_at_per_cache_key qc key = Some cache0" "cache = invalidate_latest_at ce cache0 key"
    using cache by (auto simp: on_events_def ce_def Let_def)
  have ok: "latest_cache_ok s key cache0" using before cache0(1) by blast
  let ?p = "lac_pending_invalidations cache"
  have p: "set ?p \<supseteq> set (lac_pending_invalidations cache0)"
    "map_of (ce_static ce) (?e, ?k) \<noteq> None \<Longrightarrow> time_STATIC \<in> set ?p"
    "map_of (ce_temporal_latest_at ce) key = Some d \<Longrightarrow> d \<in> set ?p" for d
    by (auto simp: cache0(2) invalidate_latest_at_def split: option.split)
  have "cache_holds s' key t (lc_unit c)"
    if c: "map_of (lac_per_query_time cache) t = Some c" "\<forall>d \<in> set ?p. t < d" for t c
  proof -
    have "cache_holds s key t (lc_unit c)"
    proof -
      have "map_of (lac_per_query_time cache0) t = Some c" using c(1) by (simp add: cache0(2) invalidate_latest_at_def)
      moreover have "\<forall>d \<in> set (lac_pending_invalidations cache0). t < d" using p(1) c(2) by blast
      ultimately show ?thesis using ok unfolding latest_cache_ok_def by blast
    qed
    then obtain row where row: "is_answer s (key_query key t) ?e ?k row" "unit_of (lc_unit c) row"
      unfolding cache_holds_def by blast
    have unstatic: "\<not> (\<exists>event \<in> set events. static_diff (ev_diff event) ?e ?k)"
    proof
      assume "\<exists>event \<in> set events. static_diff (ev_diff event) ?e ?k"
      then obtain event where ev: "event \<in> set events" "static_diff (ev_diff event) ?e ?k" by blast
      have "map_of (ce_static ce) (?e, ?k) \<noteq> None" unfolding ce_def
        by (rule ce_le_fold_hit [where Q = "\<lambda>ce. map_of (ce_static ce) (?e, ?k) \<noteq> None", OF ev(1)])
          (rule ce_le_compact, rule compact_diff_static [OF ev(2)], erule (1) ce_le_static)
      then have "t < time_STATIC" using p(2) c(2) by blast
      then show False by (cases t) (simp add: time_STATIC_def less_TimeInt_def)
    qed
    then have same: "has_static s' ?e ?k = has_static s ?e ?k" using told unfolding events_explain_def by blast
    have "r \<in> visible_rows s' ?e ?k \<longleftrightarrow> r \<in> visible_rows s ?e ?k" if due: "row_due (has_static s ?e ?k) (key_query key t) r" for r
    proof (rule ccontr)
      assume neq: "(r \<in> visible_rows s' ?e ?k) \<noteq> (r \<in> visible_rows s ?e ?k)"
      then have temporal: "\<not> has_static s ?e ?k" and ex: "explained events ?e r"
        using told unstatic unfolding events_explain_def by (auto split: if_splits)
      obtain v where v: "fst (snd r) ?tl = Some v" "sint v \<le> sint (as_i64 t)"
        using due temporal by (cases r) (auto simp: row_due_def key_query_def)
      have "snd (snd r) ?k \<noteq> None" using neq by (auto simp: visible_rows_def chunk_row_def)
      then obtain u where u: "u \<le> new_temporal v" "covers ce \<lparr>qk_entity_path = ?e, qk_timeline_name = ?tl, qk_component = ?k\<rparr> u"
        "v \<noteq> i64_min" using explained_covers [OF ex _ v(1), of ?k compacted_events_new] by (auto simp: ce_def)
      obtain d where d: "d \<le> u" "map_of (ce_temporal_latest_at ce) key = Some d"
        using u(2) unfolding covers_def QueryCacheKey.surjective [of key, symmetric] by (cases key) auto
      have "t < d" using p(3) [OF d(2)] c(2) by blast
      have "t \<noteq> time_STATIC"
      proof
        assume "t = time_STATIC"
        then have "sint v \<le> sint i64_min" using v(2) by (simp add: time_STATIC_def as_i64_def)
        then have "sint v = sint i64_min" using sint_i64_lower [of v] by (simp add: i64_simps)
        then have "v = i64_min" by (simp only: signed_word_eqI)
        then show False using u(3) by blast
      qed
      then have "new_temporal v \<le> t" using time_le_new_temporal u(3) v(2) by blast
      then show False using \<open>t < d\<close> d(1) u(1) by (meson leD order_trans)
    qed
    then have "is_answer s' (key_query key t) ?e ?k row" by (rule answer_stays [OF row(1) same])
    then show ?thesis using row(2) unfolding cache_holds_def by blast
  qed
  moreover have "lac_cache_key cache = key" "sorted ?p"
    using ok by (auto simp: latest_cache_ok_def cache0(2) invalidate_latest_at_def bs_insert_def sorted_insort_insert split: option.split)
  ultimately show ?thesis unfolding latest_cache_ok_def by blast
qed

text \<open>C11: events keep the cached answers right. If the answers a latest-at cache may still give are
  right for a store, and the store changes in a way that the events tell of, then after the cache has
  taken in the events the answers it may still give are right for the new store: what the events do
  not invalidate is not concerned by the change.\<close>

theorem on_events_coherent:
  assumes before: "\<forall>key cache. latest_at_per_cache_key qc key = Some cache \<longrightarrow> latest_cache_ok s key cache"
    and told: "events_explain s s' events"
    and cache: "latest_at_per_cache_key (on_events clear events qc) key = Some cache"
  shows "latest_cache_ok s' key cache"
  using assms by (rule on_events_ok)

end
