(* ===== verification/Query_GC.thy ===== *)
theory Query_GC
  imports Store_GC_Props Query_Cache_Props
begin

text \<open>
  The store's garbage collection and the query caches together: the events of a collection tell the
  caches what they must forget.
\<close>

lemma same_lineage_static: "same_lineage s s' \<Longrightarrow> static_chunk_id s' e k = static_chunk_id s e k"
  by (simp add: same_lineage_def static_chunk_id_def)

text \<open>What is visible after chunks are gone, and which rows are missing.\<close>

lemma visible_restrict:
  assumes "same_lineage s s'" "physical_chunk s' = physical_chunk s |` (- ch_id ` D)"
  shows "visible s' e k c \<longleftrightarrow> visible s e k c \<and> ch_id c \<notin> ch_id ` D"
  using assms(2) by (auto simp: visible_def same_lineage_static [OF assms(1)] restrict_map_def split: if_splits)

lemma visible_rows_restrict:
  assumes "same_lineage s s'" "physical_chunk s' = physical_chunk s |` (- ch_id ` D)"
  shows "visible_rows s' e k \<subseteq> visible_rows s e k"
    and "row \<in> visible_rows s e k \<Longrightarrow> row \<notin> visible_rows s' e k \<Longrightarrow>
      \<exists>c i. visible s e k c \<and> ch_id c \<in> ch_id ` D \<and> i < num_rows c \<and> row = chunk_row c i"
  unfolding visible_rows_def visible_restrict [OF assms] by blast+

lemma gc_events_explain:
  assumes statics: "statics_ok s" and lineage: "same_lineage s s'"
    and phys: "physical_chunk s' = physical_chunk s |` (- ch_id ` deleted events)"
    and dels: "\<forall>c \<in> deleted events. physical_chunk s (ch_id c) = Some c \<and> \<not> chunk_is_static c \<and> chunk_ok c"
  shows "events_explain s s' events"
proof -
  have "(has_static s' e k \<longleftrightarrow> has_static s e k) \<and>
     (if has_static s e k then visible_rows s' e k = visible_rows s e k
      else \<forall>row \<in> visible_rows s e k \<union> visible_rows s' e k - visible_rows s e k \<inter> visible_rows s' e k. explained events e row)" for e k
  proof -
    have gone: "\<not> chunk_is_static c \<and> c \<in> deleted events \<and> chunk_ok c" if "visible s e k c" "ch_id c \<in> ch_id ` deleted events" for c
    proof -
      from that(2) obtain d where d: "d \<in> deleted events" "ch_id c = ch_id d" by blast
      then have "d = c" using dels that(1) by (auto simp: visible_def)
      then show ?thesis using d dels by blast
    qed
    have same: "has_static s' e k = has_static s e k" by (simp add: has_static_def same_lineage_static [OF lineage])
    show ?thesis
    proof (cases "has_static s e k")
      case True
      then have "visible s' e k c \<longleftrightarrow> visible s e k c" for c
        using gone [of c] visible_static [OF statics, of e k c] unfolding visible_restrict [OF lineage phys] by blast
      then show ?thesis using same True by (simp add: visible_rows_def)
    next
      case False
      have "explained events e row" if row: "row \<in> visible_rows s e k" "row \<notin> visible_rows s' e k" for row
      proof -
        from visible_rows_restrict(2) [OF lineage phys row] obtain c i
          where c: "visible s e k c" "ch_id c \<in> ch_id ` deleted events" "i < num_rows c" "row = chunk_row c i" by blast
        have "ch_entity_path c = e" using c(1) False by (simp add: visible_def has_static_def)
        moreover from gone [OF c(1,2)] obtain ev where "ev \<in> set events" "ev_diff ev = Deletion c GarbageCollection"
          by (auto simp: deleted_def)
        ultimately show ?thesis using c gone [OF c(1,2)] unfolding explained_def by (force simp: stale_chunk_def)
      qed
      then show ?thesis using same False visible_rows_restrict(1) [OF lineage phys, of e k] by auto
    qed
  qed
  then show ?thesis unfolding events_explain_def by blast
qed


end
