(* ===== verification/Query_Examples.thy ===== *)
theory Query_Examples
  imports Store_Examples Store_GC_Props Query_GC
begin

text \<open>
  A store with one chunk, the result of an insertion, on which the theorems about garbage
  collection and the query caches are instantiated.
\<close>

declare find_compacted.simps [code] descends_from_a_compaction.simps [code] split_passes.simps [code]

definition one :: "nat Chunk" where
  "one = ex_chunk [Tuid 0 1] [5] [Some 7]"

definition one_store :: "nat ChunkStore" where
  "one_store = (case insert_chunk id all_bits (\<lambda>_. 100) ex_ids 0 one ex_store of Some (_, s, _) \<Rightarrow> s | None \<Rightarrow> ex_store)"

lemma one_store_simps:
  "map_of (physical_chunks_per_chunk_id one_store) = [Tuid 0 9 \<mapsto> one]"
  "static_chunk_ids_per_entity one_store = []"
  "idx_at one_store [] ex_timeline (Some ex_component) = \<lparr>max_interval_length = 0,
     per_start_time = [(new_temporal 5, [Tuid 0 9])], per_end_time = [(new_temporal 5, [Tuid 0 9])]\<rparr>"
proof -
  have "physical_chunks_per_chunk_id one_store = [(Tuid 0 9, one)]" by code_simp
  then show "map_of (physical_chunks_per_chunk_id one_store) = [Tuid 0 9 \<mapsto> one]" by simp
  show "static_chunk_ids_per_entity one_store = []" by code_simp
  show "idx_at one_store [] ex_timeline (Some ex_component) = \<lparr>max_interval_length = 0,
     per_start_time = [(new_temporal 5, [Tuid 0 9])], per_end_time = [(new_temporal 5, [Tuid 0 9])]\<rparr>" by code_simp
qed

lemma one_store_chunk: "physical_chunk one_store cid = (if cid = Tuid 0 9 then Some one else None)"
  using one_store_simps(1) by (simp add: physical_chunk_def om_get_lin')

lemma one_simps:
  "ch_id one = Tuid 0 9" "num_rows one = 1" "\<not> chunk_is_static one" "ch_row_ids one = [Tuid 0 1]" "ch_entity_path one = []"
  "row_cell one 0 ex_component = Some 7" "row_time one 0 ex_timeline = Some 5"
  by (simp_all add: one_def ex_chunk_def num_rows_def chunk_is_static_def row_cell_def row_time_def cc_get_array_def
      ex_column_def tc_new_def Let_def split: prod.split)

lemma one_store_ok: "store_ok (\<lambda>_. 100) ex_types no_spans one_store"
proof -
  have one: "storable ex_types one"
  proof -
    have "chunk_ok one" unfolding one_def by (rule ex_chunk_ok) (simp_all add: i64_min_def)
    then show ?thesis
      by (simp add: storable_def typed_def one_simps)
        (simp add: one_def ex_chunk_def ex_types_def tc_new_def Let_def row_ids_sorted_def split: prod.split)
  qed
  have new: "\<forall>k \<in> {0..<15}. unknown no_spans ex_store (ex_ids k) \<and> ex_ids k \<noteq> ch_id one"
    by (simp add: ex_store_unknown ex_ids_def one_simps)
  from insert_chunk_ok [OF _ ex_ids_inj ex_store_ok one one_simps(3) ex_store_unknown new, of id all_bits "\<lambda>_. 100"] show ?thesis
    by (auto simp: one_store_def one_simps)
qed

lemma one_store_inv: "store_inv (\<lambda>_. 100) {#} no_spans one_store"
  using one_store_ok by (simp add: store_ok_def)

lemma one_store_statics: "statics_ok one_store" "static_chunk_id one_store e k = None"
  by (simp_all add: statics_ok_def static_chunk_id_def one_store_simps)

section \<open>Garbage collection\<close>

definition ex_options :: "nat GarbageCollectionOptions" where
  "ex_options = gc_everything"



theorem furthest_from_agrees_witness:
  "find_temporal_chunks_furthest_from ex_timeline (new_temporal 3) one_store
   = find_temporal_chunks_furthest_from_slow ex_timeline (new_temporal 3) one_store"
  by (rule furthest_from_agrees [OF one_store_inv])

section \<open>Queries\<close>

definition ex_key :: QueryCacheKey where
  "ex_key = \<lparr>qk_entity_path = [], qk_timeline_name = ex_timeline, qk_component = ex_component\<rparr>"

lemma ex_rows: "visible_rows one_store [] ex_component = {chunk_row one 0}"
  by (fastforce simp: visible_rows_def visible_def one_store_chunk one_simps one_store_statics split: if_splits)

lemma ex_answer: "is_answer one_store (key_query ex_key (new_temporal 7)) [] ex_component row \<longleftrightarrow> row = chunk_row one 0"
proof -
  have "row_due False (key_query ex_key (new_temporal 7)) (chunk_row one 0)"
    by (simp add: row_due_def chunk_row_def one_simps key_query_def ex_key_def as_i64_new_temporal i64_min_def)
  moreover have "has_static one_store [] ex_component = False" by (simp add: has_static_def one_store_statics)
  ultimately show ?thesis unfolding is_answer_def ex_rows by auto
qed

lemma ex_fit: "index_fit one_store (key_query ex_key (new_temporal 7)) [] ex_component"
proof -
  have "new_temporal 7 \<noteq> time_MAX" "time_ok (new_temporal 5)" by code_simp+
  then show ?thesis
    by (simp add: index_fit_def key_query_def ex_key_def one_store_simps short_intervals_def times_ok_def starts_backed_def)
qed

lemma new_cache_ok: "latest_cache_ok s key (latest_at_cache_new key)"
  by (simp add: latest_cache_ok_def latest_at_cache_new_def)


section \<open>Invalidation\<close>

text \<open>A cache that was asked at time 7, and a store from which the only chunk is deleted.\<close>

definition ex_caches :: "nat QueryCache" where
  "ex_caches = query_cache_new\<lparr>latest_at_per_cache_key := [ex_key \<mapsto> latest_at_cache_new ex_key]\<rparr>"

lemma ex_caches_ok: "\<forall>key cache. latest_at_per_cache_key ex_caches key = Some cache \<longrightarrow> latest_cache_ok s key cache"
  by (simp add: ex_caches_def query_cache_new_def new_cache_ok)

definition ex_deletion :: "nat ChunkStoreEvent list" where
  "ex_deletion = [\<lparr>ev_store_generation = (0, 0), ev_event_id = 0, ev_diff = Deletion one GarbageCollection\<rparr>]"

lemma ex_explain: "events_explain one_store ex_store ex_deletion"
proof -
  have "visible_rows ex_store e k = {}" "\<not> has_static ex_store e k" "\<not> has_static one_store e k" for e k
    by (simp_all add: visible_rows_def visible_def ex_store_empty has_static_def one_store_statics)
      (simp add: static_chunk_id_def ex_store_def chunk_store_new_def)
  moreover have "explained ex_deletion e row" if "row \<in> visible_rows one_store e k" for e k row
  proof -
    have "e = []" "row = chunk_row one 0"
      using that by (auto simp: visible_rows_def visible_def one_store_chunk one_store_statics one_simps split: if_splits)
    then show ?thesis using one_store_ok
      by (auto simp: explained_def ex_deletion_def stale_chunk_def one_simps store_ok_def storable_def one_store_chunk)
  qed
  ultimately show ?thesis by (simp add: events_explain_def del: split_paired_All)
qed

theorem on_events_coherent_witness:
  "\<exists>cache. latest_at_per_cache_key (on_events [] ex_deletion ex_caches) ex_key = Some cache \<and> latest_cache_ok ex_store ex_key cache
     \<and> lac_pending_invalidations cache = [new_temporal 5]"
proof -
  have "map_option lac_pending_invalidations (latest_at_per_cache_key (on_events [] ex_deletion ex_caches) ex_key) = Some [new_temporal 5]"
    by code_simp
  then obtain cache where cache: "latest_at_per_cache_key (on_events [] ex_deletion ex_caches) ex_key = Some cache"
    "lac_pending_invalidations cache = [new_temporal 5]" by auto
  from on_events_coherent [OF ex_caches_ok ex_explain cache(1)] cache show ?thesis by blast
qed


end
