(* ===== verification/Crate_Version.thy ===== *)
theory Crate_Version
  imports Rust_Char
begin

text \<open>
  The version of a crate (\<open>re_build_info/src/crate_version.rs\<close>): the four bytes it takes in the
  header of a recording, its order, and its text. Strings are the numbers of their UTF-8 bytes.
  Overflow of the unsigned arithmetic is the wrap-around of a release build.
\<close>

section \<open>Versions and their bytes\<close>

datatype Meta = Rc u8 | Alpha u8 | DevAlpha (dev_alpha: u8) (dev_commit: "rstr option")

record CrateVersion =
  cv_major :: u8
  cv_minor :: u8
  cv_patch :: u8
  cv_meta :: "Meta option"

definition meta_RC :: u8 where "meta_RC = 0x40"
definition meta_ALPHA :: u8 where "meta_ALPHA = 0x80"
definition meta_DEV_ALPHA :: u8 where "meta_DEV_ALPHA = 0xC0"
definition meta_TAG_MASK :: u8 where "meta_TAG_MASK = 0xC0"
definition meta_VALUE_MASK :: u8 where "meta_VALUE_MASK = 0x3F"

definition meta_to_byte :: "Meta \<Rightarrow> u8" where
  "meta_to_byte m = (case m of
     Rc v \<Rightarrow> v OR meta_RC | Alpha v \<Rightarrow> v OR meta_ALPHA | DevAlpha v _ \<Rightarrow> v OR meta_DEV_ALPHA)"

definition meta_from_byte :: "u8 \<Rightarrow> Meta option" where
  "meta_from_byte v =
     (let tag = v AND meta_TAG_MASK; val = v AND meta_VALUE_MASK
      in if tag = meta_RC then Some (Rc val)
         else if tag = meta_ALPHA then Some (Alpha val)
         else if tag = meta_DEV_ALPHA then Some (DevAlpha val None)
         else None)"

definition version_new :: "u8 \<Rightarrow> u8 \<Rightarrow> u8 \<Rightarrow> CrateVersion" where
  "version_new major minor patch = \<lparr>cv_major = major, cv_minor = minor, cv_patch = patch, cv_meta = None\<rparr>"

definition version_to_bytes :: "CrateVersion \<Rightarrow> u8 list" where
  "version_to_bytes v =
     [cv_major v, cv_minor v, cv_patch v, case cv_meta v of None \<Rightarrow> 0 | Some m \<Rightarrow> meta_to_byte m]"

definition version_from_bytes :: "u8 list \<Rightarrow> CrateVersion" where
  "version_from_bytes bytes =
     \<lparr>cv_major = bytes ! 0, cv_minor = bytes ! 1, cv_patch = bytes ! 2, cv_meta = meta_from_byte (bytes ! 3)\<rparr>"

text \<open>The order ignores the metadata.\<close>

definition version_le :: "CrateVersion \<Rightarrow> CrateVersion \<Rightarrow> bool" where
  "version_le a b \<longleftrightarrow> cv_major a < cv_major b \<or> cv_major a = cv_major b \<and>
     (cv_minor a < cv_minor b \<or> cv_minor a = cv_minor b \<and> cv_patch a \<le> cv_patch b)"

definition is_release :: "CrateVersion \<Rightarrow> bool" where
  "is_release v \<longleftrightarrow> cv_meta v = None"

definition is_dev :: "CrateVersion \<Rightarrow> bool" where
  "is_dev v \<longleftrightarrow> (case cv_meta v of Some (DevAlpha _ _) \<Rightarrow> True | _ \<Rightarrow> False)"

definition is_alpha :: "CrateVersion \<Rightarrow> bool" where
  "is_alpha v \<longleftrightarrow> (case cv_meta v of Some (Alpha _) \<Rightarrow> True | Some (DevAlpha _ _) \<Rightarrow> True | _ \<Rightarrow> False)"

definition is_rc :: "CrateVersion \<Rightarrow> bool" where
  "is_rc v \<longleftrightarrow> (case cv_meta v of Some (Rc _) \<Rightarrow> True | _ \<Rightarrow> False)"

definition latest_stable :: "CrateVersion \<Rightarrow> CrateVersion" where
  "latest_stable v =
     (if is_dev v then
        if cv_patch v = 0 then
          if cv_minor v = 0 then version_new (cv_major v - 1) 0 0
          else version_new (cv_major v) (cv_minor v - 1) 0
        else version_new (cv_major v) (cv_minor v) (cv_patch v - 1)
      else v)"

definition is_compatible_with :: "CrateVersion \<Rightarrow> CrateVersion \<Rightarrow> bool" where
  "is_compatible_with v other \<longleftrightarrow>
     ((case (cv_meta v, cv_meta other) of
         (Some (Rc _), Some (Rc _)) \<Rightarrow> True
       | (Some (Rc _), None) \<Rightarrow> True
       | (None, Some (Rc _)) \<Rightarrow> True
       | (this, other) \<Rightarrow> this = other)
      \<and> (if cv_major v = 0 then cv_major v = cv_major other \<and> cv_minor v = cv_minor other
         else cv_major v = cv_major other))"

section \<open>Parsing\<close>

datatype version_error =
    ExpectedNumber | ExpectedDot | LeadingZero | TooLarge | BuildTooLarge | ExpectedAlphaOrRc
  | ExpectedDev | RcWithDev | DevWithoutAlpha | ExpectedEnd

definition maybe_byte :: "rchar \<Rightarrow> rstr \<Rightarrow> rstr option" where
  "maybe_byte c s = (case s of b # rest \<Rightarrow> if b = c then Some rest else None | [] \<Rightarrow> None)"

definition maybe_token :: "rstr \<Rightarrow> rstr \<Rightarrow> rstr option" where
  "maybe_token token s = (if take (length token) s = token then Some (drop (length token) s) else None)"

definition eat_byte :: "rchar \<Rightarrow> rstr \<Rightarrow> version_error + rstr" where
  "eat_byte c s = (case maybe_byte c s of None \<Rightarrow> Inl ExpectedDot | Some rest \<Rightarrow> Inr rest)"

fun eat_digits :: "u64 \<Rightarrow> rstr \<Rightarrow> u64 \<times> rstr" where
  "eat_digits num [] = (num, [])"
| "eat_digits num (c # s) = (if is_digit c then eat_digits (num * 10 + of_nat (c - 48)) s else (num, c # s))"

definition eat_u8 :: "rstr \<Rightarrow> version_error + u8 \<times> rstr" where
  "eat_u8 s =
     (if s = [] then Inl ExpectedNumber
      else if 1 < length s \<and> is_digit (s ! 1) \<and> s ! 0 = 48 then Inl LeadingZero
      else let (num, remainder) = eat_digits 0 s
           in if 255 < num then Inl TooLarge else Inr (ucast num, remainder))"

abbreviation "s_alpha \<equiv> [97, 108, 112, 104, 97] :: rstr"
abbreviation "s_rc \<equiv> [114, 99] :: rstr"
abbreviation "s_dev \<equiv> [100, 101, 118] :: rstr"

definition eat_build :: "(u8 \<Rightarrow> Meta) \<Rightarrow> rstr \<Rightarrow> version_error + Meta option \<times> rstr" where
  "eat_build mk s =
     bind_res (eat_byte c_dot s) (\<lambda>s. bind_res (eat_u8 s) (\<lambda>(build, s).
       if 63 < build then Inl BuildTooLarge else Inr (Some (mk build), s)))"

definition eat_prerelease :: "rstr \<Rightarrow> version_error + Meta option \<times> rstr" where
  "eat_prerelease s =
     (case maybe_byte c_minus s of
        None \<Rightarrow> Inr (None, s)
      | Some s \<Rightarrow>
          (case maybe_token s_alpha s of
             Some s \<Rightarrow> eat_build Alpha s
           | None \<Rightarrow>
               (case maybe_token s_rc s of
                  Some s \<Rightarrow> eat_build Rc s
                | None \<Rightarrow> Inl ExpectedAlphaOrRc)))"

definition eat_suffix :: "Meta option \<Rightarrow> rstr \<Rightarrow> version_error + Meta option \<times> rstr" where
  "eat_suffix meta s =
     (case maybe_byte c_plus s of
        None \<Rightarrow> Inr (meta, s)
      | Some s \<Rightarrow>
          (case meta of
             Some (Alpha build) \<Rightarrow>
               (case maybe_token s_dev s of
                  Some s \<Rightarrow> Inr (Some (DevAlpha build None), s)
                | None \<Rightarrow> if s = [] then Inl ExpectedDev else Inr (Some (DevAlpha build (Some s)), []))
           | Some _ \<Rightarrow> Inl RcWithDev
           | None \<Rightarrow> Inl DevWithoutAlpha))"

definition version_try_parse :: "rstr \<Rightarrow> version_error + CrateVersion" where
  "version_try_parse s =
     bind_res (eat_u8 s) (\<lambda>(major, s). bind_res (eat_byte c_dot s) (\<lambda>s.
     bind_res (eat_u8 s) (\<lambda>(minor, s). bind_res (eat_byte c_dot s) (\<lambda>s.
     bind_res (eat_u8 s) (\<lambda>(patch, s).
     bind_res (eat_prerelease s) (\<lambda>(meta, s).
     bind_res (eat_suffix meta s) (\<lambda>(meta, s).
       if s \<noteq> [] then Inl ExpectedEnd
       else Inr \<lparr>cv_major = major, cv_minor = minor, cv_patch = patch, cv_meta = meta\<rparr>)))))))"

section \<open>Printing\<close>

definition utf8_cont :: "nat \<Rightarrow> bool" where
  "utf8_cont b \<longleftrightarrow> 0x80 \<le> b \<and> b \<le> 0xBF"

definition utf8_second :: "nat \<Rightarrow> nat \<Rightarrow> bool" where
  "utf8_second a b \<longleftrightarrow>
     (if a = 0xE0 then 0xA0 \<le> b \<and> b \<le> 0xBF else if a = 0xED then 0x80 \<le> b \<and> b \<le> 0x9F
      else if a = 0xF0 then 0x90 \<le> b \<and> b \<le> 0xBF else if a = 0xF4 then 0x80 \<le> b \<and> b \<le> 0x8F
      else utf8_cont b)"

text \<open>\<open>str::from_utf8\<close>\<close>

fun utf8_valid :: "nat list \<Rightarrow> bool" where
  "utf8_valid [] = True"
| "utf8_valid (a # s) =
     (if a < 0x80 then utf8_valid s
      else if 0xC2 \<le> a \<and> a \<le> 0xDF then (case s of b # s \<Rightarrow> utf8_cont b \<and> utf8_valid s | _ \<Rightarrow> False)
      else if 0xE0 \<le> a \<and> a \<le> 0xEF then
        (case s of b # c # s \<Rightarrow> utf8_second a b \<and> utf8_cont c \<and> utf8_valid s | _ \<Rightarrow> False)
      else if 0xF0 \<le> a \<and> a \<le> 0xF4 then
        (case s of b # c # d # s \<Rightarrow> utf8_second a b \<and> utf8_cont c \<and> utf8_cont d \<and> utf8_valid s | _ \<Rightarrow> False)
      else False)"

definition meta_display :: "Meta \<Rightarrow> rstr" where
  "meta_display m = (case m of
     Rc build \<Rightarrow> c_minus # s_rc @ c_dot # to_dec (unat build)
   | Alpha build \<Rightarrow> c_minus # s_alpha @ c_dot # to_dec (unat build)
   | DevAlpha alpha commit \<Rightarrow> c_minus # s_alpha @ c_dot # to_dec (unat alpha) @ c_plus #
       (case commit of Some c \<Rightarrow> if utf8_valid c then c else s_dev | None \<Rightarrow> s_dev))"

definition version_display :: "CrateVersion \<Rightarrow> rstr" where
  "version_display v = to_dec (unat (cv_major v)) @ c_dot # to_dec (unat (cv_minor v)) @ c_dot #
     to_dec (unat (cv_patch v)) @ (case cv_meta v of None \<Rightarrow> [] | Some m \<Rightarrow> meta_display m)"

section \<open>Bytes and text determine the version\<close>

text \<open>A build number fits its six bits; a commit is text that the parser does not take for \<open>dev\<close>.\<close>

definition meta_ok :: "Meta \<Rightarrow> bool" where
  "meta_ok m = (case m of
     Rc v \<Rightarrow> v \<le> 63 | Alpha v \<Rightarrow> v \<le> 63
   | DevAlpha v commit \<Rightarrow> v \<le> 63 \<and> (case commit of
       None \<Rightarrow> True | Some c \<Rightarrow> c \<noteq> [] \<and> utf8_valid c \<and> take 3 c \<noteq> s_dev))"

definition version_ok :: "CrateVersion \<Rightarrow> bool" where
  "version_ok v \<longleftrightarrow> (case cv_meta v of None \<Rightarrow> True | Some m \<Rightarrow> meta_ok m)"

definition without_commit :: "Meta \<Rightarrow> Meta" where
  "without_commit m = (case m of DevAlpha v _ \<Rightarrow> DevAlpha v None | _ \<Rightarrow> m)"

lemma meta_bits:
  assumes "v \<le> (63 :: u8)"
  shows "meta_from_byte (v OR 0x40) = Some (Rc v) \<and> meta_from_byte (v OR 0x80) = Some (Alpha v)
    \<and> meta_from_byte (v OR 0xC0) = Some (DevAlpha v None)"
proof -
  have "list_all (\<lambda>n. let v = word_of_nat n :: u8 in meta_from_byte (v OR 0x40) = Some (Rc v)
      \<and> meta_from_byte (v OR 0x80) = Some (Alpha v) \<and> meta_from_byte (v OR 0xC0) = Some (DevAlpha v None)) [0..<64]"
    by code_simp
  moreover have "unat v < 64" using assms by (simp add: word_le_nat_alt)
  ultimately show ?thesis by (auto simp: list_all_iff Let_def dest!: bspec [of _ _ "unat v"])
qed

lemma meta_from_to_byte:
  assumes "meta_ok m"
  shows "meta_from_byte (meta_to_byte m) = Some (without_commit m)"
  using assms meta_bits
  by (cases m) (auto simp: meta_ok_def meta_to_byte_def without_commit_def meta_RC_def meta_ALPHA_def meta_DEV_ALPHA_def)

lemma meta_from_byte_0: "meta_from_byte 0 = None"
  by code_simp

lemma version_from_to_bytes:
  assumes "version_ok v"
  shows "version_from_bytes (version_to_bytes v) = v\<lparr>cv_meta := map_option without_commit (cv_meta v)\<rparr>"
  using assms meta_from_to_byte
  by (auto simp: version_from_bytes_def version_to_bytes_def version_ok_def meta_from_byte_0 numeral_3_eq_3 split: option.split)

lemma of_nat_digits: "of_nat (n div 10) * 10 + of_nat (n mod 10) = (of_nat n :: u64)"
proof -
  have "of_nat n = (of_nat (n div 10 * 10 + n mod 10) :: u64)" by simp
  then show ?thesis by (simp only: of_nat_add of_nat_mult of_nat_numeral)
qed

lemma eat_digits_append: "list_all is_digit xs \<Longrightarrow> eat_digits num (xs @ s) = eat_digits (fst (eat_digits num xs)) s"
  by (induction xs arbitrary: num) auto

lemma eat_digits_to_dec: "eat_digits 0 (to_dec n @ s) = eat_digits (of_nat n) s"
proof (induction n arbitrary: s rule: to_dec.induct)
  case (1 n)
  show ?case
  proof (cases "n < 10")
    case False
    have "eat_digits 0 (to_dec n @ s) = eat_digits (of_nat (n div 10)) ((48 + n mod 10) # s)"
      using 1 False by (simp add: to_dec.simps [of n])
    also have "\<dots> = eat_digits (of_nat n) s"
    proof -
      have "n mod 10 \<le> 9" by presburger
      then show ?thesis using of_nat_digits [of n] by (simp add: is_digit_def)
    qed
    finally show ?thesis .
  qed (simp add: to_dec.simps [of n] is_digit_def)
qed

lemma eat_digits_stop: "s = [] \<or> \<not> is_digit (hd s) \<Longrightarrow> eat_digits num s = (num, s)"
  by (cases s) auto

lemma to_dec_leading: "1 < length (to_dec n) \<Longrightarrow> hd (to_dec n) \<noteq> 48"
proof (induction n rule: to_dec.induct)
  case (1 n)
  show ?case
  proof (cases "n < 100")
    case True
    then show ?thesis using 1(2) by (auto simp: to_dec.simps [of n] to_dec.simps [of "n div 10"])
  next
    case False
    then have "1 < length (to_dec (n div 10))" by (simp add: to_dec.simps [of "n div 10"] Suc_lessI)
    then show ?thesis using 1 False by (simp add: to_dec.simps [of n])
  qed
qed

lemma eat_u8_to_dec:
  assumes "s = [] \<or> \<not> is_digit (hd s)"
  shows "eat_u8 (to_dec (unat (v :: u8)) @ s) = Inr (v, s)"
proof -
  let ?d = "to_dec (unat v)"
  have small: "unat v < 256" using unsigned_less [of v, where ?'a = nat] by simp
  obtain c cs where d: "?d = c # cs" by (cases ?d) auto
  have "\<not> (1 < length (?d @ s) \<and> is_digit ((?d @ s) ! 1) \<and> (?d @ s) ! 0 = 48)"
  proof (cases cs)
    case Nil
    then show ?thesis using assms d by (cases s) auto
  next
    case (Cons c' cs')
    then show ?thesis using to_dec_leading [of "unat v"] d by simp
  qed
  moreover have "eat_digits 0 (?d @ s) = (of_nat (unat v), s)"
    by (simp add: eat_digits_to_dec eat_digits_stop [OF assms])
  moreover have "\<not> (255 :: u64) < of_nat (unat v)"
  proof -
    have "unat (of_nat (unat v) :: u64) = unat v" using small by (simp only: unat_of_nat) simp
    then show ?thesis using small by (simp add: word_less_nat_alt)
  qed
  moreover have "ucast (of_nat (unat v) :: u64) = v" using small
    by (simp only: unsigned_of_nat) (simp add: take_bit_nat_eq_self)
  ultimately show ?thesis by (simp add: eat_u8_def)
qed

lemma maybe_token_append [simp]: "maybe_token token (token @ s) = Some s"
  by (simp add: maybe_token_def)

lemma eat_build_to_dec:
  assumes "v \<le> 63" "s = [] \<or> \<not> is_digit (hd s)"
  shows "eat_build mk (c_dot # to_dec (unat v) @ s) = Inr (Some (mk v), s)"
  using assms by (simp add: eat_build_def eat_byte_def maybe_byte_def eat_u8_to_dec not_less)

lemma eat_meta_display:
  assumes "meta_ok m"
  shows "bind_res (eat_prerelease (meta_display m)) (\<lambda>(meta, s). eat_suffix meta s) = Inr (Some m, [])"
proof (cases m)
  case (Rc v)
  have "eat_prerelease (meta_display m) = Inr (Some (Rc v), [])"
    using assms eat_build_to_dec [of v "[]" Rc]
    by (simp add: Rc eat_prerelease_def meta_display_def maybe_byte_def maybe_token_def meta_ok_def)
  then show ?thesis by (simp add: Rc eat_suffix_def maybe_byte_def)
next
  case (Alpha v)
  have "eat_prerelease (meta_display m) = Inr (Some (Alpha v), [])"
    using assms eat_build_to_dec [of v "[]" Alpha]
    by (simp add: Alpha eat_prerelease_def meta_display_def maybe_byte_def maybe_token_def meta_ok_def)
  then show ?thesis by (simp add: Alpha eat_suffix_def maybe_byte_def)
next
  case (DevAlpha v commit)
  let ?tail = "case commit of Some c \<Rightarrow> c | None \<Rightarrow> s_dev"
  have "meta_display m = c_minus # s_alpha @ c_dot # to_dec (unat v) @ c_plus # ?tail"
    using assms by (cases commit) (simp_all add: DevAlpha meta_display_def meta_ok_def)
  then have "eat_prerelease (meta_display m) = Inr (Some (Alpha v), c_plus # ?tail)"
    using assms eat_build_to_dec [of v "c_plus # ?tail" Alpha]
    by (simp add: DevAlpha eat_prerelease_def maybe_byte_def maybe_token_def meta_ok_def is_digit_def)
  then show ?thesis using assms
    by (auto simp: DevAlpha eat_suffix_def maybe_byte_def maybe_token_def meta_ok_def numeral_3_eq_3 split: option.split)
qed

lemma version_parse_display_ok:
  assumes "version_ok v"
  shows "version_try_parse (version_display v) = Inr v"
proof -
  let ?tail = "case cv_meta v of None \<Rightarrow> [] | Some m \<Rightarrow> meta_display m"
  have tail: "?tail = [] \<or> \<not> is_digit (hd ?tail)"
    by (auto simp: meta_display_def is_digit_def split: option.split Meta.split)
  have meta: "bind_res (eat_prerelease ?tail) (\<lambda>(meta, s). eat_suffix meta s) = Inr (cv_meta v, [])"
    using assms eat_meta_display
    by (cases "cv_meta v") (simp_all add: version_ok_def eat_prerelease_def eat_suffix_def maybe_byte_def)
  then obtain meta s where step: "eat_prerelease ?tail = Inr (meta, s)" "eat_suffix meta s = Inr (cv_meta v, [])"
    by (auto simp: bind_res_Inr_iff)
  show ?thesis
    by (simp add: version_try_parse_def version_display_def eat_u8_to_dec is_digit_def eat_byte_def maybe_byte_def
        eat_u8_to_dec [OF tail] step)
qed

text \<open>C35: the forms of a version determine it. Parsing the printed form of a version gives the version
  back, and so do its four bytes, which forget the commit only.\<close>

theorem version_roundtrips:
  assumes "version_ok v"
  shows "version_try_parse (version_display v) = Inr v
    \<and> version_from_bytes (version_to_bytes v) = v\<lparr>cv_meta := map_option without_commit (cv_meta v)\<rparr>"
  using version_parse_display_ok [OF assms] version_from_to_bytes [OF assms] by blast

theorem version_roundtrips_witness:
  "version_try_parse (version_display \<lparr>cv_major = 0, cv_minor = 23, cv_patch = 1, cv_meta = Some (Rc 4)\<rparr>) =
     Inr \<lparr>cv_major = 0, cv_minor = 23, cv_patch = 1, cv_meta = Some (Rc 4)\<rparr>"
  using version_roundtrips [of "\<lparr>cv_major = 0, cv_minor = 23, cv_patch = 1, cv_meta = Some (Rc 4)\<rparr>"]
  by (simp add: version_ok_def meta_ok_def)

text \<open>Texts that are not versions parse: a number may be missing before a dot, and the value of a long
  number is taken modulo \<open>2 ^ 64\<close>.\<close>

lemma parses_missing_numbers: "version_try_parse [c_dot, 49, c_dot, 50] = Inr (version_new 0 1 2)"
  by code_simp

lemma parses_wrapped_number:
  "version_try_parse ([49, 56, 52, 52, 54, 55, 52, 52, 48, 55, 51, 55, 48, 57, 53, 53, 49, 54, 49, 55] @ [c_dot, 48, c_dot, 48])
     = Inr (version_new 1 0 0)"
  by code_simp

end
