(* ===== verification/Le_Bytes.thy ===== *)
theory Le_Bytes
  imports Digits
begin

text \<open>
  Little-endian numbers: the byte arrays of the recording stream and of the depth images, on the
  positional notation of \<open>Digits\<close>, and that reading gives back what was written.
\<close>

section \<open>Little-endian numbers\<close>

definition to_le_bytes :: "nat \<Rightarrow> nat \<Rightarrow> u8 list" where
  "to_le_bytes k n = rev (map of_nat (digits 256 k n))"

definition from_le_bytes :: "u8 list \<Rightarrow> nat" where
  "from_le_bytes bytes = from_digits 256 0 (map unat (rev bytes))"

definition u32_to_le :: "u32 \<Rightarrow> u8 list" where "u32_to_le w = to_le_bytes 4 (unat w)"
definition u32_from_le :: "u8 list \<Rightarrow> u32" where "u32_from_le bytes = of_nat (from_le_bytes bytes)"
definition u64_to_le :: "u64 \<Rightarrow> u8 list" where "u64_to_le w = to_le_bytes 8 (unat w)"
definition u64_from_le :: "u8 list \<Rightarrow> u64" where "u64_from_le bytes = of_nat (from_le_bytes bytes)"

lemma length_le [simp]: "length (u32_to_le w) = 4" "length (u64_to_le x) = 8"
  by (simp_all add: u32_to_le_def u64_to_le_def to_le_bytes_def)

lemma from_to_le_bytes:
  assumes "n < 256 ^ k"
  shows "from_le_bytes (to_le_bytes k n) = n"
proof -
  have "map unat (map of_nat (digits 256 k n) :: u8 list) = digits 256 k n"
    by (rule map_map [THEN trans], rule map_idI) (auto simp: unat_of_nat dest: digits_less [rotated])
  then show ?thesis using assms by (simp add: from_le_bytes_def to_le_bytes_def from_digits_digits rev_map del: map_map)
qed

lemma from_to_le [simp]: "u32_from_le (u32_to_le w) = w" "u64_from_le (u64_to_le x) = x"
proof -
  have "unat w < 256 ^ 4" "unat x < 256 ^ 8"
    using unsigned_less [of w, where ?'a = nat] unsigned_less [of x, where ?'a = nat] by simp_all
  then show "u32_from_le (u32_to_le w) = w" "u64_from_le (u64_to_le x) = x"
    by (simp_all add: u32_from_le_def u32_to_le_def u64_from_le_def u64_to_le_def from_to_le_bytes)
qed

end
