(* ===== verification/Rrd_Frames.thy ===== *)
theory Rrd_Frames
  imports Crate_Version Le_Bytes
begin

text \<open>
  The frames of a recording stream (\<open>re_log_encoding/src/rrd/frames.rs\<close>): the stream header, the
  headers of messages and the stream footer, as bytes. The locale \<open>frame_codec\<close> is what the encoder
  and the decoder rely on: a frame has a fixed size, and its bytes give it back.
\<close>

section \<open>Errors\<close>

datatype FrameError =
    StreamHeaderLength nat | StreamFooterLength nat | StreamFooterFourCC "u8 list" | StreamFooterIdentifier "u8 list"
  | MessageHeaderLength nat | UnknownMessageKind u64

datatype OptionsError = UnknownReservedBytes | UnknownCompression u8 | RemovedMsgPackSerializer | UnknownSerializer u8

text \<open>The errors of the Protobuf decoder and of what is decoded above it are the parameter type \<open>'x\<close>.\<close>

datatype 'x CodecError =
    InvalidOptions OptionsError | IncompatibleRerunVersion CrateVersion CrateVersion
  | NotAnRrd "u8 list" "u8 list" | OldRrdVersion | FrameDecoding FrameError | CrcMismatch u32 u32
  | StoreIdMissingApplicationId | PayloadError 'x

section \<open>Encoding options\<close>

datatype Compression = Off | LZ4
datatype Serializer = Protobuf

record EncodingOptions =
  eo_compression :: Compression
  eo_serializer :: Serializer

definition PROTOBUF_COMPRESSED :: EncodingOptions where
  "PROTOBUF_COMPRESSED = \<lparr>eo_compression = LZ4, eo_serializer = Protobuf\<rparr>"

definition PROTOBUF_UNCOMPRESSED :: EncodingOptions where
  "PROTOBUF_UNCOMPRESSED = \<lparr>eo_compression = Off, eo_serializer = Protobuf\<rparr>"

definition compression_byte :: "Compression \<Rightarrow> u8" where
  "compression_byte c = (case c of Off \<Rightarrow> 0 | LZ4 \<Rightarrow> 1)"

definition serializer_byte :: "Serializer \<Rightarrow> u8" where
  "serializer_byte s = (case s of Protobuf \<Rightarrow> 2)"

definition options_to_bytes :: "EncodingOptions \<Rightarrow> u8 list" where
  "options_to_bytes opts = [compression_byte (eo_compression opts), serializer_byte (eo_serializer opts), 0, 0]"

definition options_from_bytes :: "u8 list \<Rightarrow> 'x CodecError + EncodingOptions" where
  "options_from_bytes data = (case data of
     [compression, serializer, r1, r2] \<Rightarrow>
       if r1 \<noteq> 0 \<or> r2 \<noteq> 0 then Inl (InvalidOptions UnknownReservedBytes)
       else bind_res
         (if compression = 0 then Inr Off else if compression = 1 then Inr LZ4
          else Inl (InvalidOptions (UnknownCompression compression)))
         (\<lambda>c. bind_res
           (if serializer = 1 then Inl (InvalidOptions RemovedMsgPackSerializer)
            else if serializer = 2 then Inr Protobuf
            else Inl (InvalidOptions (UnknownSerializer serializer)))
           (\<lambda>s. Inr \<lparr>eo_compression = c, eo_serializer = s\<rparr>))
   | _ \<Rightarrow> Inl (InvalidOptions UnknownReservedBytes))"

section \<open>The stream header\<close>

definition RRD_FOURCC :: "u8 list" where "RRD_FOURCC = [82, 82, 70, 50]"
definition OLD_RRD_FOURCC :: "u8 list list" where "OLD_RRD_FOURCC = [[82, 82, 70, 48], [82, 82, 70, 49]]"

record StreamHeader =
  sh_fourcc :: "u8 list"
  sh_version :: "u8 list"
  sh_options :: EncodingOptions

definition stream_header_size :: nat where "stream_header_size = 12"

definition stream_header_to_bytes :: "StreamHeader \<Rightarrow> u8 list" where
  "stream_header_to_bytes h = sh_fourcc h @ sh_version h @ options_to_bytes (sh_options h)"

definition stream_header_from_bytes :: "u8 list \<Rightarrow> 'x CodecError + StreamHeader" where
  "stream_header_from_bytes data =
     (if length data \<noteq> stream_header_size then Inl (FrameDecoding (StreamHeaderLength (length data)))
      else let fourcc = take 4 data
        in if fourcc \<in> set OLD_RRD_FOURCC then Inl OldRrdVersion
           else if fourcc \<noteq> RRD_FOURCC then Inl (NotAnRrd RRD_FOURCC fourcc)
           else bind_res (options_from_bytes (drop 8 data)) (\<lambda>options.
             Inr \<lparr>sh_fourcc = fourcc, sh_version = take 4 (drop 4 data), sh_options = options\<rparr>))"

text \<open>\<open>local\<close> is the version of the build.\<close>

definition to_version_and_options ::
  "CrateVersion \<Rightarrow> StreamHeader \<Rightarrow> 'x CodecError + CrateVersion \<times> EncodingOptions" where
  "to_version_and_options local h =
     (let encoded_version =
        (if sh_version h = [0, 0, 0, 0] then version_new 0 2 0 else version_from_bytes (sh_version h))
      in if cv_major encoded_version = 0 \<and> cv_minor encoded_version < 23
         then Inl (IncompatibleRerunVersion encoded_version local)
         else Inr (version_from_bytes (sh_version h), sh_options h))"

section \<open>The stream footer\<close>

record StreamFooterEntry =
  fe_start :: u64
  fe_len :: u64
  fe_crc :: u32

record StreamFooter =
  sf_fourcc :: "u8 list"
  sf_identifier :: "u8 list"
  sf_entries :: "StreamFooterEntry list"

definition RRD_IDENTIFIER :: "u8 list" where "RRD_IDENTIFIER = [70, 79, 79, 84]"

definition footer_size_ignoring_entries :: nat where "footer_size_ignoring_entries = 12"
definition footer_entry_size :: nat where "footer_entry_size = 20"
definition stream_footer_size :: nat where
  "stream_footer_size = footer_size_ignoring_entries + footer_entry_size"

definition stream_footer_new :: "u64 \<Rightarrow> u64 \<Rightarrow> u32 \<Rightarrow> StreamFooter" where
  "stream_footer_new start len crc =
     \<lparr>sf_fourcc = RRD_FOURCC, sf_identifier = RRD_IDENTIFIER,
      sf_entries = [\<lparr>fe_start = start, fe_len = len, fe_crc = crc\<rparr>]\<rparr>"

text \<open>The checksum \<open>xxh32\<close> is third-party code, the parameter \<open>crc\<close>.\<close>

definition footer_from_rrd_footer_bytes :: "(u8 list \<Rightarrow> u32) \<Rightarrow> u64 \<Rightarrow> u8 list \<Rightarrow> StreamFooter" where
  "footer_from_rrd_footer_bytes crc offset bytes = stream_footer_new offset (of_nat (length bytes)) (crc bytes)"

definition footer_entry_to_bytes :: "StreamFooterEntry \<Rightarrow> u8 list" where
  "footer_entry_to_bytes e = u64_to_le (fe_start e) @ u64_to_le (fe_len e) @ u32_to_le (fe_crc e)"

text \<open>No result is the failure of the assertion that there is exactly one entry.\<close>

definition stream_footer_to_bytes :: "StreamFooter \<Rightarrow> u8 list option" where
  "stream_footer_to_bytes f =
     (let out = concat (map footer_entry_to_bytes (sf_entries f)) @ sf_fourcc f @ sf_identifier f
                @ u32_to_le (of_nat (length (sf_entries f)))
      in if length out = stream_footer_size then Some out else None)"

definition slice :: "nat \<Rightarrow> nat \<Rightarrow> 'a list \<Rightarrow> 'a list option" where
  "slice i j xs = (if i \<le> j \<and> j \<le> length xs then Some (take (j - i) (drop i xs)) else None)"

text \<open>Reading an entry at a position; no result is a slice out of range, which panics.\<close>

definition footer_entry_at :: "u8 list \<Rightarrow> nat \<Rightarrow> StreamFooterEntry option" where
  "footer_entry_at data pos =
     Option.bind (slice pos (pos + 8) data) (\<lambda>start.
     Option.bind (slice (pos + 8) (pos + 16) data) (\<lambda>len.
     Option.bind (slice (pos + 16) (pos + 20) data) (\<lambda>crc.
       Some \<lparr>fe_start = u64_from_le start, fe_len = u64_from_le len, fe_crc = u32_from_le crc\<rparr>)))"

fun footer_entries :: "u8 list \<Rightarrow> nat \<Rightarrow> nat \<Rightarrow> StreamFooterEntry list option" where
  "footer_entries data pos 0 = Some []"
| "footer_entries data pos (Suc n) =
     Option.bind (footer_entry_at data pos) (\<lambda>e.
       map_option (Cons e) (footer_entries data (pos + footer_entry_size) n))"

definition stream_footer_from_bytes :: "u8 list \<Rightarrow> ('x CodecError + StreamFooter) option" where
  "stream_footer_from_bytes data =
     (if length data < stream_footer_size then Some (Inl (FrameDecoding (StreamFooterLength (length data))))
      else
        let fixed_data = drop (length data - footer_size_ignoring_entries) data;
            fourcc = take 4 fixed_data;
            identifier = take 4 (drop 4 fixed_data)
        in if fourcc \<noteq> RRD_FOURCC then Some (Inl (FrameDecoding (StreamFooterFourCC fourcc)))
           else if identifier \<noteq> RRD_IDENTIFIER then Some (Inl (FrameDecoding (StreamFooterIdentifier identifier)))
           else map_option (\<lambda>entries. Inr \<lparr>sf_fourcc = fourcc, sf_identifier = identifier, sf_entries = entries\<rparr>)
             (footer_entries (drop (length data - stream_footer_size) data) 0
               (unat (u32_from_le (take 4 (drop 8 fixed_data))))))"

section \<open>The header of a message\<close>

datatype MessageKind = End | SetStoreInfo | ArrowMsg | BlueprintActivationCommand

record MessageHeader =
  mh_kind :: MessageKind
  mh_len :: u64

definition message_header_size :: nat where "message_header_size = 16"

definition kind_number :: "MessageKind \<Rightarrow> u64" where
  "kind_number k = (case k of End \<Rightarrow> 0 | SetStoreInfo \<Rightarrow> 1 | ArrowMsg \<Rightarrow> 2 | BlueprintActivationCommand \<Rightarrow> 3)"

definition message_header_to_bytes :: "MessageHeader \<Rightarrow> u8 list" where
  "message_header_to_bytes h = u64_to_le (kind_number (mh_kind h)) @ u64_to_le (mh_len h)"

definition message_header_from_bytes :: "u8 list \<Rightarrow> 'x CodecError + MessageHeader" where
  "message_header_from_bytes data =
     (if length data \<noteq> message_header_size then Inl (FrameDecoding (MessageHeaderLength (length data)))
      else let kind = u64_from_le (take 8 data)
        in bind_res
          (if kind = 0 then Inr End else if kind = 1 then Inr SetStoreInfo else if kind = 2 then Inr ArrowMsg
           else if kind = 3 then Inr BlueprintActivationCommand
           else Inl (FrameDecoding (UnknownMessageKind kind)))
          (\<lambda>kind. Inr \<lparr>mh_kind = kind, mh_len = u64_from_le (drop 8 data)\<rparr>))"

section \<open>Frames and their bytes\<close>

lemma digits_from_digits:
  assumes "\<forall>d \<in> set ds. d < 256"
  shows "digits 256 (length ds) (from_digits 256 0 ds) = ds"
  using assms
proof (induction ds rule: rev_induct)
  case (snoc d ds)
  then show ?case using digits_append [of 256 "length ds" 1 "from_digits 256 0 (ds @ [d])"]
    by (simp add: from_digits_append)
qed simp

lemma to_from_le_bytes: "length bytes = k \<Longrightarrow> to_le_bytes k (from_le_bytes bytes) = bytes"
proof -
  assume k: "length bytes = k"
  have "\<forall>d \<in> set (map unat (rev bytes)). d < 256" using unsigned_less [where ?'a = nat and ?'b = 8] by auto
  from digits_from_digits [OF this] show ?thesis
    using k by (simp add: to_le_bytes_def from_le_bytes_def comp_def flip: rev_map)
qed

lemma from_digits_less: "\<forall>d \<in> set ds. d < b \<Longrightarrow> from_digits b 0 ds < b ^ length ds"
proof (induction ds rule: rev_induct)
  case (snoc d ds)
  then have "from_digits b 0 ds + 1 \<le> b ^ length ds" "d < b" by simp_all
  then have "b * from_digits b 0 ds + d < b * (from_digits b 0 ds + 1)" by simp
  also have "\<dots> \<le> b * b ^ length ds" by (rule mult_le_mono2) fact
  finally show ?case by (simp add: from_digits_append mult.commute)
qed simp

lemma to_from_le:
  "length bytes = 4 \<Longrightarrow> u32_to_le (u32_from_le bytes) = bytes"
  "length bytes = 8 \<Longrightarrow> u64_to_le (u64_from_le bytes) = bytes"
proof -
  have "from_le_bytes bytes < 256 ^ length bytes"
    using from_digits_less [of "map unat (rev bytes)" 256] unsigned_less [where ?'a = nat and ?'b = 8]
    by (simp add: from_le_bytes_def)
  then show "length bytes = 4 \<Longrightarrow> u32_to_le (u32_from_le bytes) = bytes"
    "length bytes = 8 \<Longrightarrow> u64_to_le (u64_from_le bytes) = bytes"
    by (simp_all add: u32_to_le_def u32_from_le_def u64_to_le_def u64_from_le_def unat_of_nat to_from_le_bytes)
qed

lemma options_iff: "options_from_bytes data = Inr opts \<longleftrightarrow> data = options_to_bytes opts"
  by (cases opts)
    (auto simp: options_from_bytes_def options_to_bytes_def bind_res_Inr_iff compression_byte_def serializer_byte_def
      split: list.splits if_splits Compression.splits Serializer.splits)

lemma options_from_to [simp]: "options_from_bytes (options_to_bytes opts) = Inr opts"
  by (simp add: options_iff)

text \<open>A header as the encoder writes it.\<close>

definition header_ok :: "StreamHeader \<Rightarrow> bool" where
  "header_ok h \<longleftrightarrow> sh_fourcc h = RRD_FOURCC \<and> length (sh_version h) = 4"

lemma stream_header_iff:
  "stream_header_from_bytes data = Inr h \<longleftrightarrow> header_ok h \<and> data = stream_header_to_bytes h"
proof
  assume dec: "stream_header_from_bytes data = Inr h"
  then have len: "length data = 12" and four: "take 4 data = RRD_FOURCC" and opts: "drop 8 data = options_to_bytes (sh_options h)"
    and h: "sh_fourcc h = RRD_FOURCC" "sh_version h = take 4 (drop 4 data)"
    by (auto simp: stream_header_from_bytes_def stream_header_size_def Let_def bind_res_Inr_iff options_iff split: if_splits)
  have "drop 4 data = take 4 (drop 4 data) @ drop 8 data" using append_take_drop_id [of 4 "drop 4 data"] by simp
  then have "data = take 4 data @ take 4 (drop 4 data) @ drop 8 data" by (metis append_take_drop_id)
  then show "header_ok h \<and> data = stream_header_to_bytes h"
    using opts four h len by (simp add: header_ok_def stream_header_to_bytes_def)
next
  assume "header_ok h \<and> data = stream_header_to_bytes h"
  moreover have "RRD_FOURCC \<notin> set OLD_RRD_FOURCC" by (simp add: RRD_FOURCC_def OLD_RRD_FOURCC_def)
  moreover have "length RRD_FOURCC = 4" by (simp add: RRD_FOURCC_def)
  moreover have "length (options_to_bytes opts) = 4" for opts by (simp add: options_to_bytes_def)
  ultimately show "stream_header_from_bytes data = Inr h"
    by (cases h) (simp add: header_ok_def stream_header_from_bytes_def stream_header_to_bytes_def stream_header_size_def)
qed

lemma kind_number_inject: "kind_number k = kind_number k' \<longleftrightarrow> k = k'"
  by (cases k; cases k') (simp_all add: kind_number_def)

lemma message_header_iff:
  "message_header_from_bytes data = Inr h \<longleftrightarrow> data = message_header_to_bytes h"
proof
  assume dec: "message_header_from_bytes data = Inr h"
  then have len: "length data = 16" and kind: "u64_from_le (take 8 data) = kind_number (mh_kind h)" "mh_len h = u64_from_le (drop 8 data)"
    by (auto simp: message_header_from_bytes_def message_header_size_def bind_res_Inr_iff kind_number_def Let_def split: if_splits)
  have "u64_to_le (kind_number (mh_kind h)) = take 8 data" using to_from_le(2) [of "take 8 data"] len by (simp add: kind(1))
  moreover have "u64_to_le (mh_len h) = drop 8 data" using to_from_le(2) [of "drop 8 data"] len by (simp add: kind(2))
  ultimately show "data = message_header_to_bytes h" by (simp add: message_header_to_bytes_def)
next
  assume "data = message_header_to_bytes h"
  then show "message_header_from_bytes data = Inr h"
    by (cases h) (simp add: message_header_from_bytes_def message_header_to_bytes_def message_header_size_def kind_number_def
        split: MessageKind.split)
qed

definition footer_ok :: "StreamFooter \<Rightarrow> bool" where
  "footer_ok f \<longleftrightarrow> sf_fourcc f = RRD_FOURCC \<and> sf_identifier f = RRD_IDENTIFIER \<and> length (sf_entries f) = 1"

lemma magic_length [simp]: "length RRD_FOURCC = 4" "length RRD_IDENTIFIER = 4"
  by (simp_all add: RRD_FOURCC_def RRD_IDENTIFIER_def)

lemma footer_entry_length [simp]: "length (footer_entry_to_bytes e) = 20"
  by (simp add: footer_entry_to_bytes_def)

lemma stream_footer_encoded:
  assumes "footer_ok f"
  shows "\<exists>bytes. stream_footer_to_bytes f = Some bytes \<and> length bytes = stream_footer_size
    \<and> stream_footer_from_bytes (prefix @ bytes) = Some (Inr f)"
proof -
  obtain e where e: "sf_entries f = [e]" using assms by (auto simp: footer_ok_def length_Suc_conv)
  let ?bytes = "footer_entry_to_bytes e @ RRD_FOURCC @ RRD_IDENTIFIER @ u32_to_le 1"
  have "stream_footer_to_bytes f = Some ?bytes" "length ?bytes = stream_footer_size"
    using assms by (simp_all add: stream_footer_to_bytes_def e footer_ok_def stream_footer_size_def
        footer_size_ignoring_entries_def footer_entry_size_def)
  moreover have "footer_entries ?bytes 0 1 = Some [e]"
    by (cases e) (simp add: footer_entry_at_def slice_def footer_entry_to_bytes_def)
  ultimately show ?thesis using assms e
    by (cases f) (simp add: stream_footer_from_bytes_def footer_ok_def stream_footer_size_def
        footer_size_ignoring_entries_def footer_entry_size_def)
qed

text \<open>What a reader of frames relies on, whatever follows them.\<close>

locale frame_codec =
  fixes encode :: "'a \<Rightarrow> u8 list option" and decode :: "u8 list \<Rightarrow> 'r" and accepts :: "'r \<Rightarrow> 'a \<Rightarrow> bool"
    and valid :: "'a \<Rightarrow> bool" and size :: nat
  assumes encoded: "valid x \<Longrightarrow> \<exists>bytes. encode x = Some bytes \<and> length bytes = size \<and> accepts (decode bytes) x"
begin

lemma read_frame:
  assumes "valid x" "encode x = Some bytes"
  shows "accepts (decode (take size (bytes @ rest))) x" "drop size (bytes @ rest) = rest" "size \<le> length (bytes @ rest)"
  using encoded [OF assms(1)] assms(2) by auto

end

interpretation stream_header: frame_codec "Some \<circ> stream_header_to_bytes" stream_header_from_bytes "\<lambda>r h. r = Inr h"
    header_ok stream_header_size
proof unfold_locales
  fix h assume h: "header_ok h"
  have "length (options_to_bytes opts) = 4" for opts by (simp add: options_to_bytes_def)
  then show "\<exists>bytes. (Some \<circ> stream_header_to_bytes) h = Some bytes \<and> length bytes = stream_header_size
      \<and> stream_header_from_bytes bytes = Inr h"
    using h by (simp add: stream_header_iff) (simp add: stream_header_to_bytes_def header_ok_def stream_header_size_def)
qed

interpretation message_header: frame_codec "Some \<circ> message_header_to_bytes" message_header_from_bytes "\<lambda>r h. r = Inr h"
    "\<lambda>_. True" message_header_size
  by unfold_locales
    (simp add: message_header_iff, simp add: message_header_to_bytes_def message_header_size_def)

interpretation stream_footer: frame_codec stream_footer_to_bytes stream_footer_from_bytes "\<lambda>r f. r = Some (Inr f)"
    footer_ok stream_footer_size
  using stream_footer_encoded [where prefix = "[]"] by unfold_locales simp



text \<open>A footer that announces more than one entry makes the decoder panic: it reads the entries from the
  last 32 bytes.\<close>

lemma footer_entry_out_of_range: "12 < pos \<Longrightarrow> length data = 32 \<Longrightarrow> footer_entry_at data pos = None"
  by (simp add: footer_entry_at_def slice_def)

lemma stream_footer_panics:
  assumes "stream_footer_size \<le> length data" "drop (length data - 12) data = RRD_FOURCC @ RRD_IDENTIFIER @ u32_to_le n" "1 < n"
  shows "stream_footer_from_bytes data = None"
proof -
  obtain k where k: "unat n = Suc (Suc k)"
    using assms(3) by (metis One_nat_def Suc_less_eq2 less_imp_Suc_add unat_1 word_less_nat_alt)
  have "footer_entries (drop (length data - 32) data) 0 (Suc (Suc k)) = None"
    using assms(1) by (simp add: footer_entry_out_of_range footer_entry_size_def stream_footer_size_def
        footer_size_ignoring_entries_def bind_eq_None_conv)
  then show ?thesis using assms k
    by (simp add: stream_footer_from_bytes_def stream_footer_size_def footer_size_ignoring_entries_def footer_entry_size_def
        del: footer_entries.simps)
qed

end
