(* ===== verification/Rrd_Decoder.thy ===== *)
theory Rrd_Decoder
  imports Rrd_Frames
begin

text \<open>
  The push-based decoder of recording streams (\<open>rrd/decoder/state_machine.rs\<close> and \<open>rrd/decoder/mod.rs\<close> of
  \<open>re_log_encoding\<close>): the queue of byte chunks with its read buffer, and the state machine over it.
  What a payload means is the parameter \<open>entry\<close>, the \<open>decode\<close> of \<open>DecoderEntrypoint\<close>; Protobuf decoding
  is third-party code. Reading may not return (no result) and may panic (\<open>Panics\<close>).
\<close>

section \<open>The byte chunks\<close>

text \<open>A chunk is a cursor: its bytes and a position.\<close>

record ByteChunkBuffer =
  bc_queue :: "(u8 list \<times> nat) list"
  bc_buffer :: "u8 list"
  bc_buffer_fill :: nat
  bc_num_read :: nat

definition buffer_new :: ByteChunkBuffer where
  "buffer_new = \<lparr>bc_queue = [], bc_buffer = [], bc_buffer_fill = 0, bc_num_read = 0\<rparr>"

definition buffer_push :: "u8 list \<Rightarrow> ByteChunkBuffer \<Rightarrow> ByteChunkBuffer" where
  "buffer_push byte_chunk b = (if byte_chunk = [] then b else b\<lparr>bc_queue := bc_queue b @ [(byte_chunk, 0)]\<rparr>)"

definition is_byte_chunk_empty :: "u8 list \<times> nat \<Rightarrow> bool" where
  "is_byte_chunk_empty = (\<lambda>(bytes, pos). length bytes \<le> pos)"

definition vec_resize :: "nat \<Rightarrow> u8 list \<Rightarrow> u8 list" where
  "vec_resize n xs = take n xs @ replicate (n - length xs) 0"

text \<open>The loop of \<open>try_read\<close>. A chunk that is not empty after reading has filled the buffer.\<close>

fun fill_buffer :: "nat \<Rightarrow> (u8 list \<times> nat) list \<Rightarrow> u8 list \<Rightarrow> nat \<Rightarrow> (u8 list \<times> nat) list \<times> u8 list \<times> nat" where
  "fill_buffer n [] buffer fill = ([], buffer, fill)"
| "fill_buffer n ((bytes, pos) # queue) buffer fill =
     (if fill = n then ((bytes, pos) # queue, buffer, fill)
      else
        let read = take (length buffer - fill) (drop pos bytes);
            buffer = take fill buffer @ read @ drop (fill + length read) buffer;
            fill = fill + length read;
            chunk = (bytes, pos + length read)
        in if is_byte_chunk_empty chunk then fill_buffer n queue buffer fill else (chunk # queue, buffer, fill))"

text \<open>No result is the failed assertion that the size has not changed within a read.\<close>

definition buffer_try_read :: "nat \<Rightarrow> ByteChunkBuffer \<Rightarrow> (u8 list option \<times> ByteChunkBuffer) option" where
  "buffer_try_read n b =
     (if length (bc_buffer b) \<noteq> n \<and> bc_buffer_fill b \<noteq> 0 then None
      else
        let buffer = (if length (bc_buffer b) \<noteq> n then vec_resize n (bc_buffer b) else bc_buffer b);
            (queue, buffer, fill) = fill_buffer n (bc_queue b) buffer (bc_buffer_fill b)
        in Some (if fill = n
             then (Some buffer, b\<lparr>bc_queue := queue, bc_buffer := [], bc_buffer_fill := 0, bc_num_read := bc_num_read b + n\<rparr>)
             else (None, b\<lparr>bc_queue := queue, bc_buffer := buffer, bc_buffer_fill := fill\<rparr>)))"

fun peek_chunks :: "nat \<Rightarrow> u8 list \<Rightarrow> (u8 list \<times> nat) list \<Rightarrow> u8 list" where
  "peek_chunks target_len out [] = out"
| "peek_chunks target_len out ((bytes, pos) # queue) =
     (if length out = target_len then out
      else peek_chunks target_len (out @ take (target_len - length out) (drop pos bytes)) queue)"

definition buffer_try_peek :: "nat \<Rightarrow> ByteChunkBuffer \<Rightarrow> u8 list" where
  "buffer_try_peek target_len b =
     peek_chunks target_len
       (if target_len = length (bc_buffer b) then take (bc_buffer_fill b) (bc_buffer b) else []) (bc_queue b)"

section \<open>The state machine\<close>

datatype DecoderState =
    WaitingForStreamHeader | WaitingForMessageHeader | WaitingForMessagePayload MessageHeader
  | WaitingForStreamFooter | Aborted

text \<open>\<open>'c\<close> is the cache of application ids, \<open>'f\<close> a manifest.\<close>

record ('c, 'f) Decoder =
  d_version :: "CrateVersion option"
  d_options :: EncodingOptions
  d_byte_chunks :: ByteChunkBuffer
  d_state :: DecoderState
  d_app_id_cache :: 'c
  d_rrd_manifests :: "'f list"

definition decoder_new :: "'c \<Rightarrow> ('c, 'f) Decoder" where
  "decoder_new cache = \<lparr>d_version = None, d_options = PROTOBUF_UNCOMPRESSED, d_byte_chunks = buffer_new,
     d_state = WaitingForStreamHeader, d_app_id_cache = cache, d_rrd_manifests = []\<rparr>"

definition push_byte_chunk :: "u8 list \<Rightarrow> ('c, 'f) Decoder \<Rightarrow> ('c, 'f) Decoder" where
  "push_byte_chunk byte_chunk d = d\<lparr>d_byte_chunks := buffer_push byte_chunk (d_byte_chunks d)\<rparr>"

text \<open>\<open>DecoderEntrypoint::decode\<close> and the decoding of a footer's payload.\<close>

type_synonym ('c, 'm, 'x) entry =
  "u8 list \<Rightarrow> nat \<times> nat \<Rightarrow> MessageKind \<Rightarrow> 'c \<Rightarrow> CrateVersion option \<Rightarrow> ('x CodecError + 'm option) \<times> 'c"

type_synonym ('f, 'x) footer_entry = "u8 list \<Rightarrow> 'x CodecError + 'f list"

datatype ('m, 'x) outcome = Again | Returns "'x CodecError + 'm option" | Panics

text \<open>One round of \<open>try_read_impl\<close>; \<open>Again\<close> is its call of \<open>try_read\<close>.\<close>

definition read_stream_header ::
  "CrateVersion \<Rightarrow> ('c, 'f) Decoder \<Rightarrow> ('m, 'x) outcome \<times> ('c, 'f) Decoder" where
  "read_stream_header local d =
     (let is_first_header = (bc_num_read (d_byte_chunks d) = 0)
      in case buffer_try_read stream_header_size (d_byte_chunks d) of
           None \<Rightarrow> (Panics, d)
         | Some (None, b) \<Rightarrow> (Returns (Inr None), d\<lparr>d_byte_chunks := b\<rparr>)
         | Some (Some header_data, b) \<Rightarrow>
             let d = d\<lparr>d_byte_chunks := b\<rparr>
             in case bind_res (stream_header_from_bytes header_data) (to_version_and_options local) of
                  Inl err \<Rightarrow> if is_first_header then (Returns (Inl err), d)
                             else (Returns (Inr None), d\<lparr>d_state := Aborted\<rparr>)
                | Inr (version, options) \<Rightarrow>
                    (Again, d\<lparr>d_version := Some version, d_options := options, d_state := WaitingForMessageHeader\<rparr>))"

definition read_message_header :: "('c, 'f) Decoder \<Rightarrow> ('m, 'x) outcome \<times> ('c, 'f) Decoder" where
  "read_message_header d =
     (let peeked = buffer_try_peek message_header_size (d_byte_chunks d)
      in if length peeked = message_header_size then
           case message_header_from_bytes peeked of
             Inr header \<Rightarrow>
               (case buffer_try_read message_header_size (d_byte_chunks d) of
                  Some (Some _, b) \<Rightarrow> (Again, d\<lparr>d_byte_chunks := b, d_state := WaitingForMessagePayload header\<rparr>)
                | _ \<Rightarrow> (Panics, d))
           | Inl (FrameDecoding _) \<Rightarrow> (Again, d\<lparr>d_state := WaitingForStreamHeader\<rparr>)
           | Inl err \<Rightarrow> (Returns (Inl err), d)
         else (Returns (Inr None), d))"

definition read_message_payload ::
  "('c, 'm, 'x) entry \<Rightarrow> ('f, 'x) footer_entry \<Rightarrow> MessageHeader \<Rightarrow> ('c, 'f) Decoder \<Rightarrow>
     ('m, 'x) outcome \<times> ('c, 'f) Decoder" where
  "read_message_payload entry footer_entry header d =
     (let start_offset = bc_num_read (d_byte_chunks d)
      in case buffer_try_read (unat (mh_len header)) (d_byte_chunks d) of
           None \<Rightarrow> (Panics, d)
         | Some (None, b) \<Rightarrow> (Returns (Inr None), d\<lparr>d_byte_chunks := b\<rparr>)
         | Some (Some bytes, b) \<Rightarrow>
             let (message, cache) = entry bytes (start_offset, length bytes) (mh_kind header) (d_app_id_cache d) (d_version d);
                 d = d\<lparr>d_byte_chunks := b, d_app_id_cache := cache\<rparr>
             in case message of
                  Inl err \<Rightarrow> (Returns (Inl err), d\<lparr>d_state := WaitingForMessageHeader\<rparr>)
                | Inr (Some message) \<Rightarrow> (Returns (Inr (Some message)), d\<lparr>d_state := WaitingForMessageHeader\<rparr>)
                | Inr None \<Rightarrow>
                    if bytes \<noteq> [] then
                      case footer_entry bytes of
                        Inl err \<Rightarrow> (Returns (Inl err), d)
                      | Inr manifests \<Rightarrow>
                          (Again, d\<lparr>d_rrd_manifests := d_rrd_manifests d @ manifests, d_state := WaitingForStreamFooter\<rparr>)
                    else (Again, d\<lparr>d_state := WaitingForStreamFooter\<rparr>))"

definition read_stream_footer :: "('c, 'f) Decoder \<Rightarrow> ('m, 'x) outcome \<times> ('c, 'f) Decoder" where
  "read_stream_footer d =
     (case buffer_try_read stream_footer_size (d_byte_chunks d) of
        None \<Rightarrow> (Panics, d)
      | Some (None, b) \<Rightarrow> (Returns (Inr None), d\<lparr>d_byte_chunks := b\<rparr>)
      | Some (Some bytes, b) \<Rightarrow>
          let d = d\<lparr>d_byte_chunks := b\<rparr>
          in case (stream_footer_from_bytes bytes :: (unit CodecError + StreamFooter) option) of
               None \<Rightarrow> (Panics, d)
             | Some (Inr footer) \<Rightarrow> (Again, d\<lparr>d_state := WaitingForStreamHeader\<rparr>)
             | Some (Inl err) \<Rightarrow> (Returns (Inr None), d\<lparr>d_state := Aborted\<rparr>))"

definition try_read_step ::
  "CrateVersion \<Rightarrow> ('c, 'm, 'x) entry \<Rightarrow> ('f, 'x) footer_entry \<Rightarrow> ('c, 'f) Decoder \<Rightarrow>
     ('m, 'x) outcome \<times> ('c, 'f) Decoder" where
  "try_read_step local entry footer_entry d =
     (case d_state d of
        WaitingForStreamHeader \<Rightarrow> read_stream_header local d
      | WaitingForMessageHeader \<Rightarrow> read_message_header d
      | WaitingForMessagePayload header \<Rightarrow> read_message_payload entry footer_entry header d
      | WaitingForStreamFooter \<Rightarrow> read_stream_footer d
      | Aborted \<Rightarrow> (Returns (Inr None), d))"

text \<open>\<open>try_read\<close> drops messages whose application id is not known yet.\<close>

partial_function (option) decoder_try_read ::
  "CrateVersion \<Rightarrow> ('c, 'm, 'x) entry \<Rightarrow> ('f, 'x) footer_entry \<Rightarrow> ('c, 'f) Decoder \<Rightarrow>
     (('m, 'x) outcome \<times> ('c, 'f) Decoder) option" where
  "decoder_try_read local entry footer_entry d =
     (case try_read_step local entry footer_entry d of
        (Again, d) \<Rightarrow> decoder_try_read local entry footer_entry d
      | (Returns (Inl StoreIdMissingApplicationId), d) \<Rightarrow> decoder_try_read local entry footer_entry d
      | (result, d) \<Rightarrow> Some (result, d))"

section \<open>Protobuf messages\<close>

text \<open>The encoders and decoders that \<open>prost\<close> generates for the messages.\<close>

record ('s, 'a, 'b, 'f, 'x) Prost =
  enc_store_info :: "'s \<Rightarrow> u8 list"
  dec_store_info :: "u8 list \<Rightarrow> 'x + 's"
  enc_arrow_msg :: "'a \<Rightarrow> u8 list"
  dec_arrow_msg :: "u8 list \<Rightarrow> 'x + 'a"
  enc_blueprint :: "'b \<Rightarrow> u8 list"
  dec_blueprint :: "u8 list \<Rightarrow> 'x + 'b"
  enc_footer :: "'f list \<Rightarrow> u8 list"
  dec_footer :: "u8 list \<Rightarrow> 'x + 'f list"

datatype ('s, 'a, 'b) Msg = MsgSetStoreInfo 's | MsgArrowMsg 'a | MsgBlueprintActivation 'b

definition codec_res :: "('a \<Rightarrow> 'm) \<Rightarrow> 'x + 'a \<Rightarrow> 'x CodecError + 'm" where
  "codec_res f r = (case r of Inl e \<Rightarrow> Inl (PayloadError e) | Inr x \<Rightarrow> Inr (f x))"

definition msg_entry :: "('s, 'a, 'b, 'f, 'x) Prost \<Rightarrow> ('c, ('s, 'a, 'b) Msg, 'x) entry" where
  "msg_entry p = (\<lambda>data span kind cache version.
     (case kind of
        SetStoreInfo \<Rightarrow> codec_res (Some \<circ> MsgSetStoreInfo) (dec_store_info p data)
      | ArrowMsg \<Rightarrow> codec_res (Some \<circ> MsgArrowMsg) (dec_arrow_msg p data)
      | BlueprintActivationCommand \<Rightarrow> codec_res (Some \<circ> MsgBlueprintActivation) (dec_blueprint p data)
      | End \<Rightarrow> Inr None, cache))"

definition msg_footer_entry :: "('s, 'a, 'b, 'f, 'x) Prost \<Rightarrow> ('f, 'x) footer_entry" where
  "msg_footer_entry p = (\<lambda>data. codec_res (\<lambda>f. f) (dec_footer p data))"

definition with_header :: "MessageKind \<Rightarrow> u8 list \<Rightarrow> u8 list" where
  "with_header kind payload =
     message_header_to_bytes \<lparr>mh_kind = kind, mh_len = of_nat (length payload)\<rparr> @ payload"

definition msg_to_bytes :: "('s, 'a, 'b, 'f, 'x) Prost \<Rightarrow> ('s, 'a, 'b) Msg \<Rightarrow> u8 list" where
  "msg_to_bytes p msg = (case msg of
     MsgSetStoreInfo m \<Rightarrow> with_header SetStoreInfo (enc_store_info p m)
   | MsgArrowMsg m \<Rightarrow> with_header ArrowMsg (enc_arrow_msg p m)
   | MsgBlueprintActivation m \<Rightarrow> with_header BlueprintActivationCommand (enc_blueprint p m))"

text \<open>No result is the panic on data shorter than a header.\<close>

definition option_msg_from_bytes ::
  "('s, 'a, 'b, 'f, 'x) Prost \<Rightarrow> u8 list \<Rightarrow> ('x CodecError + ('s, 'a, 'b) Msg option) option" where
  "option_msg_from_bytes p data =
     (if length data < message_header_size then None
      else Some (bind_res (message_header_from_bytes (take message_header_size data)) (\<lambda>header.
        fst (msg_entry p (drop message_header_size data) (0, 0) (mh_kind header) () None))))"

end
