(* ===== verification/Rrd_Encoder.thy ===== *)
theory Rrd_Encoder
  imports Rrd_Decoder "HOL-Library.AList"
begin

text \<open>
  The encoder of recording streams (\<open>rrd/encoder.rs\<close> of \<open>re_log_encoding\<close>), writing to a vector of bytes.
  The translation of log messages to Protobuf messages and the builder of manifests, which works on
  Arrow data, are the fields of the parameter \<open>Transport\<close>. An operation returns its result and the
  encoder it leaves behind.
\<close>

datatype ('i, 's, 'a, 'b) LogMsg =
    LogSetStoreInfo (log_store_id: 'i) 's | LogArrowMsg (log_store_id: 'i) 'a | LogBlueprintActivation 'b

record ('i, 's, 'a, 'b, 'ps, 'pa, 'pb, 'k, 'mb, 'f, 'x) Transport =
  to_transport :: "Compression \<Rightarrow> ('i, 's, 'a, 'b) LogMsg \<Rightarrow> 'x + ('ps, 'pa, 'pb) Msg"
  byte_size_uncompressed :: "('ps, 'pa, 'pb) Msg \<Rightarrow> u64"
  builder_default :: 'mb
  chunk_batch :: "'a \<Rightarrow> 'x + 'k"
  builder_append :: "'k \<Rightarrow> u64 \<times> u64 \<Rightarrow> u64 \<Rightarrow> 'mb \<Rightarrow> ('x + unit) \<times> 'mb"
  builder_build :: "'i \<Rightarrow> 'mb \<Rightarrow> 'x + 'f"

datatype 'x EncodeError = AlreadyFinished | AlreadyUnwrapped | EncodeFailed 'x

definition encode_res :: "'x + 'a \<Rightarrow> 'x EncodeError + 'a" where
  "encode_res r = (case r of Inl e \<Rightarrow> Inl (EncodeFailed e) | Inr x \<Rightarrow> Inr x)"

section \<open>The state of the footer\<close>

record ('i, 'mb) ManifestState =
  ms_recording_ids :: "'i list"
  ms_manifest :: 'mb

record ('i, 'mb) FooterState =
  recording_id_scope :: "'i option"
  fs_manifests :: "('i \<times> ('i, 'mb) ManifestState) list"

definition footer_state_default :: "('i, 'mb) FooterState" where
  "footer_state_default = \<lparr>recording_id_scope = None, fs_manifests = []\<rparr>"

text \<open>A failing builder leaves the entry of the recording behind.\<close>

definition footer_state_append ::
  "('i, 's, 'a, 'b, 'ps, 'pa, 'pb, 'k, 'mb, 'f, 'x) Transport \<Rightarrow> ('i, 's, 'a, 'b) LogMsg \<Rightarrow> u64 \<times> u64 \<Rightarrow> u64 \<Rightarrow>
     ('i, 'mb) FooterState \<Rightarrow> ('x EncodeError + unit) \<times> ('i, 'mb) FooterState" where
  "footer_state_append t msg span uncompressed fs =
     (case msg of
        LogSetStoreInfo store_id _ \<Rightarrow> (Inr (), fs\<lparr>recording_id_scope := Some store_id\<rparr>)
      | LogArrowMsg store_id batch \<Rightarrow>
          (case chunk_batch t batch of
             Inl e \<Rightarrow> (Inl (EncodeFailed e), fs)
           | Inr batch \<Rightarrow>
               let recording_id = (case recording_id_scope fs of Some i \<Rightarrow> i | None \<Rightarrow> store_id);
                   ms = (case map_of (fs_manifests fs) recording_id of
                           Some ms \<Rightarrow> ms | None \<Rightarrow> \<lparr>ms_recording_ids = [], ms_manifest = builder_default t\<rparr>);
                   (result, mb) = builder_append t batch span uncompressed (ms_manifest ms)
               in (encode_res result, fs\<lparr>fs_manifests := AList.update recording_id
                    \<lparr>ms_recording_ids = ms_recording_ids ms @ [recording_id], ms_manifest = mb\<rparr> (fs_manifests fs)\<rparr>))
      | LogBlueprintActivation _ \<Rightarrow> (Inr (), fs))"

fun build_manifests ::
  "('i, 's, 'a, 'b, 'ps, 'pa, 'pb, 'k, 'mb, 'f, 'x) Transport \<Rightarrow> ('i \<times> ('i, 'mb) ManifestState) list \<Rightarrow>
     'x EncodeError + 'f list" where
  "build_manifests t [] = Inr []"
| "build_manifests t ((store_id, ms) # rest) =
     bind_res (encode_res (builder_build t store_id (ms_manifest ms))) (\<lambda>m.
     bind_res (build_manifests t rest) (\<lambda>manifests. Inr (m # manifests)))"

text \<open>The manifests come in the order of a hash map.\<close>

definition footer_state_finish ::
  "(('i \<times> ('i, 'mb) ManifestState) list \<Rightarrow> ('i \<times> ('i, 'mb) ManifestState) list) \<Rightarrow>
     ('i, 's, 'a, 'b, 'ps, 'pa, 'pb, 'k, 'mb, 'f, 'x) Transport \<Rightarrow> ('i, 'mb) FooterState \<Rightarrow> 'x EncodeError + 'f list" where
  "footer_state_finish hash_order t fs = build_manifests t (hash_order (fs_manifests fs))"

section \<open>The encoder\<close>

record ('i, 'mb) Encoder =
  en_serializer :: Serializer
  en_compression :: Compression
  en_write :: "u8 list option"
  en_num_written :: u64
  en_footer_state :: "('i, 'mb) FooterState option"
  en_is_finished :: bool

definition encoder_new_eager :: "CrateVersion \<Rightarrow> EncodingOptions \<Rightarrow> u8 list \<Rightarrow> ('i, 'mb) Encoder" where
  "encoder_new_eager version opts write =
     (let out = stream_header_to_bytes \<lparr>sh_fourcc = RRD_FOURCC, sh_version = version_to_bytes version, sh_options = opts\<rparr>
      in \<lparr>en_serializer = eo_serializer opts, en_compression = eo_compression opts, en_write = Some (write @ out),
          en_num_written = of_nat (length out), en_footer_state = Some footer_state_default, en_is_finished = False\<rparr>)"

definition do_not_emit_footer :: "('i, 'mb) Encoder \<Rightarrow> ('i, 'mb) Encoder" where
  "do_not_emit_footer en = en\<lparr>en_footer_state := None\<rparr>"

definition write_encodable ::
  "u8 list \<Rightarrow> ('i, 'mb) Encoder \<Rightarrow> ('x EncodeError + u64 \<times> (u64 \<times> u64)) \<times> ('i, 'mb) Encoder" where
  "write_encodable scratch en =
     (if en_is_finished en then (Inl AlreadyFinished, en)
      else case en_write en of
        None \<Rightarrow> (Inl AlreadyUnwrapped, en)
      | Some w \<Rightarrow>
          let offset = en_num_written en + of_nat message_header_size; n = of_nat (length scratch)
          in (Inr (n, (offset, n - of_nat message_header_size)),
              en\<lparr>en_write := Some (w @ scratch), en_num_written := en_num_written en + n\<rparr>))"

definition encoder_append ::
  "('i, 's, 'a, 'b, 'ps, 'pa, 'pb, 'k, 'mb, 'f, 'x) Transport \<Rightarrow> ('ps, 'pa, 'pb, 'f, 'x) Prost \<Rightarrow>
     ('i, 's, 'a, 'b) LogMsg \<Rightarrow> ('i, 'mb) Encoder \<Rightarrow> ('x EncodeError + u64) \<times> ('i, 'mb) Encoder" where
  "encoder_append t p message en =
     (case to_transport t (en_compression en) message of
        Inl e \<Rightarrow> (Inl (EncodeFailed e), en)
      | Inr transport \<Rightarrow>
          (case write_encodable (msg_to_bytes p transport) en of
             (Inl e, en) \<Rightarrow> (Inl e, en)
           | (Inr (n, span), en) \<Rightarrow>
               (case en_footer_state en of
                  None \<Rightarrow> (Inr n, en)
                | Some fs \<Rightarrow>
                    let (result, fs) = footer_state_append t message span (byte_size_uncompressed t transport) fs
                    in (bind_res result (\<lambda>_. Inr n), en\<lparr>en_footer_state := Some fs\<rparr>))))"

fun encoder_extend ::
  "('i, 's, 'a, 'b, 'ps, 'pa, 'pb, 'k, 'mb, 'f, 'x) Transport \<Rightarrow> ('ps, 'pa, 'pb, 'f, 'x) Prost \<Rightarrow> u64 \<Rightarrow>
     ('i, 's, 'a, 'b) LogMsg list \<Rightarrow> ('i, 'mb) Encoder \<Rightarrow> ('x EncodeError + u64) \<times> ('i, 'mb) Encoder" where
  "encoder_extend t p written [] en = (Inr written, en)"
| "encoder_extend t p written (message # messages) en =
     (case encoder_append t p message en of
        (Inl e, en) \<Rightarrow> (Inl e, en)
      | (Inr n, en) \<Rightarrow> encoder_extend t p (written + n) messages en)"

definition append_transport_without_footer ::
  "('i, 's, 'a, 'b, 'ps, 'pa, 'pb, 'k, 'mb, 'f, 'x) Transport \<Rightarrow> ('ps, 'pa, 'pb, 'f, 'x) Prost \<Rightarrow>
     ('ps, 'pa, 'pb) Msg \<Rightarrow> ('i, 'mb) Encoder \<Rightarrow> ('x EncodeError + (u64 \<times> u64) \<times> u64) \<times> ('i, 'mb) Encoder" where
  "append_transport_without_footer t p message en =
     (case write_encodable (msg_to_bytes p message) (do_not_emit_footer en) of
        (Inl e, en) \<Rightarrow> (Inl e, en)
      | (Inr (_, span), en) \<Rightarrow> (Inr (span, byte_size_uncompressed t message), en))"

text \<open>The end marker with the footer's payload, and the stream footer. The writer is there, and a stream
  footer with one entry has the size that is asserted.\<close>

definition finish_impl ::
  "(u8 list \<Rightarrow> u32) \<Rightarrow> ('ps, 'pa, 'pb, 'f, 'x) Prost \<Rightarrow> 'f list \<Rightarrow> ('i, 'mb) Encoder \<Rightarrow> ('i, 'mb) Encoder" where
  "finish_impl crc p rrd_footer en =
     (let out_rrd_footer = enc_footer p rrd_footer;
          out_header = message_header_to_bytes \<lparr>mh_kind = End, mh_len = of_nat (length out_rrd_footer)\<rparr>;
          offset = en_num_written en + of_nat (length out_header);
          out_stream_footer = (case stream_footer_to_bytes (footer_from_rrd_footer_bytes crc offset out_rrd_footer) of
            Some out \<Rightarrow> out | None \<Rightarrow> []);
          out = out_header @ out_rrd_footer @ out_stream_footer
      in en\<lparr>en_write := map_option (\<lambda>w. w @ out) (en_write en), en_num_written := en_num_written en + of_nat (length out)\<rparr>)"

definition encoder_finish ::
  "(u8 list \<Rightarrow> u32) \<Rightarrow> (('i \<times> ('i, 'mb) ManifestState) list \<Rightarrow> ('i \<times> ('i, 'mb) ManifestState) list) \<Rightarrow>
     ('i, 's, 'a, 'b, 'ps, 'pa, 'pb, 'k, 'mb, 'f, 'x) Transport \<Rightarrow> ('ps, 'pa, 'pb, 'f, 'x) Prost \<Rightarrow>
     ('i, 'mb) Encoder \<Rightarrow> ('x EncodeError + unit) \<times> ('i, 'mb) Encoder" where
  "encoder_finish crc hash_order t p en =
     (if en_is_finished en then (Inr (), en)
      else if en_write en = None then (Inl AlreadyUnwrapped, en)
      else case en_footer_state en of
        None \<Rightarrow> (Inr (), en\<lparr>en_is_finished := True\<rparr>)
      | Some fs \<Rightarrow>
          let en = en\<lparr>en_is_finished := True, en_footer_state := None\<rparr>
          in case footer_state_finish hash_order t fs of
               Inl e \<Rightarrow> (Inl e, en)
             | Inr rrd_footer \<Rightarrow> (Inr (), finish_impl crc p rrd_footer en))"

definition finish_with_custom_footer ::
  "(u8 list \<Rightarrow> u32) \<Rightarrow> ('ps, 'pa, 'pb, 'f, 'x) Prost \<Rightarrow> 'f list \<Rightarrow> ('i, 'mb) Encoder \<Rightarrow>
     ('x EncodeError + unit) \<times> ('i, 'mb) Encoder" where
  "finish_with_custom_footer crc p rrd_footer en =
     (if en_is_finished en then (Inr (), en)
      else if en_write en = None then (Inl AlreadyUnwrapped, en)
      else (Inr (), finish_impl crc p rrd_footer (en\<lparr>en_is_finished := True\<rparr>)))"

definition encoder_into_inner :: "('i, 'mb) Encoder \<Rightarrow> 'x EncodeError + u8 list" where
  "encoder_into_inner en = (case en_write en of None \<Rightarrow> Inl AlreadyUnwrapped | Some w \<Rightarrow> Inr w)"

text \<open>\<open>Encoder::encode\<close>: all messages, the footer, and the bytes.\<close>

definition encode_all ::
  "CrateVersion \<Rightarrow> (u8 list \<Rightarrow> u32) \<Rightarrow>
     (('i \<times> ('i, 'mb) ManifestState) list \<Rightarrow> ('i \<times> ('i, 'mb) ManifestState) list) \<Rightarrow>
     ('i, 's, 'a, 'b, 'ps, 'pa, 'pb, 'k, 'mb, 'f, 'x) Transport \<Rightarrow> ('ps, 'pa, 'pb, 'f, 'x) Prost \<Rightarrow>
     ('i, 's, 'a, 'b) LogMsg list \<Rightarrow> 'x EncodeError + u8 list" where
  "encode_all local crc hash_order t p messages =
     (case encoder_extend t p 0 messages (encoder_new_eager local PROTOBUF_COMPRESSED []) of
        (Inl e, _) \<Rightarrow> Inl e
      | (Inr _, en) \<Rightarrow>
          (case encoder_finish crc hash_order t p en of
             (Inl e, _) \<Rightarrow> Inl e
           | (Inr _, en) \<Rightarrow> encoder_into_inner en))"

text \<open>\<open>Encoder::encode_into\<close>: appends to what is written already; dropping the encoder finishes the
  stream, and an error of that is only logged.\<close>

definition encode_into ::
  "(u8 list \<Rightarrow> u32) \<Rightarrow> (('i \<times> ('i, 'mb) ManifestState) list \<Rightarrow> ('i \<times> ('i, 'mb) ManifestState) list) \<Rightarrow>
     ('i, 's, 'a, 'b, 'ps, 'pa, 'pb, 'k, 'mb, 'f, 'x) Transport \<Rightarrow> ('ps, 'pa, 'pb, 'f, 'x) Prost \<Rightarrow>
     CrateVersion \<Rightarrow> EncodingOptions \<Rightarrow> ('i, 's, 'a, 'b) LogMsg list \<Rightarrow> u8 list \<Rightarrow>
     ('x EncodeError + u64) \<times> u8 list option" where
  "encode_into crc hash_order t p version opts messages write =
     (let (result, en) = encoder_extend t p 0 messages (encoder_new_eager version opts write);
          (_, en) = (encoder_finish crc hash_order t p en :: ('x EncodeError + unit) \<times> _)
      in (result, en_write en))"

end
