(* ===== verification/Rrd_Decoder_Props.thy ===== *)
theory Rrd_Decoder_Props
  imports Rrd_Decoder
begin

text \<open>
  The decoder refines a decoder over one flat string of bytes, always returns, and gives the same
  messages however its input is cut into chunks.
\<close>

section \<open>The byte chunks as one string\<close>

definition queued_bytes :: "(u8 list \<times> nat) list \<Rightarrow> u8 list" where
  "queued_bytes queue = concat (map (\<lambda>(bytes, pos). drop pos bytes) queue)"

lemma queued_bytes_simps [simp]:
  "queued_bytes [] = []" "queued_bytes ((bytes, pos) # queue) = drop pos bytes @ queued_bytes queue"
  "queued_bytes (q1 @ q2) = queued_bytes q1 @ queued_bytes q2"
  by (simp_all add: queued_bytes_def)

definition unread :: "ByteChunkBuffer \<Rightarrow> u8 list" where
  "unread b = take (bc_buffer_fill b) (bc_buffer b) @ queued_bytes (bc_queue b)"

definition buffer_ok :: "ByteChunkBuffer \<Rightarrow> bool" where
  "buffer_ok b \<longleftrightarrow> bc_buffer_fill b \<le> length (bc_buffer b) \<and> (\<forall>(bytes, pos) \<in> set (bc_queue b). pos < length bytes)"

text \<open>A read of \<open>n\<close> bytes may be under way, and no other.\<close>

definition buffer_ready :: "nat \<Rightarrow> ByteChunkBuffer \<Rightarrow> bool" where
  "buffer_ready n b \<longleftrightarrow> bc_buffer_fill b = 0 \<or> length (bc_buffer b) = n"

locale byte_source =
  fixes bytes :: "'s \<Rightarrow> u8 list" and count :: "'s \<Rightarrow> nat" and ok :: "'s \<Rightarrow> bool" and ready :: "nat \<Rightarrow> 's \<Rightarrow> bool"
    and push :: "u8 list \<Rightarrow> 's \<Rightarrow> 's" and try_read :: "nat \<Rightarrow> 's \<Rightarrow> (u8 list option \<times> 's) option" and try_peek :: "nat \<Rightarrow> 's \<Rightarrow> u8 list"
  assumes pushed: "ok s \<Longrightarrow> ok (push c s) \<and> bytes (push c s) = bytes s @ c \<and> count (push c s) = count s"
    and push_ready: "ready n (push c s) = ready n s"
    and read: "ok s \<Longrightarrow> ready n s \<Longrightarrow> \<exists>r s'. try_read n s = Some (r, s') \<and> ok s' \<and>
      (if n \<le> length (bytes s) then r = Some (take n (bytes s)) \<and> bytes s' = drop n (bytes s) \<and> count s' = count s + n \<and> (\<forall>m. ready m s')
       else r = None \<and> bytes s' = bytes s \<and> count s' = count s \<and> ready n s')"
    and peek: "ok s \<Longrightarrow> ready n s \<Longrightarrow> try_peek n s = take n (bytes s)"
begin

lemma read_all:
  assumes "ok s" "ready n s" "n \<le> length (bytes s)"
  obtains s' where "try_read n s = Some (Some (take n (bytes s)), s')" "ok s'" "bytes s' = drop n (bytes s)"
    "count s' = count s + n" "\<And>m. ready m s'"
  using read [OF assms(1,2)] assms(3) by auto

lemma read_some:
  assumes "ok s" "ready n s" "\<not> n \<le> length (bytes s)"
  obtains s' where "try_read n s = Some (None, s')" "ok s'" "bytes s' = bytes s" "count s' = count s" "ready n s'"
  using read [OF assms(1,2)] assms(3) by auto

text \<open>What was there can be read before and after more arrives.\<close>

lemma push_read:
  assumes "ok s" "ready n s" "n \<le> length (bytes s)"
  shows "\<exists>r s1 s2. try_read n s = Some (r, s1) \<and> try_read n (push c s) = Some (r, s2) \<and> bytes s2 = bytes s1 @ c"
proof -
  have more: "ok (push c s)" "ready n (push c s)" "bytes (push c s) = bytes s @ c" using pushed [OF assms(1)] push_ready assms by simp_all
  obtain s1 where s1: "try_read n s = Some (Some (take n (bytes s)), s1)" "bytes s1 = drop n (bytes s)" using read_all [OF assms] .
  obtain s2 where s2: "try_read n (push c s) = Some (Some (take n (bytes s @ c)), s2)" "bytes s2 = drop n (bytes s @ c)"
    using read_all [OF more(1,2)] more(3) assms(3) by (metis length_append trans_le_add1)
  show ?thesis using s1 s2 assms(3) by simp
qed

end

lemma fill_buffer_ok:
  assumes "fill_buffer n queue buffer fill = (queue', buffer', fill')" "length buffer = n" "fill \<le> n"
    and "\<forall>(bytes, pos) \<in> set queue. pos < length bytes"
  shows "length buffer' = n \<and> fill' \<le> n \<and> take fill' buffer' @ queued_bytes queue' = take fill buffer @ queued_bytes queue
    \<and> (fill' = n \<or> queue' = []) \<and> (\<forall>(bytes, pos) \<in> set queue'. pos < length bytes)"
  using assms
proof (induction n queue buffer fill rule: fill_buffer.induct)
  case (2 n bytes pos queue buffer fill)
  show ?case
  proof (cases "fill = n")
    case True
    then show ?thesis using 2 by auto
  next
    case False
    define read where "read = take (length buffer - fill) (drop pos bytes)"
    define buffer1 where "buffer1 = take fill buffer @ read @ drop (fill + length read) buffer"
    have read_len: "length read \<le> n - fill" using 2(3) by (simp add: read_def)
    then have len: "length buffer1 = n" "fill + length read \<le> n" "take (fill + length read) buffer1 = take fill buffer @ read"
      using 2(3,4) by (simp_all add: buffer1_def)
    have run: "fill_buffer n ((bytes, pos) # queue) buffer fill =
        (if length bytes \<le> pos + length read then fill_buffer n queue buffer1 (fill + length read)
         else ((bytes, pos + length read) # queue, buffer1, fill + length read))"
      using False by (simp add: Let_def read_def [symmetric] buffer1_def [symmetric] is_byte_chunk_empty_def)
    show ?thesis
    proof (cases "length bytes \<le> pos + length read")
      case True
      then have "length (drop pos bytes) \<le> length buffer - fill" by (simp add: read_def)
      then have all: "read = drop pos bytes" by (simp add: read_def)
      have "fill_buffer n queue buffer1 (fill + length read) = (queue', buffer', fill')" using 2(2) run True by simp
      from 2(1) [OF False read_def buffer1_def refl refl _ this len(1,2)] True 2(5) len(3) all show ?thesis
        by (simp add: is_byte_chunk_empty_def)
    next
      case more: False
      then have "length read = n - fill" using 2(3) by (simp add: read_def)
      then have full: "fill + length read = n" using 2(4) by simp
      have "read @ drop (pos + length read) bytes = drop pos bytes"
        using append_take_drop_id [of "length read" "drop pos bytes"] \<open>length read = n - fill\<close> 2(3)
        by (simp add: read_def add.commute)
      then show ?thesis using 2(2,5) run more len full by auto
    qed
  qed
qed simp

lemma peek_chunks_eq: "length out \<le> n \<Longrightarrow> peek_chunks n out queue = take n (out @ queued_bytes queue)"
proof (induction n out queue rule: peek_chunks.induct)
  case (2 n out bytes pos queue)
  show ?case
  proof (cases "length out = n")
    case False
    let ?d = "drop pos bytes"
    have "peek_chunks n out ((bytes, pos) # queue) = take n ((out @ take (n - length out) ?d) @ queued_bytes queue)"
      using 2 False by simp
    also have "\<dots> = take n (out @ ?d @ queued_bytes queue)"
      by (cases "length ?d \<le> n - length out") simp_all
    finally show ?thesis by simp
  qed simp
qed simp

interpretation chunks: byte_source unread bc_num_read buffer_ok buffer_ready buffer_push buffer_try_read buffer_try_peek
proof
  fix s c
  show "buffer_ok s \<Longrightarrow> buffer_ok (buffer_push c s) \<and> unread (buffer_push c s) = unread s @ c
      \<and> bc_num_read (buffer_push c s) = bc_num_read s"
    by (auto simp: buffer_push_def buffer_ok_def unread_def)
  show "buffer_ready n (buffer_push c s) = buffer_ready n s" for n by (simp add: buffer_push_def buffer_ready_def)
next
  fix s n
  assume ok: "buffer_ok s" and ready: "buffer_ready n s"
  show "buffer_try_peek n s = take n (unread s)"
    using ok ready by (auto simp: buffer_try_peek_def peek_chunks_eq unread_def buffer_ready_def buffer_ok_def)
  define buffer where "buffer = (if length (bc_buffer s) \<noteq> n then vec_resize n (bc_buffer s) else bc_buffer s)"
  have buffer: "length buffer = n" "take (bc_buffer_fill s) buffer = take (bc_buffer_fill s) (bc_buffer s)" "bc_buffer_fill s \<le> n"
    using ready ok by (auto simp: buffer_def vec_resize_def buffer_ready_def buffer_ok_def)
  obtain queue' buffer' fill' where run: "fill_buffer n (bc_queue s) buffer (bc_buffer_fill s) = (queue', buffer', fill')"
    by (metis prod_cases3)
  have ok': "\<forall>(bytes, pos) \<in> set (bc_queue s). pos < length bytes" using ok by (simp add: buffer_ok_def)
  note filled = fill_buffer_ok [OF run buffer(1,3) ok', unfolded buffer(2)]
  have result: "buffer_try_read n s = Some (if fill' = n
      then (Some buffer', s\<lparr>bc_queue := queue', bc_buffer := [], bc_buffer_fill := 0, bc_num_read := bc_num_read s + n\<rparr>)
      else (None, s\<lparr>bc_queue := queue', bc_buffer := buffer', bc_buffer_fill := fill'\<rparr>))"
    using ready run by (auto simp: buffer_try_read_def buffer_ready_def buffer_def Let_def)
  show "\<exists>r s'. buffer_try_read n s = Some (r, s') \<and> buffer_ok s' \<and>
      (if n \<le> length (unread s) then r = Some (take n (unread s)) \<and> unread s' = drop n (unread s)
         \<and> bc_num_read s' = bc_num_read s + n \<and> (\<forall>m. buffer_ready m s')
       else r = None \<and> unread s' = unread s \<and> bc_num_read s' = bc_num_read s \<and> buffer_ready n s')"
  proof (cases "fill' = n")
    case True
    have "take n buffer' = buffer'" using filled by simp
    then have "unread s = buffer' @ queued_bytes queue'" using filled True unfolding unread_def by metis
    then show ?thesis using result filled True by (auto simp: buffer_ok_def unread_def buffer_ready_def)
  next
    case False
    then have "unread s = take fill' buffer'" "fill' < n" using filled by (auto simp: unread_def)
    then show ?thesis using result filled False by (auto simp: buffer_ok_def unread_def buffer_ready_def)
  qed
qed

section \<open>The decoder over one string\<close>

text \<open>The state without the chunks, how many bytes were read, and the bytes that are left.\<close>

type_synonym ('c, 'f) flat = "('c, 'f) Decoder \<times> nat \<times> u8 list"

definition flat :: "('c, 'f) Decoder \<Rightarrow> ('c, 'f) flat" where
  "flat d = (d\<lparr>d_byte_chunks := buffer_new\<rparr>, bc_num_read (d_byte_chunks d), unread (d_byte_chunks d))"

definition flat_step ::
  "CrateVersion \<Rightarrow> ('c, 'm, 'x) entry \<Rightarrow> ('f, 'x) footer_entry \<Rightarrow> ('c, 'f) flat \<Rightarrow> ('m, 'x) outcome \<times> ('c, 'f) flat" where
  "flat_step local entry footer_entry = (\<lambda>(d, count, bs).
     let wait = (Returns (Inr None), (d, count, bs)) in
     case d_state d of
       WaitingForStreamHeader \<Rightarrow>
         if length bs < 12 then wait
         else (case bind_res (stream_header_from_bytes (take 12 bs)) (to_version_and_options local) of
                 Inl err \<Rightarrow> if count = 0 then (Returns (Inl err), (d, count + 12, drop 12 bs))
                            else (Returns (Inr None), (d\<lparr>d_state := Aborted\<rparr>, count + 12, drop 12 bs))
               | Inr (version, options) \<Rightarrow>
                   (Again, (d\<lparr>d_version := Some version, d_options := options, d_state := WaitingForMessageHeader\<rparr>,
                      count + 12, drop 12 bs)))
     | WaitingForMessageHeader \<Rightarrow>
         if length bs < 16 then wait
         else (case (message_header_from_bytes (take 16 bs) :: 'x CodecError + MessageHeader) of
                 Inr header \<Rightarrow> (Again, (d\<lparr>d_state := WaitingForMessagePayload header\<rparr>, count + 16, drop 16 bs))
               | Inl _ \<Rightarrow> (Again, (d\<lparr>d_state := WaitingForStreamHeader\<rparr>, count, bs)))
     | WaitingForMessagePayload header \<Rightarrow>
         let n = unat (mh_len header) in
         if length bs < n then wait
         else (case entry (take n bs) (count, n) (mh_kind header) (d_app_id_cache d) (d_version d) of
                 (Inl err, cache) \<Rightarrow>
                   (Returns (Inl err), (d\<lparr>d_app_id_cache := cache, d_state := WaitingForMessageHeader\<rparr>, count + n, drop n bs))
               | (Inr (Some m), cache) \<Rightarrow>
                   (Returns (Inr (Some m)), (d\<lparr>d_app_id_cache := cache, d_state := WaitingForMessageHeader\<rparr>, count + n, drop n bs))
               | (Inr None, cache) \<Rightarrow>
                   (if n = 0 then (Again, (d\<lparr>d_app_id_cache := cache, d_state := WaitingForStreamFooter\<rparr>, count, bs))
                    else case footer_entry (take n bs) of
                      Inl err \<Rightarrow> (Returns (Inl err), (d\<lparr>d_app_id_cache := cache\<rparr>, count + n, drop n bs))
                    | Inr manifests \<Rightarrow>
                        (Again, (d\<lparr>d_app_id_cache := cache, d_rrd_manifests := d_rrd_manifests d @ manifests,
                           d_state := WaitingForStreamFooter\<rparr>, count + n, drop n bs))))
     | WaitingForStreamFooter \<Rightarrow>
         if length bs < 32 then wait
         else (case (stream_footer_from_bytes (take 32 bs) :: (unit CodecError + StreamFooter) option) of
                 None \<Rightarrow> (Panics, (d, count + 32, drop 32 bs))
               | Some (Inr _) \<Rightarrow> (Again, (d\<lparr>d_state := WaitingForStreamHeader\<rparr>, count + 32, drop 32 bs))
               | Some (Inl _) \<Rightarrow> (Returns (Inr None), (d\<lparr>d_state := Aborted\<rparr>, count + 32, drop 32 bs)))
     | Aborted \<Rightarrow> wait)"

text \<open>What a read in a state needs of the buffer.\<close>

definition sound :: "('c, 'f) Decoder \<Rightarrow> bool" where
  "sound d \<longleftrightarrow> buffer_ok (d_byte_chunks d) \<and>
     (case d_state d of
        WaitingForStreamHeader \<Rightarrow> buffer_ready 12 (d_byte_chunks d)
      | WaitingForMessageHeader \<Rightarrow> (\<forall>n. buffer_ready n (d_byte_chunks d))
      | WaitingForMessagePayload header \<Rightarrow> buffer_ready (unat (mh_len header)) (d_byte_chunks d)
      | WaitingForStreamFooter \<Rightarrow> buffer_ready 32 (d_byte_chunks d)
      | Aborted \<Rightarrow> True)"

lemmas frame_sizes = stream_header_size_def message_header_size_def stream_footer_size_def
  footer_size_ignoring_entries_def footer_entry_size_def

lemma message_header_errors: "message_header_from_bytes data = Inl err \<Longrightarrow> \<exists>e. err = FrameDecoding e"
  by (auto simp: message_header_from_bytes_def Let_def split: if_splits)

lemma sound_new: "sound (decoder_new cache)"
  by (simp add: sound_def decoder_new_def buffer_new_def buffer_ok_def buffer_ready_def)

lemma sound_push: "sound d \<Longrightarrow> sound (push_byte_chunk c d)"
  using chunks.pushed [of "d_byte_chunks d" c]
  by (auto simp: sound_def push_byte_chunk_def chunks.push_ready split: DecoderState.split)

lemma flat_push: "sound d \<Longrightarrow> flat (push_byte_chunk c d) = (case flat d of (core, count, bs) \<Rightarrow> (core, count, bs @ c))"
  using chunks.pushed [of "d_byte_chunks d" c] by (simp add: sound_def flat_def push_byte_chunk_def)

lemma step_header:
  assumes "sound d" "d_state d = WaitingForStreamHeader"
  shows "\<exists>out d'. try_read_step local entry fe d = (out, d') \<and> sound d' \<and> flat_step local entry fe (flat d) = (out, flat d')"
proof -
  let ?b = "d_byte_chunks d"
  have ok: "buffer_ok ?b" "buffer_ready 12 ?b" using assms by (simp_all add: sound_def)
  show ?thesis
  proof (cases "12 \<le> length (unread ?b)")
    case True
    from chunks.read_all [OF ok True] obtain b where b: "buffer_try_read 12 ?b = Some (Some (take 12 (unread ?b)), b)"
      "buffer_ok b" "unread b = drop 12 (unread ?b)" "bc_num_read b = bc_num_read ?b + 12" "\<And>m. buffer_ready m b" by blast
    show ?thesis using assms True b
      by (auto simp: try_read_step_def read_stream_header_def frame_sizes flat_step_def flat_def sound_def Let_def
          split: sum.split prod.split)
  next
    case False
    from chunks.read_some [OF ok False] obtain b where b: "buffer_try_read 12 ?b = Some (None, b)"
      "buffer_ok b" "unread b = unread ?b" "bc_num_read b = bc_num_read ?b" "buffer_ready 12 b" by blast
    show ?thesis using assms False b
      by (simp add: try_read_step_def read_stream_header_def frame_sizes flat_step_def flat_def sound_def Let_def)
  qed
qed

lemma step_message_header:
  fixes entry :: "('c, 'm, 'x) entry"
  assumes "sound d" "d_state d = WaitingForMessageHeader"
  shows "\<exists>out d'. try_read_step local entry fe d = (out, d') \<and> sound d' \<and> flat_step local entry fe (flat d) = (out, flat d')"
proof -
  let ?b = "d_byte_chunks d"
  have ok: "buffer_ok ?b" "buffer_ready 16 ?b" "\<And>n. buffer_ready n ?b" using assms by (simp_all add: sound_def)
  have peek: "buffer_try_peek 16 ?b = take 16 (unread ?b)" by (rule chunks.peek [OF ok(1,2)])
  show ?thesis
  proof (cases "16 \<le> length (unread ?b)")
    case True
    from chunks.read_all [OF ok(1,2) True] obtain b where b: "buffer_try_read 16 ?b = Some (Some (take 16 (unread ?b)), b)"
      "buffer_ok b" "unread b = drop 16 (unread ?b)" "bc_num_read b = bc_num_read ?b + 16" "\<And>m. buffer_ready m b" by blast
    show ?thesis
    proof (cases "message_header_from_bytes (take 16 (unread ?b)) :: 'x CodecError + MessageHeader")
      case (Inl err)
      then obtain e where "err = FrameDecoding e" using message_header_errors by blast
      then show ?thesis using assms True Inl peek ok
        by (simp add: try_read_step_def read_message_header_def frame_sizes flat_step_def flat_def sound_def Let_def)
    next
      case (Inr header)
      then show ?thesis using assms True peek b
        by (simp add: try_read_step_def read_message_header_def frame_sizes flat_step_def flat_def sound_def Let_def)
    qed
  next
    case False
    then show ?thesis using assms peek
      by (simp add: try_read_step_def read_message_header_def frame_sizes flat_step_def flat_def sound_def Let_def)
  qed
qed

lemma step_payload:
  assumes "sound d" "d_state d = WaitingForMessagePayload header"
  shows "\<exists>out d'. try_read_step local entry fe d = (out, d') \<and> sound d' \<and> flat_step local entry fe (flat d) = (out, flat d')"
proof -
  let ?b = "d_byte_chunks d" and ?n = "unat (mh_len header)"
  have ok: "buffer_ok ?b" "buffer_ready ?n ?b" using assms by (simp_all add: sound_def)
  show ?thesis
  proof (cases "?n \<le> length (unread ?b)")
    case True
    from chunks.read_all [OF ok True] obtain b where b: "buffer_try_read ?n ?b = Some (Some (take ?n (unread ?b)), b)"
      "buffer_ok b" "unread b = drop ?n (unread ?b)" "bc_num_read b = bc_num_read ?b + ?n" "\<And>m. buffer_ready m b" by blast
    have len: "length (take ?n (unread ?b)) = ?n" "take ?n (unread ?b) = [] \<longleftrightarrow> ?n = 0" using True by auto
    show ?thesis using assms True b len
      by (simp add: try_read_step_def read_message_payload_def flat_step_def flat_def sound_def Let_def
          split: sum.split prod.split option.split)
  next
    case False
    from chunks.read_some [OF ok False] obtain b where b: "buffer_try_read ?n ?b = Some (None, b)"
      "buffer_ok b" "unread b = unread ?b" "bc_num_read b = bc_num_read ?b" "buffer_ready ?n b" by blast
    show ?thesis using assms False b
      by (simp add: try_read_step_def read_message_payload_def flat_step_def flat_def sound_def Let_def)
  qed
qed

lemma step_footer:
  assumes "sound d" "d_state d = WaitingForStreamFooter"
  shows "\<exists>out d'. try_read_step local entry fe d = (out, d') \<and> sound d' \<and> flat_step local entry fe (flat d) = (out, flat d')"
proof -
  let ?b = "d_byte_chunks d"
  have ok: "buffer_ok ?b" "buffer_ready 32 ?b" using assms by (simp_all add: sound_def)
  show ?thesis
  proof (cases "32 \<le> length (unread ?b)")
    case True
    from chunks.read_all [OF ok True] obtain b where b: "buffer_try_read 32 ?b = Some (Some (take 32 (unread ?b)), b)"
      "buffer_ok b" "unread b = drop 32 (unread ?b)" "bc_num_read b = bc_num_read ?b + 32" "\<And>m. buffer_ready m b" by blast
    show ?thesis using assms True b
      by (simp add: try_read_step_def read_stream_footer_def frame_sizes flat_step_def flat_def sound_def Let_def
          split: sum.split option.split)
  next
    case False
    from chunks.read_some [OF ok False] obtain b where b: "buffer_try_read 32 ?b = Some (None, b)"
      "buffer_ok b" "unread b = unread ?b" "bc_num_read b = bc_num_read ?b" "buffer_ready 32 b" by blast
    show ?thesis using assms False b
      by (simp add: try_read_step_def read_stream_footer_def frame_sizes flat_step_def flat_def sound_def Let_def)
  qed
qed

lemma step_refines:
  assumes "sound d"
  shows "\<exists>out d'. try_read_step local entry fe d = (out, d') \<and> sound d' \<and> flat_step local entry fe (flat d) = (out, flat d')"
proof (cases "d_state d")
  case Aborted
  then show ?thesis using assms by (simp add: try_read_step_def flat_step_def flat_def Let_def)
qed (use assms step_header step_message_header step_payload step_footer in blast)+

section \<open>Every read ends\<close>

definition state_rank :: "DecoderState \<Rightarrow> nat" where
  "state_rank st = (case st of WaitingForMessagePayload _ \<Rightarrow> 2 | WaitingForMessageHeader \<Rightarrow> 1
     | WaitingForStreamFooter \<Rightarrow> 1 | _ \<Rightarrow> 0)"

fun flat_measure :: "('c, 'f) flat \<Rightarrow> nat" where
  "flat_measure (d, count, bs) = 4 * length bs + state_rank (d_state d)"

text \<open>A step waits, or consumes bytes, or moves down in the order of the states.\<close>

definition advances :: "('c, 'f) flat \<Rightarrow> ('c, 'f) flat \<Rightarrow> nat \<Rightarrow> bool" where
  "advances = (\<lambda>(d, count, bs) (d', count', bs') n. n \<le> length bs \<and> count' = count + n \<and> bs' = drop n bs
     \<and> (0 < n \<or> state_rank (d_state d') < state_rank (d_state d)))"

lemma flat_step_advances:
  assumes step: "flat_step local entry fe (d, count, bs) = (out, v')"
  shows "out = Returns (Inr None) \<and> v' = (d, count, bs) \<or> (\<exists>n. advances (d, count, bs) v' n) \<and> (out = Returns (Inr None) \<longrightarrow> d_state (fst v') = Aborted)"
proof (cases "d_state d")
  case WaitingForStreamHeader
  show ?thesis
  proof (cases "length bs < 12")
    case False
    then have "advances (d, count, bs) v' 12 \<and> (out = Returns (Inr None) \<longrightarrow> d_state (fst v') = Aborted)" using step WaitingForStreamHeader
      by (auto simp: flat_step_def advances_def Let_def split: sum.splits prod.splits if_splits)
    then show ?thesis by blast
  qed (use step WaitingForStreamHeader in \<open>simp add: flat_step_def Let_def\<close>)
next
  case WaitingForMessageHeader
  show ?thesis
  proof (cases "length bs < 16")
    case False
    then have "(advances (d, count, bs) v' 16 \<or> advances (d, count, bs) v' 0) \<and> out \<noteq> Returns (Inr None)" using step WaitingForMessageHeader
      by (auto simp: flat_step_def advances_def state_rank_def split: sum.splits)
    then show ?thesis by blast
  qed (use step WaitingForMessageHeader in \<open>simp add: flat_step_def Let_def\<close>)
next
  case (WaitingForMessagePayload header)
  let ?n = "unat (mh_len header)"
  show ?thesis
  proof (cases "length bs < ?n")
    case False
    then have "advances (d, count, bs) v' ?n \<and> (out = Returns (Inr None) \<longrightarrow> d_state (fst v') = Aborted)" using step WaitingForMessagePayload
      by (auto simp: flat_step_def advances_def state_rank_def Let_def split: sum.splits prod.splits option.splits if_splits)
    then show ?thesis by blast
  qed (use step WaitingForMessagePayload in \<open>simp add: flat_step_def Let_def\<close>)
next
  case WaitingForStreamFooter
  show ?thesis
  proof (cases "length bs < 32")
    case False
    then have "advances (d, count, bs) v' 32 \<and> (out = Returns (Inr None) \<longrightarrow> d_state (fst v') = Aborted)" using step WaitingForStreamFooter
      by (auto simp: flat_step_def advances_def split: sum.splits option.splits)
    then show ?thesis by blast
  qed (use step WaitingForStreamFooter in \<open>simp add: flat_step_def Let_def\<close>)
next
  case Aborted
  then show ?thesis using step by (simp add: flat_step_def Let_def)
qed

lemma flat_step_decreases:
  assumes "flat_step local entry fe v = (out, v')" "out \<noteq> Returns (Inr None)"
  shows "flat_measure v' < flat_measure v"
proof -
  obtain d count bs where v: "v = (d, count, bs)" by (cases v)
  from flat_step_advances [OF assms(1) [unfolded v]] assms(2) obtain n where "advances v v' n" unfolding v by blast
  moreover have "state_rank st \<le> 2" for st by (simp add: state_rank_def split: DecoderState.split)
  moreover obtain d' count' bs' where v': "v' = (d', count', bs')" by (cases v')
  ultimately have "length bs' = length bs - n" "n \<le> length bs" "0 < n \<or> state_rank (d_state d') < state_rank (d_state d)"
    "state_rank (d_state d') \<le> 2" by (simp_all add: advances_def v)
  then show ?thesis unfolding v v' flat_measure.simps by linarith
qed

lemma flat_step_wait:
  assumes "flat_step local entry fe v = (Returns (Inr None), v')"
  shows "v' = v \<or> d_state (fst v') = Aborted"
  using assms flat_step_advances [of local entry fe _ _ _ "Returns (Inr None)" v'] by (cases v) blast

text \<open>A whole read, as a relation between flat states.\<close>

inductive reads ::
  "CrateVersion \<Rightarrow> ('c, 'm, 'x) entry \<Rightarrow> ('f, 'x) footer_entry \<Rightarrow> ('c, 'f) flat \<Rightarrow> ('m, 'x) outcome \<Rightarrow> ('c, 'f) flat \<Rightarrow> bool"
  for local entry fe where
  continues: "flat_step local entry fe v = (o1, v1) \<Longrightarrow> o1 = Again \<or> o1 = Returns (Inl StoreIdMissingApplicationId) \<Longrightarrow>
    reads local entry fe v1 out v' \<Longrightarrow> reads local entry fe v out v'"
| returns: "flat_step local entry fe v = (out, v') \<Longrightarrow> out \<noteq> Again \<Longrightarrow> out \<noteq> Returns (Inl StoreIdMissingApplicationId) \<Longrightarrow>
    reads local entry fe v out v'"

inductive_cases reads_cases: "reads local entry fe v out v'"

lemma reads_deterministic:
  "reads local entry fe v out v' \<Longrightarrow> reads local entry fe v out' v'' \<Longrightarrow> out' = out \<and> v'' = v'"
proof (induction arbitrary: out' v'' rule: reads.induct)
  case (continues v o1 v1 out v')
  show ?case
  proof (rule reads_cases [OF continues.prems])
    fix o2 v2 assume "flat_step local entry fe v = (o2, v2)" "reads local entry fe v2 out' v''"
    then show ?thesis using continues.hyps(1) continues.IH by simp
  next
    assume "flat_step local entry fe v = (out', v'')" "out' \<noteq> Again" "out' \<noteq> Returns (Inl StoreIdMissingApplicationId)"
    then show ?thesis using continues.hyps(1,2) by simp
  qed
next
  case (returns v out v')
  show ?case
  proof (rule reads_cases [OF returns.prems])
    fix o2 v2 assume "flat_step local entry fe v = (o2, v2)" "o2 = Again \<or> o2 = Returns (Inl StoreIdMissingApplicationId)"
    then show ?thesis using returns.hyps by simp
  next
    assume "flat_step local entry fe v = (out', v'')"
    then show ?thesis using returns.hyps(1) by simp
  qed
qed

lemma try_read_reads:
  assumes "sound d"
  shows "\<exists>out d'. decoder_try_read local entry fe d = Some (out, d') \<and> sound d' \<and> reads local entry fe (flat d) out (flat d')"
  using assms
proof (induction "flat_measure (flat d)" arbitrary: d rule: less_induct)
  case less
  obtain out d1 where step: "try_read_step local entry fe d = (out, d1)" "sound d1" "flat_step local entry fe (flat d) = (out, flat d1)"
    using step_refines [OF less.prems] by blast
  show ?case
  proof (cases "out = Again \<or> out = Returns (Inl StoreIdMissingApplicationId)")
    case True
    then have "flat_measure (flat d1) < flat_measure (flat d)" by (intro flat_step_decreases [OF step(3)]) auto
    from less.hyps [OF this step(2)] obtain out' d' where rest: "decoder_try_read local entry fe d1 = Some (out', d')" "sound d'"
      "reads local entry fe (flat d1) out' (flat d')" by blast
    have "decoder_try_read local entry fe d = Some (out', d')"
      using True step(1) rest(1) by (subst decoder_try_read.simps) auto
    then show ?thesis using rest reads.continues [OF step(3) True] by blast
  next
    case False
    then have "decoder_try_read local entry fe d = Some (out, d1)"
      using step(1) by (subst decoder_try_read.simps) (auto split: outcome.split sum.split CodecError.split)
    then show ?thesis using step reads.returns [OF step(3)] False by blast
  qed
qed

text \<open>Where a panic comes from.\<close>

lemma flat_step_rest:
  assumes "flat_step local entry fe v = (out, v')"
  shows "\<exists>k. snd (snd v') = drop k (snd (snd v))"
proof -
  obtain d count bs where v: "v = (d, count, bs)" by (cases v)
  from flat_step_advances [OF assms [unfolded v]] show ?thesis
    by (auto simp: v advances_def split: prod.splits intro: exI [of _ 0])
qed

lemma flat_step_panics:
  assumes "flat_step local entry fe v = (Panics, v')"
  shows "(stream_footer_from_bytes (take 32 (snd (snd v))) :: (unit CodecError + StreamFooter) option) = None"
  using assms by (cases v)
    (auto simp: flat_step_def Let_def split: DecoderState.splits if_splits prod.splits sum.splits option.splits)

lemma reads_panics:
  assumes "reads local entry fe v out v'" "out = Panics"
  shows "\<exists>k. (stream_footer_from_bytes (take 32 (drop k (snd (snd v)))) :: (unit CodecError + StreamFooter) option) = None"
  using assms
proof induction
  case (continues v o1 v1 out v')
  then obtain k where "(stream_footer_from_bytes (take 32 (drop k (snd (snd v1)))) :: (unit CodecError + StreamFooter) option) = None"
    by blast
  moreover obtain j where "snd (snd v1) = drop j (snd (snd v))" using flat_step_rest [OF continues(1)] by blast
  ultimately show ?case by (metis drop_drop)
next
  case (returns v out v')
  then have "flat_step local entry fe v = (Panics, v')" by simp
  then show ?case by (intro exI [of _ 0]) (simp add: flat_step_panics)
qed


section \<open>Chunks do not matter\<close>

definition append_bytes :: "u8 list \<Rightarrow> ('c, 'f) flat \<Rightarrow> ('c, 'f) flat" where
  "append_bytes c = (\<lambda>(d, count, bs). (d, count, bs @ c))"

lemma append_bytes_append [simp]: "append_bytes [] v = v" "append_bytes c (append_bytes c' v) = append_bytes (c' @ c) v"
  by (cases v; simp add: append_bytes_def)+

lemma flat_push': "sound d \<Longrightarrow> flat (push_byte_chunk c d) = append_bytes c (flat d)"
  by (simp add: flat_push append_bytes_def)

lemma flat_step_append:
  assumes "flat_step local entry fe v = (out, v')"
  shows "out = Returns (Inr None) \<and> v' = v \<or> flat_step local entry fe (append_bytes c v) = (out, append_bytes c v')"
proof -
  obtain d count bs where v: "v = (d, count, bs)" by (cases v)
  have more: "n \<le> length bs \<Longrightarrow> take n (bs @ c) = take n bs \<and> drop n (bs @ c) = drop n bs @ c \<and> \<not> length (bs @ c) < n" for n
    by simp
  show ?thesis
  proof (cases "d_state d")
    case WaitingForStreamHeader
    then show ?thesis using assms more [of 12] unfolding v append_bytes_def flat_step_def Let_def
      by (cases "length bs < 12") (auto split: sum.splits prod.splits if_splits)
  next
    case WaitingForMessageHeader
    then show ?thesis using assms more [of 16] unfolding v append_bytes_def flat_step_def Let_def
      by (cases "length bs < 16") (auto split: sum.splits)
  next
    case (WaitingForMessagePayload header)
    then show ?thesis using assms more [of "unat (mh_len header)"] unfolding v append_bytes_def flat_step_def Let_def
      by (cases "length bs < unat (mh_len header)") (auto split: sum.splits prod.splits option.splits if_splits)
  next
    case WaitingForStreamFooter
    then show ?thesis using assms more [of 32] unfolding v append_bytes_def flat_step_def Let_def
      by (cases "length bs < 32") (auto split: sum.splits option.splits)
  next
    case Aborted
    then show ?thesis using assms by (simp add: v flat_step_def Let_def)
  qed
qed

lemma reads_append:
  assumes "reads local entry fe v out v'" "out \<noteq> Returns (Inr None)"
  shows "reads local entry fe (append_bytes c v) out (append_bytes c v')"
  using assms
proof induction
  case (continues v o1 v1 out v')
  have "o1 \<noteq> Returns (Inr None)" using continues(2) by auto
  then have "flat_step local entry fe (append_bytes c v) = (o1, append_bytes c v1)" using flat_step_append [OF continues(1)] by blast
  then show ?case using continues(2,4,5) by (blast intro: reads.continues)
next
  case (returns v out v')
  then show ?case using flat_step_append [OF returns(1)] by (blast intro: reads.returns)
qed

lemma flat_step_aborted: "d_state (fst v) = Aborted \<Longrightarrow> flat_step local entry fe v = (Returns (Inr None), v)"
  by (cases v) (simp add: flat_step_def Let_def)

text \<open>Reading on after waiting is reading with all the bytes at once.\<close>

lemma reads_resume:
  assumes "reads local entry fe v out v'" "out = Returns (Inr None)" "reads local entry fe (append_bytes c v') out' v''"
  shows "reads local entry fe (append_bytes c v) out' v''"
  using assms
proof induction
  case (continues v o1 v1 out v')
  have "o1 \<noteq> Returns (Inr None)" using continues(2) by auto
  then have "flat_step local entry fe (append_bytes c v) = (o1, append_bytes c v1)" using flat_step_append [OF continues(1)] by blast
  then show ?case using continues by (blast intro: reads.continues)
next
  case (returns v out v')
  note step = returns(1) [unfolded returns(4)]
  show ?case
  proof (cases "v' = v")
    case True
    then show ?thesis using returns(5) by simp
  next
    case False
    then have aborted: "d_state (fst v') = Aborted" using flat_step_wait [OF step] by blast
    then have "d_state (fst (append_bytes c v')) = Aborted" by (cases v') (simp add: append_bytes_def)
    then have "reads local entry fe (append_bytes c v') (Returns (Inr None)) (append_bytes c v')"
      by (intro reads.returns flat_step_aborted) auto
    then have "out' = Returns (Inr None)" "v'' = append_bytes c v'" using reads_deterministic returns(5) by blast+
    moreover have "flat_step local entry fe (append_bytes c v) = (Returns (Inr None), append_bytes c v')"
      using flat_step_append [OF step] False by blast
    ultimately show ?thesis by (auto intro: reads.returns)
  qed
qed

text \<open>A caller that reads until nothing more comes: the messages and errors it gets.\<close>

inductive drains ::
  "CrateVersion \<Rightarrow> ('c, 'm, 'x) entry \<Rightarrow> ('f, 'x) footer_entry \<Rightarrow> ('c, 'f) Decoder \<Rightarrow>
     ('x CodecError + 'm) list \<Rightarrow> ('c, 'f) Decoder \<Rightarrow> bool"
  for local entry fe where
  drained: "decoder_try_read local entry fe d = Some (Returns (Inr None), d') \<Longrightarrow> drains local entry fe d [] d'"
| message: "decoder_try_read local entry fe d = Some (Returns (Inr (Some m)), d1) \<Longrightarrow> drains local entry fe d1 outs d' \<Longrightarrow>
    drains local entry fe d (Inr m # outs) d'"
| failure: "decoder_try_read local entry fe d = Some (Returns (Inl err), d1) \<Longrightarrow> drains local entry fe d1 outs d' \<Longrightarrow>
    drains local entry fe d (Inl err # outs) d'"

text \<open>Feeding chunks one after the other, reading all there is after each.\<close>

inductive feeds ::
  "CrateVersion \<Rightarrow> ('c, 'm, 'x) entry \<Rightarrow> ('f, 'x) footer_entry \<Rightarrow> ('c, 'f) Decoder \<Rightarrow> u8 list list \<Rightarrow>
     ('x CodecError + 'm) list \<Rightarrow> ('c, 'f) Decoder \<Rightarrow> bool"
  for local entry fe where
  nothing: "feeds local entry fe d [] [] d"
| chunk: "drains local entry fe (push_byte_chunk c d) outs d1 \<Longrightarrow> feeds local entry fe d1 cs outs' d' \<Longrightarrow>
    feeds local entry fe d (c # cs) (outs @ outs') d'"

definition item_outcome :: "'x CodecError + 'm \<Rightarrow> ('m, 'x) outcome" where
  "item_outcome r = Returns (case r of Inl e \<Rightarrow> Inl e | Inr m \<Rightarrow> Inr (Some m))"

lemma item_outcome [simp]: "item_outcome r \<noteq> Returns (Inr None)" "item_outcome r = item_outcome r' \<longleftrightarrow> r = r'"
  "item_outcome (Inl e) = Returns (Inl e)" "item_outcome (Inr m) = Returns (Inr (Some m))"
  by (auto simp: item_outcome_def split: sum.splits)

inductive flat_drains ::
  "CrateVersion \<Rightarrow> ('c, 'm, 'x) entry \<Rightarrow> ('f, 'x) footer_entry \<Rightarrow> ('c, 'f) flat \<Rightarrow>
     ('x CodecError + 'm) list \<Rightarrow> ('c, 'f) flat \<Rightarrow> bool"
  for local entry fe where
  idle: "reads local entry fe v (Returns (Inr None)) v' \<Longrightarrow> flat_drains local entry fe v [] v'"
| item: "reads local entry fe v (item_outcome r) v1 \<Longrightarrow> flat_drains local entry fe v1 outs v' \<Longrightarrow>
    flat_drains local entry fe v (r # outs) v'"

inductive_cases flat_drains_cases: "flat_drains local entry fe v outs v'"

lemma try_read_flat:
  assumes "sound d" "decoder_try_read local entry fe d = Some (out, d')"
  shows "sound d'" "reads local entry fe (flat d) out (flat d')"
  using try_read_reads [OF assms(1), of local entry fe] assms(2) by auto

lemma drains_flat: "drains local entry fe d outs d' \<Longrightarrow> sound d \<Longrightarrow> sound d' \<and> flat_drains local entry fe (flat d) outs (flat d')"
proof (induction rule: drains.induct)
  case (drained d d')
  then show ?case using try_read_flat [OF drained(2,1)] by (blast intro: flat_drains.intros)
next
  case (message d m d1 outs d')
  then show ?case using try_read_flat [OF message(4,1)] by (auto intro: item [where r = "Inr m"])
next
  case (failure d err d1 outs d')
  then show ?case using try_read_flat [OF failure(4,1)] by (auto intro: item [where r = "Inl err"])
qed

lemma flat_drains_deterministic:
  "flat_drains local entry fe v outs v' \<Longrightarrow> flat_drains local entry fe v outs' v'' \<Longrightarrow> outs' = outs \<and> v'' = v'"
proof (induction arbitrary: outs' v'' rule: flat_drains.induct)
  case (idle v v')
  note same = reads_deterministic [OF idle.hyps]
  show ?case
  proof (rule flat_drains_cases [OF idle.prems])
    assume "outs' = []" "reads local entry fe v (Returns (Inr None)) v''"
    then show ?thesis using same by blast
  next
    fix r v1 assume "reads local entry fe v (item_outcome r) v1"
    then show ?thesis using same item_outcome(1) by metis
  qed
next
  case (item v r v1 outs v')
  note same = reads_deterministic [OF item.hyps(1)]
  show ?case
  proof (rule flat_drains_cases [OF item.prems])
    assume "reads local entry fe v (Returns (Inr None)) v''"
    then show ?thesis using same item_outcome(1) by metis
  next
    fix r' v1' outs'' assume second: "outs' = r' # outs''" "reads local entry fe v (item_outcome r') v1'"
      "flat_drains local entry fe v1' outs'' v''"
    then have "r' = r \<and> v1' = v1" using same by (metis item_outcome(2))
    then show ?thesis using second item.IH by blast
  qed
qed

lemma flat_drains_append:
  assumes "flat_drains local entry fe v outs v'" "flat_drains local entry fe (append_bytes c v') outs' v''"
  shows "flat_drains local entry fe (append_bytes c v) (outs @ outs') v''"
  using assms
proof (induction rule: flat_drains.induct)
  case (idle v v')
  note resume = reads_resume [OF idle.hyps refl]
  show ?case
  proof (rule flat_drains_cases [OF idle.prems])
    assume "outs' = []" "reads local entry fe (append_bytes c v') (Returns (Inr None)) v''"
    then show ?thesis using flat_drains.idle [OF resume] by simp
  next
    fix r v1 outs assume "outs' = r # outs" "reads local entry fe (append_bytes c v') (item_outcome r) v1"
      "flat_drains local entry fe v1 outs v''"
    then show ?thesis using flat_drains.item [OF resume] by simp
  qed
next
  case (item v r v1 outs v')
  then show ?case using flat_drains.item [OF reads_append [OF item.hyps(1) item_outcome(1)] item.IH] by simp
qed

lemma feeds_flat:
  assumes "feeds local entry fe d cs outs d'" "sound d" "cs \<noteq> []"
  shows "sound d' \<and> flat_drains local entry fe (append_bytes (concat cs) (flat d)) outs (flat d')"
  using assms
proof (induction rule: feeds.induct)
  case (chunk c d outs d1 cs outs' d')
  have first: "sound d1" "flat_drains local entry fe (append_bytes c (flat d)) outs (flat d1)"
    using drains_flat [OF chunk(1) sound_push [OF chunk(4)]] by (simp_all add: flat_push' [OF chunk(4)])
  show ?case
  proof (cases "cs = []")
    case True
    then have "outs' = [] \<and> d' = d1" using chunk(2) by (auto elim: feeds.cases)
    then show ?thesis using first True by simp
  next
    case False
    then show ?thesis using chunk(3) [OF first(1)] flat_drains_append [OF first(2)] by auto
  qed
qed simp

text \<open>C4: how a stream is cut into chunks does not matter. Two callers that feed the same bytes in
  different chunks, and read all there is after each chunk, get the same messages and errors in the same
  order, and are left with the same state of the decoder and the same unread bytes.\<close>

theorem chunking_irrelevant:
  assumes "sound d" "feeds local entry footer_entry d cs outs d1" "feeds local entry footer_entry d cs' outs' d2"
    and "concat cs = concat cs'" "cs \<noteq> []" "cs' \<noteq> []"
  shows "outs = outs' \<and> flat d1 = flat d2"
  using feeds_flat [OF assms(2,1,5)] feeds_flat [OF assms(3,1,6)] assms(4) flat_drains_deterministic by metis

end
