(* ===== verification/Rrd_Roundtrip.thy ===== *)
theory Rrd_Roundtrip
  imports Rrd_Encoder Rrd_Decoder_Props
begin

text \<open>
  The decoder reads back what the encoder wrote.
\<close>

section \<open>What the encoder writes\<close>

text \<open>What the generated Protobuf code promises, and the messages that fit a frame.\<close>

definition prost_ok :: "('s, 'a, 'b, 'f, 'x) Prost \<Rightarrow> bool" where
  "prost_ok p \<longleftrightarrow> (\<forall>x. dec_store_info p (enc_store_info p x) = Inr x) \<and> (\<forall>x. dec_arrow_msg p (enc_arrow_msg p x) = Inr x)
     \<and> (\<forall>x. dec_blueprint p (enc_blueprint p x) = Inr x) \<and> (\<forall>x. dec_footer p (enc_footer p x) = Inr x)
     \<and> enc_footer p [] = []"

definition payload :: "('s, 'a, 'b, 'f, 'x) Prost \<Rightarrow> ('s, 'a, 'b) Msg \<Rightarrow> u8 list" where
  "payload p m = (case m of MsgSetStoreInfo x \<Rightarrow> enc_store_info p x | MsgArrowMsg x \<Rightarrow> enc_arrow_msg p x
     | MsgBlueprintActivation x \<Rightarrow> enc_blueprint p x)"

definition msg_kind :: "('s, 'a, 'b) Msg \<Rightarrow> MessageKind" where
  "msg_kind m = (case m of MsgSetStoreInfo _ \<Rightarrow> SetStoreInfo | MsgArrowMsg _ \<Rightarrow> ArrowMsg
     | MsgBlueprintActivation _ \<Rightarrow> BlueprintActivationCommand)"

definition fits :: "u8 list \<Rightarrow> bool" where
  "fits bytes \<longleftrightarrow> length bytes < 2 ^ 64"

lemma msg_to_bytes_eq: "msg_to_bytes p m = with_header (msg_kind m) (payload p m)"
  by (cases m) (simp_all add: msg_to_bytes_def msg_kind_def payload_def)

lemma msg_entry_payload:
  assumes "prost_ok p"
  shows "msg_entry p (payload p m) span (msg_kind m) cache version = (Inr (Some m), cache)"
  using assms by (cases m) (simp_all add: msg_entry_def payload_def msg_kind_def codec_res_def prost_ok_def)

definition end_bytes :: "(u8 list \<Rightarrow> u32) \<Rightarrow> ('s, 'a, 'b, 'f, 'x) Prost \<Rightarrow> u64 \<Rightarrow> 'f list \<Rightarrow> u8 list" where
  "end_bytes crc p offset footer = with_header End (enc_footer p footer)
     @ the (stream_footer_to_bytes (footer_from_rrd_footer_bytes crc offset (enc_footer p footer)))"

lemma footer_new_ok: "footer_ok (footer_from_rrd_footer_bytes crc offset bytes)"
  by (simp add: footer_ok_def footer_from_rrd_footer_bytes_def stream_footer_new_def)

lemma end_footer_bytes:
  "\<exists>bytes. stream_footer_to_bytes (footer_from_rrd_footer_bytes crc offset bs) = Some bytes \<and> length bytes = 32
     \<and> stream_footer_from_bytes bytes = Some (Inr (footer_from_rrd_footer_bytes crc offset bs))"
  using stream_footer_encoded [OF footer_new_ok, where prefix = "[]"] by (simp add: frame_sizes)

lemma encoder_append_write:
  assumes "encoder_append t p message en = (Inr n, en')" "en_write en = Some w" "\<not> en_is_finished en" "en_footer_state en \<noteq> None"
  obtains m where "to_transport t (en_compression en) message = Inr m" "en_write en' = Some (w @ msg_to_bytes p m)"
    "en_compression en' = en_compression en" "\<not> en_is_finished en'" "en_footer_state en' \<noteq> None"
  using assms
  by (auto simp: encoder_append_def write_encodable_def Let_def split: sum.splits option.splits if_splits prod.splits)

lemma encoder_extend_write:
  assumes "encoder_extend t p k messages en = (Inr n, en')" "en_write en = Some w" "\<not> en_is_finished en" "en_footer_state en \<noteq> None"
  shows "\<exists>ms. map (to_transport t (en_compression en)) messages = map Inr ms
    \<and> en_write en' = Some (w @ concat (map (msg_to_bytes p) ms)) \<and> \<not> en_is_finished en' \<and> en_footer_state en' \<noteq> None"
  using assms
proof (induction messages arbitrary: k en w)
  case (Cons message messages)
  then obtain n1 en1 where first: "encoder_append t p message en = (Inr n1, en1)"
    and rest: "encoder_extend t p (k + n1) messages en1 = (Inr n, en')"
    by (auto split: prod.splits sum.splits)
  from encoder_append_write [OF first Cons.prems(2-4)] obtain m where m: "to_transport t (en_compression en) message = Inr m"
    "en_write en1 = Some (w @ msg_to_bytes p m)" "en_compression en1 = en_compression en" "\<not> en_is_finished en1"
    "en_footer_state en1 \<noteq> None" by blast
  from Cons.IH [OF rest m(2,4,5)] obtain ms where ms: "map (to_transport t (en_compression en)) messages = map Inr ms"
    "en_write en' = Some ((w @ msg_to_bytes p m) @ concat (map (msg_to_bytes p) ms))" "\<not> en_is_finished en'"
    "en_footer_state en' \<noteq> None" unfolding m(3) by blast
  have "map (to_transport t (en_compression en)) (message # messages) = map Inr (m # ms)"
    using m(1) ms(1) by (simp only: list.map)
  moreover have "en_write en' = Some (w @ concat (map (msg_to_bytes p) (m # ms)))" using ms(2) by (simp only: list.map concat.simps append_assoc)
  ultimately show ?case using ms(3,4) by blast
qed simp

lemma finish_impl_write:
  assumes "en_write en = Some w"
  shows "\<exists>offset. en_write (finish_impl crc p footer en) = Some (w @ end_bytes crc p offset footer)"
proof -
  let ?offset = "en_num_written en + of_nat (length (message_header_to_bytes \<lparr>mh_kind = End, mh_len = of_nat (length (enc_footer p footer))\<rparr>))"
  obtain bytes where "stream_footer_to_bytes (footer_from_rrd_footer_bytes crc ?offset (enc_footer p footer)) = Some bytes"
    using end_footer_bytes by blast
  then have "en_write (finish_impl crc p footer en) = Some (w @ end_bytes crc p ?offset footer)"
    using assms by (simp add: finish_impl_def Let_def end_bytes_def with_header_def)
  then show ?thesis by blast
qed

text \<open>The manifests that the encoder has collected when the messages are written.\<close>

definition encoded_footer ::
  "CrateVersion \<Rightarrow> (('i \<times> ('i, 'mb) ManifestState) list \<Rightarrow> ('i \<times> ('i, 'mb) ManifestState) list) \<Rightarrow>
     ('i, 's, 'a, 'b, 'ps, 'pa, 'pb, 'k, 'mb, 'f, 'x) Transport \<Rightarrow> ('ps, 'pa, 'pb, 'f, 'x) Prost \<Rightarrow>
     ('i, 's, 'a, 'b) LogMsg list \<Rightarrow> 'x EncodeError + 'f list" where
  "encoded_footer local hash_order t p messages =
     (case en_footer_state (snd (encoder_extend t p 0 messages (encoder_new_eager local PROTOBUF_COMPRESSED []))) of
        None \<Rightarrow> Inr [] | Some fs \<Rightarrow> footer_state_finish hash_order t fs)"

definition head_bytes :: "CrateVersion \<Rightarrow> u8 list" where
  "head_bytes local =
     stream_header_to_bytes \<lparr>sh_fourcc = RRD_FOURCC, sh_version = version_to_bytes local, sh_options = PROTOBUF_COMPRESSED\<rparr>"

lemma encode_all_bytes:
  assumes "encode_all local crc hash_order t p messages = Inr bytes"
  shows "\<exists>ms footer offset. map (to_transport t LZ4) messages = map Inr ms
    \<and> encoded_footer local hash_order t p messages = Inr footer
    \<and> bytes = head_bytes local @ concat (map (msg_to_bytes p) ms) @ end_bytes crc p offset footer"
proof -
  let ?en = "encoder_new_eager local PROTOBUF_COMPRESSED []"
  have new: "en_write ?en = Some (head_bytes local)" "\<not> en_is_finished ?en" "en_footer_state ?en \<noteq> None"
    and lz4: "en_compression ?en = LZ4"
    by (simp_all add: encoder_new_eager_def Let_def PROTOBUF_COMPRESSED_def head_bytes_def)
  obtain n en where extend: "encoder_extend t p 0 messages ?en = (Inr n, en)"
    using assms by (auto simp: encode_all_def split: prod.splits sum.splits)
  from encoder_extend_write [OF extend new] obtain ms where ms: "map (to_transport t LZ4) messages = map Inr ms"
    "en_write en = Some (head_bytes local @ concat (map (msg_to_bytes p) ms))" "\<not> en_is_finished en" "en_footer_state en \<noteq> None"
    unfolding lz4 by blast
  from ms(4) obtain fs where fs: "en_footer_state en = Some fs" by blast
  have footer: "encoded_footer local hash_order t p messages = footer_state_finish hash_order t fs"
    by (simp add: encoded_footer_def extend fs)
  show ?thesis
  proof (cases "footer_state_finish hash_order t fs")
    case (Inl e)
    then show ?thesis using assms ms(2-3) fs by (simp add: encode_all_def extend encoder_finish_def Let_def)
  next
    case (Inr rrd_footer)
    let ?en' = "en\<lparr>en_is_finished := True, en_footer_state := None\<rparr>"
    have "en_write ?en' = Some (head_bytes local @ concat (map (msg_to_bytes p) ms))" using ms(2) by simp
    from finish_impl_write [OF this] obtain offset where
      w: "en_write (finish_impl crc p rrd_footer ?en') = Some ((head_bytes local @ concat (map (msg_to_bytes p) ms)) @ end_bytes crc p offset rrd_footer)"
      by blast
    have "encode_all local crc hash_order t p messages = encoder_into_inner (finish_impl crc p rrd_footer ?en')"
      using ms(2-3) fs Inr by (simp add: encode_all_def extend encoder_finish_def Let_def)
    then have "bytes = head_bytes local @ concat (map (msg_to_bytes p) ms) @ end_bytes crc p offset rrd_footer"
      using assms w by (simp add: encoder_into_inner_def)
    then show ?thesis using ms(1) footer Inr by (intro exI [of _ ms] exI [of _ rrd_footer] exI [of _ offset]) simp
  qed
qed

section \<open>What the decoder reads\<close>

lemma flat_drains_again:
  assumes "flat_step local entry fe v = (Again, v1)" "flat_drains local entry fe v1 outs v'"
  shows "flat_drains local entry fe v outs v'"
  using assms(2)
  by cases (auto intro: flat_drains.intros reads.continues [OF assms(1)])

lemma message_header_from_to [simp]: "message_header_from_bytes (message_header_to_bytes h) = Inr h"
  "length (message_header_to_bytes h) = 16"
  by (simp add: message_header_iff) (simp add: message_header_to_bytes_def)

lemma flat_step_header:
  assumes "d_state d = WaitingForMessageHeader"
  shows "flat_step local entry fe (d, count, message_header_to_bytes h @ rest)
    = (Again, (d\<lparr>d_state := WaitingForMessagePayload h\<rparr>, count + 16, rest))"
  using assms by (simp add: flat_step_def Let_def)

lemma unat_length: "length bytes < 2 ^ 64 \<Longrightarrow> unat (of_nat (length bytes) :: u64) = length bytes"
  by (simp add: unat_of_nat)

lemma flat_drains_msg:
  assumes "prost_ok p" "fits (payload p m)" "d_state d = WaitingForMessageHeader"
    and "flat_drains local (msg_entry p) fe (d, count + 16 + length (payload p m), rest) outs v'"
  shows "flat_drains local (msg_entry p) fe (d, count, msg_to_bytes p m @ rest) (Inr m # outs) v'"
proof -
  let ?h = "\<lparr>mh_kind = msg_kind m, mh_len = of_nat (length (payload p m))\<rparr>"
  let ?d = "d\<lparr>d_state := WaitingForMessagePayload ?h\<rparr>"
  have bytes: "msg_to_bytes p m @ rest = message_header_to_bytes ?h @ payload p m @ rest"
    by (simp add: msg_to_bytes_eq with_header_def)
  have len: "unat (of_nat (length (payload p m)) :: u64) = length (payload p m)" using assms(2) by (simp add: fits_def unat_length)
  have "d\<lparr>d_state := WaitingForMessageHeader\<rparr> = d" using assms(3) by simp
  then have "flat_step local (msg_entry p) fe (?d, count + 16, payload p m @ rest)
      = (item_outcome (Inr m), (d, count + 16 + length (payload p m), rest))"
    using assms(1) by (simp add: flat_step_def Let_def len msg_entry_payload)
  then have "reads local (msg_entry p) fe (?d, count + 16, payload p m @ rest) (item_outcome (Inr m))
      (d, count + 16 + length (payload p m), rest)"
    by (rule reads.returns) simp_all
  from flat_drains.item [OF this assms(4)] show ?thesis
    unfolding bytes by (rule flat_drains_again [OF flat_step_header [OF assms(3)]])
qed

lemma flat_drains_msgs:
  assumes "prost_ok p" "\<forall>m \<in> set ms. fits (payload p m)" "d_state d = WaitingForMessageHeader"
    and "\<And>count. flat_drains local (msg_entry p) fe (d, count, rest) outs (d', f count, rest')"
  shows "\<exists>n. flat_drains local (msg_entry p) fe (d, count, concat (map (msg_to_bytes p) ms) @ rest) (map Inr ms @ outs) (d', n, rest')"
  using assms(2)
proof (induction ms arbitrary: count)
  case Nil
  then show ?case using assms(4) by auto
next
  case (Cons m ms)
  then obtain n where "flat_drains local (msg_entry p) fe (d, count + 16 + length (payload p m), concat (map (msg_to_bytes p) ms) @ rest)
      (map Inr ms @ outs) (d', n, rest')" by (metis list.set_intros(2))
  from flat_drains_msg [OF assms(1) _ assms(3) this] Cons.prems show ?case by auto
qed

lemma end_bytes_steps:
  assumes "prost_ok p" "fits (enc_footer p footer)" "d_state d = WaitingForMessageHeader"
  shows "flat_drains local (msg_entry p) (msg_footer_entry p) (d, count, end_bytes crc p offset footer) []
    (d\<lparr>d_rrd_manifests := d_rrd_manifests d @ footer, d_state := WaitingForStreamHeader\<rparr>,
     count + 48 + length (enc_footer p footer), [])"
proof -
  let ?bs = "enc_footer p footer"
  let ?h = "\<lparr>mh_kind = End, mh_len = of_nat (length ?bs)\<rparr>"
  let ?d1 = "d\<lparr>d_state := WaitingForMessagePayload ?h\<rparr>"
  let ?d2 = "d\<lparr>d_rrd_manifests := d_rrd_manifests d @ footer, d_state := WaitingForStreamFooter\<rparr>"
  let ?d3 = "d\<lparr>d_rrd_manifests := d_rrd_manifests d @ footer, d_state := WaitingForStreamHeader\<rparr>"
  let ?step = "flat_step local (msg_entry p) (msg_footer_entry p)"
  obtain tail where footer: "stream_footer_to_bytes (footer_from_rrd_footer_bytes crc offset ?bs) = Some tail"
    "length tail = 32" using end_footer_bytes by blast
  have read: "(stream_footer_from_bytes tail :: (unit CodecError + StreamFooter) option) = Some (Inr (footer_from_rrd_footer_bytes crc offset ?bs))"
    using end_footer_bytes [where ?'a = unit] footer(1) by (metis option.sel)
  have bytes: "end_bytes crc p offset footer = message_header_to_bytes ?h @ ?bs @ tail"
    by (simp add: end_bytes_def with_header_def footer(1))
  have len: "unat (of_nat (length ?bs) :: u64) = length ?bs" using assms(2) by (simp add: fits_def unat_length)
  have none: "footer = []" if "?bs = []" using that assms(1) unfolding prost_ok_def by (metis Inr_inject)
  have "?step (?d1, count + 16, ?bs @ tail) = (Again, (?d2, count + 16 + length ?bs, tail))"
  proof (cases "?bs = []")
    case True
    then show ?thesis using none assms(1) by (simp add: flat_step_def Let_def msg_entry_def)
  next
    case False
    then show ?thesis using assms(1)
      by (simp add: flat_step_def Let_def len msg_entry_def msg_footer_entry_def codec_res_def prost_ok_def)
  qed
  note payload_step = this
  have "?step (?d2, count + 16 + length ?bs, tail) = (Again, (?d3, count + 16 + length ?bs + 32, []))"
    by (simp add: flat_step_def Let_def footer(2) read)
  note footer_step = this
  have "?step (?d3, n, []) = (Returns (Inr None), (?d3, n, []))" for n by (simp add: flat_step_def Let_def)
  then have "flat_drains local (msg_entry p) (msg_footer_entry p) (?d3, n, []) [] (?d3, n, [])" for n
    by (intro flat_drains.idle reads.returns) simp_all
  from flat_drains_again [OF footer_step this] have "flat_drains local (msg_entry p) (msg_footer_entry p)
      (?d2, count + 16 + length ?bs, tail) [] (?d3, count + 16 + length ?bs + 32, [])" .
  from flat_drains_again [OF flat_step_header [OF assms(3)] flat_drains_again [OF payload_step this]]
  show ?thesis by (simp add: bytes ac_simps)
qed

text \<open>The whole stream, from a fresh decoder.\<close>

definition local_ok :: "CrateVersion \<Rightarrow> bool" where
  "local_ok local \<longleftrightarrow> version_ok local \<and> (cv_major local \<noteq> 0 \<or> 23 \<le> cv_minor local)"

text \<open>The header holds the version without the commit.\<close>

definition stored_version :: "CrateVersion \<Rightarrow> CrateVersion" where
  "stored_version v = v\<lparr>cv_meta := map_option without_commit (cv_meta v)\<rparr>"

lemma stream_header_from_to: "header_ok h \<Longrightarrow> stream_header_from_bytes (stream_header_to_bytes h) = Inr h"
  by (simp add: stream_header_iff)

lemma head_bytes_read:
  assumes "local_ok local"
  shows "length (head_bytes local) = 12"
    and "bind_res (stream_header_from_bytes (head_bytes local)) (to_version_and_options local) = Inr (stored_version local, PROTOBUF_COMPRESSED)"
proof -
  have version: "length (version_to_bytes local) = 4" "version_from_bytes (version_to_bytes local) = stored_version local"
    using assms version_from_to_bytes [of local] by (simp_all add: local_ok_def version_to_bytes_def stored_version_def)
  then show "length (head_bytes local) = 12"
    by (simp add: head_bytes_def stream_header_to_bytes_def options_to_bytes_def)
  have "version_to_bytes local \<noteq> [0, 0, 0, 0]" using assms by (auto simp: local_ok_def version_to_bytes_def)
  then show "bind_res (stream_header_from_bytes (head_bytes local)) (to_version_and_options local) = Inr (stored_version local, PROTOBUF_COMPRESSED)"
    using assms version
    by (auto simp: head_bytes_def stream_header_from_to header_ok_def to_version_and_options_def Let_def local_ok_def stored_version_def not_less)
qed

lemma stream_drains:
  assumes "prost_ok p" "local_ok local" "fits (head_bytes local @ concat (map (msg_to_bytes p) ms) @ end_bytes crc p offset footer)"
  shows "\<exists>d n. flat_drains local (msg_entry p) (msg_footer_entry p)
      (append_bytes (head_bytes local @ concat (map (msg_to_bytes p) ms) @ end_bytes crc p offset footer) (flat (decoder_new cache)))
      (map Inr ms) (d, n, []) \<and> d_rrd_manifests d = footer \<and> d_version d = Some (stored_version local)"
proof -
  let ?d = "(decoder_new cache)\<lparr>d_version := Some (stored_version local), d_options := PROTOBUF_COMPRESSED, d_state := WaitingForMessageHeader\<rparr>"
  let ?d' = "?d\<lparr>d_rrd_manifests := d_rrd_manifests ?d @ footer, d_state := WaitingForStreamHeader\<rparr>"
  let ?drains = "flat_drains local (msg_entry p) (msg_footer_entry p)"
  have "length (payload p m) \<le> length (concat (map (msg_to_bytes p) ms))" if "m \<in> set ms" for m
    using that by (induction ms) (auto simp: msg_to_bytes_eq with_header_def)
  moreover have "length (enc_footer p footer) \<le> length (end_bytes crc p offset footer)" by (simp add: end_bytes_def with_header_def)
  ultimately have fit: "\<forall>m \<in> set ms. fits (payload p m)" "fits (enc_footer p footer)"
    using assms(3) unfolding fits_def length_append by fastforce+
  have waits: "d_state ?d = WaitingForMessageHeader" by simp
  have "?drains (?d, count, end_bytes crc p offset footer) [] (?d', count + 48 + length (enc_footer p footer), [])" for count
    by (rule end_bytes_steps [OF assms(1) fit(2) waits])
  from flat_drains_msgs [OF assms(1) fit(1) waits this, of 12] obtain n where
    rest: "?drains (?d, 12, concat (map (msg_to_bytes p) ms) @ end_bytes crc p offset footer) (map Inr ms) (?d', n, [])" by auto
  note head = head_bytes_read [OF assms(2)]
  have new: "append_bytes bs (flat (decoder_new cache)) = (decoder_new cache, 0, bs)" for bs :: "u8 list"
    by (simp add: flat_def append_bytes_def decoder_new_def buffer_new_def unread_def queued_bytes_def)
  have "flat_step local (msg_entry p) (msg_footer_entry p) (decoder_new cache, 0, head_bytes local @ rest) = (Again, (?d, 12, rest))" for rest
    by (simp add: head flat_step_def decoder_new_def)
  from flat_drains_again [OF this rest] show ?thesis unfolding new
    by (intro exI [of _ ?d'] exI [of _ n]) (simp add: decoder_new_def)
qed

lemma reads_try_read:
  assumes "sound d" "reads local entry fe (flat d) out v'"
  shows "\<exists>d'. decoder_try_read local entry fe d = Some (out, d') \<and> sound d' \<and> v' = flat d'"
  using try_read_reads [OF assms(1), of local entry fe] reads_deterministic [OF assms(2)] by blast

lemma flat_drains_drains:
  assumes "flat_drains local entry fe v outs v'" "v = flat d" "sound d"
  shows "\<exists>d'. drains local entry fe d outs d' \<and> sound d' \<and> v' = flat d'"
  using assms
proof (induction arbitrary: d rule: flat_drains.induct)
  case (idle v v')
  then show ?case using reads_try_read by (metis drained)
next
  case (item v r v1 outs v')
  from reads_try_read [OF item.prems(2) item.hyps(1) [unfolded item.prems(1)]] obtain d1 where
    d1: "decoder_try_read local entry fe d = Some (item_outcome r, d1)" "sound d1" "v1 = flat d1" by blast
  from item.IH [OF d1(3,2)] obtain d' where rest: "drains local entry fe d1 outs d'" "sound d'" "v' = flat d'" by blast
  have "drains local entry fe d (r # outs) d'"
    using d1(1) rest(1) by (cases r) (auto intro: drains.message drains.failure)
  then show ?case using rest by blast
qed

text \<open>C3: what is encoded is decoded again. When the encoder succeeds, a caller that feeds its bytes to
  a new decoder and reads to the end gets the messages that were encoded, each of them once and in order, with no
  error; nothing is left unread, and the decoder has the version and the manifests of the encoder. The same
  holds however the bytes are cut into chunks.\<close>

theorem encode_decode:
  assumes "encode_all local crc hash_order t p messages = Inr bytes" "prost_ok p" "local_ok local" "fits bytes"
  shows "\<exists>ms footer. map (to_transport t LZ4) messages = map Inr ms
     \<and> encoded_footer local hash_order t p messages = Inr footer
     \<and> (\<exists>d. drains local (msg_entry p) (msg_footer_entry p) (push_byte_chunk bytes (decoder_new cache)) (map Inr ms) d)
     \<and> (\<forall>cs outs d. concat cs = bytes \<and> feeds local (msg_entry p) (msg_footer_entry p) (decoder_new cache) cs outs d \<longrightarrow>
          outs = map Inr ms \<and> d_rrd_manifests d = footer \<and> d_version d = Some (stored_version local) \<and> unread (d_byte_chunks d) = [])"
proof -
  from encode_all_bytes [OF assms(1)] obtain ms footer offset where
    enc: "map (to_transport t LZ4) messages = map Inr ms" "encoded_footer local hash_order t p messages = Inr footer"
      "bytes = head_bytes local @ concat (map (msg_to_bytes p) ms) @ end_bytes crc p offset footer" by blast
  let ?drains = "flat_drains local (msg_entry p) (msg_footer_entry p)"
  from stream_drains [OF assms(2,3) assms(4) [unfolded enc(3)], folded enc(3), of cache] obtain d n where
    all: "?drains (append_bytes bytes (flat (decoder_new cache))) (map Inr ms) (d, n, [])" and d: "d_rrd_manifests d = footer" "d_version d = Some (stored_version local)"
    by blast
  have "\<exists>d. drains local (msg_entry p) (msg_footer_entry p) (push_byte_chunk bytes (decoder_new cache)) (map Inr ms) d"
  proof -
    from flat_drains_drains [OF all flat_push' [OF sound_new, symmetric] sound_push [OF sound_new]] obtain d' where
      "drains local (msg_entry p) (msg_footer_entry p) (push_byte_chunk bytes (decoder_new cache)) (map Inr ms) d'" by (elim exE conjE)
    then show ?thesis by (rule exI)
  qed
  moreover have "outs = map Inr ms \<and> d_rrd_manifests d' = footer \<and> d_version d' = Some (stored_version local) \<and> unread (d_byte_chunks d') = []"
    if "concat cs = bytes" "feeds local (msg_entry p) (msg_footer_entry p) (decoder_new cache) cs outs d'" for cs outs d'
  proof -
    have "bytes \<noteq> []" using head_bytes_read(1) [OF assms(3)] enc(3) by auto
    then have "cs \<noteq> []" using that(1) by auto
    from feeds_flat [OF that(2) sound_new this, unfolded that(1)]
    have "?drains (append_bytes bytes (flat (decoder_new cache))) outs (flat d')" by (rule conjunct2)
    from flat_drains_deterministic [OF all this] have "outs = map Inr ms" "flat d' = (d, n, [])" by simp_all
    then show ?thesis using d by (auto simp: flat_def)
  qed
  ultimately show ?thesis using enc(1,2) by blast
qed

end
