(* ===== verification/Rrd_Examples.thy ===== *)
theory Rrd_Examples
  imports Rrd_Roundtrip
begin

text \<open>
  Concrete streams: payloads, manifests and log messages that are bytes themselves.
\<close>

definition ex_prost :: "(u8 list, u8 list, u8 list, u8, unit) Prost" where
  "ex_prost = \<lparr>enc_store_info = id, dec_store_info = Inr, enc_arrow_msg = id, dec_arrow_msg = Inr,
     enc_blueprint = id, dec_blueprint = Inr, enc_footer = id, dec_footer = Inr\<rparr>"

definition ex_transport :: "(nat, u8 list, u8 list, u8 list, u8 list, u8 list, u8 list, nat, nat, u8, unit) Transport" where
  "ex_transport = \<lparr>to_transport = (\<lambda>c m. Inr (case m of LogSetStoreInfo _ x \<Rightarrow> MsgSetStoreInfo x
       | LogArrowMsg _ x \<Rightarrow> MsgArrowMsg x | LogBlueprintActivation x \<Rightarrow> MsgBlueprintActivation x)),
     byte_size_uncompressed = (\<lambda>_. 0), builder_default = 0, chunk_batch = (\<lambda>x. Inr (length x)), builder_append = (\<lambda>x _ _ n. (Inr (), n + x)),
     builder_build = (\<lambda>_ n. Inr (of_nat n))\<rparr>"

definition ex_version :: CrateVersion where
  "ex_version = version_new 0 29 1"

lemma ex_ok: "prost_ok ex_prost" "local_ok ex_version"
  by (simp_all add: prost_ok_def ex_prost_def local_ok_def ex_version_def version_new_def version_ok_def)

lemma ex_waits:
  assumes "sound d" "d_state d = WaitingForStreamHeader" "length (unread (d_byte_chunks d)) < 12"
  shows "\<exists>d'. drains local entry fe d [] d' \<and> sound d' \<and> flat d' = flat d"
proof -
  have "flat_step local entry fe (flat d) = (Returns (Inr None), flat d)"
    using assms(2,3) by (simp add: flat_step_def flat_def Let_def)
  then have "flat_drains local entry fe (flat d) [] (flat d)" by (intro flat_drains.idle reads.returns) simp_all
  from flat_drains_drains [OF this refl assms(1)] show ?thesis by auto
qed


theorem chunking_irrelevant_witness:
  "\<exists>d1 d2. feeds ex_version (msg_entry ex_prost) (msg_footer_entry ex_prost) (decoder_new ()) [[82], [82]] [] d1
     \<and> feeds ex_version (msg_entry ex_prost) (msg_footer_entry ex_prost) (decoder_new ()) [[82, 82]] [] d2 \<and> flat d1 = flat d2"
proof -
  let ?feeds = "feeds ex_version (msg_entry ex_prost) (msg_footer_entry ex_prost)"
  let ?new = "decoder_new () :: (unit, u8) Decoder"
  have new: "flat ?new = (?new, 0, [])"
    by (simp add: flat_def decoder_new_def buffer_new_def unread_def queued_bytes_def)
  have one: "\<exists>d'. drains ex_version (msg_entry ex_prost) (msg_footer_entry ex_prost) (push_byte_chunk c d) [] d'
      \<and> sound d' \<and> flat d' = (?new, 0, bs @ c)"
    if "sound d" "flat d = (?new, 0, bs)" "length (bs @ c) < 12" for c bs d
  proof -
    have flat: "flat (push_byte_chunk c d) = (?new, 0, bs @ c)" using flat_push [OF that(1), of c] that(2) by simp
    have "d_state (push_byte_chunk c d) = WaitingForStreamHeader" "unread (d_byte_chunks (push_byte_chunk c d)) = bs @ c"
      using arg_cong [where f = "\<lambda>v. d_state (fst v)", OF flat] arg_cong [where f = "\<lambda>v. snd (snd v)", OF flat]
      by (simp_all add: flat_def decoder_new_def)
    then show ?thesis using ex_waits [OF sound_push [OF that(1)]] that(3) flat by metis
  qed
  from one [OF sound_new new, of "[82]"] obtain a where a: "sound a" "flat a = (?new, 0, [82])"
    "drains ex_version (msg_entry ex_prost) (msg_footer_entry ex_prost) (push_byte_chunk [82] ?new) [] a" by auto
  from one [OF a(1,2), of "[82]"] obtain b where
    b: "drains ex_version (msg_entry ex_prost) (msg_footer_entry ex_prost) (push_byte_chunk [82] a) [] b" by auto
  from one [OF sound_new new, of "[82, 82]"] obtain c where
    c: "drains ex_version (msg_entry ex_prost) (msg_footer_entry ex_prost) (push_byte_chunk [82, 82] ?new) [] c" by auto
  have "?feeds ?new [[82], [82]] [] b" using feeds.chunk [OF a(3) feeds.chunk [OF b feeds.nothing]] by simp
  moreover have "?feeds ?new [[82, 82]] [] c" using feeds.chunk [OF c feeds.nothing] by simp
  ultimately show ?thesis using chunking_irrelevant [OF sound_new] by fastforce
qed

definition ex_messages :: "(nat, u8 list, u8 list, u8 list) LogMsg list" where
  "ex_messages = [LogSetStoreInfo 1 [7], LogArrowMsg 1 [8, 9], LogBlueprintActivation []]"

theorem encode_decode_witness:
  "\<exists>bytes d. encode_all ex_version (\<lambda>_. 5) id ex_transport ex_prost ex_messages = Inr bytes
     \<and> drains ex_version (msg_entry ex_prost) (msg_footer_entry ex_prost) (push_byte_chunk bytes (decoder_new ()))
         [Inr (MsgSetStoreInfo [7]), Inr (MsgArrowMsg [8, 9]), Inr (MsgBlueprintActivation [])] d"
proof -
  have lengths: "length (stream_header_to_bytes \<lparr>sh_fourcc = RRD_FOURCC, sh_version = version_to_bytes ex_version, sh_options = PROTOBUF_COMPRESSED\<rparr>) = 12"
    "length (msg_to_bytes ex_prost m) = 16 + length (payload ex_prost m)"
    "length (payload ex_prost (MsgSetStoreInfo x)) = length x" "length (payload ex_prost (MsgArrowMsg x)) = length x"
    "length (payload ex_prost (MsgBlueprintActivation x)) = length x" "length (enc_footer ex_prost f) = length f" for m x f
    using head_bytes_read(1) [OF ex_ok(2)]
    by (simp_all add: head_bytes_def msg_to_bytes_eq with_header_def payload_def ex_prost_def)
  have footer: "length (case stream_footer_to_bytes (footer_from_rrd_footer_bytes crc offset bs) of None \<Rightarrow> [] | Some out \<Rightarrow> out) = 32"
    for crc offset bs using end_footer_bytes [of crc offset bs] by (auto split: option.split)
  obtain bytes where enc: "encode_all ex_version (\<lambda>_. 5) id ex_transport ex_prost ex_messages = Inr bytes" "fits bytes"
    by (simp add: encode_all_def ex_messages_def encoder_append_def encoder_new_eager_def Let_def ex_transport_def
        write_encodable_def footer_state_append_def footer_state_default_def encode_res_def encoder_finish_def
        footer_state_finish_def finish_impl_def encoder_into_inner_def fits_def lengths footer)
  have ms: "map (to_transport ex_transport LZ4) ex_messages
      = map Inr [MsgSetStoreInfo [7], MsgArrowMsg [8, 9], MsgBlueprintActivation []]"
    by (simp add: ex_transport_def ex_messages_def)
  show ?thesis
    using encode_decode [OF enc(1) ex_ok enc(2), of "()"] enc(1) unfolding ms by auto
qed

end
