(* ===== verification/Chunk_Batcher.thy ===== *)
theory Chunk_Batcher
  imports Chunk_Rows
begin

text \<open>
  The batcher (\<open>crates/store/re_chunk/src/batcher.rs\<close>): pending rows, how they are turned into
  chunks, and the thread that accumulates and flushes them. The hash function is third-party code: what
  it makes of the names of timelines and of datatypes are the parameters \<open>hash_names\<close> and \<open>hash_types\<close>.
  An Arrow array is its datatype and its contents, which are opaque. Fresh chunk ids are the
  parameter \<open>new_ids\<close>, indexed by how many were taken before.
\<close>

section \<open>Pending rows\<close>

record TimeCell =
  cell_typ :: TimeType
  cell_value :: NonMinI64

type_synonym TimePoint = "(TimelineName \<times> TimeCell) list"

record 'a SerializedComponentBatch =
  cb_array :: "nat \<times> 'a"
  cb_descriptor :: ComponentDescriptor

record 'a PendingRow =
  pr_row_id :: RowId
  pr_timepoint :: TimePoint
  pr_components :: "(ComponentIdentifier \<times> 'a SerializedComponentBatch) list"

definition pending_row_from_iter :: "RowId \<Rightarrow> TimePoint \<Rightarrow> 'a SerializedComponentBatch list \<Rightarrow> 'a PendingRow" where
  "pending_row_from_iter row_id timepoint components =
     \<lparr>pr_row_id = row_id, pr_timepoint = timepoint,
      pr_components = im_collect (map (\<lambda>b. (cd_component (cb_descriptor b), b)) components)\<rparr>"

definition cell_time :: "TimeCell \<Rightarrow> TimeInt" where
  "cell_time cell = new_temporal (nm_get (cell_value cell))"

section \<open>List arrays\<close>

text \<open>Arrow's \<open>concat\<close> refuses arrays of different datatypes.\<close>

definition arrays_to_list_array :: "nat \<Rightarrow> (nat \<times> 'a) option list \<Rightarrow> 'a ListArray option" where
  "arrays_to_list_array datatype arrays =
     (if \<forall>d \<in> set (map fst (List.map_filter id arrays)). d = datatype
      then Some \<lparr>la_cells = map (map_option snd) arrays, la_nulls = True, la_datatype = datatype\<rparr>
      else None)"

definition arrays_to_list_array_opt :: "(nat \<times> 'a) option list \<Rightarrow> 'a ListArray option" where
  "arrays_to_list_array_opt arrays =
     (case List.map_filter id arrays of [] \<Rightarrow> None | (datatype, _) # _ \<Rightarrow> arrays_to_list_array datatype arrays)"

section \<open>Pending time columns\<close>

record PendingTimeColumn =
  ptc_timeline :: Timeline
  ptc_times :: "i64 list"
  ptc_is_sorted :: bool
  ptc_time_range :: AbsoluteTimeRange

definition ptc_new :: "Timeline \<Rightarrow> PendingTimeColumn" where
  "ptc_new timeline = \<lparr>ptc_timeline = timeline, ptc_times = [], ptc_is_sorted = True, ptc_time_range = range_EMPTY\<rparr>"

definition ptc_push :: "TimeInt \<Rightarrow> PendingTimeColumn \<Rightarrow> PendingTimeColumn" where
  "ptc_push time c =
     (let prev = (if ptc_times c = [] then as_i64 time_MIN else last (ptc_times c));
          r = range_set_min (ptc_time_range c) (Some (min (range_min (ptc_time_range c)) time));
          r = range_set_max r (Some (max (range_max r) time))
      in c\<lparr>ptc_is_sorted := (ptc_is_sorted c \<and> sint prev \<le> sint (as_i64 time)),
           ptc_time_range := r, ptc_times := ptc_times c @ [as_i64 time]\<rparr>)"

definition ptc_finish :: "PendingTimeColumn \<Rightarrow> TimeColumn" where
  "ptc_finish c = \<lparr>tc_timeline = ptc_timeline c, tc_times = ptc_times c, tc_is_sorted = ptc_is_sorted c,
     tc_time_range = ptc_time_range c\<rparr>"

section \<open>Rows to chunks\<close>

definition row_into_chunk :: "bool \<Rightarrow> ChunkId \<Rightarrow> rstr list \<Rightarrow> 'a PendingRow \<Rightarrow> ChunkError + 'a Chunk" where
  "row_into_chunk debug new_id entity_path row =
     (let timelines = im_collect (map (\<lambda>(name, cell).
            (name, tc_new (Some True) \<lparr>tl_name = name, tl_typ = cell_typ cell\<rparr> [nm_get (cell_value cell)])) (pr_timepoint row));
          per_desc = cc_collect (List.map_filter (\<lambda>(_, batch).
            map_option (\<lambda>la. \<lparr>cc_list_array = la, cc_descriptor = cb_descriptor batch\<rparr>)
              (arrays_to_list_array_opt [Some (cb_array batch)])) (pr_components row))
      in chunk_new debug new_id entity_path (Some True) [pr_row_id row] timelines per_desc)"

text \<open>\<open>entry(key).or_default().push(row)\<close>\<close>

definition push_entry :: "'k \<Rightarrow> 'r \<Rightarrow> ('k \<times> 'r list) list \<Rightarrow> ('k \<times> 'r list) list" where
  "push_entry k r m = im_insert k ((case map_of m k of None \<Rightarrow> [] | Some rs \<Rightarrow> rs) @ [r]) m"

definition group_rows :: "('r \<Rightarrow> 'k) \<Rightarrow> 'r list \<Rightarrow> ('k \<times> 'r list) list" where
  "group_rows key rows = fold (\<lambda>r. push_entry (key r) r) rows []"

definition timeline_names :: "'a PendingRow \<Rightarrow> TimelineName list" where
  "timeline_names row = map fst (pr_timepoint row)"

definition component_datatypes :: "'a PendingRow \<Rightarrow> nat list" where
  "component_datatypes row = map (fst \<circ> cb_array \<circ> snd) (pr_components row)"

text \<open>The arrays of the components, with the descriptors they came with first.\<close>

type_synonym 'a sparse_arrays = "(ComponentIdentifier \<times> ComponentDescriptor \<times> (nat \<times> 'a) option list) list"

definition im_or_insert :: "'k \<Rightarrow> 'v \<Rightarrow> ('k \<times> 'v) list \<Rightarrow> ('k \<times> 'v) list" where
  "im_or_insert k v m = (if k \<in> fst ` set m then m else m @ [(k, v)])"

definition all_components :: "'a PendingRow list \<Rightarrow> 'a sparse_arrays" where
  "all_components rows =
     fold (\<lambda>row. fold (\<lambda>(component, batch). im_or_insert component (cb_descriptor batch, [])) (pr_components row)) rows []"

text \<open>The loop over the rows of one datatype set: the ids, time columns and arrays of the chunk that is
  being built, and the chunks that are finished.\<close>

record 'a Building =
  bd_row_ids :: "RowId list"
  bd_timelines :: "(TimelineName \<times> PendingTimeColumn) list"
  bd_components :: "'a sparse_arrays"
  bd_chunks :: "(ChunkError + 'a Chunk) list"

definition pending_timeline ::
  "TimelineName \<Rightarrow> TimeCell \<Rightarrow> (TimelineName \<times> PendingTimeColumn) list \<Rightarrow> (TimelineName \<times> PendingTimeColumn) list" where
  "pending_timeline name cell = im_or_insert name (ptc_new \<lparr>tl_name = name, tl_typ = cell_typ cell\<rparr>)"

definition finish_chunk :: "bool \<Rightarrow> (nat \<Rightarrow> ChunkId) \<Rightarrow> nat \<Rightarrow> rstr list \<Rightarrow> 'a Building \<Rightarrow> ChunkError + 'a Chunk" where
  "finish_chunk debug new_ids k entity_path b =
     chunk_new debug (new_ids k) entity_path (Some True) (bd_row_ids b)
       (im_collect (map (\<lambda>(name, c). (name, ptc_finish c)) (bd_timelines b)))
       (cc_collect (List.map_filter (\<lambda>(_, desc, arrays).
          map_option (\<lambda>la. \<lparr>cc_list_array = la, cc_descriptor = desc\<rparr>) (arrays_to_list_array_opt arrays))
          (bd_components b)))"

definition split_if_unsorted ::
  "bool \<Rightarrow> (nat \<Rightarrow> ChunkId) \<Rightarrow> nat \<Rightarrow> rstr list \<Rightarrow> u64 \<Rightarrow> 'a sparse_arrays \<Rightarrow> TimelineName \<times> TimeCell \<Rightarrow> 'a Building \<Rightarrow> 'a Building" where
  "split_if_unsorted debug new_ids k entity_path max_rows all = (\<lambda>(name, cell) b.
     (let timelines = pending_timeline name cell (bd_timelines b);
          b = b\<lparr>bd_timelines := timelines\<rparr>
      in if bd_row_ids b \<noteq> [] \<and> unat max_rows \<le> length (bd_row_ids b) \<and> \<not> ptc_is_sorted (the (map_of timelines name))
         then \<lparr>bd_row_ids = [], bd_timelines = [], bd_components = all,
               bd_chunks = bd_chunks b @ [finish_chunk debug new_ids (k + length (bd_chunks b)) entity_path b]\<rparr>
         else b))"

definition push_time :: "TimelineName \<times> TimeCell \<Rightarrow> (TimelineName \<times> PendingTimeColumn) list \<Rightarrow> (TimelineName \<times> PendingTimeColumn) list" where
  "push_time = (\<lambda>(name, cell) timelines.
     map (\<lambda>(n, c). (n, if n = name then ptc_push (cell_time cell) c else c)) (pending_timeline name cell timelines))"

definition push_row :: "'a PendingRow \<Rightarrow> 'a Building \<Rightarrow> 'a Building" where
  "push_row row b =
     b\<lparr>bd_row_ids := bd_row_ids b @ [pr_row_id row],
       bd_timelines := fold push_time (pr_timepoint row) (bd_timelines b),
       bd_components := map (\<lambda>(component, desc, arrays).
         (component, desc, arrays @ [map_option cb_array (map_of (pr_components row) component)])) (bd_components b)\<rparr>"

definition build_row ::
  "bool \<Rightarrow> (nat \<Rightarrow> ChunkId) \<Rightarrow> nat \<Rightarrow> rstr list \<Rightarrow> u64 \<Rightarrow> 'a sparse_arrays \<Rightarrow> 'a PendingRow \<Rightarrow> 'a Building \<Rightarrow> 'a Building" where
  "build_row debug new_ids k entity_path max_rows all row b =
     push_row row (fold (split_if_unsorted debug new_ids k entity_path max_rows all) (pr_timepoint row) b)"

definition datatype_set_chunks ::
  "bool \<Rightarrow> (nat \<Rightarrow> ChunkId) \<Rightarrow> nat \<Rightarrow> rstr list \<Rightarrow> u64 \<Rightarrow> 'a PendingRow list \<Rightarrow> (ChunkError + 'a Chunk) list" where
  "datatype_set_chunks debug new_ids k entity_path max_rows rows =
     (let all = all_components rows;
          b = fold (build_row debug new_ids k entity_path max_rows all) rows
                \<lparr>bd_row_ids = [], bd_timelines = [], bd_components = all, bd_chunks = []\<rparr>
      in bd_chunks b @ [finish_chunk debug new_ids (k + length (bd_chunks b)) entity_path b])"

definition many_into_chunks ::
  "(TimelineName list \<Rightarrow> u64) \<Rightarrow> (nat list \<Rightarrow> u64) \<Rightarrow> bool \<Rightarrow> (nat \<Rightarrow> ChunkId) \<Rightarrow> nat \<Rightarrow> rstr list \<Rightarrow> u64 \<Rightarrow>
     'a PendingRow list \<Rightarrow> (ChunkError + 'a Chunk) list" where
  "many_into_chunks hash_names hash_types debug new_ids k entity_path max_rows rows =
     (let rows = sort_key pr_row_id rows;
          per_timeline_set = group_rows (hash_names \<circ> timeline_names) rows;
          sets = concat (map (\<lambda>(_, rows). map snd (group_rows (hash_types \<circ> component_datatypes) rows)) per_timeline_set)
      in fold (\<lambda>rows chunks. chunks @ datatype_set_chunks debug new_ids (k + length chunks) entity_path max_rows rows) sets [])"

section \<open>The batching thread\<close>

record ChunkBatcherConfig =
  flush_num_bytes :: u64
  flush_num_rows :: u64
  chunk_max_rows_if_unsorted :: u64
  max_bytes_in_flight :: u64

definition batcher_config_DEFAULT :: ChunkBatcherConfig where
  "batcher_config_DEFAULT = \<lparr>flush_num_bytes = 1024 * 1024, flush_num_rows = - 1, chunk_max_rows_if_unsorted = 256,
     max_bytes_in_flight = 100 * 1024 * 1024\<rparr>"

definition batcher_config_ALWAYS :: ChunkBatcherConfig where
  "batcher_config_ALWAYS = batcher_config_DEFAULT\<lparr>flush_num_bytes := 0, flush_num_rows := 0, chunk_max_rows_if_unsorted := 256\<rparr>"

definition batcher_config_NEVER :: ChunkBatcherConfig where
  "batcher_config_NEVER = batcher_config_DEFAULT\<lparr>flush_num_bytes := - 1, flush_num_rows := - 1, chunk_max_rows_if_unsorted := 256\<rparr>"

datatype 'a Command =
    AppendChunk "'a Chunk" | AppendRow "rstr list" "'a PendingRow" | Flush | UpdateConfig ChunkBatcherConfig | Shutdown

text \<open>What the thread selects next: a command or a tick of the clock.\<close>

datatype 'a event = Cmd "'a Command" | Tick

record 'a Accumulator =
  acc_pending_rows :: "'a PendingRow list"
  acc_pending_num_bytes :: u64

text \<open>The output is what was sent to the channel of chunks.\<close>

record 'a Batching =
  bt_config :: ChunkBatcherConfig
  bt_accs :: "(rstr list \<times> 'a Accumulator) list"
  bt_skip_next_tick :: bool
  bt_output :: "'a Chunk list"
  bt_num_chunks :: nat

definition acc_new :: "'a Accumulator" where
  "acc_new = \<lparr>acc_pending_rows = [], acc_pending_num_bytes = 0\<rparr>"

definition do_push_row :: "('a PendingRow \<Rightarrow> u64) \<Rightarrow> 'a PendingRow \<Rightarrow> 'a Accumulator \<Rightarrow> 'a Accumulator" where
  "do_push_row row_bytes row acc =
     acc\<lparr>acc_pending_num_bytes := acc_pending_num_bytes acc + row_bytes row, acc_pending_rows := acc_pending_rows acc @ [row]\<rparr>"

definition send_chunk :: "'a Chunk \<Rightarrow> 'a Chunk list \<Rightarrow> 'a Chunk list" where
  "send_chunk chunk out = (if ch_components chunk \<noteq> [] then out @ [chunk] else out)"

text \<open>The parameters of the thread: hashes, debug assertions, fresh ids and the sizes of rows.\<close>

record 'a BatchEnv =
  be_hash_names :: "TimelineName list \<Rightarrow> u64"
  be_hash_types :: "nat list \<Rightarrow> u64"
  be_debug :: bool
  be_new_ids :: "nat \<Rightarrow> ChunkId"
  be_row_bytes :: "'a PendingRow \<Rightarrow> u64"

definition do_flush_all :: "'a BatchEnv \<Rightarrow> rstr list \<Rightarrow> 'a Batching \<Rightarrow> 'a Batching" where
  "do_flush_all env entity_path st =
     (case map_of (bt_accs st) entity_path of
        None \<Rightarrow> st
      | Some acc \<Rightarrow>
          if acc_pending_rows acc = [] then st
          else
            let chunks = many_into_chunks (be_hash_names env) (be_hash_types env) (be_debug env) (be_new_ids env) (bt_num_chunks st)
                  entity_path (chunk_max_rows_if_unsorted (bt_config st)) (acc_pending_rows acc)
            in st\<lparr>bt_output := fold (\<lambda>chunk out. case chunk of Inl _ \<Rightarrow> out | Inr chunk \<Rightarrow> send_chunk chunk out) chunks (bt_output st),
                  bt_accs := im_insert entity_path acc_new (bt_accs st),
                  bt_num_chunks := bt_num_chunks st + length chunks\<rparr>)"

definition flush_every :: "'a BatchEnv \<Rightarrow> 'a Batching \<Rightarrow> 'a Batching" where
  "flush_every env st = fold (do_flush_all env) (map fst (bt_accs st)) st"

definition append_row :: "'a BatchEnv \<Rightarrow> rstr list \<Rightarrow> 'a PendingRow \<Rightarrow> 'a Batching \<Rightarrow> 'a Batching" where
  "append_row env entity_path row st =
     (let acc = (case map_of (bt_accs st) entity_path of None \<Rightarrow> acc_new | Some acc \<Rightarrow> acc);
          acc = do_push_row (be_row_bytes env) row acc;
          st = st\<lparr>bt_accs := im_insert entity_path acc (bt_accs st)\<rparr>
      in if unat (flush_num_rows (bt_config st)) \<le> length (acc_pending_rows acc)
         then (do_flush_all env entity_path st)\<lparr>bt_skip_next_tick := True\<rparr>
         else if flush_num_bytes (bt_config st) \<le> acc_pending_num_bytes acc
         then (do_flush_all env entity_path st)\<lparr>bt_skip_next_tick := True\<rparr>
         else st)"

text \<open>One round of the thread's loop; \<open>Inr\<close> is its break, after which everything is flushed.\<close>

definition batching_step :: "'a BatchEnv \<Rightarrow> 'a event \<Rightarrow> 'a Batching \<Rightarrow> 'a Batching + 'a Batching" where
  "batching_step env ev st =
     (case ev of
        Cmd (AppendChunk chunk) \<Rightarrow> Inl (st\<lparr>bt_output := send_chunk chunk (bt_output st)\<rparr>)
      | Cmd (AppendRow entity_path row) \<Rightarrow> Inl (append_row env entity_path row st)
      | Cmd Flush \<Rightarrow> Inl (flush_every env (st\<lparr>bt_skip_next_tick := True\<rparr>))
      | Cmd (UpdateConfig config) \<Rightarrow> Inl (st\<lparr>bt_config := config\<rparr>)
      | Cmd Shutdown \<Rightarrow> Inr st
      | Tick \<Rightarrow>
          if bt_skip_next_tick st then Inl (st\<lparr>bt_skip_next_tick := False\<rparr>) else Inl (flush_every env st))"

text \<open>When the events end, all senders are gone, which ends the loop too.\<close>

fun batching_loop :: "'a BatchEnv \<Rightarrow> 'a event list \<Rightarrow> 'a Batching \<Rightarrow> 'a Batching" where
  "batching_loop env [] st = st"
| "batching_loop env (ev # evs) st =
     (case batching_step env ev st of Inl st \<Rightarrow> batching_loop env evs st | Inr st \<Rightarrow> st)"

definition batching_thread :: "'a BatchEnv \<Rightarrow> ChunkBatcherConfig \<Rightarrow> 'a event list \<Rightarrow> 'a Chunk list" where
  "batching_thread env config evs =
     bt_output (flush_every env (batching_loop env evs
       \<lparr>bt_config = config, bt_accs = [], bt_skip_next_tick = False, bt_output = [], bt_num_chunks = 0\<rparr>))"

end
