(* ===== verification/Chunk_Batcher_Rows.thy ===== *)
theory Chunk_Batcher_Rows
  imports Chunk_Batcher "HOL-Library.Sublist" "HOL-Library.Multiset"
begin

text \<open>
  Turning pending rows into chunks loses and changes nothing.
\<close>

section \<open>Groups\<close>

lemma push_entry_simps [simp]:
  "push_entry k r [] = [(k, [r])]"
  "push_entry k r ((k', rs) # m) = (if k = k' then (k, rs @ [r]) # m else (k', rs) # push_entry k r m)"
  by (auto simp: push_entry_def)

lemma mset_push_entry: "mset (concat (map snd (push_entry k r m))) = add_mset r (mset (concat (map snd m)))"
  by (induction m) auto

definition group_ok :: "('r \<Rightarrow> 'k) \<Rightarrow> 'r list \<Rightarrow> 'k \<times> 'r list \<Rightarrow> bool" where
  "group_ok key rows = (\<lambda>(k, rs). rs \<noteq> [] \<and> (\<forall>r \<in> set rs. key r = k) \<and> subseq rs rows)"

definition groups :: "('r \<Rightarrow> 'k) \<Rightarrow> 'r list \<Rightarrow> ('k \<times> 'r list) list \<Rightarrow> bool" where
  "groups key rows m \<longleftrightarrow> mset (concat (map snd m)) = mset rows \<and> list_all (group_ok key rows) m"

lemma group_ok_snoc:
  "group_ok key rows g \<Longrightarrow> group_ok key (rows @ [r]) g"
  "group_ok key rows (key r, rs) \<Longrightarrow> group_ok key (rows @ [r]) (key r, rs @ [r])"
  "group_ok key (rows @ [r]) (key r, [r])"
  by (auto simp: group_ok_def intro: list_emb_append_mono list_emb_append2)

lemma push_entry_group:
  "list_all (group_ok key rows) m \<Longrightarrow> list_all (group_ok key (rows @ [r])) (push_entry (key r) r m)"
proof (induction m)
  case (Cons g m)
  obtain k rs where g: "g = (k, rs)" by (cases g)
  have "list_all (group_ok key (rows @ [r])) m" using Cons.prems group_ok_snoc(1) [of key rows] unfolding list_all_iff list.set by blast
  then show ?case using Cons group_ok_snoc(1,2) unfolding g by auto
qed (simp add: group_ok_snoc)

lemma group_rows_groups: "groups key rows (group_rows key rows)"
proof (induction rows rule: rev_induct)
  case (snoc r rows)
  then show ?case using push_entry_group [of key rows "group_rows key rows" r]
    by (simp add: groups_def group_rows_def mset_push_entry)
qed (simp add: groups_def group_rows_def)

lemma subseq_sorted_by:
  assumes "subseq xs ys" "sorted (map f ys)"
  shows "sorted (map f xs)"
  using assms by (induction rule: list_emb.induct) (auto dest: list_emb_set)

lemma subseq_in: "subseq xs ys \<Longrightarrow> x \<in> set xs \<Longrightarrow> x \<in> set ys"
  by (auto dest: list_emb_set)

section \<open>List arrays\<close>

definition one_type :: "(nat \<times> 'a) option list \<Rightarrow> bool" where
  "one_type arrays \<longleftrightarrow> (\<forall>x y. Some x \<in> set arrays \<and> Some y \<in> set arrays \<longrightarrow> fst x = fst y)"

lemma one_type_mono: "set xs \<subseteq> set ys \<Longrightarrow> one_type ys \<Longrightarrow> one_type xs"
  unfolding one_type_def by blast

lemma set_map_filter_id: "set (List.map_filter id xs) = {x. Some x \<in> set xs}"
  by (induction xs) (auto simp: List.map_filter_simps split: option.splits)

lemma arrays_to_list_array_opt:
  assumes "one_type arrays"
  shows "if \<forall>a \<in> set arrays. a = None then arrays_to_list_array_opt arrays = None
    else \<exists>dt. arrays_to_list_array_opt arrays = Some \<lparr>la_cells = map (map_option snd) arrays, la_nulls = True, la_datatype = dt\<rparr>"
proof (cases "List.map_filter id arrays")
  case Nil
  then have "set (List.map_filter id arrays) = {}" by simp
  then have "a = None" if "a \<in> set arrays" for a using that unfolding set_map_filter_id by (cases a) auto
  then show ?thesis by (simp add: arrays_to_list_array_opt_def Nil)
next
  case (Cons x xs)
  then have x: "Some x \<in> set arrays" using set_map_filter_id [of arrays] by auto
  have "\<forall>y \<in> set (List.map_filter id arrays). fst y = fst x"
    using assms x unfolding one_type_def set_map_filter_id by blast
  then have "\<forall>d \<in> set (map fst (List.map_filter id arrays)). d = fst x" by auto
  then have "arrays_to_list_array_opt arrays = Some \<lparr>la_cells = map (map_option snd) arrays, la_nulls = True, la_datatype = fst x\<rparr>"
    by (cases x) (simp add: arrays_to_list_array_opt_def Cons arrays_to_list_array_def)
  moreover have "\<not> (\<forall>a \<in> set arrays. a = None)" using x by blast
  ultimately show ?thesis by simp
qed

text \<open>Two rows whose arrays of a component differ in type lose both.\<close>

lemma arrays_of_two_types: "d \<noteq> d' \<Longrightarrow> arrays_to_list_array_opt [Some (d, a), Some (d', a')] = None"
  by (simp add: arrays_to_list_array_opt_def List.map_filter_simps arrays_to_list_array_def)

section \<open>Pending time columns\<close>

definition ptc_ok :: "i64 list \<Rightarrow> PendingTimeColumn \<Rightarrow> bool" where
  "ptc_ok ts c \<longleftrightarrow> ptc_times c = ts \<and> tc_ok (length ts) (ptc_finish c)
     \<and> (if ts = [] then ptc_time_range c = range_EMPTY
        else is_temporal (range_min (ptc_time_range c)) \<and> is_temporal (range_max (ptc_time_range c)))"

lemma ptc_new_ok: "ptc_ok [] (ptc_new timeline)"
  by (simp add: ptc_ok_def ptc_new_def tc_ok_def ptc_finish_def times_sorted_def)

lemma times_sorted_snoc:
  "times_sorted (ts @ [t]) \<longleftrightarrow> times_sorted ts \<and> (ts = [] \<or> sint (last ts) \<le> sint t)"
proof -
  have "times_sorted ts \<and> ts \<noteq> [] \<Longrightarrow> (\<forall>x\<in>set ts. sint x \<le> sint (last ts))"
    by (cases ts rule: rev_cases) (auto simp: times_sorted_iff sorted_append)
  then show ?thesis
    by (cases "ts = []") (auto simp: times_sorted_iff sorted_append intro: order_trans)
qed

lemma min_temporal: "is_temporal a \<Longrightarrow> is_temporal b \<Longrightarrow> is_temporal (min a b) \<and> sint (as_i64 (min a b)) = min (sint (as_i64 a)) (sint (as_i64 b))"
  using time_less_eq_iff [of a b] by (auto simp: min_def)

lemma max_temporal: "is_temporal a \<Longrightarrow> is_temporal b \<Longrightarrow> is_temporal (max a b) \<and> sint (as_i64 (max a b)) = max (sint (as_i64 a)) (sint (as_i64 b))"
  using time_less_eq_iff [of a b] by (auto simp: max_def)

lemma EMPTY_bounds:
  assumes "is_temporal t"
  shows "min (range_min range_EMPTY) t = t" "max (range_max range_EMPTY) t = t"
proof -
  have "is_temporal time_MAX" by (simp add: time_MAX_def is_temporal_def)
  then have "t \<le> time_MAX" using assms time_less_eq_iff [of t time_MAX] sint_as_i64_temporal [OF assms]
    by (simp add: time_MAX_def as_i64_def i64_simps)
  then show "min (range_min range_EMPTY) t = t" "max (range_max range_EMPTY) t = t"
    using is_temporal_MIN_le [OF assms] by (simp_all add: range_EMPTY_def min_absorb2 max_absorb2)
qed

lemma temporal_not_min: "is_temporal t \<Longrightarrow> as_i64 t \<noteq> i64_min"
  using sint_as_i64_temporal [of t] sint_i64_min by auto

lemma ptc_push_ok:
  assumes ok: "ptc_ok ts c" and t: "is_temporal t"
  shows "ptc_ok (ts @ [as_i64 t]) (ptc_push t c)"
proof -
  let ?r = "ptc_time_range c" and ?r' = "ptc_time_range (ptc_push t c)"
  have ts: "ptc_times c = ts" and fin: "tc_ok (length ts) (ptc_finish c)" using ok by (simp_all add: ptc_ok_def)
  have low: "sint (as_i64 time_MIN) \<le> sint (as_i64 t)"
    using is_temporal_MIN_le [OF t] time_less_eq_iff [of time_MIN t] t by simp
  have sorted: "ptc_is_sorted (ptc_push t c) = times_sorted (ts @ [as_i64 t])"
    using fin low by (simp add: ptc_push_def Let_def ts times_sorted_snoc tc_ok_def ptc_finish_def)
  have times: "ptc_times (ptc_push t c) = ts @ [as_i64 t]" by (simp add: ptc_push_def Let_def ts)
  have not_min: "i64_min \<notin> set (ts @ [as_i64 t])" using fin temporal_not_min [OF t] by (auto simp: tc_ok_def ptc_finish_def ts)
  show ?thesis
  proof (cases "ts = []")
    case True
    then have "?r = range_EMPTY" using ok by (simp add: ptc_ok_def)
    then have "range_min ?r' = t" "range_max ?r' = t" using t EMPTY_bounds [OF t]
      by (simp_all add: ptc_push_def Let_def range_set_min_def range_set_max_def)
    then show ?thesis using True sorted times not_min t by (simp add: ptc_ok_def tc_ok_def ptc_finish_def)
  next
    case False
    then have temporal: "is_temporal (range_min ?r)" "is_temporal (range_max ?r)" using ok by (simp_all add: ptc_ok_def)
    note lo = min_temporal [OF temporal(1) t] and hi = max_temporal [OF temporal(2) t]
    have r': "range_min ?r' = min (range_min ?r) t" "range_max ?r' = max (range_max ?r) t"
      using lo hi by (simp_all add: ptc_push_def Let_def range_set_min_def range_set_max_def)
    have "as_i64 (range_min ?r) \<in> set ts" "as_i64 (range_max ?r) \<in> set ts"
      and inside: "\<forall>x\<in>set ts. sint (as_i64 (range_min ?r)) \<le> sint x \<and> sint x \<le> sint (as_i64 (range_max ?r))"
      using fin False by (simp_all add: tc_ok_def ptc_finish_def ts)
    then have ends: "as_i64 (min (range_min ?r) t) \<in> set (ts @ [as_i64 t])" "as_i64 (max (range_max ?r) t) \<in> set (ts @ [as_i64 t])"
      by (simp_all add: min_def max_def)
    have "\<forall>x\<in>set (ts @ [as_i64 t]). sint (as_i64 (range_min ?r')) \<le> sint x \<and> sint x \<le> sint (as_i64 (range_max ?r'))"
      using inside lo hi unfolding r' by auto
    then show ?thesis using lo hi ends sorted times not_min unfolding r' [symmetric]
      by (simp add: ptc_ok_def tc_ok_def ptc_finish_def)
  qed
qed

section \<open>The pieces of a group\<close>

text \<open>What a reader sees of a pending row, and a row that can be told from the absence of one.\<close>

definition row_view :: "'a PendingRow \<Rightarrow> 'a row" where
  "row_view r = (pr_row_id r, \<lambda>n. map_option (\<lambda>cell. nm_get (cell_value cell)) (map_of (pr_timepoint r) n),
     \<lambda>k. map_option (\<lambda>b. snd (cb_array b)) (map_of (pr_components r) k))"

definition has_data :: "'a row \<Rightarrow> bool" where
  "has_data row \<longleftrightarrow> snd (snd row) \<noteq> (\<lambda>_. None)"

text \<open>The maps of a row: every key once, components under their own name, no time that stands for static.\<close>

definition pending_ok :: "'a PendingRow \<Rightarrow> bool" where
  "pending_ok r \<longleftrightarrow> distinct (timeline_names r) \<and> (\<forall>(n, cell) \<in> set (pr_timepoint r). nm_ok (cell_value cell))
     \<and> distinct (map fst (pr_components r)) \<and> (\<forall>(k, b) \<in> set (pr_components r). cd_component (cb_descriptor b) = k)"

definition row_array :: "ComponentIdentifier \<Rightarrow> 'a PendingRow \<Rightarrow> (nat \<times> 'a) option" where
  "row_array k r = map_option cb_array (map_of (pr_components r) k)"

definition row_times :: "TimelineName \<Rightarrow> 'a PendingRow list \<Rightarrow> i64 list" where
  "row_times n rs = map (\<lambda>r. nm_get (cell_value (the (map_of (pr_timepoint r) n)))) rs"

text \<open>A group: rows in order, on the same timelines, with one type per component, all with data or none.\<close>

definition batch_ok :: "TimelineName list \<Rightarrow> 'a PendingRow list \<Rightarrow> bool" where
  "batch_ok names rs \<longleftrightarrow> sorted (map pr_row_id rs) \<and> (\<forall>r \<in> set rs. pending_ok r \<and> timeline_names r = names)
     \<and> (\<forall>k. one_type (map (row_array k) rs))
     \<and> ((\<forall>r \<in> set rs. pr_components r = []) \<or> (\<forall>r \<in> set rs. pr_components r \<noteq> []))"

lemma batch_ok_subseq: "batch_ok names rs \<Longrightarrow> subseq rs' rs \<Longrightarrow> batch_ok names rs'"
proof -
  assume rs: "batch_ok names rs" and sub: "subseq rs' rs"
  have "set rs' \<subseteq> set rs" using subseq_in [OF sub] by blast
  then have "one_type (map (row_array k) rs')" for k
    using rs one_type_mono [of "map (row_array k) rs'" "map (row_array k) rs"] by (auto simp: batch_ok_def)
  then show ?thesis using rs subseq_sorted_by [OF sub] subseq_in [OF sub] unfolding batch_ok_def by blast
qed

definition components_ok :: "'a sparse_arrays \<Rightarrow> 'a PendingRow list \<Rightarrow> bool" where
  "components_ok all rs \<longleftrightarrow> distinct (map fst all) \<and> (\<forall>(k, d, as) \<in> set all. cd_component d = k \<and> as = [])
     \<and> fst ` set all = (\<Union>r \<in> set rs. fst ` set (pr_components r))"

text \<open>What a good chunk is. The rows but the last are sorted on every timeline when there are too many.\<close>

definition batch_chunk :: "rstr list \<Rightarrow> u64 \<Rightarrow> 'a Chunk \<Rightarrow> bool" where
  "batch_chunk entity_path max_rows c \<longleftrightarrow> chunk_ok c \<and> ch_entity_path c = entity_path \<and> ch_is_sorted c \<and> num_rows c \<noteq> 0
     \<and> (num_rows c \<le> max (unat max_rows) 1 \<or> (\<forall>(n, tc) \<in> set (ch_timelines c). times_sorted (butlast (tc_times tc))))
     \<and> (if ch_components c = [] then \<forall>row \<in> set (chunk_rows c). \<not> has_data row else \<forall>row \<in> set (chunk_rows c). has_data row)"

definition built :: "TimelineName list \<Rightarrow> 'a sparse_arrays \<Rightarrow> u64 \<Rightarrow> 'a PendingRow list \<Rightarrow> 'a Building \<Rightarrow> bool" where
  "built names all max_rows rs b \<longleftrightarrow> bd_row_ids b = map pr_row_id rs
     \<and> distinct (map fst (bd_timelines b)) \<and> fst ` set (bd_timelines b) \<subseteq> set names
     \<and> (rs \<noteq> [] \<longrightarrow> fst ` set (bd_timelines b) = set names)
     \<and> (\<forall>n c. map_of (bd_timelines b) n = Some c \<longrightarrow> ptc_ok (row_times n rs) c)
     \<and> bd_components b = map (\<lambda>(k, d, _). (k, d, map (row_array k) rs)) all
     \<and> (length rs \<le> max (unat max_rows) 1 \<or> (\<forall>n \<in> set names. times_sorted (butlast (row_times n rs))))"

lemma sanity_check_any: "chunk_ok c \<Longrightarrow> sanity_check debug c = Inr ()"
proof (cases debug)
  case False
  assume ok: "chunk_ok c"
  have "check_timelines False n tcs = Inr ()" if "\<forall>(name, tc) \<in> set tcs. tc_ok n tc" for n tcs
    using that by (induction tcs) (auto simp: tc_sanity_check_def tc_ok_def Let_def)
  then show ?thesis using chunk_ok_sane [OF ok] ok False
    by (auto simp: sanity_check_def bind_res_Inr_iff chunk_ok_def num_rows_def check_timelines_iff)
qed (simp add: chunk_ok_sane)

lemma map_filter_keys:
  assumes "distinct (map fst m)"
  shows "distinct (map fst (List.map_filter (\<lambda>(k, v). map_option (Pair k) (g k v)) m))
    \<and> map_of (List.map_filter (\<lambda>(k, v). map_option (Pair k) (g k v)) m) k = Option.bind (map_of m k) (g k)
    \<and> fst ` set (List.map_filter (\<lambda>(k, v). map_option (Pair k) (g k v)) m) \<subseteq> fst ` set m"
  using assms
proof (induction m)
  case (Cons kv m)
  then show ?case
    by (cases kv; cases "g (fst kv) (snd kv)"; cases "map_of m k") (force simp: List.map_filter_simps dest: map_of_SomeD)+
qed (simp add: List.map_filter_simps)

lemma map_keyed:
  "map fst (map (\<lambda>(k, d, _). (k, d, f k)) m) = map fst m"
  "map_of (map (\<lambda>(k, d, _). (k, d, f k)) m) k = map_option (\<lambda>(d, _). (d, f k)) (map_of m k)"
  by (induction m) auto

text \<open>The component columns of a piece.\<close>

definition piece_columns :: "'a sparse_arrays \<Rightarrow> 'a ChunkComponents" where
  "piece_columns cs = cc_collect (List.map_filter (\<lambda>(_, desc, arrays).
     map_option (\<lambda>la. \<lparr>cc_list_array = la, cc_descriptor = desc\<rparr>) (arrays_to_list_array_opt arrays)) cs)"

lemma piece_columns:
  assumes all: "components_ok all rs" and types: "\<forall>k. one_type (map (row_array k) cur)"
  defines "cols \<equiv> piece_columns (map (\<lambda>(k, d, _). (k, d, map (row_array k) cur)) all)"
  shows "distinct (map fst cols)" "\<forall>p \<in> set cols. column_ok (length cur) p"
    and "map_of cols k = (if k \<in> fst ` set all \<and> (\<exists>r \<in> set cur. row_array k r \<noteq> None)
      then Some \<lparr>cc_list_array = the (arrays_to_list_array_opt (map (row_array k) cur)), cc_descriptor = fst (the (map_of all k))\<rparr>
      else None)"
    and "\<exists>r \<in> set cur. row_array k r \<noteq> None \<Longrightarrow>
      la_cells (the (arrays_to_list_array_opt (map (row_array k) cur))) = map (\<lambda>r. map_option snd (row_array k r)) cur"
proof -
  let ?cs = "map (\<lambda>(k, d, _). (k, d, map (row_array k) cur)) all"
  let ?g = "\<lambda>k (d, arrays). map_option (\<lambda>la. \<lparr>cc_list_array = la, cc_descriptor = d\<rparr>) (arrays_to_list_array_opt arrays)"
  let ?m = "List.map_filter (\<lambda>(k, v). map_option (Pair k) (?g k v)) ?cs"
  have distinct: "distinct (map fst all)" and fresh: "\<forall>(k, d, as) \<in> set all. cd_component d = k \<and> as = []"
    using all by (simp_all add: components_ok_def)
  have "distinct (map fst ?cs)" unfolding map_keyed(1) by (rule distinct)
  note m = map_filter_keys [OF this, of ?g]
  have "map (\<lambda>c. (cd_component (cc_descriptor c), c)) (List.map_filter (\<lambda>(_, desc, arrays).
     map_option (\<lambda>la. \<lparr>cc_list_array = la, cc_descriptor = desc\<rparr>) (arrays_to_list_array_opt arrays)) ?cs) = ?m"
    using fresh by (induction all) (auto simp: List.map_filter_simps split: option.splits)
  then have cols: "cols = ?m" using m by (simp add: cols_def piece_columns_def cc_collect_im im_collect_distinct)
  show dcols: "distinct (map fst cols)" using m unfolding cols by blast
  note arrays = arrays_to_list_array_opt [OF types [rule_format]]
  have some: "\<exists>dt. arrays_to_list_array_opt (map (row_array k) cur)
      = Some \<lparr>la_cells = map (\<lambda>r. map_option snd (row_array k r)) cur, la_nulls = True, la_datatype = dt\<rparr>"
    if "\<exists>r \<in> set cur. row_array k r \<noteq> None" for k
  proof -
    have "\<not> (\<forall>a \<in> set (map (row_array k) cur). a = None)" using that by simp
    then show ?thesis using arrays [of k] by (simp only: if_False list.map_comp comp_def)
  qed
  have none: "arrays_to_list_array_opt (map (row_array k) cur) = None" if "\<not> (\<exists>r \<in> set cur. row_array k r \<noteq> None)" for k
  proof -
    have "\<forall>a \<in> set (map (row_array k) cur). a = None" using that unfolding set_map by blast
    then show ?thesis using arrays [of k] by (simp only: if_True)
  qed
  show cells: "la_cells (the (arrays_to_list_array_opt (map (row_array k) cur))) = map (\<lambda>r. map_option snd (row_array k r)) cur"
    if "\<exists>r \<in> set cur. row_array k r \<noteq> None" for k
    using some [OF that] by auto
  show look: "map_of cols k = (if k \<in> fst ` set all \<and> (\<exists>r \<in> set cur. row_array k r \<noteq> None)
      then Some \<lparr>cc_list_array = the (arrays_to_list_array_opt (map (row_array k) cur)), cc_descriptor = fst (the (map_of all k))\<rparr>
      else None)" for k
  proof -
    have "map_of cols k = Option.bind (map_option (\<lambda>(d, _). (d, map (row_array k) cur)) (map_of all k)) (?g k)"
      using m [of k] unfolding cols map_keyed(2) by blast
    also have "\<dots> = (if k \<in> fst ` set all \<and> (\<exists>r \<in> set cur. row_array k r \<noteq> None)
      then Some \<lparr>cc_list_array = the (arrays_to_list_array_opt (map (row_array k) cur)), cc_descriptor = fst (the (map_of all k))\<rparr>
      else None)"
    proof (cases "map_of all k")
      case None
      then have "k \<notin> fst ` set all" by (simp add: map_of_eq_None_iff)
      then show ?thesis using None by simp
    next
      case (Some da)
      then have "k \<in> fst ` set all" by (metis domI dom_map_of_conv_image_fst)
      then show ?thesis using Some some [of k] none [of k]
        by (cases da; cases "\<exists>r \<in> set cur. row_array k r \<noteq> None") auto
    qed
    finally show ?thesis .
  qed
  show "\<forall>p \<in> set cols. column_ok (length cur) p"
  proof
    fix p assume p: "p \<in> set cols"
    obtain k col where kc: "p = (k, col)" by (cases p)
    then have "map_of cols k = Some col" using map_of_is_SomeI [OF dcols] p by blast
    then have ex: "k \<in> fst ` set all" "\<exists>r \<in> set cur. row_array k r \<noteq> None"
      and col: "col = \<lparr>cc_list_array = the (arrays_to_list_array_opt (map (row_array k) cur)), cc_descriptor = fst (the (map_of all k))\<rparr>"
      unfolding look by (auto split: if_splits)
    from ex(1) obtain d as where "map_of all k = Some (d, as)" "(k, d, as) \<in> set all"
      by (metis domIff dom_map_of_conv_image_fst map_of_SomeD option.exhaust surj_pair)
    then have "cd_component (cc_descriptor col) = k" using fresh col by auto
    moreover have "la_len (cc_list_array col) = length cur" using cells [OF ex(2)] col by (simp add: la_len_def)
    moreover have "la_ok (cc_list_array col)" using some [OF ex(2)] col by (auto simp: la_ok_def)
    ultimately show "column_ok (length cur) p" by (simp add: kc column_ok_def)
  qed
qed

text \<open>Finishing a piece.\<close>

lemma map_of_im_timelines: "map_of (map (\<lambda>(n, c). (n, ptc_finish c)) m) n = map_option ptc_finish (map_of m n)"
  by (rule map_of_map_snd)

lemma map_fst_snd: "map fst (map (\<lambda>(k, v). (k, f v)) m) = map fst m"
  by (induction m) auto

lemma row_times_nth: "i < length rs \<Longrightarrow> row_times n rs ! i = nm_get (cell_value (the (map_of (pr_timepoint (rs ! i)) n)))"
  by (simp add: row_times_def)

lemma length_row_times [simp]: "length (row_times n rs) = length rs"
  by (simp add: row_times_def)

lemma timeline_names_lookup: "n \<in> set (timeline_names r) \<longleftrightarrow> (\<exists>cell. map_of (pr_timepoint r) n = Some cell)"
  by (simp add: timeline_names_def) (metis domD domI dom_map_of_conv_image_fst)

lemma has_data_row_view: "has_data (row_view r) \<longleftrightarrow> pr_components r \<noteq> []"
  by (cases "pr_components r") (auto simp: has_data_def row_view_def fun_eq_iff intro!: exI)

lemma map_of_all_None: "(\<And>k. map_of m k = None) \<Longrightarrow> m = []"
  by (cases m) (auto split: if_splits, metis option.distinct(1))

lemma finish_chunk_ok:
  assumes b: "built names all max_rows cur b" and batch: "batch_ok names cur" and cur: "cur \<noteq> []"
    and all: "components_ok all rs" and sub: "set cur \<subseteq> set rs"
  shows "\<exists>c. finish_chunk debug new_ids k entity_path b = Inr c \<and> batch_chunk entity_path max_rows c \<and> chunk_rows c = map row_view cur"
proof -
  let ?cols = "piece_columns (map (\<lambda>(k, d, _). (k, d, map (row_array k) cur)) all)"
  let ?tls = "map (\<lambda>(n, c). (n, ptc_finish c)) (bd_timelines b)"
  let ?c = "\<lparr>ch_id = new_ids k, ch_entity_path = entity_path, ch_is_sorted = True, ch_row_ids = map pr_row_id cur,
    ch_timelines = ?tls, ch_components = ?cols\<rparr>"
  have types: "\<forall>k. one_type (map (row_array k) cur)" and sorted: "sorted (map pr_row_id cur)" using batch by (simp_all add: batch_ok_def)
  note cols = piece_columns [OF all types]
  have tls: "distinct (map fst (bd_timelines b))" "fst ` set (bd_timelines b) = set names"
    "\<And>n c. map_of (bd_timelines b) n = Some c \<Longrightarrow> ptc_ok (row_times n cur) c" using b cur by (simp_all add: built_def)
  have dtls: "distinct (map fst ?tls)" unfolding map_fst_snd by (rule tls(1))
  have tc: "tc_ok (length cur) tc \<and> tc_times tc = row_times n cur" if "(n, tc) \<in> set ?tls" for n tc
  proof -
    have "map_of ?tls n = Some tc" using map_of_is_SomeI [OF dtls that] .
    then obtain c where "map_of (bd_timelines b) n = Some c" "tc = ptc_finish c" unfolding map_of_im_timelines by auto
    then show ?thesis using tls(3) [of n c] by (simp add: ptc_ok_def) (simp add: ptc_finish_def)
  qed
  have rows: "num_rows ?c = length cur" by (simp add: num_rows_def)
  have "\<forall>(name, tc) \<in> set (ch_timelines ?c). tc_ok (num_rows ?c) tc" using tc unfolding rows by fastforce
  then have ok: "chunk_ok ?c" unfolding chunk_ok_def
    using sorted dtls cols(1,2) rows by (simp add: row_ids_sorted_iff)
  have fin: "finish_chunk debug new_ids k entity_path b = Inr ?c"
  proof -
    have "bd_row_ids b = map pr_row_id cur" "bd_components b = map (\<lambda>(k, d, _). (k, d, map (row_array k) cur)) all"
      using b by (simp_all add: built_def)
    moreover have "im_collect ?tls = ?tls" by (rule im_collect_distinct [OF dtls])
    ultimately show ?thesis using sanity_check_any [OF ok]
      by (simp add: finish_chunk_def chunk_new_def Let_def flip: piece_columns_def)
  qed
  have row: "chunk_row ?c i = row_view (cur ! i)" if i: "i < length cur" for i
  proof -
    let ?r = "cur ! i"
    have r: "?r \<in> set cur" "timeline_names ?r = names" using i batch by (simp_all add: batch_ok_def)
    have time: "row_time ?c i n = map_option (\<lambda>cell. nm_get (cell_value cell)) (map_of (pr_timepoint ?r) n)" for n
    proof (cases "map_of (bd_timelines b) n")
      case None
      then have "n \<notin> set names" using tls(2) by (metis map_of_eq_None_iff)
      then have "map_of (pr_timepoint ?r) n = None" using r(2) timeline_names_lookup [of n ?r] by (metis not_Some_eq)
      then show ?thesis using None by (simp add: row_time_def map_of_im_timelines)
    next
      case (Some c)
      then have "n \<in> set names" using tls(2) by (metis map_of_eq_None_iff option.distinct(1))
      then obtain cell where "map_of (pr_timepoint ?r) n = Some cell" using r(2) timeline_names_lookup [of n ?r] by blast
      moreover have "tc_times (ptc_finish c) = row_times n cur" using tls(3) [OF Some] by (simp add: ptc_ok_def ptc_finish_def)
      ultimately show ?thesis using Some i by (simp add: row_time_def map_of_im_timelines row_times_nth)
    qed
    have cell: "row_cell ?c i k = map_option (\<lambda>b. snd (cb_array b)) (map_of (pr_components ?r) k)" for k
    proof (cases "k \<in> fst ` set all \<and> (\<exists>r \<in> set cur. row_array k r \<noteq> None)")
      case True
      then show ?thesis using cols(3) [of k] cols(4) [of k] i
        by (simp add: row_cell_def cc_get_array_def row_array_def option.map_comp comp_def)
    next
      case False
      have "map_of (pr_components ?r) k = None"
      proof (cases "k \<in> fst ` set all")
        case True
        then have "row_array k ?r = None" using False r(1) by blast
        then show ?thesis by (simp add: row_array_def)
      next
        case notin: False
        then have "k \<notin> fst ` set (pr_components ?r)" using all r(1) sub unfolding components_ok_def by blast
        then show ?thesis by (simp add: map_of_eq_None_iff)
      qed
      moreover have "map_of ?cols k = None" using cols(3) [of k] False by presburger
      ultimately show ?thesis by (simp add: row_cell_def cc_get_array_def)
    qed
    show ?thesis using i time cell by (simp add: chunk_row_def row_view_def fun_eq_iff)
  qed
  have view: "chunk_rows ?c = map row_view cur"
    by (rule nth_equalityI) (use rows row in simp_all)
  have data: "if ch_components ?c = [] then \<forall>row \<in> set (chunk_rows ?c). \<not> has_data row else \<forall>row \<in> set (chunk_rows ?c). has_data row"
  proof (cases "\<forall>r \<in> set cur. pr_components r = []")
    case True
    then have "\<not> (\<exists>r \<in> set cur. row_array k r \<noteq> None)" for k by (auto simp: row_array_def)
    then have "?cols = []" using cols(3) by (intro map_of_all_None) presburger
    then show ?thesis using True view by (simp add: has_data_row_view)
  next
    case False
    then have full: "\<forall>r \<in> set cur. pr_components r \<noteq> []" using batch by (auto simp: batch_ok_def)
    obtain r where r: "r \<in> set cur" using cur by (meson last_in_set)
    then obtain k b' where kb: "(k, b') \<in> set (pr_components r)" using full by (metis list.set_intros(1) neq_Nil_conv surj_pair)
    then have "k \<in> fst ` set (pr_components r)" by (metis fst_conv image_eqI)
    then have "row_array k r \<noteq> None" by (simp add: row_array_def map_of_eq_None_iff)
    moreover have "k \<in> (\<Union>r \<in> set rs. fst ` set (pr_components r))" using \<open>k \<in> fst ` set (pr_components r)\<close> r sub by blast
    then have "k \<in> fst ` set all" using all unfolding components_ok_def by blast
    ultimately have "map_of ?cols k \<noteq> None" using cols(3) [of k] r by auto
    then have "?cols \<noteq> []" by (metis map_of.simps(1))
    then show ?thesis using full view by (simp add: has_data_row_view)
  qed
  have "length cur \<le> max (unat max_rows) 1 \<or> (\<forall>(n, tc) \<in> set ?tls. times_sorted (butlast (tc_times tc)))"
  proof -
    have "n \<in> set names" if "(n, tc) \<in> set ?tls" for n tc using that tls(2) by force
    moreover have "length cur \<le> max (unat max_rows) 1 \<or> (\<forall>n \<in> set names. times_sorted (butlast (row_times n cur)))"
      using b by (simp add: built_def)
    ultimately show ?thesis using tc by fastforce
  qed
  then have "batch_chunk entity_path max_rows ?c" using ok data rows cur by (simp add: batch_chunk_def)
  then show ?thesis using fin view by blast
qed

text \<open>Pushing a row.\<close>

lemma im_or_insert_keys:
  "distinct (map fst m) \<Longrightarrow> distinct (map fst (im_or_insert k v m))"
  "fst ` set (im_or_insert k v m) = insert k (fst ` set m)"
  "map_of (im_or_insert k v m) k' = (if k' = k \<and> map_of m k = None then Some v else map_of m k')"
proof -
  have none: "map_of m k = None \<longleftrightarrow> k \<notin> fst ` set m" for k by (rule map_of_eq_None_iff)
  show "map_of (im_or_insert k v m) k' = (if k' = k \<and> map_of m k = None then Some v else map_of m k')"
  proof (cases "map_of m k")
    case None
    then have "im_or_insert k v m = m @ [(k, v)]" using none by (simp add: im_or_insert_def)
    then show ?thesis using None by (simp add: map_add_def split: option.split)
  next
    case (Some x)
    then show ?thesis using none [of k] by (simp add: im_or_insert_def)
  qed
qed (auto simp: im_or_insert_def)

lemma map_fst_on_key: "map fst (map (\<lambda>(n, c). (n, if n = k then f c else c)) m) = map fst m"
  by (induction m) auto

lemma map_of_on_key: "map_of (map (\<lambda>(n, c). (n, if n = k then f c else c)) m) n = (if n = k then map_option f (map_of m n) else map_of m n)"
  by (induction m) auto

lemma push_time_keys:
  "distinct (map fst m) \<Longrightarrow> distinct (map fst (push_time (n, cell) m))"
  "fst ` set (push_time (n, cell) m) = insert n (fst ` set m)"
  "map_of (push_time (n, cell) m) n' = (if n' = n then Some (ptc_push (cell_time cell)
     (case map_of m n of None \<Rightarrow> ptc_new \<lparr>tl_name = n, tl_typ = cell_typ cell\<rparr> | Some c \<Rightarrow> c)) else map_of m n')"
proof -
  show "distinct (map fst m) \<Longrightarrow> distinct (map fst (push_time (n, cell) m))"
    unfolding push_time_def pending_timeline_def prod.case map_fst_on_key by (rule im_or_insert_keys(1))
  have "fst ` set (push_time (n, cell) m) = set (map fst (push_time (n, cell) m))" by simp
  also have "\<dots> = insert n (fst ` set m)"
    unfolding push_time_def pending_timeline_def prod.case map_fst_on_key by (simp add: im_or_insert_keys(2))
  finally show "fst ` set (push_time (n, cell) m) = insert n (fst ` set m)" .
  show "map_of (push_time (n, cell) m) n' = (if n' = n then Some (ptc_push (cell_time cell)
     (case map_of m n of None \<Rightarrow> ptc_new \<lparr>tl_name = n, tl_typ = cell_typ cell\<rparr> | Some c \<Rightarrow> c)) else map_of m n')"
    unfolding push_time_def pending_timeline_def prod.case map_of_on_key im_or_insert_keys(3) by (simp split: option.split)
qed

lemma push_times_keys:
  assumes "distinct (map fst tp)" "distinct (map fst m)"
  shows "distinct (map fst (fold push_time tp m)) \<and> fst ` set (fold push_time tp m) = fst ` set tp \<union> fst ` set m
    \<and> map_of (fold push_time tp m) n = (case map_of tp n of None \<Rightarrow> map_of m n
        | Some cell \<Rightarrow> Some (ptc_push (cell_time cell)
            (case map_of m n of None \<Rightarrow> ptc_new \<lparr>tl_name = n, tl_typ = cell_typ cell\<rparr> | Some c \<Rightarrow> c)))"
  using assms
proof (induction tp arbitrary: m)
  case (Cons x tp)
  obtain n' cell where x: "x = (n', cell)" by (cases x)
  have "map_of tp n' = None" using Cons.prems(1) by (simp add: x map_of_eq_None_iff)
  then show ?case using Cons.IH [of "push_time x m"] Cons.prems push_time_keys [where m = m and n = n' and cell = cell]
    by (auto simp: x split: option.split)
qed simp

lemma push_row_built:
  assumes b: "built names all max_rows cur b" and r: "pending_ok r" "timeline_names r = names"
    and full: "cur \<noteq> [] \<and> unat max_rows \<le> length cur \<longrightarrow> (\<forall>n \<in> set names. times_sorted (row_times n cur))"
  shows "built names all max_rows (cur @ [r]) (push_row r b)"
proof -
  let ?tls = "bd_timelines b" and ?tls' = "fold push_time (pr_timepoint r) (bd_timelines b)"
  have tp: "distinct (map fst (pr_timepoint r))" "fst ` set (pr_timepoint r) = set names"
    using r by (simp_all add: pending_ok_def timeline_names_def flip: r(2))
  have tls: "distinct (map fst ?tls)" "fst ` set ?tls \<subseteq> set names" "cur \<noteq> [] \<Longrightarrow> fst ` set ?tls = set names"
    "\<And>n c. map_of ?tls n = Some c \<Longrightarrow> ptc_ok (row_times n cur) c" using b by (simp_all add: built_def)
  note pushed = push_times_keys [OF tp(1) tls(1)]
  have "ptc_ok (row_times n (cur @ [r])) c" if c: "map_of ?tls' n = Some c" for n c
  proof -
    have "n \<in> set names" using c pushed [of n] tp(2) tls(2) by (metis Un_absorb2 map_of_eq_None_iff option.distinct(1))
    then obtain cell where cell: "map_of (pr_timepoint r) n = Some cell" using r(2) timeline_names_lookup by blast
    let ?old = "case map_of ?tls n of None \<Rightarrow> ptc_new \<lparr>tl_name = n, tl_typ = cell_typ cell\<rparr> | Some c \<Rightarrow> c"
    have "ptc_ok (row_times n cur) ?old"
    proof (cases "map_of ?tls n")
      case None
      then have "cur = []" using tls(3) \<open>n \<in> set names\<close> by (metis map_of_eq_None_iff)
      then show ?thesis using None ptc_new_ok by (simp add: row_times_def)
    qed (use tls(4) in simp)
    moreover have "is_temporal (cell_time cell)" by (simp add: cell_time_def)
    ultimately have "ptc_ok (row_times n cur @ [as_i64 (cell_time cell)]) (ptc_push (cell_time cell) ?old)" by (rule ptc_push_ok)
    moreover have "nm_ok (cell_value cell)" using r(1) cell by (auto simp: pending_ok_def dest: map_of_SomeD)
    then have "as_i64 (cell_time cell) = nm_get (cell_value cell)" by (simp add: cell_time_def as_i64_new_temporal nm_ok_iff_get)
    ultimately show ?thesis using pushed [of n] c cell by (simp add: row_times_def)
  qed
  moreover have "fst ` set ?tls' = set names" using pushed tp(2) tls(2) by auto
  moreover have "length (cur @ [r]) \<le> max (unat max_rows) 1 \<or> (\<forall>n \<in> set names. times_sorted (butlast (row_times n (cur @ [r]))))"
    using full by (cases "cur = []") (auto simp: row_times_def not_le)
  moreover have "bd_components (push_row r b) = map (\<lambda>(k, d, _). (k, d, map (row_array k) (cur @ [r]))) all"
    using b by (auto simp: built_def push_row_def row_array_def)
  ultimately show ?thesis using b pushed by (auto simp: built_def push_row_def)
qed

text \<open>The loop over the rows: what was seen is in the finished chunks and in the one being built.\<close>

definition batching ::
  "rstr list \<Rightarrow> TimelineName list \<Rightarrow> 'a sparse_arrays \<Rightarrow> u64 \<Rightarrow> TimelineName set \<Rightarrow> 'a PendingRow list \<Rightarrow> 'a Building \<Rightarrow> bool" where
  "batching entity_path names all max_rows checked seen b \<longleftrightarrow>
     (\<exists>pre cur cs. seen = pre @ cur \<and> built names all max_rows cur b \<and> (seen \<noteq> [] \<and> checked = {} \<longrightarrow> cur \<noteq> [])
        \<and> (cur \<noteq> [] \<and> unat max_rows \<le> length cur \<longrightarrow> (\<forall>n \<in> checked. times_sorted (row_times n cur)))
        \<and> bd_chunks b = map Inr cs \<and> list_all (batch_chunk entity_path max_rows) cs
        \<and> concat (map chunk_rows cs) = map row_view pre)"

lemma built_new:
  assumes "components_ok all rs"
  shows "built names all max_rows [] \<lparr>bd_row_ids = [], bd_timelines = [], bd_components = all, bd_chunks = chunks\<rparr>"
proof -
  have "map (\<lambda>(k, d, _). (k, d, map (row_array k) [])) all = all"
    using assms by (intro map_idI) (auto simp: components_ok_def)
  then show ?thesis by (simp add: built_def)
qed

lemma built_timeline:
  assumes "built names all max_rows cur b" "n \<in> set names"
  shows "built names all max_rows cur (b\<lparr>bd_timelines := pending_timeline n cell (bd_timelines b)\<rparr>)"
    and "cur \<noteq> [] \<Longrightarrow> ptc_is_sorted (the (map_of (pending_timeline n cell (bd_timelines b)) n)) = times_sorted (row_times n cur)"
proof -
  let ?m = "bd_timelines b"
  note new = im_or_insert_keys [where k = n and v = "ptc_new \<lparr>tl_name = n, tl_typ = cell_typ cell\<rparr>" and m = ?m, folded pending_timeline_def]
  have none: "cur = []" if "map_of ?m n = None" using that assms by (auto simp: built_def map_of_eq_None_iff)
  have ok: "ptc_ok (row_times n' cur) c" if "map_of (pending_timeline n cell ?m) n' = Some c" for n' c
    using that assms(1) none ptc_new_ok unfolding new(3) by (auto simp: built_def row_times_def split: if_splits)
  then show "built names all max_rows cur (b\<lparr>bd_timelines := pending_timeline n cell (bd_timelines b)\<rparr>)"
    using assms new(1,2) by (auto simp: built_def)
  assume "cur \<noteq> []"
  then obtain c where c: "map_of (pending_timeline n cell ?m) n = Some c" using none unfolding new(3) by (cases "map_of ?m n") auto
  then have "tc_ok (length cur) (ptc_finish c)" "ptc_times c = row_times n cur" using ok [OF c] by (simp_all add: ptc_ok_def)
  then show "ptc_is_sorted (the (map_of (pending_timeline n cell ?m) n)) = times_sorted (row_times n cur)"
    using c by (simp add: tc_ok_def ptc_finish_def)
qed

lemma split_if_unsorted_batching:
  assumes run: "batching entity_path names all max_rows checked seen b" and n: "n \<in> set names"
    and batch: "batch_ok names rs" and "subseq seen rs" and all: "components_ok all rs"
  shows "batching entity_path names all max_rows (insert n checked) seen
    (split_if_unsorted debug new_ids k entity_path max_rows all (n, cell) b)"
proof -
  obtain pre cur cs where d: "seen = pre @ cur" and b: "built names all max_rows cur b"
    and started: "seen \<noteq> [] \<and> checked = {} \<longrightarrow> cur \<noteq> []"
    and checked: "cur \<noteq> [] \<and> unat max_rows \<le> length cur \<longrightarrow> (\<forall>n \<in> checked. times_sorted (row_times n cur))"
    and cs: "bd_chunks b = map Inr cs" "list_all (batch_chunk entity_path max_rows) cs" "concat (map chunk_rows cs) = map row_view pre"
    using run unfolding batching_def by blast
  let ?b = "b\<lparr>bd_timelines := pending_timeline n cell (bd_timelines b)\<rparr>"
  note new = built_timeline [OF b n, where cell = cell]
  have ids: "bd_row_ids b = map pr_row_id cur" using b by (simp add: built_def)
  let ?split = "cur \<noteq> [] \<and> unat max_rows \<le> length cur \<and> \<not> times_sorted (row_times n cur)"
  show ?thesis
  proof (cases ?split)
    case True
    have "subseq cur (pre @ cur)" by (rule list_emb_append2) simp
    then have sub: "subseq cur rs" using \<open>subseq seen rs\<close> unfolding d by (rule subseq_order.trans)
    then have "set cur \<subseteq> set rs" using subseq_in [OF sub] by blast
    from finish_chunk_ok [OF new(1) batch_ok_subseq [OF batch sub] conjunct1 [OF True] all this,
        of debug new_ids "k + length (bd_chunks b)" entity_path] obtain c where
      c: "finish_chunk debug new_ids (k + length (bd_chunks b)) entity_path ?b = Inr c" "batch_chunk entity_path max_rows c"
        "chunk_rows c = map row_view cur" by blast
    have "split_if_unsorted debug new_ids k entity_path max_rows all (n, cell) b
        = \<lparr>bd_row_ids = [], bd_timelines = [], bd_components = all, bd_chunks = map Inr (cs @ [c])\<rparr>"
      using True new(2) c(1) ids cs(1) by (simp add: split_if_unsorted_def Let_def)
    moreover have "list_all (batch_chunk entity_path max_rows) (cs @ [c])" "concat (map chunk_rows (cs @ [c])) = map row_view seen"
      using c cs d by simp_all
    ultimately show ?thesis unfolding batching_def using built_new [OF all]
      by (intro exI [of _ seen] exI [of _ "[]"] exI [of _ "cs @ [c]"]) simp
  next
    case False
    then have "split_if_unsorted debug new_ids k entity_path max_rows all (n, cell) b = ?b"
      using new(2) ids by (auto simp: split_if_unsorted_def Let_def)
    then show ?thesis unfolding batching_def using new(1) d cs checked False started
      by (intro exI [of _ pre] exI [of _ cur] exI [of _ cs]) auto
  qed
qed

lemma split_fold_batching:
  assumes "batching entity_path names all max_rows checked seen b" "fst ` set tp \<subseteq> set names"
    and "batch_ok names rs" "subseq seen rs" "components_ok all rs"
  shows "batching entity_path names all max_rows (checked \<union> fst ` set tp) seen
    (fold (split_if_unsorted debug new_ids k entity_path max_rows all) tp b)"
  using assms(1,2)
proof (induction tp arbitrary: b checked)
  case (Cons x tp)
  obtain n cell where x: "x = (n, cell)" by (cases x)
  have "batching entity_path names all max_rows (insert n checked) seen
      (split_if_unsorted debug new_ids k entity_path max_rows all x b)"
    unfolding x using Cons.prems by (intro split_if_unsorted_batching [OF _ _ assms(3-5)]) (auto simp: x)
  from Cons.IH [OF this] Cons.prems(2) show ?case by (simp add: x insert_commute Un_insert_left [symmetric] del: Un_insert_left)
qed simp

lemma build_row_batching:
  assumes run: "batching entity_path names all max_rows {} seen b" and r: "r \<in> set rs"
    and ok: "batch_ok names rs" "subseq seen rs" "components_ok all rs"
  shows "batching entity_path names all max_rows {} (seen @ [r]) (build_row debug new_ids k entity_path max_rows all r b)"
proof -
  let ?b = "fold (split_if_unsorted debug new_ids k entity_path max_rows all) (pr_timepoint r) b"
  have row: "pending_ok r" "timeline_names r = names" using ok(1) r by (simp_all add: batch_ok_def)
  then have tp: "fst ` set (pr_timepoint r) = set names" by (metis timeline_names_def list.set_map)
  have "batching entity_path names all max_rows ({} \<union> fst ` set (pr_timepoint r)) seen ?b"
    using tp by (intro split_fold_batching [OF run _ ok]) simp
  then obtain pre cur cs where d: "seen = pre @ cur" and b: "built names all max_rows cur ?b"
    and checked: "cur \<noteq> [] \<and> unat max_rows \<le> length cur \<longrightarrow> (\<forall>n \<in> set names. times_sorted (row_times n cur))"
    and cs: "bd_chunks ?b = map Inr cs" "list_all (batch_chunk entity_path max_rows) cs" "concat (map chunk_rows cs) = map row_view pre"
    unfolding batching_def tp Un_empty_left by blast
  have "built names all max_rows (cur @ [r]) (push_row r ?b)" by (rule push_row_built [OF b row checked])
  moreover have "bd_chunks (push_row r ?b) = map Inr cs" using cs(1) by (simp add: push_row_def)
  ultimately show ?thesis unfolding batching_def build_row_def using d cs(2,3)
    by (intro exI [of _ pre] exI [of _ "cur @ [r]"] exI [of _ cs]) simp
qed

lemma build_rows_batching:
  assumes "batch_ok names rs" "components_ok all rs" "rs = seen @ rest" "batching entity_path names all max_rows {} seen b"
  shows "batching entity_path names all max_rows {} rs (fold (build_row debug new_ids k entity_path max_rows all) rest b)"
  using assms(3,4)
proof (induction rest arbitrary: seen b)
  case (Cons r rest)
  have "subseq seen rs" unfolding Cons.prems(1) by (rule list_emb_prefix) simp
  from build_row_batching [OF Cons.prems(2) _ assms(1) this assms(2), of r debug new_ids k] Cons.prems(1) Cons.IH [of "seen @ [r]"]
  show ?case by simp
qed simp

lemma all_components_ok:
  assumes "\<forall>r \<in> set rs. pending_ok r"
  shows "components_ok (all_components rs) rs"
  using assms
proof (induction rs rule: rev_induct)
  case (snoc r rs)
  have step: "distinct (map fst all') \<and> (\<forall>(k, d, as) \<in> set all'. cd_component d = k \<and> as = []) \<and> fst ` set all' = fst ` set all \<union> fst ` set cs"
    if "distinct (map fst all)" "\<forall>(k, d, as) \<in> set all. cd_component d = k \<and> as = []"
      "\<forall>(k, b) \<in> set cs. cd_component (cb_descriptor b) = k"
      "all' = fold (\<lambda>(component, batch). im_or_insert component (cb_descriptor batch, [])) cs all"
    for all all' :: "'a sparse_arrays" and cs
    using that
  proof (induction cs arbitrary: all)
    case (Cons x cs)
    obtain k b where x: "x = (k, b)" by (cases x)
    let ?all = "im_or_insert k (cb_descriptor b, []) all"
    have "\<forall>(k, d, as) \<in> set ?all. cd_component d = k \<and> as = []" using Cons.prems by (auto simp: im_or_insert_def x)
    from Cons.IH [OF im_or_insert_keys(1) [OF Cons.prems(1)] this] Cons.prems(3,4) show ?case
      by (auto simp: x im_or_insert_keys(2))
  qed simp
  have "components_ok (all_components rs) rs" using snoc by simp
  then show ?case using snoc.prems step [of "all_components rs" "pr_components r" "all_components (rs @ [r])"]
    by (auto simp: components_ok_def all_components_def pending_ok_def)
qed (simp add: components_ok_def all_components_def)

text \<open>The chunks of a group: all of them good, their rows the rows of the group.\<close>

lemma datatype_set_chunks_ok:
  assumes batch: "batch_ok names rs" and rs: "rs \<noteq> []"
  shows "\<exists>cs. datatype_set_chunks debug new_ids k entity_path max_rows rs = map Inr cs
    \<and> list_all (batch_chunk entity_path max_rows) cs \<and> concat (map chunk_rows cs) = map row_view rs"
proof -
  let ?all = "all_components rs"
  let ?init = "\<lparr>bd_row_ids = [], bd_timelines = [], bd_components = ?all, bd_chunks = []\<rparr>"
  let ?b = "fold (build_row debug new_ids k entity_path max_rows ?all) rs ?init"
  have all: "components_ok ?all rs" using batch by (intro all_components_ok) (simp add: batch_ok_def)
  have "batching entity_path names ?all max_rows {} [] ?init"
    unfolding batching_def using built_new [OF all] by (intro exI [of _ "[]"]) simp
  then have "batching entity_path names ?all max_rows {} rs ?b" by (intro build_rows_batching [OF batch all]) simp_all
  then obtain pre cur cs where d: "rs = pre @ cur"
    and b: "built names ?all max_rows cur ?b" and cur: "cur \<noteq> []"
    and cs: "bd_chunks ?b = map Inr cs" "list_all (batch_chunk entity_path max_rows) cs" "concat (map chunk_rows cs) = map row_view pre"
    unfolding batching_def using rs by blast
  have "subseq cur rs" unfolding d by (rule list_emb_append2) simp
  then have sub: "batch_ok names cur" "set cur \<subseteq> set rs" using batch_ok_subseq [OF batch] d by auto
  from finish_chunk_ok [OF b sub(1) cur all sub(2), of debug new_ids "k + length (bd_chunks ?b)" entity_path] obtain c where
    c: "finish_chunk debug new_ids (k + length (bd_chunks ?b)) entity_path ?b = Inr c" "batch_chunk entity_path max_rows c"
      "chunk_rows c = map row_view cur" by blast
  have "datatype_set_chunks debug new_ids k entity_path max_rows rs = map Inr (cs @ [c])"
    using cs(1) c(1) by (simp add: datatype_set_chunks_def Let_def)
  then show ?thesis using c(2,3) cs(2,3) d by (intro exI [of _ "cs @ [c]"]) simp
qed

section \<open>All chunks of a batch\<close>

text \<open>The hash function separates what it is asked to separate, and two rows with the same sequence of
  datatypes agree on the datatype of every component. The code has no check of either.\<close>

definition rows_compatible :: "(TimelineName list \<Rightarrow> u64) \<Rightarrow> (nat list \<Rightarrow> u64) \<Rightarrow> 'a PendingRow set \<Rightarrow> bool" where
  "rows_compatible hash_names hash_types R \<longleftrightarrow> (\<forall>r \<in> R. pending_ok r)
     \<and> inj_on hash_names (timeline_names ` R) \<and> inj_on hash_types (component_datatypes ` R)
     \<and> (\<forall>r \<in> R. \<forall>r' \<in> R. component_datatypes r = component_datatypes r' \<longrightarrow>
          (\<forall>k a a'. row_array k r = Some a \<and> row_array k r' = Some a' \<longrightarrow> fst a = fst a'))"

lemma rows_compatible_mono: "rows_compatible hn ht R \<Longrightarrow> R' \<subseteq> R \<Longrightarrow> rows_compatible hn ht R'"
  unfolding rows_compatible_def by (meson image_mono inj_on_subset subsetD)

lemma group_batch_ok:
  assumes R: "rows_compatible hn ht (set rows)" and sorted: "sorted (map pr_row_id rows)"
    and g: "group_ok (hn \<circ> timeline_names) rows (h, rs)" and g': "group_ok (ht \<circ> component_datatypes) rs (h', rs')"
  shows "\<exists>names. batch_ok names rs'"
proof -
  have sub: "subseq rs rows" "subseq rs' rs" "rs' \<noteq> []" using g g' by (simp_all add: group_ok_def)
  then have sub': "subseq rs' rows" by (meson subseq_order.trans)
  have inR: "r \<in> set rs \<and> r \<in> set rows" if "r \<in> set rs'" for r
    using that subseq_in [OF sub(2)] subseq_in [OF sub'] by blast
  obtain r0 where r0: "r0 \<in> set rs'" using sub(3) by (meson last_in_set)
  have same: "timeline_names r = timeline_names r0 \<and> component_datatypes r = component_datatypes r0" if "r \<in> set rs'" for r
  proof -
    have "hn (timeline_names r) = hn (timeline_names r0)" "ht (component_datatypes r) = ht (component_datatypes r0)"
      using g g' that r0 inR by (auto simp: group_ok_def)
    then show ?thesis using R inR [OF that] inR [OF r0] unfolding rows_compatible_def inj_on_def by blast
  qed
  have "one_type (map (row_array k) rs')" for k
  proof -
    have "fst a = fst a'" if "r \<in> set rs'" "r' \<in> set rs'" "row_array k r = Some a" "row_array k r' = Some a'" for r r' a a'
    proof -
      have "component_datatypes r = component_datatypes r'" using same that(1,2) by metis
      then show ?thesis using R inR that unfolding rows_compatible_def by blast
    qed
    then show ?thesis unfolding one_type_def by (auto simp: image_iff) (metis fst_conv)
  qed
  moreover have "(\<forall>r \<in> set rs'. pr_components r = []) \<or> (\<forall>r \<in> set rs'. pr_components r \<noteq> [])"
  proof (cases "component_datatypes r0 = []")
    case True
    then have "\<forall>r \<in> set rs'. component_datatypes r = []" using same by metis
    then show ?thesis by (simp add: component_datatypes_def)
  next
    case False
    then have "\<forall>r \<in> set rs'. component_datatypes r \<noteq> []" using same by metis
    then show ?thesis by (simp add: component_datatypes_def)
  qed
  moreover have "\<forall>r \<in> set rs'. pending_ok r \<and> timeline_names r = timeline_names r0"
    using same inR R by (simp add: rows_compatible_def)
  ultimately show ?thesis unfolding batch_ok_def using subseq_sorted_by [OF sub' sorted] by blast
qed

lemma fold_datatype_sets:
  assumes "\<forall>rs \<in> set sets. rs \<noteq> [] \<and> (\<exists>names. batch_ok names rs)"
    and "chunks = map Inr cs" "list_all (batch_chunk entity_path max_rows) cs"
  shows "\<exists>cs'. fold (\<lambda>rows chunks. chunks @ datatype_set_chunks debug new_ids (k + length chunks) entity_path max_rows rows) sets chunks = map Inr cs'
    \<and> list_all (batch_chunk entity_path max_rows) cs' \<and> concat (map chunk_rows cs') = concat (map chunk_rows cs) @ map row_view (concat sets)"
  using assms
proof (induction sets arbitrary: chunks cs)
  case (Cons rs sets)
  then obtain names where rs: "rs \<noteq> []" "batch_ok names rs" by auto
  from datatype_set_chunks_ok [OF rs(2,1), of debug new_ids "k + length chunks" entity_path max_rows] obtain new where
    new: "datatype_set_chunks debug new_ids (k + length chunks) entity_path max_rows rs = map Inr new"
      "list_all (batch_chunk entity_path max_rows) new" "concat (map chunk_rows new) = map row_view rs" by blast
  from Cons.IH [of "chunks @ datatype_set_chunks debug new_ids (k + length chunks) entity_path max_rows rs" "cs @ new"]
    Cons.prems new show ?case by auto
qed simp

lemma mset_concat_groups: "groups key rows g \<Longrightarrow> mset (concat (map snd g)) = mset rows"
  by (simp add: groups_def)

lemma many_into_chunks_ok:
  assumes R: "rows_compatible hash_names hash_types (set rows)"
  shows "\<exists>cs. many_into_chunks hash_names hash_types debug new_ids k entity_path max_rows rows = map Inr cs
    \<and> list_all (batch_chunk entity_path max_rows) cs \<and> mset (concat (map chunk_rows cs)) = mset (map row_view rows)"
proof -
  let ?rows = "sort_key pr_row_id rows"
  let ?per = "group_rows (hash_names \<circ> timeline_names) ?rows"
  let ?types = "\<lambda>rs. group_rows (hash_types \<circ> component_datatypes) rs"
  let ?sets = "concat (map (\<lambda>(_, rs). map snd (?types rs)) ?per)"
  have R': "rows_compatible hash_names hash_types (set ?rows)" using R by simp
  have sorted: "sorted (map pr_row_id ?rows)" by simp
  have per: "groups (hash_names \<circ> timeline_names) ?rows ?per" by (rule group_rows_groups)
  have "\<forall>rs \<in> set ?sets. rs \<noteq> [] \<and> (\<exists>names. batch_ok names rs)"
  proof
    fix rs' assume "rs' \<in> set ?sets"
    then obtain h rs h' where g: "(h, rs) \<in> set ?per" "(h', rs') \<in> set (?types rs)" by (auto simp: comp_def)
    have "groups (hash_types \<circ> component_datatypes) rs (?types rs)" by (rule group_rows_groups)
    then have ok: "group_ok (hash_names \<circ> timeline_names) ?rows (h, rs)" "group_ok (hash_types \<circ> component_datatypes) rs (h', rs')"
      using per g unfolding groups_def list_all_iff by blast+
    then have "rs' \<noteq> []" by (simp add: group_ok_def)
    then show "rs' \<noteq> [] \<and> (\<exists>names. batch_ok names rs')" using group_batch_ok [OF R' sorted ok] by blast
  qed
  from fold_datatype_sets [OF this, of "[]" "[]" entity_path max_rows debug new_ids k] obtain cs where
    cs: "many_into_chunks hash_names hash_types debug new_ids k entity_path max_rows rows = map Inr cs"
      "list_all (batch_chunk entity_path max_rows) cs" "concat (map chunk_rows cs) = map row_view (concat ?sets)"
    by (auto simp: many_into_chunks_def)
  have "mset (concat (concat (map (\<lambda>(_, rs). map snd (?types rs)) g))) = mset (concat (map snd g))"
    for g :: "(u64 \<times> 'a PendingRow list) list"
    by (induction g) (auto simp: mset_concat_groups [OF group_rows_groups])
  from this [of ?per] have "mset (concat ?sets) = mset rows" using mset_concat_groups [OF per] by simp
  then have "mset (map row_view (concat ?sets)) = mset (map row_view rows)" by simp
  then have "mset (concat (map chunk_rows cs)) = mset (map row_view rows)" unfolding cs(3) .
  then show ?thesis using cs(1,2) by blast
qed

end
