(* ===== verification/Chunk_Batcher_Props.thy ===== *)
theory Chunk_Batcher_Props
  imports Chunk_Batcher_Rows
begin

text \<open>
  What the batcher promises: of the rows of a batch, and of everything that was sent to the thread.
\<close>

section \<open>A batch\<close>


section \<open>The thread\<close>

text \<open>The rows with data, under their entity.\<close>

definition sent_rows :: "'a Chunk list \<Rightarrow> (rstr list \<times> 'a row) multiset" where
  "sent_rows cs = mset (concat (map (\<lambda>c. map (Pair (ch_entity_path c)) (chunk_rows c)) cs))"

definition row_data :: "rstr list \<Rightarrow> 'a PendingRow list \<Rightarrow> (rstr list \<times> 'a row) list" where
  "row_data entity_path rows = map (\<lambda>r. (entity_path, row_view r)) (filter (\<lambda>r. pr_components r \<noteq> []) rows)"

definition pending_data :: "'a Batching \<Rightarrow> (rstr list \<times> 'a row) multiset" where
  "pending_data st = mset (concat (map (\<lambda>(entity_path, acc). row_data entity_path (acc_pending_rows acc)) (bt_accs st)))"

text \<open>What was sent to the thread before it was shut down.\<close>

fun pushed :: "'a event list \<Rightarrow> (rstr list \<times> 'a row) multiset" where
  "pushed [] = {#}"
| "pushed (Cmd (AppendRow entity_path row) # evs) = mset (row_data entity_path [row]) + pushed evs"
| "pushed (Cmd (AppendChunk c) # evs) = sent_rows (send_chunk c []) + pushed evs"
| "pushed (Cmd Shutdown # evs) = {#}"
| "pushed (_ # evs) = pushed evs"

definition pushed_rows :: "'a event list \<Rightarrow> rstr list \<Rightarrow> 'a PendingRow set" where
  "pushed_rows evs entity_path = {row. Cmd (AppendRow entity_path row) \<in> set evs}"

definition batcher_total :: "'a Batching \<Rightarrow> (rstr list \<times> 'a row) multiset" where
  "batcher_total st = sent_rows (bt_output st) + pending_data st"

definition pending_of :: "'a Batching \<Rightarrow> rstr list \<Rightarrow> 'a PendingRow list" where
  "pending_of st entity_path = (case map_of (bt_accs st) entity_path of None \<Rightarrow> [] | Some acc \<Rightarrow> acc_pending_rows acc)"

lemma sent_rows_append [simp]: "sent_rows (a @ b) = sent_rows a + sent_rows b" "sent_rows [] = {#}"
  by (simp_all add: sent_rows_def)

lemma row_data_append [simp]: "row_data e (a @ b) = row_data e a @ row_data e b" "row_data e [] = []"
  by (simp_all add: row_data_def)

lemma mset_im_insert:
  "mset (concat (map (\<lambda>(k, v). f k v) (im_insert k v m))) + mset (case map_of m k of None \<Rightarrow> [] | Some old \<Rightarrow> f k old)
     = mset (concat (map (\<lambda>(k, v). f k v) m)) + mset (f k v)"
  by (induction m) (auto simp: ac_simps)

lemma fold_send: "fold (\<lambda>chunk out. case chunk of Inl _ \<Rightarrow> out | Inr chunk \<Rightarrow> send_chunk chunk out) (map Inr cs) out
    = out @ filter (\<lambda>c. ch_components c \<noteq> []) cs"
  by (induction cs arbitrary: out) (auto simp: send_chunk_def)

lemma sent_batch:
  assumes "list_all (batch_chunk entity_path max_rows) cs" "mset (concat (map chunk_rows cs)) = mset (map row_view rows)"
  shows "sent_rows (filter (\<lambda>c. ch_components c \<noteq> []) cs) = mset (row_data entity_path rows)"
proof -
  have "sent_rows (filter (\<lambda>c. ch_components c \<noteq> []) cs)
      = image_mset (Pair entity_path) (filter_mset has_data (mset (concat (map chunk_rows cs))))"
    using assms(1)
  proof (induction cs)
    case (Cons c cs)
    then have c: "ch_entity_path c = entity_path"
      "filter has_data (chunk_rows c) = (if ch_components c = [] then [] else chunk_rows c)"
      by (auto simp: batch_chunk_def filter_id_conv filter_empty_conv split: if_splits)
    then show ?case using Cons by (auto simp: sent_rows_def simp flip: mset_filter)
  qed (simp add: sent_rows_def)
  also have "\<dots> = mset (row_data entity_path rows)"
    unfolding assms(2) row_data_def by (induction rows) (auto simp: has_data_row_view)
  finally show ?thesis .
qed

text \<open>What holds between the rounds of the thread.\<close>

definition batcher_ok :: "'a BatchEnv \<Rightarrow> (rstr list \<Rightarrow> 'a PendingRow set) \<Rightarrow> 'a Batching \<Rightarrow> bool" where
  "batcher_ok env R st \<longleftrightarrow> distinct (map fst (bt_accs st)) \<and> (\<forall>e. rows_compatible (be_hash_names env) (be_hash_types env) (R e) \<and> set (pending_of st e) \<subseteq> R e)"

lemma map_of_accs: "map_of (im_insert e v m) e' = (if e' = e then Some v else map_of m e')"
  by (simp add: map_of_im_insert)

lemma do_flush_all_cases:
  assumes "batcher_ok env R st"
  obtains (idle) "do_flush_all env e st = st" "pending_of st e = []"
  | (flush) acc cs n where "map_of (bt_accs st) e = Some acc" "do_flush_all env e st
      = st\<lparr>bt_output := bt_output st @ filter (\<lambda>c. ch_components c \<noteq> []) cs, bt_accs := im_insert e acc_new (bt_accs st), bt_num_chunks := n\<rparr>"
    "sent_rows (filter (\<lambda>c. ch_components c \<noteq> []) cs) = mset (row_data e (acc_pending_rows acc))"
    "\<forall>c \<in> set cs. chunk_ok c \<and> ch_is_sorted c"
proof (cases "pending_of st e = []")
  case True
  then have "do_flush_all env e st = st" by (auto simp: do_flush_all_def pending_of_def split: option.splits)
  then show ?thesis using True idle by blast
next
  case False
  then obtain acc where acc: "map_of (bt_accs st) e = Some acc" "pending_of st e = acc_pending_rows acc"
    by (auto simp: pending_of_def split: option.splits)
  let ?max = "chunk_max_rows_if_unsorted (bt_config st)"
  have "rows_compatible (be_hash_names env) (be_hash_types env) (set (acc_pending_rows acc))"
    using assms acc(2) rows_compatible_mono unfolding batcher_ok_def by metis
  from many_into_chunks_ok [OF this, of "be_debug env" "be_new_ids env" "bt_num_chunks st" e ?max] obtain cs where
    cs: "many_into_chunks (be_hash_names env) (be_hash_types env) (be_debug env) (be_new_ids env) (bt_num_chunks st) e ?max
        (acc_pending_rows acc) = map Inr cs"
      "list_all (batch_chunk e ?max) cs" "mset (concat (map chunk_rows cs)) = mset (map row_view (acc_pending_rows acc))" by blast
  have "do_flush_all env e st = st\<lparr>bt_output := bt_output st @ filter (\<lambda>c. ch_components c \<noteq> []) cs,
      bt_accs := im_insert e acc_new (bt_accs st), bt_num_chunks := bt_num_chunks st + length (map Inr cs :: (ChunkError + 'a Chunk) list)\<rparr>"
    using False acc by (simp add: do_flush_all_def cs(1) fold_send Let_def)
  moreover have "\<forall>c \<in> set cs. chunk_ok c \<and> ch_is_sorted c" using cs(2) by (auto simp: list_all_iff batch_chunk_def)
  ultimately show ?thesis using flush [OF acc(1)] sent_batch [OF cs(2,3)] by blast
qed

lemma do_flush_all_ok:
  assumes ok: "batcher_ok env R st"
  shows "batcher_total (do_flush_all env e st) = batcher_total st
    \<and> pending_of (do_flush_all env e st) e' = (if e' = e then [] else pending_of st e')
    \<and> fst ` set (bt_accs (do_flush_all env e st)) = fst ` set (bt_accs st)
    \<and> distinct (map fst (bt_accs (do_flush_all env e st)))
    \<and> (\<forall>c \<in> set (bt_output (do_flush_all env e st)). c \<in> set (bt_output st) \<or> chunk_ok c \<and> ch_is_sorted c)"
proof (cases rule: do_flush_all_cases [OF ok, of e, case_names idle flush])
  case idle
  then show ?thesis using ok by (simp add: batcher_ok_def)
next
  case (flush acc cs n)
  have "pending_data (do_flush_all env e st) + mset (row_data e (acc_pending_rows acc)) = pending_data st"
    using mset_im_insert [of "\<lambda>e acc. row_data e (acc_pending_rows acc)" e acc_new "bt_accs st"] flush(1,2)
    by (simp add: pending_data_def acc_new_def)
  then have "batcher_total (do_flush_all env e st) = batcher_total st"
    using flush(2,3) by (simp add: batcher_total_def ac_simps)
  moreover have "pending_of (do_flush_all env e st) e' = (if e' = e then [] else pending_of st e')"
    using flush(2) by (simp add: pending_of_def map_of_accs acc_new_def)
  moreover have "e \<in> fst ` set (bt_accs st)" using flush(1) by (metis domI dom_map_of_conv_image_fst)
  then have "fst ` set (bt_accs (do_flush_all env e st)) = fst ` set (bt_accs st)"
    using flush(2) by (simp add: fst_im_insert insert_absorb)
  moreover have "distinct (map fst (bt_accs (do_flush_all env e st)))"
    using flush(2) ok by (simp add: batcher_ok_def distinct_im_insert)
  ultimately show ?thesis using flush(2,4) by auto
qed

lemma do_flush_all_batcher_ok: "batcher_ok env R st \<Longrightarrow> batcher_ok env R (do_flush_all env e st)"
  using do_flush_all_ok [of env R st e] unfolding batcher_ok_def by (metis empty_subsetI list.set(1))

lemma flush_fold_ok:
  assumes "batcher_ok env R st"
  shows "batcher_ok env R (fold (do_flush_all env) es st) \<and> batcher_total (fold (do_flush_all env) es st) = batcher_total st
    \<and> pending_of (fold (do_flush_all env) es st) e' = (if e' \<in> set es then [] else pending_of st e')
    \<and> fst ` set (bt_accs (fold (do_flush_all env) es st)) = fst ` set (bt_accs st)
    \<and> (\<forall>c \<in> set (bt_output (fold (do_flush_all env) es st)). c \<in> set (bt_output st) \<or> chunk_ok c \<and> ch_is_sorted c)"
  using assms
proof (induction es arbitrary: st)
  case (Cons e es)
  note step = do_flush_all_ok [OF Cons.prems, of e e']
  show ?case using Cons.IH [OF do_flush_all_batcher_ok [OF Cons.prems, of e]] step by (auto split: if_splits)
qed simp

lemma flush_every_ok:
  assumes "batcher_ok env R st"
  shows "batcher_ok env R (flush_every env st)" "batcher_total (flush_every env st) = batcher_total st"
    and "pending_of (flush_every env st) e = []"
    and "\<forall>c \<in> set (bt_output (flush_every env st)). c \<in> set (bt_output st) \<or> chunk_ok c \<and> ch_is_sorted c"
proof -
  note all = flush_fold_ok [OF assms, of "map fst (bt_accs st)", folded flush_every_def]
  show "batcher_ok env R (flush_every env st)" "batcher_total (flush_every env st) = batcher_total st"
    "\<forall>c \<in> set (bt_output (flush_every env st)). c \<in> set (bt_output st) \<or> chunk_ok c \<and> ch_is_sorted c"
    using all by blast+
  have "e \<in> fst ` set (bt_accs st)" if "pending_of st e \<noteq> []"
    using that by (auto simp: pending_of_def image_iff split: option.splits dest!: map_of_SomeD) (metis fst_conv)
  then show "pending_of (flush_every env st) e = []" using all [of e] by auto
qed

lemma sent_send: "sent_rows (send_chunk c out) = sent_rows out + sent_rows (send_chunk c [])"
  by (simp add: send_chunk_def)

lemma append_row_ok:
  assumes ok: "batcher_ok env R st" and row: "row \<in> R e"
  shows "batcher_ok env R (append_row env e row st)
    \<and> batcher_total (append_row env e row st) = batcher_total st + mset (row_data e [row])
    \<and> (\<forall>c \<in> set (bt_output (append_row env e row st)). c \<in> set (bt_output st) \<or> chunk_ok c \<and> ch_is_sorted c)"
proof -
  let ?acc = "do_push_row (be_row_bytes env) row (case map_of (bt_accs st) e of None \<Rightarrow> acc_new | Some acc \<Rightarrow> acc)"
  let ?st = "st\<lparr>bt_accs := im_insert e ?acc (bt_accs st)\<rparr>"
  have pending: "acc_pending_rows ?acc = pending_of st e @ [row]"
    by (simp add: do_push_row_def pending_of_def acc_new_def split: option.split)
  have "pending_of ?st e' = (if e' = e then pending_of st e @ [row] else pending_of st e')" for e'
    using pending by (simp add: pending_of_def map_of_accs)
  then have st: "batcher_ok env R ?st" using ok row by (auto simp: batcher_ok_def distinct_im_insert)
  have "mset (case map_of (bt_accs st) e of None \<Rightarrow> [] | Some old \<Rightarrow> row_data e (acc_pending_rows old)) = mset (row_data e (pending_of st e))"
    by (simp add: pending_of_def split: option.split)
  then have "pending_data ?st + mset (row_data e (pending_of st e)) = pending_data st + mset (row_data e (pending_of st e @ [row]))"
    using mset_im_insert [of "\<lambda>e acc. row_data e (acc_pending_rows acc)" e ?acc "bt_accs st"] pending
    by (simp add: pending_data_def)
  then have total: "batcher_total ?st = batcher_total st + mset (row_data e [row])" by (simp add: batcher_total_def)
  have skip: "batcher_ok env R (x\<lparr>bt_skip_next_tick := True\<rparr>) = batcher_ok env R x"
    "batcher_total (x\<lparr>bt_skip_next_tick := True\<rparr>) = batcher_total x" for x
    by (simp_all add: batcher_ok_def batcher_total_def pending_of_def pending_data_def)
  note flushed = do_flush_all_batcher_ok [OF st, of e] do_flush_all_ok [OF st, of e]
  have out: "bt_output ?st = bt_output st" by simp
  consider "append_row env e row st = ?st" | "append_row env e row st = (do_flush_all env e ?st)\<lparr>bt_skip_next_tick := True\<rparr>"
    unfolding append_row_def Let_def by metis
  then show ?thesis
  proof cases
    case 1
    then show ?thesis using st total by simp
  next
    case 2
    then show ?thesis using flushed total out unfolding 2 skip by simp
  qed
qed

lemma batcher_ok_fields [simp]:
  "batcher_ok env R (st\<lparr>bt_skip_next_tick := b\<rparr>) = batcher_ok env R st" "batcher_total (st\<lparr>bt_skip_next_tick := b\<rparr>) = batcher_total st"
  "batcher_ok env R (st\<lparr>bt_config := c\<rparr>) = batcher_ok env R st" "batcher_total (st\<lparr>bt_config := c\<rparr>) = batcher_total st"
  "batcher_ok env R (st\<lparr>bt_output := out\<rparr>) = batcher_ok env R st"
  by (simp_all add: batcher_ok_def batcher_total_def pending_of_def pending_data_def)

lemma batching_loop_ok:
  assumes "batcher_ok env R st" "\<forall>e. pushed_rows evs e \<subseteq> R e"
  shows "batcher_ok env R (batching_loop env evs st)
    \<and> batcher_total (batching_loop env evs st) = batcher_total st + pushed evs
    \<and> (\<forall>c \<in> set (bt_output (batching_loop env evs st)).
        c \<in> set (bt_output st) \<or> Cmd (AppendChunk c) \<in> set evs \<or> chunk_ok c \<and> ch_is_sorted c)"
  using assms
proof (induction evs arbitrary: st)
  case (Cons ev evs)
  have R: "\<forall>e. pushed_rows evs e \<subseteq> R e" using Cons.prems(2) by (auto simp: pushed_rows_def)
  have step: ?case if "batching_step env ev st = Inl st'" "batcher_ok env R st'"
      "batcher_total st' + pushed evs = batcher_total st + pushed (ev # evs)"
      "\<forall>c \<in> set (bt_output st'). c \<in> set (bt_output st) \<or> ev = Cmd (AppendChunk c) \<or> chunk_ok c \<and> ch_is_sorted c" for st'
    using Cons.IH [OF that(2) R] that by auto
  note flush = flush_every_ok
  show ?case
  proof (cases ev)
    case (Cmd cmd)
    show ?thesis
    proof (cases cmd)
      case (AppendChunk c)
      have "batcher_total (st\<lparr>bt_output := send_chunk c (bt_output st)\<rparr>) = batcher_total st + sent_rows (send_chunk c [])"
        using sent_send [of c "bt_output st"] by (simp add: batcher_total_def pending_data_def)
      moreover have "set (send_chunk c (bt_output st)) \<subseteq> insert c (set (bt_output st))" by (auto simp: send_chunk_def)
      ultimately show ?thesis using Cons.prems(1)
        by (intro step [of "st\<lparr>bt_output := send_chunk c (bt_output st)\<rparr>"]) (auto simp: batching_step_def Cmd AppendChunk)
    next
      case (AppendRow e row)
      have "row \<in> R e" using Cons.prems(2) by (auto simp: pushed_rows_def Cmd AppendRow)
      from append_row_ok [OF Cons.prems(1) this] show ?thesis
        by (intro step [of "append_row env e row st"]) (auto simp: batching_step_def Cmd AppendRow)
    next
      case Flush
      have "batcher_ok env R (st\<lparr>bt_skip_next_tick := True\<rparr>)" using Cons.prems(1) by simp
      from flush [OF this] show ?thesis
        by (intro step [of "flush_every env (st\<lparr>bt_skip_next_tick := True\<rparr>)"]) (simp_all add: batching_step_def Cmd Flush)
    next
      case (UpdateConfig config)
      show ?thesis using Cons.prems(1)
        by (intro step [of "st\<lparr>bt_config := config\<rparr>"]) (simp_all add: batching_step_def Cmd UpdateConfig)
    next
      case Shutdown
      then show ?thesis using Cons.prems(1) by (simp add: batching_step_def Cmd)
    qed
  next
    case Tick
    show ?thesis
    proof (cases "bt_skip_next_tick st")
      case True
      then show ?thesis using Cons.prems(1)
        by (intro step [of "st\<lparr>bt_skip_next_tick := False\<rparr>"]) (simp_all add: batching_step_def Tick)
    next
      case False
      then show ?thesis using flush [OF Cons.prems(1)]
        by (intro step [of "flush_every env st"]) (simp_all add: batching_step_def Tick)
    qed
  qed
qed simp

lemma pending_data_empty:
  assumes "distinct (map fst (bt_accs st))" "\<And>e. pending_of st e = []"
  shows "pending_data st = {#}"
proof -
  have "acc_pending_rows acc = []" if "(e, acc) \<in> set (bt_accs st)" for e acc
    using assms(2) [of e] map_of_is_SomeI [OF assms(1) that] by (simp add: pending_of_def)
  then show ?thesis by (auto simp: pending_data_def)
qed


end
