(* ===== verification/Chunk_Batcher_Examples.thy ===== *)
theory Chunk_Batcher_Examples
  imports Chunk_Batcher_Props
begin

text \<open>
  Concrete rows, and the corner cases of the batcher.
\<close>

definition ex_batch :: "nat \<Rightarrow> nat \<Rightarrow> nat \<Rightarrow> ComponentIdentifier \<times> nat SerializedComponentBatch" where
  "ex_batch component datatype contents = ([component],
     \<lparr>cb_array = (datatype, contents), cb_descriptor = \<lparr>cd_archetype = None, cd_component = [component], cd_component_type = None\<rparr>\<rparr>)"

definition ex_pending :: "u64 \<Rightarrow> i64 \<Rightarrow> (ComponentIdentifier \<times> nat SerializedComponentBatch) list \<Rightarrow> nat PendingRow" where
  "ex_pending n t components = \<lparr>pr_row_id = Tuid n 0,
     pr_timepoint = [([116], \<lparr>cell_typ = Sequence, cell_value = nm_new_unchecked t\<rparr>)], pr_components = components\<rparr>"

definition ex_pending_rows :: "nat PendingRow list" where
  "ex_pending_rows = [ex_pending 1 5 [ex_batch 1 7 10], ex_pending 2 3 [ex_batch 1 7 20], ex_pending 3 4 []]"

definition ex_hash :: "nat list \<Rightarrow> u64" where
  "ex_hash types = of_nat (length types)"

lemma ex_rows_compatible: "rows_compatible (\<lambda>_. 0) ex_hash (set ex_pending_rows)"
  by (auto simp: rows_compatible_def ex_pending_rows_def ex_pending_def ex_batch_def pending_ok_def timeline_names_def
      component_datatypes_def ex_hash_def row_array_def i64_min_def)


definition ex_batch_env :: "nat BatchEnv" where
  "ex_batch_env = \<lparr>be_hash_names = (\<lambda>_. 0), be_hash_types = ex_hash, be_debug = True,
     be_new_ids = (\<lambda>n. Tuid (of_nat n) 1), be_row_bytes = (\<lambda>_. 100)\<rparr>"

definition ex_events :: "nat event list" where
  "ex_events = [Cmd (AppendRow [[97]] (ex_pending 1 5 [ex_batch 1 7 10])), Tick, Cmd (UpdateConfig batcher_config_NEVER),
     Cmd (AppendRow [[97]] (ex_pending 3 4 [])), Cmd (AppendRow [[97]] (ex_pending 2 3 [ex_batch 1 7 20])), Cmd Shutdown]"


text \<open>Two rows with the same sequence of datatypes, under which a component changes its type: the chunk has
  neither of its values, and nothing is reported.\<close>

lemmas batch_evals = datatype_set_chunks_def all_components_def ex_pending_def ex_batch_def im_or_insert_def
  build_row_def split_if_unsorted_def push_row_def pending_timeline_def ptc_new_def Let_def push_time_def ptc_push_def
  finish_chunk_def chunk_new_def sanity_check_def tc_sanity_check_def ptc_finish_def im_collect_def cc_collect_def cc_insert_def
  arrays_to_list_array_opt_def arrays_to_list_array_def List.map_filter_simps la_len_def cell_time_def as_i64_new_temporal
  i64_min_def

lemma batcher_loses_component:
  "\<exists>c. datatype_set_chunks False (\<lambda>n. Tuid (of_nat n) 1) 0 [] 1
      [ex_pending 1 5 [ex_batch 1 7 10, ex_batch 2 8 20], ex_pending 2 6 [ex_batch 3 7 30, ex_batch 1 8 40]] = [Inr c]
     \<and> map fst (ch_components c) = [[2], [3]]"
proof -
  have "sint (as_i64 time_MIN) \<le> 5" by (simp add: time_MIN_def as_i64_def i64_min_def)
  then show ?thesis by (simp add: batch_evals la_validity_def)
qed

text \<open>The limit for unsorted chunks is tested before a row is added: a row that arrives late joins a chunk of
  any size.\<close>

lemma late_row_joins:
  assumes "bd_timelines b = [(n, c)]" "ptc_is_sorted c" "ptc_times c \<noteq> []" "pr_timepoint row = [(n, cell)]"
    and "sint (as_i64 (cell_time cell)) < sint (last (ptc_times c))"
  shows "\<exists>c'. build_row debug new_ids k entity_path max_rows all row b = push_row row b
    \<and> bd_timelines (push_row row b) = [(n, c')] \<and> \<not> ptc_is_sorted c' \<and> length (ptc_times c') = Suc (length (ptc_times c))"
  using assms
  by (simp add: build_row_def split_if_unsorted_def pending_timeline_def im_or_insert_def push_row_def push_time_def ptc_push_def
      Let_def)

end
