(* ===== verification/Query_Zip.thy ===== *)
theory Query_Zip
  imports Rerun_Prelude
begin

text \<open>
  The iterators that join the components of a query (\<open>re_query/src/range_zip/generated.rs\<close> and
  \<open>clamped_zip/generated.rs\<close>), for one and two required iterators and up to three optional ones; the
  wider ones repeat the same text. An iterator over a list is the list of the items that are left.
  A call of \<open>next\<close> returns the item, if any, and the state it leaves behind.
\<close>

section \<open>Iterators\<close>

definition list_next :: "'a list \<Rightarrow> 'a option \<times> 'a list" where
  "list_next xs = (case xs of [] \<Rightarrow> (None, []) | x # xs \<Rightarrow> (Some x, xs))"

lemma list_next_simps [simp]: "list_next [] = (None, [])" "list_next (x # xs) = (Some x, xs)"
  by (simp_all add: list_next_def)

definition or_else :: "'a option \<Rightarrow> 'a option \<Rightarrow> 'a option" where
  "or_else x y = (case x of Some v \<Rightarrow> Some v | None \<Rightarrow> y)"

definition unwrap_or :: "'a option \<Rightarrow> 'a \<Rightarrow> 'a" where
  "unwrap_or x v = (case x of Some v \<Rightarrow> v | None \<Rightarrow> v)"

primrec iter_take :: "('s \<Rightarrow> 'a option \<times> 's) \<Rightarrow> nat \<Rightarrow> 's \<Rightarrow> 'a list" where
  "iter_take nxt 0 s = []"
| "iter_take nxt (Suc k) s = (case nxt s of (None, _) \<Rightarrow> [] | (Some x, s) \<Rightarrow> x # iter_take nxt k s)"

section \<open>The range zips\<close>

text \<open>
  The body each optional iterator gets: everything up to the index is consumed, and the last of it
  replaces the latest value.
\<close>

fun consume_until :: "'i :: linorder \<Rightarrow> ('i \<times> 'o) list \<Rightarrow> 'o option \<Rightarrow> 'o option \<times> ('i \<times> 'o) list" where
  "consume_until max_index ((index, data) # rest) acc =
     (if index \<le> max_index then consume_until max_index rest (Some data) else (acc, (index, data) # rest))"
| "consume_until max_index [] acc = (acc, [])"

definition advance_optional :: "'i :: linorder \<Rightarrow> ('i \<times> 'o) list \<Rightarrow> 'o option \<Rightarrow> 'o option \<times> ('i \<times> 'o) list" where
  "advance_optional max_index rest latest =
     (let (data, rest) = consume_until max_index rest None in (or_else data latest, rest))"

record ('i, 'r0, 'o0) RangeZip1x1 =
  rz11_r0 :: "('i \<times> 'r0) list"
  rz11_o0 :: "('i \<times> 'o0) list"
  rz11_o0_data_latest :: "'o0 option"

definition range_zip_1x1 ::
  "('i \<times> 'r0) list \<Rightarrow> ('i \<times> 'o0) list
     \<Rightarrow> ('i, 'r0, 'o0) RangeZip1x1" where
  "range_zip_1x1 r0 o0 =
     \<lparr>rz11_r0 = r0, rz11_o0 = o0,
      rz11_o0_data_latest = None\<rparr>"

definition range_zip_1x1_next ::
  "('i :: linorder, 'r0, 'o0) RangeZip1x1
     \<Rightarrow> ('i \<times> 'r0 \<times> 'o0 option) option \<times> ('i, 'r0, 'o0) RangeZip1x1" where
  "range_zip_1x1_next z =
     (case list_next (rz11_r0 z) of
        (None, rest) \<Rightarrow> (None, z\<lparr>rz11_r0 := rest\<rparr>)
      | (Some (r0_index, r0_data), rest) \<Rightarrow>
          let z = z\<lparr>rz11_r0 := rest\<rparr> in
          let max_index = r0_index;
              (o0_data, o0) = advance_optional max_index (rz11_o0 z) (rz11_o0_data_latest z)
          in (Some (max_index, r0_data, o0_data),
              z\<lparr>rz11_o0 := o0, rz11_o0_data_latest := o0_data\<rparr>))"

record ('i, 'r0, 'o0, 'o1) RangeZip1x2 =
  rz12_r0 :: "('i \<times> 'r0) list"
  rz12_o0 :: "('i \<times> 'o0) list"
  rz12_o1 :: "('i \<times> 'o1) list"
  rz12_o0_data_latest :: "'o0 option"
  rz12_o1_data_latest :: "'o1 option"

definition range_zip_1x2 ::
  "('i \<times> 'r0) list \<Rightarrow> ('i \<times> 'o0) list \<Rightarrow> ('i \<times> 'o1) list
     \<Rightarrow> ('i, 'r0, 'o0, 'o1) RangeZip1x2" where
  "range_zip_1x2 r0 o0 o1 =
     \<lparr>rz12_r0 = r0, rz12_o0 = o0, rz12_o1 = o1,
      rz12_o0_data_latest = None, rz12_o1_data_latest = None\<rparr>"

definition range_zip_1x2_next ::
  "('i :: linorder, 'r0, 'o0, 'o1) RangeZip1x2
     \<Rightarrow> ('i \<times> 'r0 \<times> 'o0 option \<times> 'o1 option) option \<times> ('i, 'r0, 'o0, 'o1) RangeZip1x2" where
  "range_zip_1x2_next z =
     (case list_next (rz12_r0 z) of
        (None, rest) \<Rightarrow> (None, z\<lparr>rz12_r0 := rest\<rparr>)
      | (Some (r0_index, r0_data), rest) \<Rightarrow>
          let z = z\<lparr>rz12_r0 := rest\<rparr> in
          let max_index = r0_index;
              (o0_data, o0) = advance_optional max_index (rz12_o0 z) (rz12_o0_data_latest z);
              (o1_data, o1) = advance_optional max_index (rz12_o1 z) (rz12_o1_data_latest z)
          in (Some (max_index, r0_data, o0_data, o1_data),
              z\<lparr>rz12_o0 := o0, rz12_o0_data_latest := o0_data, rz12_o1 := o1, rz12_o1_data_latest := o1_data\<rparr>))"

record ('i, 'r0, 'o0, 'o1, 'o2) RangeZip1x3 =
  rz13_r0 :: "('i \<times> 'r0) list"
  rz13_o0 :: "('i \<times> 'o0) list"
  rz13_o1 :: "('i \<times> 'o1) list"
  rz13_o2 :: "('i \<times> 'o2) list"
  rz13_o0_data_latest :: "'o0 option"
  rz13_o1_data_latest :: "'o1 option"
  rz13_o2_data_latest :: "'o2 option"

definition range_zip_1x3 ::
  "('i \<times> 'r0) list \<Rightarrow> ('i \<times> 'o0) list \<Rightarrow> ('i \<times> 'o1) list \<Rightarrow> ('i \<times> 'o2) list
     \<Rightarrow> ('i, 'r0, 'o0, 'o1, 'o2) RangeZip1x3" where
  "range_zip_1x3 r0 o0 o1 o2 =
     \<lparr>rz13_r0 = r0, rz13_o0 = o0, rz13_o1 = o1, rz13_o2 = o2,
      rz13_o0_data_latest = None, rz13_o1_data_latest = None, rz13_o2_data_latest = None\<rparr>"

definition range_zip_1x3_next ::
  "('i :: linorder, 'r0, 'o0, 'o1, 'o2) RangeZip1x3
     \<Rightarrow> ('i \<times> 'r0 \<times> 'o0 option \<times> 'o1 option \<times> 'o2 option) option \<times> ('i, 'r0, 'o0, 'o1, 'o2) RangeZip1x3" where
  "range_zip_1x3_next z =
     (case list_next (rz13_r0 z) of
        (None, rest) \<Rightarrow> (None, z\<lparr>rz13_r0 := rest\<rparr>)
      | (Some (r0_index, r0_data), rest) \<Rightarrow>
          let z = z\<lparr>rz13_r0 := rest\<rparr> in
          let max_index = r0_index;
              (o0_data, o0) = advance_optional max_index (rz13_o0 z) (rz13_o0_data_latest z);
              (o1_data, o1) = advance_optional max_index (rz13_o1 z) (rz13_o1_data_latest z);
              (o2_data, o2) = advance_optional max_index (rz13_o2 z) (rz13_o2_data_latest z)
          in (Some (max_index, r0_data, o0_data, o1_data, o2_data),
              z\<lparr>rz13_o0 := o0, rz13_o0_data_latest := o0_data, rz13_o1 := o1, rz13_o1_data_latest := o1_data, rz13_o2 := o2, rz13_o2_data_latest := o2_data\<rparr>))"

record ('i, 'r0, 'r1, 'o0) RangeZip2x1 =
  rz21_r0 :: "('i \<times> 'r0) list"
  rz21_r1 :: "('i \<times> 'r1) list"
  rz21_o0 :: "('i \<times> 'o0) list"
  rz21_o0_data_latest :: "'o0 option"

definition range_zip_2x1 ::
  "('i \<times> 'r0) list \<Rightarrow> ('i \<times> 'r1) list \<Rightarrow> ('i \<times> 'o0) list
     \<Rightarrow> ('i, 'r0, 'r1, 'o0) RangeZip2x1" where
  "range_zip_2x1 r0 r1 o0 =
     \<lparr>rz21_r0 = r0, rz21_r1 = r1, rz21_o0 = o0,
      rz21_o0_data_latest = None\<rparr>"

definition range_zip_2x1_next ::
  "('i :: linorder, 'r0, 'r1, 'o0) RangeZip2x1
     \<Rightarrow> ('i \<times> 'r0 \<times> 'r1 \<times> 'o0 option) option \<times> ('i, 'r0, 'r1, 'o0) RangeZip2x1" where
  "range_zip_2x1_next z =
     (case list_next (rz21_r0 z) of
        (None, rest) \<Rightarrow> (None, z\<lparr>rz21_r0 := rest\<rparr>)
      | (Some (r0_index, r0_data), rest) \<Rightarrow>
          let z = z\<lparr>rz21_r0 := rest\<rparr> in
          (case list_next (rz21_r1 z) of
             (None, rest) \<Rightarrow> (None, z\<lparr>rz21_r1 := rest\<rparr>)
           | (Some (r1_index, r1_data), rest) \<Rightarrow>
               let z = z\<lparr>rz21_r1 := rest\<rparr> in
               let max_index = max r0_index r1_index;
                   (o0_data, o0) = advance_optional max_index (rz21_o0 z) (rz21_o0_data_latest z)
               in (Some (max_index, r0_data, r1_data, o0_data),
                   z\<lparr>rz21_o0 := o0, rz21_o0_data_latest := o0_data\<rparr>)))"

record ('i, 'r0, 'r1, 'o0, 'o1) RangeZip2x2 =
  rz22_r0 :: "('i \<times> 'r0) list"
  rz22_r1 :: "('i \<times> 'r1) list"
  rz22_o0 :: "('i \<times> 'o0) list"
  rz22_o1 :: "('i \<times> 'o1) list"
  rz22_o0_data_latest :: "'o0 option"
  rz22_o1_data_latest :: "'o1 option"

definition range_zip_2x2 ::
  "('i \<times> 'r0) list \<Rightarrow> ('i \<times> 'r1) list \<Rightarrow> ('i \<times> 'o0) list \<Rightarrow> ('i \<times> 'o1) list
     \<Rightarrow> ('i, 'r0, 'r1, 'o0, 'o1) RangeZip2x2" where
  "range_zip_2x2 r0 r1 o0 o1 =
     \<lparr>rz22_r0 = r0, rz22_r1 = r1, rz22_o0 = o0, rz22_o1 = o1,
      rz22_o0_data_latest = None, rz22_o1_data_latest = None\<rparr>"

definition range_zip_2x2_next ::
  "('i :: linorder, 'r0, 'r1, 'o0, 'o1) RangeZip2x2
     \<Rightarrow> ('i \<times> 'r0 \<times> 'r1 \<times> 'o0 option \<times> 'o1 option) option \<times> ('i, 'r0, 'r1, 'o0, 'o1) RangeZip2x2" where
  "range_zip_2x2_next z =
     (case list_next (rz22_r0 z) of
        (None, rest) \<Rightarrow> (None, z\<lparr>rz22_r0 := rest\<rparr>)
      | (Some (r0_index, r0_data), rest) \<Rightarrow>
          let z = z\<lparr>rz22_r0 := rest\<rparr> in
          (case list_next (rz22_r1 z) of
             (None, rest) \<Rightarrow> (None, z\<lparr>rz22_r1 := rest\<rparr>)
           | (Some (r1_index, r1_data), rest) \<Rightarrow>
               let z = z\<lparr>rz22_r1 := rest\<rparr> in
               let max_index = max r0_index r1_index;
                   (o0_data, o0) = advance_optional max_index (rz22_o0 z) (rz22_o0_data_latest z);
                   (o1_data, o1) = advance_optional max_index (rz22_o1 z) (rz22_o1_data_latest z)
               in (Some (max_index, r0_data, r1_data, o0_data, o1_data),
                   z\<lparr>rz22_o0 := o0, rz22_o0_data_latest := o0_data, rz22_o1 := o1, rz22_o1_data_latest := o1_data\<rparr>)))"

section \<open>The clamped zips\<close>

record ('r0, 'o0) ClampedZip1x1 =
  cz11_r0 :: "'r0 list"
  cz11_o0 :: "'o0 list"
  cz11_o0_default_fn :: "unit \<Rightarrow> 'o0"
  cz11_o0_latest_value :: "'o0 option"

definition clamped_zip_1x1 ::
  "'r0 list \<Rightarrow> 'o0 list \<Rightarrow> (unit \<Rightarrow> 'o0)
     \<Rightarrow> ('r0, 'o0) ClampedZip1x1" where
  "clamped_zip_1x1 r0 o0 o0_default_fn =
     \<lparr>cz11_r0 = r0, cz11_o0 = o0,
      cz11_o0_default_fn = o0_default_fn,
      cz11_o0_latest_value = None\<rparr>"

definition clamped_zip_1x1_next ::
  "('r0, 'o0) ClampedZip1x1
     \<Rightarrow> ('r0 \<times> 'o0) option \<times> ('r0, 'o0) ClampedZip1x1" where
  "clamped_zip_1x1_next z =
     (case list_next (cz11_r0 z) of
        (None, rest) \<Rightarrow> (None, z\<lparr>cz11_r0 := rest\<rparr>)
      | (Some r0_next, rest) \<Rightarrow>
          let z = z\<lparr>cz11_r0 := rest\<rparr> in
          let (x, o0) = list_next (cz11_o0 z);
              o0_next = or_else x (cz11_o0_latest_value z)
          in (Some (r0_next, unwrap_or o0_next (cz11_o0_default_fn z ())),
              z\<lparr>cz11_o0 := o0, cz11_o0_latest_value := o0_next\<rparr>))"

record ('r0, 'o0, 'o1) ClampedZip1x2 =
  cz12_r0 :: "'r0 list"
  cz12_o0 :: "'o0 list"
  cz12_o1 :: "'o1 list"
  cz12_o0_default_fn :: "unit \<Rightarrow> 'o0"
  cz12_o1_default_fn :: "unit \<Rightarrow> 'o1"
  cz12_o0_latest_value :: "'o0 option"
  cz12_o1_latest_value :: "'o1 option"

definition clamped_zip_1x2 ::
  "'r0 list \<Rightarrow> 'o0 list \<Rightarrow> (unit \<Rightarrow> 'o0) \<Rightarrow> 'o1 list \<Rightarrow> (unit \<Rightarrow> 'o1)
     \<Rightarrow> ('r0, 'o0, 'o1) ClampedZip1x2" where
  "clamped_zip_1x2 r0 o0 o0_default_fn o1 o1_default_fn =
     \<lparr>cz12_r0 = r0, cz12_o0 = o0, cz12_o1 = o1,
      cz12_o0_default_fn = o0_default_fn, cz12_o1_default_fn = o1_default_fn,
      cz12_o0_latest_value = None, cz12_o1_latest_value = None\<rparr>"

definition clamped_zip_1x2_next ::
  "('r0, 'o0, 'o1) ClampedZip1x2
     \<Rightarrow> ('r0 \<times> 'o0 \<times> 'o1) option \<times> ('r0, 'o0, 'o1) ClampedZip1x2" where
  "clamped_zip_1x2_next z =
     (case list_next (cz12_r0 z) of
        (None, rest) \<Rightarrow> (None, z\<lparr>cz12_r0 := rest\<rparr>)
      | (Some r0_next, rest) \<Rightarrow>
          let z = z\<lparr>cz12_r0 := rest\<rparr> in
          let (x, o0) = list_next (cz12_o0 z);
              o0_next = or_else x (cz12_o0_latest_value z);
              (x, o1) = list_next (cz12_o1 z);
              o1_next = or_else x (cz12_o1_latest_value z)
          in (Some (r0_next, unwrap_or o0_next (cz12_o0_default_fn z ()), unwrap_or o1_next (cz12_o1_default_fn z ())),
              z\<lparr>cz12_o0 := o0, cz12_o0_latest_value := o0_next, cz12_o1 := o1, cz12_o1_latest_value := o1_next\<rparr>))"

record ('r0, 'o0, 'o1, 'o2) ClampedZip1x3 =
  cz13_r0 :: "'r0 list"
  cz13_o0 :: "'o0 list"
  cz13_o1 :: "'o1 list"
  cz13_o2 :: "'o2 list"
  cz13_o0_default_fn :: "unit \<Rightarrow> 'o0"
  cz13_o1_default_fn :: "unit \<Rightarrow> 'o1"
  cz13_o2_default_fn :: "unit \<Rightarrow> 'o2"
  cz13_o0_latest_value :: "'o0 option"
  cz13_o1_latest_value :: "'o1 option"
  cz13_o2_latest_value :: "'o2 option"

definition clamped_zip_1x3 ::
  "'r0 list \<Rightarrow> 'o0 list \<Rightarrow> (unit \<Rightarrow> 'o0) \<Rightarrow> 'o1 list \<Rightarrow> (unit \<Rightarrow> 'o1) \<Rightarrow> 'o2 list \<Rightarrow> (unit \<Rightarrow> 'o2)
     \<Rightarrow> ('r0, 'o0, 'o1, 'o2) ClampedZip1x3" where
  "clamped_zip_1x3 r0 o0 o0_default_fn o1 o1_default_fn o2 o2_default_fn =
     \<lparr>cz13_r0 = r0, cz13_o0 = o0, cz13_o1 = o1, cz13_o2 = o2,
      cz13_o0_default_fn = o0_default_fn, cz13_o1_default_fn = o1_default_fn, cz13_o2_default_fn = o2_default_fn,
      cz13_o0_latest_value = None, cz13_o1_latest_value = None, cz13_o2_latest_value = None\<rparr>"

definition clamped_zip_1x3_next ::
  "('r0, 'o0, 'o1, 'o2) ClampedZip1x3
     \<Rightarrow> ('r0 \<times> 'o0 \<times> 'o1 \<times> 'o2) option \<times> ('r0, 'o0, 'o1, 'o2) ClampedZip1x3" where
  "clamped_zip_1x3_next z =
     (case list_next (cz13_r0 z) of
        (None, rest) \<Rightarrow> (None, z\<lparr>cz13_r0 := rest\<rparr>)
      | (Some r0_next, rest) \<Rightarrow>
          let z = z\<lparr>cz13_r0 := rest\<rparr> in
          let (x, o0) = list_next (cz13_o0 z);
              o0_next = or_else x (cz13_o0_latest_value z);
              (x, o1) = list_next (cz13_o1 z);
              o1_next = or_else x (cz13_o1_latest_value z);
              (x, o2) = list_next (cz13_o2 z);
              o2_next = or_else x (cz13_o2_latest_value z)
          in (Some (r0_next, unwrap_or o0_next (cz13_o0_default_fn z ()), unwrap_or o1_next (cz13_o1_default_fn z ()), unwrap_or o2_next (cz13_o2_default_fn z ())),
              z\<lparr>cz13_o0 := o0, cz13_o0_latest_value := o0_next, cz13_o1 := o1, cz13_o1_latest_value := o1_next, cz13_o2 := o2, cz13_o2_latest_value := o2_next\<rparr>))"

record ('r0, 'r1, 'o0) ClampedZip2x1 =
  cz21_r0 :: "'r0 list"
  cz21_r1 :: "'r1 list"
  cz21_o0 :: "'o0 list"
  cz21_o0_default_fn :: "unit \<Rightarrow> 'o0"
  cz21_o0_latest_value :: "'o0 option"

definition clamped_zip_2x1 ::
  "'r0 list \<Rightarrow> 'r1 list \<Rightarrow> 'o0 list \<Rightarrow> (unit \<Rightarrow> 'o0)
     \<Rightarrow> ('r0, 'r1, 'o0) ClampedZip2x1" where
  "clamped_zip_2x1 r0 r1 o0 o0_default_fn =
     \<lparr>cz21_r0 = r0, cz21_r1 = r1, cz21_o0 = o0,
      cz21_o0_default_fn = o0_default_fn,
      cz21_o0_latest_value = None\<rparr>"

definition clamped_zip_2x1_next ::
  "('r0, 'r1, 'o0) ClampedZip2x1
     \<Rightarrow> ('r0 \<times> 'r1 \<times> 'o0) option \<times> ('r0, 'r1, 'o0) ClampedZip2x1" where
  "clamped_zip_2x1_next z =
     (case list_next (cz21_r0 z) of
        (None, rest) \<Rightarrow> (None, z\<lparr>cz21_r0 := rest\<rparr>)
      | (Some r0_next, rest) \<Rightarrow>
          let z = z\<lparr>cz21_r0 := rest\<rparr> in
          (case list_next (cz21_r1 z) of
             (None, rest) \<Rightarrow> (None, z\<lparr>cz21_r1 := rest\<rparr>)
           | (Some r1_next, rest) \<Rightarrow>
               let z = z\<lparr>cz21_r1 := rest\<rparr> in
               let (x, o0) = list_next (cz21_o0 z);
                   o0_next = or_else x (cz21_o0_latest_value z)
               in (Some (r0_next, r1_next, unwrap_or o0_next (cz21_o0_default_fn z ())),
                   z\<lparr>cz21_o0 := o0, cz21_o0_latest_value := o0_next\<rparr>)))"

record ('r0, 'r1, 'o0, 'o1) ClampedZip2x2 =
  cz22_r0 :: "'r0 list"
  cz22_r1 :: "'r1 list"
  cz22_o0 :: "'o0 list"
  cz22_o1 :: "'o1 list"
  cz22_o0_default_fn :: "unit \<Rightarrow> 'o0"
  cz22_o1_default_fn :: "unit \<Rightarrow> 'o1"
  cz22_o0_latest_value :: "'o0 option"
  cz22_o1_latest_value :: "'o1 option"

definition clamped_zip_2x2 ::
  "'r0 list \<Rightarrow> 'r1 list \<Rightarrow> 'o0 list \<Rightarrow> (unit \<Rightarrow> 'o0) \<Rightarrow> 'o1 list \<Rightarrow> (unit \<Rightarrow> 'o1)
     \<Rightarrow> ('r0, 'r1, 'o0, 'o1) ClampedZip2x2" where
  "clamped_zip_2x2 r0 r1 o0 o0_default_fn o1 o1_default_fn =
     \<lparr>cz22_r0 = r0, cz22_r1 = r1, cz22_o0 = o0, cz22_o1 = o1,
      cz22_o0_default_fn = o0_default_fn, cz22_o1_default_fn = o1_default_fn,
      cz22_o0_latest_value = None, cz22_o1_latest_value = None\<rparr>"

definition clamped_zip_2x2_next ::
  "('r0, 'r1, 'o0, 'o1) ClampedZip2x2
     \<Rightarrow> ('r0 \<times> 'r1 \<times> 'o0 \<times> 'o1) option \<times> ('r0, 'r1, 'o0, 'o1) ClampedZip2x2" where
  "clamped_zip_2x2_next z =
     (case list_next (cz22_r0 z) of
        (None, rest) \<Rightarrow> (None, z\<lparr>cz22_r0 := rest\<rparr>)
      | (Some r0_next, rest) \<Rightarrow>
          let z = z\<lparr>cz22_r0 := rest\<rparr> in
          (case list_next (cz22_r1 z) of
             (None, rest) \<Rightarrow> (None, z\<lparr>cz22_r1 := rest\<rparr>)
           | (Some r1_next, rest) \<Rightarrow>
               let z = z\<lparr>cz22_r1 := rest\<rparr> in
               let (x, o0) = list_next (cz22_o0 z);
                   o0_next = or_else x (cz22_o0_latest_value z);
                   (x, o1) = list_next (cz22_o1 z);
                   o1_next = or_else x (cz22_o1_latest_value z)
               in (Some (r0_next, r1_next, unwrap_or o0_next (cz22_o0_default_fn z ()), unwrap_or o1_next (cz22_o1_default_fn z ())),
                   z\<lparr>cz22_o0 := o0, cz22_o0_latest_value := o0_next, cz22_o1 := o1, cz22_o1_latest_value := o1_next\<rparr>)))"

end
