(* ===== verification/Query_Zip_Props.thy ===== *)
theory Query_Zip_Props
  imports Query_Zip
begin

text \<open>
  What the zips yield, as closed formulas over their inputs: the required items position by position,
  with the values of the optional iterators at the largest index seen so far (range zips) or at the
  same position, clamped to the last one (clamped zips).
\<close>

section \<open>One optional iterator of a range zip\<close>

definition latest_until :: "'i :: linorder \<Rightarrow> ('i \<times> 'o) list \<Rightarrow> 'o option" where
  "latest_until m xs =
     (let seen = takeWhile (\<lambda>(i, _). i \<le> m) xs in if seen = [] then None else Some (snd (last seen)))"

definition largest_so_far :: "'i :: linorder list \<Rightarrow> nat \<Rightarrow> 'i" where
  "largest_so_far ms k = Max (set (take (Suc k) ms))"

fun optional_values :: "'i :: linorder list \<Rightarrow> ('i \<times> 'o) list \<Rightarrow> 'o option \<Rightarrow> 'o option list" where
  "optional_values [] xs latest = []"
| "optional_values (m # ms) xs latest =
     (let (data, rest) = advance_optional m xs latest in data # optional_values ms rest data)"

lemma consume_until_split:
  "consume_until m xs acc = (or_else (latest_until m xs) acc, dropWhile (\<lambda>(i, _). i \<le> m) xs)"
  by (induction m xs acc rule: consume_until.induct) (auto simp: latest_until_def or_else_def Let_def)

lemma advance_start: "advance_optional m xs None = (latest_until m xs, dropWhile (\<lambda>(i, _). i \<le> m) xs)"
  by (auto simp: advance_optional_def consume_until_split or_else_def split: option.splits)

lemma advance_further:
  "advance_optional m (dropWhile (\<lambda>(i, _). i \<le> n) xs) (latest_until n xs)
     = (latest_until (max n m) xs, dropWhile (\<lambda>(i, _). i \<le> max n m) xs)"
proof (cases "n \<le> m")
  case True
  let ?t = "takeWhile (\<lambda>(i, _). i \<le> n) xs" and ?d = "dropWhile (\<lambda>(i, _). i \<le> n) xs"
  have "takeWhile (\<lambda>(i, _). i \<le> m) (?t @ ?d) = ?t @ takeWhile (\<lambda>(i, _). i \<le> m) ?d"
    using True by (intro takeWhile_append2) (auto dest!: set_takeWhileD)
  then have t: "takeWhile (\<lambda>(i, _). i \<le> m) xs = ?t @ takeWhile (\<lambda>(i, _). i \<le> m) ?d" by simp
  have "dropWhile (\<lambda>(i, _). i \<le> m) (?t @ ?d) = dropWhile (\<lambda>(i, _). i \<le> m) ?d"
    using True by (intro dropWhile_append2) (auto dest!: set_takeWhileD)
  then have d: "dropWhile (\<lambda>(i, _). i \<le> m) xs = dropWhile (\<lambda>(i, _). i \<le> m) ?d" by simp
  have "or_else (or_else (latest_until m ?d) None) (latest_until n xs) = latest_until m xs"
    unfolding latest_until_def Let_def t by (auto simp: or_else_def)
  then show ?thesis using True d by (simp add: advance_optional_def consume_until_split max_def)
next
  case False
  have "takeWhile (\<lambda>(i, _). i \<le> m) (dropWhile (\<lambda>(i, _). i \<le> n) xs) = []
      \<and> dropWhile (\<lambda>(i, _). i \<le> m) (dropWhile (\<lambda>(i, _). i \<le> n) xs) = dropWhile (\<lambda>(i, _). i \<le> n) xs"
    using False hd_dropWhile [of "\<lambda>(i, _). i \<le> n" xs]
    by (cases "dropWhile (\<lambda>(i, _). i \<le> n) xs") (auto simp del: dropWhile_eq_Nil_conv)
  then show ?thesis
    using False by (auto simp: advance_optional_def consume_until_split latest_until_def or_else_def max_def)
qed

lemma length_optional_values [simp]: "length (optional_values ms xs latest) = length ms"
  by (induction ms xs latest rule: optional_values.induct) (auto split: prod.splits)

lemma optional_values_after:
  "k < length ms \<Longrightarrow>
     optional_values ms (dropWhile (\<lambda>(i, _). i \<le> n) xs) (latest_until n xs) ! k
       = latest_until (max n (largest_so_far ms k)) xs"
proof (induction ms arbitrary: n k)
  case (Cons m ms)
  have "max n (largest_so_far (m # ms) (Suc j)) = max (max n m) (largest_so_far ms j)" if "j < length ms" for j
    using that by (cases ms) (simp_all add: largest_so_far_def max.assoc)
  then show ?case using Cons by (cases k) (simp_all add: advance_further largest_so_far_def)
qed simp

lemma optional_values_nth:
  assumes "k < length ms"
  shows "optional_values ms xs None ! k = latest_until (largest_so_far ms k) xs"
proof (cases ms)
  case (Cons m ns)
  show ?thesis
  proof (cases k)
    case 0
    then show ?thesis using Cons by (simp add: advance_start largest_so_far_def)
  next
    case (Suc j)
    then have "largest_so_far ms k = max m (largest_so_far ns j)"
      using Cons assms by (cases ns) (simp_all add: largest_so_far_def)
    then show ?thesis using Cons Suc assms by (simp add: advance_start optional_values_after)
  qed
qed (use assms in simp)

section \<open>The range zips\<close>

lemma range_zip_1x1_steps:
  "iter_take range_zip_1x1_next k z = take k (map (\<lambda>((m, r0), o0). (m, r0, o0))
     (zip (rz11_r0 z)
        (optional_values (map fst (rz11_r0 z)) (rz11_o0 z) (rz11_o0_data_latest z))))"
proof (induction k arbitrary: z)
  case (Suc k)
  show ?case
    by (cases "rz11_r0 z")
      (auto simp: Suc range_zip_1x1_next_def [of z] Let_def split: prod.splits)
qed simp

lemma range_zip_1x1_items:
  "iter_take range_zip_1x1_next limit (range_zip_1x1 r0 o0) =
     take limit (let ms = map fst r0
       in map (\<lambda>k. (ms ! k, snd (r0 ! k), latest_until (largest_so_far ms k) o0))
            [0 ..< length r0])"
  unfolding range_zip_1x1_steps
  by (rule arg_cong [where f = "take limit"], rule nth_equalityI)
    (auto simp: range_zip_1x1_def Let_def optional_values_nth case_prod_beta)

lemma range_zip_1x2_steps:
  "iter_take range_zip_1x2_next k z = take k (map (\<lambda>((m, r0), o0, o1). (m, r0, o0, o1))
     (zip (rz12_r0 z)
        (zip (optional_values (map fst (rz12_r0 z)) (rz12_o0 z) (rz12_o0_data_latest z))
         (optional_values (map fst (rz12_r0 z)) (rz12_o1 z) (rz12_o1_data_latest z)))))"
proof (induction k arbitrary: z)
  case (Suc k)
  show ?case
    by (cases "rz12_r0 z")
      (auto simp: Suc range_zip_1x2_next_def [of z] Let_def split: prod.splits)
qed simp

lemma range_zip_1x2_items:
  "iter_take range_zip_1x2_next limit (range_zip_1x2 r0 o0 o1) =
     take limit (let ms = map fst r0
       in map (\<lambda>k. (ms ! k, snd (r0 ! k), latest_until (largest_so_far ms k) o0, latest_until (largest_so_far ms k) o1))
            [0 ..< length r0])"
  unfolding range_zip_1x2_steps
  by (rule arg_cong [where f = "take limit"], rule nth_equalityI)
    (auto simp: range_zip_1x2_def Let_def optional_values_nth case_prod_beta)

lemma range_zip_1x3_steps:
  "iter_take range_zip_1x3_next k z = take k (map (\<lambda>((m, r0), o0, o1, o2). (m, r0, o0, o1, o2))
     (zip (rz13_r0 z)
        (zip (optional_values (map fst (rz13_r0 z)) (rz13_o0 z) (rz13_o0_data_latest z))
         (zip (optional_values (map fst (rz13_r0 z)) (rz13_o1 z) (rz13_o1_data_latest z))
         (optional_values (map fst (rz13_r0 z)) (rz13_o2 z) (rz13_o2_data_latest z))))))"
proof (induction k arbitrary: z)
  case (Suc k)
  show ?case
    by (cases "rz13_r0 z")
      (auto simp: Suc range_zip_1x3_next_def [of z] Let_def split: prod.splits)
qed simp

lemma range_zip_1x3_items:
  "iter_take range_zip_1x3_next limit (range_zip_1x3 r0 o0 o1 o2) =
     take limit (let ms = map fst r0
       in map (\<lambda>k. (ms ! k, snd (r0 ! k), latest_until (largest_so_far ms k) o0, latest_until (largest_so_far ms k) o1, latest_until (largest_so_far ms k) o2))
            [0 ..< length r0])"
  unfolding range_zip_1x3_steps
  by (rule arg_cong [where f = "take limit"], rule nth_equalityI)
    (auto simp: range_zip_1x3_def Let_def optional_values_nth case_prod_beta)

lemma range_zip_2x1_steps:
  "iter_take range_zip_2x1_next k z = take k (map (\<lambda>(((i, r0), (j, r1)), o0). (max i j, r0, r1, o0))
     (zip (zip (rz21_r0 z) (rz21_r1 z))
        (optional_values (map2 max (map fst (rz21_r0 z)) (map fst (rz21_r1 z))) (rz21_o0 z) (rz21_o0_data_latest z))))"
proof (induction k arbitrary: z)
  case (Suc k)
  show ?case
    by (cases "rz21_r0 z"; cases "rz21_r1 z")
      (auto simp: Suc range_zip_2x1_next_def [of z] Let_def split: prod.splits)
qed simp

lemma range_zip_2x1_items:
  "iter_take range_zip_2x1_next limit (range_zip_2x1 r0 r1 o0) =
     take limit (let ms = map2 max (map fst r0) (map fst r1)
       in map (\<lambda>k. (ms ! k, snd (r0 ! k), snd (r1 ! k), latest_until (largest_so_far ms k) o0))
            [0 ..< min (length r0) (length r1)])"
  unfolding range_zip_2x1_steps
  by (rule arg_cong [where f = "take limit"], rule nth_equalityI)
    (auto simp: range_zip_2x1_def Let_def optional_values_nth case_prod_beta)

lemma range_zip_2x2_steps:
  "iter_take range_zip_2x2_next k z = take k (map (\<lambda>(((i, r0), (j, r1)), o0, o1). (max i j, r0, r1, o0, o1))
     (zip (zip (rz22_r0 z) (rz22_r1 z))
        (zip (optional_values (map2 max (map fst (rz22_r0 z)) (map fst (rz22_r1 z))) (rz22_o0 z) (rz22_o0_data_latest z))
         (optional_values (map2 max (map fst (rz22_r0 z)) (map fst (rz22_r1 z))) (rz22_o1 z) (rz22_o1_data_latest z)))))"
proof (induction k arbitrary: z)
  case (Suc k)
  show ?case
    by (cases "rz22_r0 z"; cases "rz22_r1 z")
      (auto simp: Suc range_zip_2x2_next_def [of z] Let_def split: prod.splits)
qed simp

lemma range_zip_2x2_items:
  "iter_take range_zip_2x2_next limit (range_zip_2x2 r0 r1 o0 o1) =
     take limit (let ms = map2 max (map fst r0) (map fst r1)
       in map (\<lambda>k. (ms ! k, snd (r0 ! k), snd (r1 ! k), latest_until (largest_so_far ms k) o0, latest_until (largest_so_far ms k) o1))
            [0 ..< min (length r0) (length r1)])"
  unfolding range_zip_2x2_steps
  by (rule arg_cong [where f = "take limit"], rule nth_equalityI)
    (auto simp: range_zip_2x2_def Let_def optional_values_nth case_prod_beta)

section \<open>The clamped zips\<close>

definition clamped_at :: "nat \<Rightarrow> 'o list \<Rightarrow> (unit \<Rightarrow> 'o) \<Rightarrow> 'o" where
  "clamped_at k xs default_fn = (if xs = [] then default_fn () else xs ! min k (length xs - 1))"

fun clamped_values :: "nat \<Rightarrow> 'o list \<Rightarrow> 'o option \<Rightarrow> 'o option list" where
  "clamped_values 0 xs latest = []"
| "clamped_values (Suc n) xs latest =
     (let (x, rest) = list_next xs; y = or_else x latest in y # clamped_values n rest y)"

lemma length_clamped_values [simp]: "length (clamped_values n xs latest) = n"
  by (induction n xs latest rule: clamped_values.induct) (auto simp: Let_def split: prod.splits)

lemma clamped_values_nth:
  "k < n \<Longrightarrow> clamped_values n xs latest ! k
     = (if xs = [] then latest else Some (xs ! min k (length xs - 1)))"
proof (induction n xs latest arbitrary: k rule: clamped_values.induct)
  case (2 n xs latest)
  show ?case
  proof (cases xs)
    case Nil
    then show ?thesis using 2 by (cases k) (auto simp: or_else_def)
  next
    case (Cons x rest)
    then show ?thesis using 2 by (cases k; cases rest) (auto simp: or_else_def Let_def)
  qed
qed simp

lemma clamped_values_at:
  "k < n \<Longrightarrow> unwrap_or (clamped_values n xs None ! k) (f ()) = clamped_at k xs f"
  by (simp add: clamped_values_nth clamped_at_def unwrap_or_def)

lemma clamped_zip_1x1_steps:
  "iter_take clamped_zip_1x1_next k z = take k (map (\<lambda>(r0, o0). (r0, unwrap_or o0 (cz11_o0_default_fn z ())))
     (zip (cz11_r0 z)
        (clamped_values (length (cz11_r0 z)) (cz11_o0 z) (cz11_o0_latest_value z))))"
proof (induction k arbitrary: z)
  case (Suc k)
  show ?case
    by (cases "cz11_r0 z")
      (auto simp: Suc clamped_zip_1x1_next_def [of z] Let_def split: prod.splits)
qed simp

lemma clamped_zip_1x1_items:
  "iter_take clamped_zip_1x1_next limit (clamped_zip_1x1 r0 o0 f0) =
     take limit (map (\<lambda>k. (r0 ! k, clamped_at k o0 f0)) [0 ..< length r0])"
  unfolding clamped_zip_1x1_steps
  by (rule arg_cong [where f = "take limit"], rule nth_equalityI)
    (auto simp: clamped_zip_1x1_def clamped_values_at case_prod_beta)

lemma clamped_zip_1x2_steps:
  "iter_take clamped_zip_1x2_next k z = take k (map (\<lambda>(r0, o0, o1). (r0, unwrap_or o0 (cz12_o0_default_fn z ()), unwrap_or o1 (cz12_o1_default_fn z ())))
     (zip (cz12_r0 z)
        (zip (clamped_values (length (cz12_r0 z)) (cz12_o0 z) (cz12_o0_latest_value z))
         (clamped_values (length (cz12_r0 z)) (cz12_o1 z) (cz12_o1_latest_value z)))))"
proof (induction k arbitrary: z)
  case (Suc k)
  show ?case
    by (cases "cz12_r0 z")
      (auto simp: Suc clamped_zip_1x2_next_def [of z] Let_def split: prod.splits)
qed simp

lemma clamped_zip_1x2_items:
  "iter_take clamped_zip_1x2_next limit (clamped_zip_1x2 r0 o0 f0 o1 f1) =
     take limit (map (\<lambda>k. (r0 ! k, clamped_at k o0 f0, clamped_at k o1 f1)) [0 ..< length r0])"
  unfolding clamped_zip_1x2_steps
  by (rule arg_cong [where f = "take limit"], rule nth_equalityI)
    (auto simp: clamped_zip_1x2_def clamped_values_at case_prod_beta)

lemma clamped_zip_1x3_steps:
  "iter_take clamped_zip_1x3_next k z = take k (map (\<lambda>(r0, o0, o1, o2). (r0, unwrap_or o0 (cz13_o0_default_fn z ()), unwrap_or o1 (cz13_o1_default_fn z ()), unwrap_or o2 (cz13_o2_default_fn z ())))
     (zip (cz13_r0 z)
        (zip (clamped_values (length (cz13_r0 z)) (cz13_o0 z) (cz13_o0_latest_value z))
         (zip (clamped_values (length (cz13_r0 z)) (cz13_o1 z) (cz13_o1_latest_value z))
         (clamped_values (length (cz13_r0 z)) (cz13_o2 z) (cz13_o2_latest_value z))))))"
proof (induction k arbitrary: z)
  case (Suc k)
  show ?case
    by (cases "cz13_r0 z")
      (auto simp: Suc clamped_zip_1x3_next_def [of z] Let_def split: prod.splits)
qed simp

lemma clamped_zip_1x3_items:
  "iter_take clamped_zip_1x3_next limit (clamped_zip_1x3 r0 o0 f0 o1 f1 o2 f2) =
     take limit (map (\<lambda>k. (r0 ! k, clamped_at k o0 f0, clamped_at k o1 f1, clamped_at k o2 f2)) [0 ..< length r0])"
  unfolding clamped_zip_1x3_steps
  by (rule arg_cong [where f = "take limit"], rule nth_equalityI)
    (auto simp: clamped_zip_1x3_def clamped_values_at case_prod_beta)

lemma clamped_zip_2x1_steps:
  "iter_take clamped_zip_2x1_next k z = take k (map (\<lambda>((r0, r1), o0). (r0, r1, unwrap_or o0 (cz21_o0_default_fn z ())))
     (zip (zip (cz21_r0 z) (cz21_r1 z))
        (clamped_values (min (length (cz21_r0 z)) (length (cz21_r1 z))) (cz21_o0 z) (cz21_o0_latest_value z))))"
proof (induction k arbitrary: z)
  case (Suc k)
  show ?case
    by (cases "cz21_r0 z"; cases "cz21_r1 z")
      (auto simp: Suc clamped_zip_2x1_next_def [of z] Let_def split: prod.splits)
qed simp

lemma clamped_zip_2x1_items:
  "iter_take clamped_zip_2x1_next limit (clamped_zip_2x1 r0 r1 o0 f0) =
     take limit (map (\<lambda>k. (r0 ! k, r1 ! k, clamped_at k o0 f0)) [0 ..< min (length r0) (length r1)])"
  unfolding clamped_zip_2x1_steps
  by (rule arg_cong [where f = "take limit"], rule nth_equalityI)
    (auto simp: clamped_zip_2x1_def clamped_values_at case_prod_beta)

lemma clamped_zip_2x2_steps:
  "iter_take clamped_zip_2x2_next k z = take k (map (\<lambda>((r0, r1), o0, o1). (r0, r1, unwrap_or o0 (cz22_o0_default_fn z ()), unwrap_or o1 (cz22_o1_default_fn z ())))
     (zip (zip (cz22_r0 z) (cz22_r1 z))
        (zip (clamped_values (min (length (cz22_r0 z)) (length (cz22_r1 z))) (cz22_o0 z) (cz22_o0_latest_value z))
         (clamped_values (min (length (cz22_r0 z)) (length (cz22_r1 z))) (cz22_o1 z) (cz22_o1_latest_value z)))))"
proof (induction k arbitrary: z)
  case (Suc k)
  show ?case
    by (cases "cz22_r0 z"; cases "cz22_r1 z")
      (auto simp: Suc clamped_zip_2x2_next_def [of z] Let_def split: prod.splits)
qed simp

lemma clamped_zip_2x2_items:
  "iter_take clamped_zip_2x2_next limit (clamped_zip_2x2 r0 r1 o0 f0 o1 f1) =
     take limit (map (\<lambda>k. (r0 ! k, r1 ! k, clamped_at k o0 f0, clamped_at k o1 f1)) [0 ..< min (length r0) (length r1)])"
  unfolding clamped_zip_2x2_steps
  by (rule arg_cong [where f = "take limit"], rule nth_equalityI)
    (auto simp: clamped_zip_2x2_def clamped_values_at case_prod_beta)

section \<open>All arities\<close>

text \<open>C39: a range zip yields, at every position up to the end of the shortest required iterator, the
  largest index of the required items there, those items, and for each optional iterator its last
  value up to the largest index seen so far.
\<close>
theorem range_zips_correct:
  "iter_take range_zip_1x1_next limit (range_zip_1x1 r0 o0) =
       take limit (let ms = map fst r0
         in map (\<lambda>k. (ms ! k, snd (r0 ! k), latest_until (largest_so_far ms k) o0))
              [0 ..< length r0])
   \<and> iter_take range_zip_1x2_next limit (range_zip_1x2 r0 o0 o1) =
       take limit (let ms = map fst r0
         in map (\<lambda>k. (ms ! k, snd (r0 ! k), latest_until (largest_so_far ms k) o0, latest_until (largest_so_far ms k) o1))
              [0 ..< length r0])
   \<and> iter_take range_zip_1x3_next limit (range_zip_1x3 r0 o0 o1 o2) =
       take limit (let ms = map fst r0
         in map (\<lambda>k. (ms ! k, snd (r0 ! k), latest_until (largest_so_far ms k) o0, latest_until (largest_so_far ms k) o1, latest_until (largest_so_far ms k) o2))
              [0 ..< length r0])
   \<and> iter_take range_zip_2x1_next limit (range_zip_2x1 r0 r1 o0) =
       take limit (let ms = map2 max (map fst r0) (map fst r1)
         in map (\<lambda>k. (ms ! k, snd (r0 ! k), snd (r1 ! k), latest_until (largest_so_far ms k) o0))
              [0 ..< min (length r0) (length r1)])
   \<and> iter_take range_zip_2x2_next limit (range_zip_2x2 r0 r1 o0 o1) =
       take limit (let ms = map2 max (map fst r0) (map fst r1)
         in map (\<lambda>k. (ms ! k, snd (r0 ! k), snd (r1 ! k), latest_until (largest_so_far ms k) o0, latest_until (largest_so_far ms k) o1))
              [0 ..< min (length r0) (length r1)])"
  by (intro conjI range_zip_1x1_items range_zip_1x2_items range_zip_1x3_items range_zip_2x1_items range_zip_2x2_items)

text \<open>C40: a clamped zip yields, at every position up to the end of the shortest required iterator, the
  required items there and for each optional iterator its item at that position, its last item
  once it has ended, or its default when it had none.
\<close>
theorem clamped_zips_correct:
  "iter_take clamped_zip_1x1_next limit (clamped_zip_1x1 r0 o0 f0) =
       take limit (map (\<lambda>k. (r0 ! k, clamped_at k o0 f0)) [0 ..< length r0])
   \<and> iter_take clamped_zip_1x2_next limit (clamped_zip_1x2 r0 o0 f0 o1 f1) =
       take limit (map (\<lambda>k. (r0 ! k, clamped_at k o0 f0, clamped_at k o1 f1)) [0 ..< length r0])
   \<and> iter_take clamped_zip_1x3_next limit (clamped_zip_1x3 r0 o0 f0 o1 f1 o2 f2) =
       take limit (map (\<lambda>k. (r0 ! k, clamped_at k o0 f0, clamped_at k o1 f1, clamped_at k o2 f2)) [0 ..< length r0])
   \<and> iter_take clamped_zip_2x1_next limit (clamped_zip_2x1 r0 r1 o0 f0) =
       take limit (map (\<lambda>k. (r0 ! k, r1 ! k, clamped_at k o0 f0)) [0 ..< min (length r0) (length r1)])
   \<and> iter_take clamped_zip_2x2_next limit (clamped_zip_2x2 r0 r1 o0 f0 o1 f1) =
       take limit (map (\<lambda>k. (r0 ! k, r1 ! k, clamped_at k o0 f0, clamped_at k o1 f1)) [0 ..< min (length r0) (length r1)])"
  by (intro conjI clamped_zip_1x1_items clamped_zip_1x2_items clamped_zip_1x3_items clamped_zip_2x1_items clamped_zip_2x2_items)

end
