(* ===== verification/Sorted_Range_Map.thy ===== *)
theory Sorted_Range_Map
  imports Rerun_Prelude "HOL-Library.Multiset"
begin

text \<open>
  The map from inclusive ranges to values (\<open>re_entity_db/src/sorted_range_map.rs\<close>): the entries
  sorted by start, the running maxima of the ends that prune the search, and the iterator over the
  entries that overlap a query, which can be suspended and resumed. An iterator over a list is
  followed to its end by \<open>overlap_collect\<close> and for some steps by \<open>overlap_take\<close>.
\<close>

section \<open>The map\<close>

record ('k, 'v) SortedRangeMap =
  srm_entries :: "(('k \<times> 'k) \<times> 'v) list"
  srm_max_end :: "'k list"

definition srm_default :: "('k, 'v) SortedRangeMap" where
  "srm_default = \<lparr>srm_entries = [], srm_max_end = []\<rparr>"

fun running_max :: "'k :: linorder option \<Rightarrow> (('k \<times> 'k) \<times> 'v) list \<Rightarrow> 'k list" where
  "running_max m [] = []"
| "running_max m ((rng, _) # entries) =
     (let new_max = (case m of Some m \<Rightarrow> max m (snd rng) | None \<Rightarrow> snd rng)
      in new_max # running_max (Some new_max) entries)"

definition update_max_end :: "('k :: linorder, 'v) SortedRangeMap \<Rightarrow> ('k, 'v) SortedRangeMap" where
  "update_max_end m = m\<lparr>srm_max_end := running_max None (srm_entries m)\<rparr>"

definition srm_extend ::
  "(('k :: linorder \<times> 'k) \<times> 'v) list \<Rightarrow> ('k, 'v) SortedRangeMap \<Rightarrow> ('k, 'v) SortedRangeMap" where
  "srm_extend new_entries m =
     update_max_end (m\<lparr>srm_entries := sort_key (\<lambda>(rng, _). fst rng) (srm_entries m @ new_entries)\<rparr>)"

definition srm_len :: "('k, 'v) SortedRangeMap \<Rightarrow> nat" where
  "srm_len m = length (srm_entries m)"

definition srm_is_empty :: "('k, 'v) SortedRangeMap \<Rightarrow> bool" where
  "srm_is_empty m \<longleftrightarrow> srm_entries m = []"

definition find_first_possible :: "'k :: linorder \<times> 'k \<Rightarrow> ('k, 'v) SortedRangeMap \<Rightarrow> nat" where
  "find_first_possible query m = partition_point (\<lambda>max. max < fst query) (srm_max_end m)"

section \<open>The iterator\<close>

record ('k, 'v) OverlapIter =
  oi_map :: "('k, 'v) SortedRangeMap"
  oi_query :: "'k \<times> 'k"
  oi_idx :: nat

definition srm_query :: "'k :: linorder \<times> 'k \<Rightarrow> ('k, 'v) SortedRangeMap \<Rightarrow> ('k, 'v) OverlapIter" where
  "srm_query query m = \<lparr>oi_map = m, oi_query = query, oi_idx = find_first_possible query m\<rparr>"

definition srm_resume_query :: "'k \<times> 'k \<Rightarrow> nat \<Rightarrow> ('k, 'v) SortedRangeMap \<Rightarrow> ('k, 'v) OverlapIter" where
  "srm_resume_query query cursor m = \<lparr>oi_map = m, oi_query = query, oi_idx = cursor\<rparr>"

definition overlap_cursor :: "('k, 'v) OverlapIter \<Rightarrow> nat" where
  "overlap_cursor it = oi_idx it"

function overlap_next ::
  "('k :: linorder, 'v) OverlapIter \<Rightarrow> (('k \<times> 'k) \<times> 'v) option \<times> ('k, 'v) OverlapIter" where
  "overlap_next it =
     (if oi_idx it < length (srm_entries (oi_map it))
      then let (rng, v) = srm_entries (oi_map it) ! oi_idx it
        in if snd (oi_query it) < fst rng then (None, it)
           else let it = it\<lparr>oi_idx := oi_idx it + 1\<rparr>
             in if fst (oi_query it) \<le> snd rng then (Some (rng, v), it)
                else overlap_next it
      else (None, it))"
  by pat_completeness auto
termination
  by (relation "measure (\<lambda>it. length (srm_entries (oi_map it)) - oi_idx it)") auto

declare overlap_next.simps [simp del]

definition overlap_size_hint :: "('k, 'v) OverlapIter \<Rightarrow> nat \<times> nat option" where
  "overlap_size_hint it = (0, Some (length (srm_entries (oi_map it)) - oi_idx it))"

lemma overlap_next_Some:
  assumes "overlap_next it = (Some x, it')"
  shows "oi_idx it < oi_idx it' \<and> oi_idx it' \<le> length (srm_entries (oi_map it))
     \<and> oi_map it' = oi_map it \<and> oi_query it' = oi_query it"
  using assms
proof (induction it rule: overlap_next.induct)
  case (1 it)
  show ?case
  proof (cases "oi_idx it < length (srm_entries (oi_map it))")
    case True
    obtain rng v where e: "srm_entries (oi_map it) ! oi_idx it = (rng, v)" by fastforce
    show ?thesis
      using 1(2) 1(1) [OF True, of "(rng, v)" rng v] True e
      by (subst (asm) overlap_next.simps) (auto simp: Let_def split: if_splits)
  qed (use 1(2) in \<open>simp add: overlap_next.simps\<close>)
qed

primrec overlap_take ::
  "nat \<Rightarrow> ('k :: linorder, 'v) OverlapIter \<Rightarrow> (('k \<times> 'k) \<times> 'v) list \<times> ('k, 'v) OverlapIter" where
  "overlap_take 0 it = ([], it)"
| "overlap_take (Suc k) it =
     (case overlap_next it of
        (None, it) \<Rightarrow> ([], it)
      | (Some x, it) \<Rightarrow> let (xs, it) = overlap_take k it in (x # xs, it))"

function overlap_collect :: "('k :: linorder, 'v) OverlapIter \<Rightarrow> (('k \<times> 'k) \<times> 'v) list" where
  "overlap_collect it =
     (case overlap_next it of (None, _) \<Rightarrow> [] | (Some x, it) \<Rightarrow> x # overlap_collect it)"
  by pat_completeness auto
termination
proof (relation "measure (\<lambda>it. length (srm_entries (oi_map it)) - oi_idx it)", goal_cases)
  case (2 it r it' x)
  then have "overlap_next it = (Some x, it')" by simp
  from overlap_next_Some [OF this] show ?case by auto
qed simp

declare overlap_collect.simps [simp del]

section \<open>What a query returns\<close>

definition overlaps :: "'k :: linorder \<times> 'k \<Rightarrow> ('k \<times> 'k) \<times> 'v \<Rightarrow> bool" where
  "overlaps query e \<longleftrightarrow> fst (fst e) \<le> snd query \<and> fst query \<le> snd (fst e)"

definition srm_ok :: "('k :: linorder, 'v) SortedRangeMap \<Rightarrow> bool" where
  "srm_ok m \<longleftrightarrow> sorted (map (\<lambda>(rng, _). fst rng) (srm_entries m))
     \<and> srm_max_end m = running_max None (srm_entries m)"

lemma srm_ok_default [simp]: "srm_ok srm_default"
  by (simp add: srm_ok_def srm_default_def)

lemma srm_ok_extend [simp]: "srm_ok (srm_extend new_entries m)"
  by (simp add: srm_ok_def srm_extend_def update_max_end_def)

lemma length_running_max [simp]: "length (running_max m entries) = length entries"
  by (induction m entries rule: running_max.induct) (simp_all add: Let_def)

lemma running_max_above: "x \<in> set (running_max (Some k) entries) \<Longrightarrow> k \<le> x"
proof (induction entries arbitrary: k)
  case (Cons e entries)
  then show ?case by (cases e) (fastforce simp: Let_def)
qed simp

lemma running_max_bounds:
  "i < length entries \<Longrightarrow> snd (fst (entries ! i)) \<le> running_max m entries ! i"
  by (induction m entries arbitrary: i rule: running_max.induct)
    (auto simp: Let_def nth_Cons split: option.split nat.split)

lemma overlap_next_None:
  "overlap_next it = (None, it') \<Longrightarrow> overlap_next it' = (None, it') \<and> oi_map it' = oi_map it \<and> oi_query it' = oi_query it"
proof (induction it rule: overlap_next.induct)
  case (1 it)
  show ?case
  proof (cases "oi_idx it < length (srm_entries (oi_map it))")
    case True
    obtain rng v where e: "srm_entries (oi_map it) ! oi_idx it = (rng, v)" by fastforce
    show ?thesis
    proof (cases "snd (oi_query it) < fst rng")
      case stop: True
      then have "overlap_next it = (None, it)" using True e by (simp add: overlap_next.simps)
      then show ?thesis using 1(2) by simp
    next
      case False
      then show ?thesis
        using 1(2) 1(1) [OF True e [symmetric] refl False refl] True e
        by (simp add: overlap_next.simps [of it] Let_def split: if_splits)
    qed
  next
    case False
    then have "overlap_next it = (None, it)" by (simp add: overlap_next.simps)
    then show ?thesis using 1(2) by simp
  qed
qed

lemma overlap_collect_from:
  assumes "sorted (map (\<lambda>(rng, _). fst rng) (srm_entries (oi_map it)))"
  shows "overlap_collect it = filter (overlaps (oi_query it)) (drop (oi_idx it) (srm_entries (oi_map it)))"
  using assms
proof (induction "length (srm_entries (oi_map it)) - oi_idx it" arbitrary: it rule: less_induct)
  case less
  let ?es = "srm_entries (oi_map it)" and ?i = "oi_idx it"
  show ?case
  proof (cases "?i < length ?es")
    case False
    then show ?thesis by (simp add: overlap_collect.simps overlap_next.simps)
  next
    case True
    obtain rng v where e: "?es ! ?i = (rng, v)" by fastforce
    have es: "drop ?i ?es = (rng, v) # drop (Suc ?i) ?es" using True e by (simp flip: Cons_nth_drop_Suc)
    let ?it = "it\<lparr>oi_idx := ?i + 1\<rparr>"
    have rest: "overlap_collect ?it = filter (overlaps (oi_query it)) (drop (Suc ?i) ?es)"
      using less(1) [of ?it] less(2) True by simp
    show ?thesis
    proof (cases "snd (oi_query it) < fst rng")
      case after: True
      have "sorted (map (\<lambda>(rng, _). fst rng) (drop ?i ?es))"
        using less(2) by (simp add: sorted_wrt_drop flip: drop_map)
      then have "\<forall>x \<in> set (drop ?i ?es). fst rng \<le> fst (fst x)" unfolding es by (auto simp: case_prod_beta)
      then have "filter (overlaps (oi_query it)) (drop ?i ?es) = []"
        using after by (auto simp: overlaps_def filter_empty_conv)
      then show ?thesis using True e after by (simp add: overlap_collect.simps overlap_next.simps)
    next
      case False
      show ?thesis
      proof (cases "fst (oi_query it) \<le> snd rng")
        case hit: True
        have "overlap_next it = (Some (rng, v), ?it)"
          using True e False hit by (simp add: overlap_next.simps [of it] Let_def)
        then have "overlap_collect it = (rng, v) # overlap_collect ?it" by (simp add: overlap_collect.simps [of it])
        then show ?thesis using rest es False hit by (simp add: overlaps_def not_less)
      next
        case miss: False
        have "overlap_next it = overlap_next ?it"
          using True e False miss by (simp add: overlap_next.simps [of it] Let_def)
        then have "overlap_collect it = overlap_collect ?it" by (simp add: overlap_collect.simps)
        then show ?thesis using rest es miss by (simp add: overlaps_def)
      qed
    qed
  qed
qed

lemma overlap_take_collect:
  "overlap_take k it = (xs, it') \<Longrightarrow>
     xs = take k (overlap_collect it) \<and> overlap_collect it = xs @ overlap_collect it'
     \<and> oi_map it' = oi_map it \<and> oi_query it' = oi_query it"
proof (induction k arbitrary: it xs)
  case (Suc k)
  show ?case
  proof (cases "overlap_next it")
    case (Pair r it1)
    show ?thesis
    proof (cases r)
      case None
      then show ?thesis using Suc(2) Pair overlap_next_None [of it it1] by (simp add: overlap_collect.simps)
    next
      case (Some x)
      obtain ys where ys: "overlap_take k it1 = (ys, it')" "xs = x # ys"
        using Suc(2) Pair Some by (auto split: prod.splits)
      note rest = Suc(1) [OF ys(1)]
      have step: "overlap_collect it = x # overlap_collect it1" using Pair Some by (simp add: overlap_collect.simps [of it])
      have "xs = take (Suc k) (overlap_collect it)" unfolding step ys(2) using rest [THEN conjunct1] by simp
      moreover have "overlap_collect it = xs @ overlap_collect it'"
        unfolding step ys(2) using rest [THEN conjunct2, THEN conjunct1] by simp
      ultimately show ?thesis using rest overlap_next_Some [of it x it1] Pair Some by metis
    qed
  qed
qed simp

lemma find_first_possible_skips:
  assumes "srm_ok m"
  shows "filter (overlaps query) (drop (find_first_possible query m) (srm_entries m))
    = filter (overlaps query) (srm_entries m)"
proof -
  let ?k = "find_first_possible query m"
  have "\<not> overlaps query (srm_entries m ! i)" if "i < ?k" for i
  proof -
    have "?k \<le> length (srm_max_end m)"
      by (simp add: find_first_possible_def partition_point_def length_takeWhile_le)
    then have i: "i < length (srm_entries m)" using that assms by (simp add: srm_ok_def)
    let ?t = "takeWhile (\<lambda>max. max < fst query) (srm_max_end m)"
    have "i < length ?t" using that by (simp add: find_first_possible_def partition_point_def)
    then have "?t ! i \<in> set ?t" and nth: "?t ! i = srm_max_end m ! i" by (rule nth_mem, rule takeWhile_nth)
    then have "srm_max_end m ! i < fst query" unfolding nth by (auto dest: set_takeWhileD)
    then show ?thesis
      using running_max_bounds(1) [OF i, of None] assms by (auto simp: srm_ok_def overlaps_def)
  qed
  then have "\<forall>e \<in> set (take ?k (srm_entries m)). \<not> overlaps query e" by (simp add: all_set_conv_all_nth)
  then have "filter (overlaps query) (take ?k (srm_entries m)) = []" by (simp add: filter_empty_conv)
  then show ?thesis by (metis append_Nil append_take_drop_id filter_append)
qed

lemma sort_key_sorted_prefix: "sort_key f (sort_key f xs @ ys) = sort_key f (xs @ ys)"
proof -
  have "filter (\<lambda>x. f k = f x) (sort_key f zs) = filter (\<lambda>x. f k = f x) zs" for k zs
    using sort_key_stable [of f "f k" zs] by (simp add: eq_commute [of "f k"])
  then show ?thesis by (intro properties_for_sort_key [symmetric]) simp_all
qed

definition srm_of :: "(('k :: linorder \<times> 'k) \<times> 'v) list list \<Rightarrow> ('k, 'v) SortedRangeMap" where
  "srm_of batches = fold srm_extend batches srm_default"

lemma srm_of_ok [simp]: "srm_ok (srm_of batches)"
  by (cases batches rule: rev_cases) (simp_all add: srm_of_def)

lemma srm_of_entries: "srm_entries (srm_of batches) = sort_key (\<lambda>(rng, _). fst rng) (concat batches)"
proof (induction batches rule: rev_induct)
  case (snoc b batches)
  then show ?case by (simp add: srm_of_def srm_extend_def update_max_end_def sort_key_sorted_prefix)
qed (simp add: srm_of_def srm_default_def)


end
