(* ===== verification/Stable_Index_Deque.thy ===== *)
theory Stable_Index_Deque
  imports Rerun_Prelude
begin

text \<open>
  The deque whose indices stay valid (\<open>utils/re_video/src/stable_index_deque.rs\<close>), which holds the
  samples of a video stream. Indices (\<open>usize\<close>) are naturals; a panic is \<open>None\<close>. The contract is a
  partial map from indices to elements, defined on an interval; every operation is an update of it.
\<close>

section \<open>The deque\<close>

record 'a StableIndexDeque =
  sd_vec :: "'a list"
  sd_index_offset :: nat

definition sd_new :: "'a StableIndexDeque" where
  "sd_new = \<lparr>sd_vec = [], sd_index_offset = 0\<rparr>"

definition sd_from_iter_with_offset :: "nat \<Rightarrow> 'a list \<Rightarrow> 'a StableIndexDeque" where
  "sd_from_iter_with_offset index_offset iter = \<lparr>sd_vec = iter, sd_index_offset = index_offset\<rparr>"

definition sd_from_iter :: "'a list \<Rightarrow> 'a StableIndexDeque" where
  "sd_from_iter iter = \<lparr>sd_vec = iter, sd_index_offset = 0\<rparr>"

definition sd_push_back :: "'a \<Rightarrow> 'a StableIndexDeque \<Rightarrow> 'a StableIndexDeque" where
  "sd_push_back v d = d\<lparr>sd_vec := sd_vec d @ [v]\<rparr>"

definition sd_pop_front :: "'a StableIndexDeque \<Rightarrow> 'a option \<times> 'a StableIndexDeque" where
  "sd_pop_front d = (case sd_vec d of
     [] \<Rightarrow> (None, d)
   | v # vec \<Rightarrow> (Some v, \<lparr>sd_vec = vec, sd_index_offset = sd_index_offset d + 1\<rparr>))"

definition sd_pop_back :: "'a StableIndexDeque \<Rightarrow> 'a option \<times> 'a StableIndexDeque" where
  "sd_pop_back d =
     (if sd_vec d = [] then (None, d) else (Some (last (sd_vec d)), d\<lparr>sd_vec := butlast (sd_vec d)\<rparr>))"

definition sd_extend :: "'a list \<Rightarrow> 'a StableIndexDeque \<Rightarrow> 'a StableIndexDeque" where
  "sd_extend vs d = d\<lparr>sd_vec := sd_vec d @ vs\<rparr>"

definition sd_iter :: "'a StableIndexDeque \<Rightarrow> 'a list" where
  "sd_iter d = sd_vec d"

definition sd_iter_indexed :: "'a StableIndexDeque \<Rightarrow> (nat \<times> 'a) list" where
  "sd_iter_indexed d = map (\<lambda>(i, v). (i + sd_index_offset d, v)) (enumerate 0 (sd_vec d))"

definition sd_back :: "'a StableIndexDeque \<Rightarrow> 'a option" where
  "sd_back d = (if sd_vec d = [] then None else Some (last (sd_vec d)))"

definition sd_front :: "'a StableIndexDeque \<Rightarrow> 'a option" where
  "sd_front d = (case sd_vec d of [] \<Rightarrow> None | v # _ \<Rightarrow> Some v)"

definition sd_remove_all_with_index_larger_equal :: "nat \<Rightarrow> 'a StableIndexDeque \<Rightarrow> 'a StableIndexDeque" where
  "sd_remove_all_with_index_larger_equal first_index_not_contained d =
     d\<lparr>sd_vec := take (first_index_not_contained - sd_index_offset d) (sd_vec d)\<rparr>"

function sd_remove_all_with_index_smaller_equal :: "nat \<Rightarrow> 'a StableIndexDeque \<Rightarrow> 'a StableIndexDeque" where
  "sd_remove_all_with_index_smaller_equal first_index_contained d =
     (if sd_vec d \<noteq> [] \<and> sd_index_offset d \<le> first_index_contained
      then sd_remove_all_with_index_smaller_equal first_index_contained (snd (sd_pop_front d))
      else d)"
  by pat_completeness auto
termination
  by (relation "measure (\<lambda>(i, d). length (sd_vec d))") (auto simp: sd_pop_front_def split: list.splits)

declare sd_remove_all_with_index_smaller_equal.simps [simp del]

text \<open>\<open>Iterator::position\<close>: the first position the predicate holds at.\<close>

fun iter_position :: "('a \<Rightarrow> bool) \<Rightarrow> 'a list \<Rightarrow> nat option" where
  "iter_position P [] = None"
| "iter_position P (x # xs) = (if P x then Some 0 else map_option Suc (iter_position P xs))"

definition sd_position :: "('a \<Rightarrow> bool) \<Rightarrow> 'a StableIndexDeque \<Rightarrow> nat option" where
  "sd_position P d = map_option (\<lambda>i. i + sd_index_offset d) (iter_position P (sd_vec d))"

definition sd_partition_point :: "('a \<Rightarrow> bool) \<Rightarrow> 'a StableIndexDeque \<Rightarrow> nat" where
  "sd_partition_point P d = partition_point P (sd_vec d) + sd_index_offset d"

definition sd_is_empty :: "'a StableIndexDeque \<Rightarrow> bool" where
  "sd_is_empty d \<longleftrightarrow> sd_vec d = []"

definition sd_get :: "nat \<Rightarrow> 'a StableIndexDeque \<Rightarrow> 'a option" where
  "sd_get i d =
     (if i < sd_index_offset d then None
      else let j = i - sd_index_offset d
        in if j < length (sd_vec d) then Some (sd_vec d ! j) else None)"

text \<open>Writing through \<open>get_mut\<close>, and through \<open>index_mut\<close>, which panics.\<close>

definition sd_set :: "nat \<Rightarrow> 'a \<Rightarrow> 'a StableIndexDeque \<Rightarrow> 'a StableIndexDeque option" where
  "sd_set i v d =
     (if i < sd_index_offset d then None
      else let j = i - sd_index_offset d
        in if j < length (sd_vec d) then Some (d\<lparr>sd_vec := (sd_vec d)[j := v]\<rparr>) else None)"

definition sd_next_index :: "'a StableIndexDeque \<Rightarrow> nat" where
  "sd_next_index d = length (sd_vec d) + sd_index_offset d"

definition sd_min_index :: "'a StableIndexDeque \<Rightarrow> nat" where
  "sd_min_index d = sd_index_offset d"

definition sd_num_elements :: "'a StableIndexDeque \<Rightarrow> nat" where
  "sd_num_elements d = length (sd_vec d)"

text \<open>
  \<open>replace\<close>: the subtractions and \<open>drain\<close> panic when the range is not inside the deque.
\<close>

definition sd_replace :: "nat \<times> nat \<Rightarrow> 'a list \<Rightarrow> 'a StableIndexDeque \<Rightarrow> 'a StableIndexDeque option" where
  "sd_replace rng replacement d =
     (if fst rng < sd_index_offset d \<or> snd rng < sd_index_offset d then None
      else let local_start = fst rng - sd_index_offset d;
               local_end = snd rng - sd_index_offset d
        in if local_end < local_start \<or> length (sd_vec d) < local_end then None
           else let vec = take local_start (sd_vec d) @ drop local_end (sd_vec d);
                    tail = drop local_start vec;
                    vec = take local_start vec
             in Some (d\<lparr>sd_vec := (vec @ replacement) @ tail\<rparr>))"

text \<open>A range that ends before it starts is a panic where overflow is checked.\<close>

definition sd_iter_index_range_clamped :: "nat \<times> nat \<Rightarrow> 'a StableIndexDeque \<Rightarrow> (nat \<times> 'a) list option" where
  "sd_iter_index_range_clamped rng d =
     (let range_start = fst rng - sd_index_offset d
      in if snd rng < fst rng then None
         else let num_elements = snd rng - fst rng
           in Some (take num_elements (drop range_start (sd_iter_indexed d))))"

section \<open>The contract\<close>

text \<open>The map from indices to elements, and the interval it is defined on.\<close>

abbreviation sd_map :: "'a StableIndexDeque \<Rightarrow> nat \<rightharpoonup> 'a" where
  "sd_map d \<equiv> \<lambda>i. sd_get i d"

lemma sd_map_iff:
  "sd_get i d = Some v \<longleftrightarrow> sd_index_offset d \<le> i \<and> i < sd_next_index d \<and> v = sd_vec d ! (i - sd_index_offset d)"
  by (auto simp: sd_get_def sd_next_index_def Let_def)

lemma sd_map_None: "sd_get i d = None \<longleftrightarrow> i < sd_min_index d \<or> sd_next_index d \<le> i"
  by (auto simp: sd_get_def sd_next_index_def sd_min_index_def Let_def)

lemma dom_sd_map: "dom (sd_map d) = {sd_min_index d ..< sd_next_index d}"
  by (rule set_eqI) (simp add: domIff sd_map_None not_less not_le)

lemma sd_map_extend:
  "sd_map (sd_extend vs d) = (\<lambda>i. if i < sd_next_index d then sd_map d i
     else if i - sd_next_index d < length vs then Some (vs ! (i - sd_next_index d)) else None)"
proof (rule ext)
  fix i
  consider "i < sd_index_offset d" | j where "i = sd_index_offset d + j" "j < length (sd_vec d)"
    | j where "i = sd_index_offset d + (length (sd_vec d) + j)"
    by (metis le_add_diff_inverse linorder_not_le)
  then show "sd_map (sd_extend vs d) i = (if i < sd_next_index d then sd_map d i
     else if i - sd_next_index d < length vs then Some (vs ! (i - sd_next_index d)) else None)"
    by cases (simp_all add: sd_get_def sd_extend_def sd_next_index_def Let_def nth_append ac_simps)
qed

lemma sd_map_push_back: "sd_map (sd_push_back v d) = (sd_map d)(sd_next_index d \<mapsto> v)"
proof -
  have "sd_push_back v d = sd_extend [v] d" by (simp add: sd_push_back_def sd_extend_def)
  then show ?thesis by (auto simp: sd_map_extend fun_eq_iff sd_map_None [THEN iffD2])
qed

lemma sd_map_pop_front:
  "sd_pop_front d = (sd_map d (sd_min_index d), d')
     \<Longrightarrow> sd_map d' = (sd_map d)(sd_min_index d := None)"
  by (rule ext, cases "sd_vec d")
    (auto simp: sd_pop_front_def sd_get_def sd_min_index_def Let_def nth_Cons' not_less)

lemma sd_pop_front_result: "fst (sd_pop_front d) = sd_map d (sd_min_index d)"
  by (cases "sd_vec d") (auto simp: sd_pop_front_def sd_get_def sd_min_index_def)

lemma sd_map_larger_equal:
  "sd_map (sd_remove_all_with_index_larger_equal i d) = sd_map d |` {..< i}"
  by (rule ext) (auto simp: sd_remove_all_with_index_larger_equal_def sd_get_def restrict_map_def Let_def)

lemma sd_map_pop_back:
  assumes "sd_pop_back d = (r, d')"
  shows "r = (if sd_is_empty d then None else sd_map d (sd_next_index d - 1))"
    and "sd_map d' = (if sd_is_empty d then sd_map d else (sd_map d)(sd_next_index d - 1 := None))"
proof -
  show "r = (if sd_is_empty d then None else sd_map d (sd_next_index d - 1))"
    using assms by (cases "sd_vec d" rule: rev_cases)
      (auto simp: sd_pop_back_def sd_get_def sd_is_empty_def sd_next_index_def Let_def)
  show "sd_map d' = (if sd_is_empty d then sd_map d else (sd_map d)(sd_next_index d - 1 := None))"
    using assms by (cases "sd_vec d" rule: rev_cases; intro ext)
      (auto simp: sd_pop_back_def sd_get_def sd_is_empty_def sd_next_index_def Let_def nth_append not_less)
qed

lemma sd_smaller_equal_drop:
  "sd_remove_all_with_index_smaller_equal i d =
     (let n = min (length (sd_vec d)) (i + 1 - sd_index_offset d)
      in \<lparr>sd_vec = drop n (sd_vec d), sd_index_offset = sd_index_offset d + n\<rparr>)"
proof (induction i d rule: sd_remove_all_with_index_smaller_equal.induct)
  case (1 i d)
  show ?case
  proof (cases "sd_vec d \<noteq> [] \<and> sd_index_offset d \<le> i")
    case True
    then obtain v vec where v: "sd_vec d = v # vec" by (auto simp: neq_Nil_conv)
    have "i + 1 - sd_index_offset d = Suc (i - sd_index_offset d)" using True by (simp add: Suc_diff_le)
    then show ?thesis
      using 1 [OF True] True v
      by (simp add: sd_remove_all_with_index_smaller_equal.simps [of i d] sd_pop_front_def Let_def)
  next
    case False
    then have "sd_remove_all_with_index_smaller_equal i d = d"
      by (auto simp: sd_remove_all_with_index_smaller_equal.simps [of i d])
    moreover have "min (length (sd_vec d)) (i + 1 - sd_index_offset d) = 0" using False by auto
    ultimately show ?thesis by (simp only: Let_def) simp
  qed
qed

lemma sd_map_smaller_equal:
  "sd_map (sd_remove_all_with_index_smaller_equal i d) = sd_map d |` {i <..}"
  by (rule ext) (auto simp: sd_smaller_equal_drop sd_get_def restrict_map_def Let_def not_less min_def split: if_splits)

lemma sd_map_replace:
  assumes "sd_replace (a, b) vs d = Some d'"
  shows "sd_map d' = (\<lambda>i. if i < a then sd_map d i
      else if i < a + length vs then Some (vs ! (i - a)) else sd_map d (i - length vs - a + b))"
    and "sd_min_index d' = sd_min_index d" "sd_next_index d' + (b - a) = sd_next_index d + length vs"
    and "sd_min_index d \<le> a" "a \<le> b" "b \<le> sd_next_index d"
proof -
  let ?o = "sd_index_offset d" and ?xs = "sd_vec d"
  have ab: "?o \<le> a" "a \<le> b" "b \<le> ?o + length ?xs"
    and d': "d' = d\<lparr>sd_vec := take (a - ?o) ?xs @ vs @ drop (b - ?o) ?xs\<rparr>"
    using assms by (auto simp: sd_replace_def Let_def split: if_splits)
  then show "sd_min_index d' = sd_min_index d" "sd_next_index d' + (b - a) = sd_next_index d + length vs"
      "sd_min_index d \<le> a" "a \<le> b" "b \<le> sd_next_index d"
    by (auto simp: sd_min_index_def sd_next_index_def)
  show "sd_map d' = (\<lambda>i. if i < a then sd_map d i
      else if i < a + length vs then Some (vs ! (i - a)) else sd_map d (i - length vs - a + b))"
  proof (rule ext)
    fix i
    obtain p where p: "a = ?o + p" using ab(1) by (auto simp: le_iff_add)
    obtain q where q: "b = a + q" using ab(2) by (auto simp: le_iff_add)
    have pq: "p + q \<le> length ?xs" using ab(3) by (simp add: p q)
    consider "i < ?o" | j where "i = ?o + j" "j < p" | j where "i = ?o + (p + j)" "j < length vs"
      | j where "i = ?o + (p + (length vs + j))"
      by (metis add.assoc le_add_diff_inverse linorder_not_le nat_add_left_cancel_less)
    then show "sd_map d' i = (if i < a then sd_map d i
        else if i < a + length vs then Some (vs ! (i - a)) else sd_map d (i - length vs - a + b))"
      by cases (use pq in \<open>auto simp: sd_get_def Let_def d' p q nth_append ac_simps\<close>)
  qed
qed

lemma sd_map_set:
  "sd_set i v d = (if i \<in> dom (sd_map d) then Some (d\<lparr>sd_vec := (sd_vec d)[i - sd_index_offset d := v]\<rparr>) else None)"
  by (auto simp: sd_set_def sd_get_def Let_def dom_def)

lemma sd_map_after_set:
  assumes "sd_set i v d = Some d'"
  shows "sd_map d' = (sd_map d)(i \<mapsto> v)" "sd_min_index d' = sd_min_index d" "sd_next_index d' = sd_next_index d"
  using assms
  by (auto simp: sd_set_def sd_get_def sd_min_index_def sd_next_index_def Let_def nth_list_update fun_eq_iff
      split: if_splits)

lemma sd_iter_indexed_map:
  "sd_iter_indexed d = map (\<lambda>i. (i, the (sd_map d i))) [sd_min_index d ..< sd_next_index d]"
  by (rule nth_equalityI) (auto simp: sd_iter_indexed_def sd_min_index_def sd_next_index_def sd_get_def
      nth_enumerate_eq Let_def)

lemma iter_position_nth:
  "iter_position P xs = Some i \<longleftrightarrow> i < length xs \<and> P (xs ! i) \<and> (\<forall>j < i. \<not> P (xs ! j))"
proof (induction xs arbitrary: i)
  case (Cons x xs)
  show ?case by (cases i) (auto simp: Cons All_less_Suc2 nth_Cons split: nat.splits)
qed simp

lemma sd_position_first:
  "sd_position P d = Some i \<longleftrightarrow> (\<exists>v. sd_map d i = Some v \<and> P v) \<and> (\<forall>j < i. \<forall>v. sd_map d j = Some v \<longrightarrow> \<not> P v)"
proof -
  let ?o = "sd_index_offset d"
  have "sd_position P d = Some i \<longleftrightarrow> (\<exists>k. i = ?o + k \<and> iter_position P (sd_vec d) = Some k)"
    by (auto simp: sd_position_def add.commute)
  also have "\<dots> \<longleftrightarrow> (\<exists>v. sd_map d i = Some v \<and> P v) \<and> (\<forall>j < i. \<forall>v. sd_map d j = Some v \<longrightarrow> \<not> P v)"
    (is "?l \<longleftrightarrow> ?r")
  proof
    assume ?l
    then obtain k where "i = ?o + k" "k < length (sd_vec d)" "P (sd_vec d ! k)" "\<forall>j < k. \<not> P (sd_vec d ! j)"
      by (auto simp: iter_position_nth)
    then show ?r by (auto simp: sd_map_iff sd_next_index_def)
  next
    assume r: ?r
    then have i: "?o \<le> i" "i < sd_next_index d" "P (sd_vec d ! (i - ?o))" by (auto simp: sd_map_iff)
    have "\<not> P (sd_vec d ! j)" if "j < i - ?o" for j
    proof -
      have "?o + j < i" "sd_map d (?o + j) = Some (sd_vec d ! j)"
        using that i(2) by (simp_all add: sd_map_iff)
      then show ?thesis using r by blast
    qed
    then show ?l using i by (intro exI [of _ "i - ?o"]) (auto simp: iter_position_nth sd_next_index_def)
  qed
  finally show ?thesis .
qed

section \<open>Refinement\<close>

text \<open>
  The abstract state: the first index, the next index and the map. An operation returns the element
  it removes, if any; \<open>None\<close> is a panic.
\<close>

type_synonym 'a index_map = "nat \<times> nat \<times> (nat \<rightharpoonup> 'a)"

datatype 'a deque_op =
    PushBack 'a | Extend "'a list" | PopFront | PopBack | RemoveLargerEqual nat | RemoveSmallerEqual nat
  | SetAt nat 'a | Replace nat nat "'a list"

fun spec_step :: "'a deque_op \<Rightarrow> 'a index_map \<Rightarrow> ('a option \<times> 'a index_map) option" where
  "spec_step (PushBack v) (lo, hi, m) = Some (None, lo, hi + 1, m(hi \<mapsto> v))"
| "spec_step (Extend vs) (lo, hi, m) = Some (None, lo, hi + length vs,
     \<lambda>i. if i < hi then m i else if i - hi < length vs then Some (vs ! (i - hi)) else None)"
| "spec_step PopFront (lo, hi, m) =
     Some (if lo < hi then (m lo, lo + 1, hi, m(lo := None)) else (None, lo, hi, m))"
| "spec_step PopBack (lo, hi, m) =
     Some (if lo < hi then (m (hi - 1), lo, hi - 1, m(hi - 1 := None)) else (None, lo, hi, m))"
| "spec_step (RemoveLargerEqual i) (lo, hi, m) = Some (None, lo, max lo (min hi i), m |` {..< i})"
| "spec_step (RemoveSmallerEqual i) (lo, hi, m) = Some (None, max lo (min hi (i + 1)), hi, m |` {i <..})"
| "spec_step (SetAt i v) (lo, hi, m) =
     (if i \<in> {lo ..< hi} then Some (None, lo, hi, m(i \<mapsto> v)) else None)"
| "spec_step (Replace a b vs) (lo, hi, m) =
     (if lo \<le> a \<and> a \<le> b \<and> b \<le> hi
      then Some (None, lo, hi + length vs - (b - a),
        \<lambda>i. if i < a then m i else if i < a + length vs then Some (vs ! (i - a)) else m (i - length vs - a + b))
      else None)"

fun sd_step :: "'a deque_op \<Rightarrow> 'a StableIndexDeque \<Rightarrow> ('a option \<times> 'a StableIndexDeque) option" where
  "sd_step (PushBack v) d = Some (None, sd_push_back v d)"
| "sd_step (Extend vs) d = Some (None, sd_extend vs d)"
| "sd_step PopFront d = Some (sd_pop_front d)"
| "sd_step PopBack d = Some (sd_pop_back d)"
| "sd_step (RemoveLargerEqual i) d = Some (None, sd_remove_all_with_index_larger_equal i d)"
| "sd_step (RemoveSmallerEqual i) d = Some (None, sd_remove_all_with_index_smaller_equal i d)"
| "sd_step (SetAt i v) d = map_option (Pair None) (sd_set i v d)"
| "sd_step (Replace a b vs) d = map_option (Pair None) (sd_replace (a, b) vs d)"

fun run_ops :: "('o \<Rightarrow> 's \<Rightarrow> ('r \<times> 's) option) \<Rightarrow> 'o list \<Rightarrow> 's \<Rightarrow> ('r list \<times> 's) option" where
  "run_ops f [] s = Some ([], s)"
| "run_ops f (op # ops) s = (case f op s of
     None \<Rightarrow> None
   | Some (r, s) \<Rightarrow> map_option (\<lambda>(rs, s). (r # rs, s)) (run_ops f ops s))"

definition sd_abs :: "'a StableIndexDeque \<Rightarrow> 'a index_map" where
  "sd_abs d = (sd_min_index d, sd_next_index d, sd_map d)"

text \<open>A step function that commutes with an abstraction does so over any sequence of operations.\<close>

locale step_simulation =
  fixes f :: "'o \<Rightarrow> 's \<Rightarrow> ('r \<times> 's) option"
    and g :: "'o \<Rightarrow> 't \<Rightarrow> ('r \<times> 't) option"
    and h :: "'s \<Rightarrow> 't"
  assumes commutes: "map_option (\<lambda>(r, s). (r, h s)) (f op s) = g op (h s)"
begin

lemma runs: "map_option (\<lambda>(rs, s). (rs, h s)) (run_ops f ops s) = run_ops g ops (h s)"
proof (induction ops arbitrary: s)
  case (Cons op ops)
  show ?case
  proof (cases "f op s")
    case None
    then show ?thesis using commutes [of op s] by simp
  next
    case (Some rs)
    obtain r t where rs: "rs = (r, t)" by fastforce
    have g: "g op (h s) = Some (r, h t)" using commutes [of op s] Some rs by simp
    have "map_option (\<lambda>(rs, s). (rs, h s)) (map_option (\<lambda>(rs, s). (r # rs, s)) (run_ops f ops t))
        = map_option (\<lambda>(rs, s). (r # rs, s)) (map_option (\<lambda>(rs, s). (rs, h s)) (run_ops f ops t))"
      by (cases "run_ops f ops t") auto
    then show ?thesis using Some rs g Cons by simp
  qed
qed simp

end

lemma sd_interval_replace:
  "sd_replace (a, b) vs d = None \<longleftrightarrow> \<not> (sd_min_index d \<le> a \<and> a \<le> b \<and> b \<le> sd_next_index d)"
  by (auto simp: sd_replace_def sd_min_index_def sd_next_index_def Let_def)

lemma sd_interval:
  "sd_min_index (sd_push_back v d) = sd_min_index d" "sd_next_index (sd_push_back v d) = sd_next_index d + 1"
  "sd_min_index (sd_extend vs d) = sd_min_index d" "sd_next_index (sd_extend vs d) = sd_next_index d + length vs"
  "sd_min_index (sd_remove_all_with_index_larger_equal i d) = sd_min_index d"
  "sd_next_index (sd_remove_all_with_index_larger_equal i d) = max (sd_min_index d) (min (sd_next_index d) i)"
  "sd_min_index (sd_remove_all_with_index_smaller_equal i d) = max (sd_min_index d) (min (sd_next_index d) (i + 1))"
  "sd_next_index (sd_remove_all_with_index_smaller_equal i d) = sd_next_index d"
  by (auto simp: sd_push_back_def sd_extend_def sd_remove_all_with_index_larger_equal_def
      sd_smaller_equal_drop sd_min_index_def sd_next_index_def Let_def)

lemma sd_pop_front_cases:
  "sd_pop_front d = (if sd_min_index d < sd_next_index d
     then (sd_map d (sd_min_index d), \<lparr>sd_vec = drop 1 (sd_vec d), sd_index_offset = sd_index_offset d + 1\<rparr>)
     else (None, d))"
  using sd_pop_front_result [of d]
  by (cases "sd_vec d") (auto simp: sd_pop_front_def sd_min_index_def sd_next_index_def)

lemma sd_pop_back_cases:
  "sd_pop_back d = (if sd_min_index d < sd_next_index d
     then (sd_map d (sd_next_index d - 1), d\<lparr>sd_vec := butlast (sd_vec d)\<rparr>) else (None, d))"
  using sd_map_pop_back(1) [of d "fst (sd_pop_back d)" "snd (sd_pop_back d)"]
  by (auto simp: sd_pop_back_def sd_min_index_def sd_next_index_def sd_is_empty_def)

lemma sd_step_refines:
  "map_option (\<lambda>(r, d). (r, sd_abs d)) (sd_step op d) = spec_step op (sd_abs d)"
proof (cases op)
  case PopFront
  let ?d = "\<lparr>sd_vec = drop 1 (sd_vec d), sd_index_offset = sd_index_offset d + 1\<rparr>"
  show ?thesis
  proof (cases "sd_min_index d < sd_next_index d")
    case True
    then have "sd_map ?d = (sd_map d)(sd_min_index d := None)"
      using sd_pop_front_cases [of d] by (intro sd_map_pop_front) simp
    moreover have "sd_min_index ?d = sd_min_index d + 1" "sd_next_index ?d = sd_next_index d"
      using True by (auto simp: sd_min_index_def sd_next_index_def)
    ultimately show ?thesis using True PopFront sd_pop_front_cases [of d] by (simp add: sd_abs_def)
  next
    case False
    then show ?thesis using PopFront sd_pop_front_cases [of d] by (simp add: sd_abs_def)
  qed
next
  case PopBack
  let ?d = "d\<lparr>sd_vec := butlast (sd_vec d)\<rparr>"
  show ?thesis
  proof (cases "sd_min_index d < sd_next_index d")
    case True
    then have "sd_map ?d = (sd_map d)(sd_next_index d - 1 := None)"
      using sd_map_pop_back(2) [of d _ ?d] sd_pop_back_cases [of d]
      by (simp add: sd_is_empty_def sd_min_index_def sd_next_index_def split: if_splits)
    moreover have "sd_min_index ?d = sd_min_index d" "sd_next_index ?d = sd_next_index d - 1"
      using True by (cases "sd_vec d" rule: rev_cases; simp add: sd_min_index_def sd_next_index_def)+
    ultimately show ?thesis using True PopBack sd_pop_back_cases [of d] by (simp add: sd_abs_def)
  next
    case False
    then show ?thesis using PopBack sd_pop_back_cases [of d] by (simp add: sd_abs_def)
  qed
next
  case (SetAt i v)
  have panics: "sd_set i v d = None \<longleftrightarrow> i \<notin> {sd_min_index d ..< sd_next_index d}"
    unfolding dom_sd_map [symmetric] by (simp add: sd_map_set)
  show ?thesis
  proof (cases "sd_set i v d")
    case None
    then show ?thesis using SetAt panics by (simp add: sd_abs_def)
  next
    case (Some d')
    then show ?thesis using SetAt panics sd_map_after_set [OF Some] by (simp add: sd_abs_def)
  qed
next
  case (Replace a b vs)
  show ?thesis
  proof (cases "sd_replace (a, b) vs d")
    case None
    then show ?thesis using Replace sd_interval_replace [of a b vs d] by (auto simp: sd_abs_def)
  next
    case (Some d')
    note map = sd_map_replace [OF Some]
    have "sd_next_index d' = sd_next_index d + length vs - (b - a)" using map(3) by simp
    then show ?thesis using Replace Some map(1,2,4-6) by (simp add: sd_abs_def)
  qed
qed (simp_all add: sd_abs_def sd_interval sd_map_push_back sd_map_extend sd_map_larger_equal sd_map_smaller_equal)

interpretation deque: step_simulation sd_step spec_step sd_abs
  by unfold_locales (rule sd_step_refines)

text \<open>C38: the deque implements a partial map from stable indices, defined on an interval: any sequence
  of operations returns the elements of, ends in the image of and panics exactly with the same
  sequence on the map, and the queries of the deque read the map.
\<close>
theorem deque_refines_index_map:
  "map_option (\<lambda>(rs, d). (rs, sd_abs d)) (run_ops sd_step ops d) = run_ops spec_step ops (sd_abs d)
   \<and> dom (sd_map d) = {sd_min_index d ..< sd_next_index d}
   \<and> sd_iter_indexed d = map (\<lambda>i. (i, the (sd_map d i))) [sd_min_index d ..< sd_next_index d]
   \<and> (sd_position P d = Some i \<longleftrightarrow>
        (\<exists>v. sd_map d i = Some v \<and> P v) \<and> \<not> (\<exists>j v. j < i \<and> sd_map d j = Some v \<and> P v))"
  using deque.runs [of ops d]
    dom_sd_map [of d] sd_iter_indexed_map [of d] sd_position_first [of P d i] by blast

section \<open>The clamped range\<close>

text \<open>
  The iterator over an index range skips from the start of the deque but takes as many elements as
  the range is long: exact when the range starts inside the deque, and past the end of the range
  when it starts before it.
\<close>

lemma clamped_range_inside:
  assumes "sd_min_index d \<le> a" "a \<le> b"
  shows "sd_iter_index_range_clamped (a, b) d = Some (filter (\<lambda>(i, _). a \<le> i \<and> i < b) (sd_iter_indexed d))"
proof -
  let ?lo = "sd_min_index d" and ?hi = "sd_next_index d"
  obtain p q where pq: "a = ?lo + p" "b = a + q" using assms by (auto simp: le_iff_add)
  have upt: "filter (\<lambda>i. a \<le> i \<and> i < b) [l ..< h] = [max l a ..< min h b]" for l h
    by (rule sorted_distinct_set_unique) (auto simp: sorted_wrt_filter)
  have "filter (\<lambda>(i, _). a \<le> i \<and> i < b) (sd_iter_indexed d)
      = map (\<lambda>i. (i, the (sd_map d i))) [max ?lo a ..< min ?hi b]"
    by (simp only: sd_iter_indexed_map filter_map comp_def prod.case upt)
  also have "[max ?lo a ..< min ?hi b] = take q (drop p [?lo ..< ?hi])"
    by (cases "b \<le> ?hi") (simp_all add: pq take_upt take_all min_def max_def)
  finally show ?thesis
    using pq by (simp add: sd_iter_index_range_clamped_def Let_def sd_iter_indexed_map take_map drop_map
        flip: sd_min_index_def)
qed

lemma clamped_range_overruns:
  "sd_iter_index_range_clamped (0, 2) \<lparr>sd_vec = [v, w], sd_index_offset = 1\<rparr> = Some [(1, v), (2, w)]"
  by (simp add: sd_iter_index_range_clamped_def sd_iter_indexed_def Let_def)

end
