(* ===== verification/Rvl_Codec.thy ===== *)
theory Rvl_Codec
  imports Le_Bytes
begin

text \<open>
  The run-length codec of depth images (\<open>utils/re_rvl/src/lib.rs\<close>): the metadata of a payload, the
  decoder over its nibbles, and the encoder the crate's tests build their payloads with. Positions
  and lengths (\<open>usize\<close>) are naturals; an \<open>f32\<close> is its 32 bits. A decoder that fails is dropped, so
  an error carries no state. All loops end, by the measures of their \<open>termination\<close> proofs.
\<close>

section \<open>Metadata\<close>

definition CONFIG_HEADER_SIZE :: nat where "CONFIG_HEADER_SIZE = 4 + 8"
definition RESOLUTION_HEADER_SIZE :: nat where "RESOLUTION_HEADER_SIZE = 8"

datatype RvlDecodeError =
    MissingHeader | MissingResolution | ZeroResolution | ResolutionOverflow
  | PayloadLengthMismatch u32 u32 | TooManyZeros | TooManyNonZeros | NoProgress
  | ValueOutOfRange u32 | UnexpectedEof | ValueOverflow

record RosRvlMetadata =
  md_width :: u32
  md_height :: u32
  md_depth_quant_a :: u32
  md_depth_quant_b :: u32
  md_payload_offset :: nat
  md_num_pixels :: nat

definition rvl_payload :: "RosRvlMetadata \<Rightarrow> u8 list \<Rightarrow> RvlDecodeError + u8 list" where
  "rvl_payload md bytes =
     (if md_payload_offset md \<le> length bytes then Inr (drop (md_payload_offset md) bytes)
      else Inl UnexpectedEof)"

definition checked_mul_u64 :: "nat \<Rightarrow> nat \<Rightarrow> nat option" where
  "checked_mul_u64 a b = (if a * b < 2 ^ 64 then Some (a * b) else None)"

definition read_u32_at :: "u8 list \<Rightarrow> nat \<Rightarrow> u32" where
  "read_u32_at data i = u32_from_le (take 4 (drop i data))"

definition rvl_parse :: "u8 list \<Rightarrow> RvlDecodeError + RosRvlMetadata" where
  "rvl_parse data =
     (if length data \<le> CONFIG_HEADER_SIZE then Inl MissingHeader
      else let config = take CONFIG_HEADER_SIZE data;
               depth_quant_a = read_u32_at config 4;
               depth_quant_b = read_u32_at config 8
        in if length data < CONFIG_HEADER_SIZE + RESOLUTION_HEADER_SIZE then Inl MissingResolution
           else let width = read_u32_at data CONFIG_HEADER_SIZE;
                    height = read_u32_at data (CONFIG_HEADER_SIZE + 4)
             in if width = 0 \<or> height = 0 then Inl ZeroResolution
                else case checked_mul_u64 (unat width) (unat height) of
                  None \<Rightarrow> Inl ResolutionOverflow
                | Some num_pixels \<Rightarrow>
                    let payload_offset = CONFIG_HEADER_SIZE + RESOLUTION_HEADER_SIZE
                    in if length data < payload_offset then Inl (PayloadLengthMismatch width height)
                       else Inr \<lparr>md_width = width, md_height = height,
                                 md_depth_quant_a = depth_quant_a, md_depth_quant_b = depth_quant_b,
                                 md_payload_offset = payload_offset, md_num_pixels = num_pixels\<rparr>)"

section \<open>The decoder\<close>

record RvlDecoder =
  rd_input :: "u8 list"
  rd_offset :: nat
  rd_word :: u32
  rd_nibbles_remaining :: nat

definition rvl_decoder_new :: "u8 list \<Rightarrow> RvlDecoder" where
  "rvl_decoder_new input = \<lparr>rd_input = input, rd_offset = 0, rd_word = 0, rd_nibbles_remaining = 0\<rparr>"

definition next_nibble :: "RvlDecoder \<Rightarrow> RvlDecodeError + u8 \<times> RvlDecoder" where
  "next_nibble d =
     bind_res
       (if rd_nibbles_remaining d = 0
        then if length (rd_input d) < rd_offset d + 4 then Inl UnexpectedEof
             else Inr (d\<lparr>rd_word := read_u32_at (rd_input d) (rd_offset d),
                         rd_offset := rd_offset d + 4, rd_nibbles_remaining := 8\<rparr>)
        else Inr d)
       (\<lambda>d. let nibble = ucast (drop_bit 28 (rd_word d AND 0xF0000000))
         in Inr (nibble, d\<lparr>rd_word := push_bit 4 (rd_word d),
                           rd_nibbles_remaining := rd_nibbles_remaining d - 1\<rparr>))"

function decode_vle_loop :: "u32 \<Rightarrow> nat \<Rightarrow> RvlDecoder \<Rightarrow> RvlDecodeError + u32 \<times> RvlDecoder" where
  "decode_vle_loop value shift d =
     (case next_nibble d of
        Inl e \<Rightarrow> Inl e
      | Inr (nibble, d) \<Rightarrow>
          let value = value OR push_bit shift (ucast (nibble AND 7))
          in if nibble AND 8 = 0 then Inr (value, d)
             else if 32 \<le> shift + 3 then Inl ValueOverflow
             else decode_vle_loop value (shift + 3) d)"
  by pat_completeness auto
termination
  by (relation "measure (\<lambda>(value, shift, d). 32 - shift)") auto

definition decode_vle :: "RvlDecoder \<Rightarrow> RvlDecodeError + u32 \<times> RvlDecoder" where
  "decode_vle d = decode_vle_loop 0 0 d"

text \<open>\<open>slots k n out\<close>: the positions \<open>out.iter_mut().skip(k).take(n)\<close> visits.\<close>

definition slots :: "nat \<Rightarrow> nat \<Rightarrow> 'a list \<Rightarrow> nat list" where
  "slots k n out = [k ..< min (k + n) (length out)]"

definition write_zeros :: "nat list \<Rightarrow> u16 list \<Rightarrow> u16 list" where
  "write_zeros ix out = fold (\<lambda>i out. out[i := 0]) ix out"

definition zigzag_delta :: "u32 \<Rightarrow> u32" where
  "zigzag_delta positive = signed_drop_bit 1 positive XOR (- (positive AND 1))"

fun decode_nonzeros ::
  "nat list \<Rightarrow> RvlDecoder \<Rightarrow> u32 \<Rightarrow> u16 list \<Rightarrow> RvlDecodeError + RvlDecoder \<times> u32 \<times> u16 list" where
  "decode_nonzeros [] d previous out = Inr (d, previous, out)"
| "decode_nonzeros (i # ix) d previous out =
     bind_res (decode_vle d) (\<lambda>(positive, d).
       let previous = previous + zigzag_delta positive
       in if sint previous < 0 \<or> 65535 < sint previous then Inl (ValueOutOfRange previous)
          else decode_nonzeros ix d previous (out[i := ucast previous]))"

function decode_runs ::
  "nat \<Rightarrow> nat \<Rightarrow> u32 \<Rightarrow> RvlDecoder \<Rightarrow> u16 list \<Rightarrow> RvlDecodeError + RvlDecoder \<times> u16 list" where
  "decode_runs remaining write_index previous d out =
     (if remaining = 0 then Inr (d, out)
      else case decode_vle d of
        Inl e \<Rightarrow> Inl e
      | Inr (z, d) \<Rightarrow>
          let zeros = unat z
          in if remaining < zeros then Inl TooManyZeros
             else let out = write_zeros (slots write_index zeros out) out;
                      write_index = write_index + zeros;
                      remaining = remaining - zeros
               in case decode_vle d of
                    Inl e \<Rightarrow> Inl e
                  | Inr (nz, d) \<Rightarrow>
                      let nonzeros = unat nz
                      in if remaining < nonzeros then Inl TooManyNonZeros
                         else if zeros = 0 \<and> nonzeros = 0 then Inl NoProgress
                         else case decode_nonzeros (slots write_index nonzeros out) d previous out of
                           Inl e \<Rightarrow> Inl e
                         | Inr (d, previous, out) \<Rightarrow>
                             decode_runs (remaining - nonzeros) (write_index + nonzeros) previous d out)"
  by pat_completeness auto
termination
  by (relation "measure (\<lambda>(remaining, write_index, previous, d, out). remaining)") auto

definition decode_into :: "RvlDecoder \<Rightarrow> u16 list \<Rightarrow> RvlDecodeError + RvlDecoder \<times> u16 list" where
  "decode_into d out = decode_runs (length out) 0 0 d out"

definition decode_rvl_without_quantization ::
  "u8 list \<Rightarrow> RosRvlMetadata \<Rightarrow> RvlDecodeError + u16 list" where
  "decode_rvl_without_quantization data md =
     bind_res (rvl_payload md data) (\<lambda>payload.
       bind_res (decode_into (rvl_decoder_new payload) (replicate (md_num_pixels md) 0)) (\<lambda>(_, disparity).
         Inr disparity))"

section \<open>The encoder\<close>

record RvlEncoder =
  re_buffer :: "u8 list"
  re_word :: u32
  re_nibbles_written :: nat

definition rvl_encoder_new :: RvlEncoder where
  "rvl_encoder_new = \<lparr>re_buffer = [], re_word = 0, re_nibbles_written = 0\<rparr>"

definition push_nibble :: "u8 \<Rightarrow> RvlEncoder \<Rightarrow> RvlEncoder" where
  "push_nibble nibble e =
     (let word = push_bit 4 (re_word e) OR ucast nibble;
          nibbles_written = re_nibbles_written e + 1
      in if nibbles_written = 8
         then \<lparr>re_buffer = re_buffer e @ u32_to_le word, re_word = 0, re_nibbles_written = 0\<rparr>
         else e\<lparr>re_word := word, re_nibbles_written := nibbles_written\<rparr>)"

lemma unat_drop_bit3: "unat (drop_bit 3 w) = unat (w :: u32) div 8"
  using unat_drop_bit_eq [of 3 w] by (simp only:) (simp add: drop_bit_eq_div)

lemma drop_bit3_less:
  assumes "drop_bit 3 w \<noteq> (0 :: u32)"
  shows "unat (drop_bit 3 w) < unat w"
proof -
  have "unat (drop_bit 3 w) \<noteq> 0" using assms by (simp only: unat_eq_0 not_False_eq_True)
  then show ?thesis by (simp only: unat_drop_bit3)
qed

function encode_vle :: "u32 \<Rightarrow> RvlEncoder \<Rightarrow> RvlEncoder" where
  "encode_vle value e =
     (let nibble = ucast (value AND 7);
          value = drop_bit 3 value;
          nibble = if value \<noteq> 0 then nibble OR 8 else nibble;
          e = push_nibble nibble e
      in if value = 0 then e else encode_vle value e)"
  by pat_completeness auto
termination
  by (relation "measure (\<lambda>(value, e). unat value)") (auto simp: drop_bit3_less)

definition finish_encoder :: "RvlEncoder \<Rightarrow> u8 list" where
  "finish_encoder e =
     (if 0 < re_nibbles_written e
      then re_buffer e @ u32_to_le (push_bit (4 * (8 - re_nibbles_written e)) (re_word e))
      else re_buffer e)"

definition zigzag :: "u32 \<Rightarrow> u32" where
  "zigzag delta = push_bit 1 delta XOR signed_drop_bit 31 delta"

fun encode_nonzeros :: "u16 list \<Rightarrow> u32 \<Rightarrow> RvlEncoder \<Rightarrow> u32 \<times> RvlEncoder" where
  "encode_nonzeros [] previous e = (previous, e)"
| "encode_nonzeros (value # values) previous e =
     encode_nonzeros values (ucast value) (encode_vle (zigzag (ucast value - previous)) e)"

text \<open>The index into the values is kept as the values that are left.\<close>

function encode_runs :: "u16 list \<Rightarrow> u32 \<Rightarrow> RvlEncoder \<Rightarrow> RvlEncoder" where
  "encode_runs values previous e =
     (if values = [] then e
      else let zeros = length (takeWhile (\<lambda>v. v = 0) values);
               e = encode_vle (of_nat zeros) e;
               values = drop zeros values;
               nonzeros = length (takeWhile (\<lambda>v. v \<noteq> 0) values);
               e = encode_vle (of_nat nonzeros) e;
               (previous, e) = encode_nonzeros (take nonzeros values) previous e
           in encode_runs (drop nonzeros values) previous e)"
  by pat_completeness auto
termination
proof (relation "measure (\<lambda>(values, previous, e). length values)", goal_cases)
  case (2 xs previous e zeros e1 rest nonzeros e2 p previous' e3)
  then show ?case by (cases xs; cases "hd xs = 0") auto
qed simp

definition encode_rvl :: "u16 list \<Rightarrow> u8 list" where
  "encode_rvl values = finish_encoder (encode_runs values 0 rvl_encoder_new)"

definition build_depth_message :: "u32 \<Rightarrow> u32 \<Rightarrow> u16 list \<Rightarrow> u32 \<Rightarrow> u32 \<Rightarrow> u8 list" where
  "build_depth_message width height disparity quant_a quant_b =
     u32_to_le 0 @ u32_to_le quant_a @ u32_to_le quant_b @ u32_to_le width @ u32_to_le height
     @ encode_rvl disparity"

declare decode_vle_loop.simps [simp del] decode_runs.simps [simp del]
declare encode_vle.simps [simp del] encode_runs.simps [simp del]

end
