(* ===== verification/Rvl_Props.thy ===== *)
theory Rvl_Props
  imports Rvl_Codec
begin

text \<open>
  What the depth image codec promises. The decoder and the encoder are refined to the list of
  nibbles that are left and that were written; on those lists the variable-length numbers and the
  runs read back, and so do the images.
\<close>

section \<open>Nibbles\<close>

abbreviation nibs :: "u32 \<Rightarrow> nat list" where
  "nibs w \<equiv> digits 16 8 (unat w)"

fun word_stream :: "u8 list \<Rightarrow> nat list" where
  "word_stream (a # b # c # d # bytes) = nibs (u32_from_le [a, b, c, d]) @ word_stream bytes"
| "word_stream bytes = []"

lemma word_stream_append:
  "4 dvd length xs \<Longrightarrow> word_stream (xs @ ys) = word_stream xs @ word_stream ys"
proof (induction xs rule: word_stream.induct)
  case (1 a b c d bytes)
  then have "4 dvd length bytes" by simp presburger
  then show ?case using 1 by simp
qed (simp_all, presburger+)

lemma list_of_4:
  assumes "4 \<le> length xs"
  obtains a b c d ys where "xs = a # b # c # d # ys"
  using assms by (auto simp: numeral_nat Suc_le_length_iff)

lemma word_stream_word: "word_stream (u32_to_le w @ ys) = nibs w @ word_stream ys"
proof -
  have "4 \<le> length (u32_to_le w)" by simp
  then obtain a b c d zs where w: "u32_to_le w = a # b # c # d # zs" by (rule list_of_4)
  have "length (u32_to_le w) = 4" by simp
  then have "zs = []" unfolding w by simp
  then have "u32_from_le [a, b, c, d] = w" using w from_to_le(1) [of w] by simp
  then show ?thesis using w \<open>zs = []\<close> by simp
qed

lemma word_stream_read:
  assumes "word_stream xs = n # ns"
  shows "4 \<le> length xs" "nibs (u32_from_le (take 4 xs)) @ word_stream (drop 4 xs) = n # ns"
  using assms by (induction xs rule: word_stream.induct) auto

lemma word_stream_short: "length xs < 4 \<Longrightarrow> word_stream xs = []"
  by (induction xs rule: word_stream.induct) auto

lemma digits8: "n < 16 ^ 8 \<Longrightarrow> digits 16 8 n = n div 16 ^ 7 # digits 16 7 n"
  using digits_append [of 16 1 7 n] by (simp add: less_mult_imp_div_less)

lemma unat_u32_less: "unat (w :: u32) < 16 ^ 8"
  using unsigned_less [of w, where ?'a = nat] by simp

lemma digits_zero: "digits 16 k 0 = replicate k 0"
  by (induction k) (simp_all flip: replicate_append_same)

lemma nibs_shift: "nibs (push_bit 4 w) = digits 16 7 (unat w) @ [0]"
proof -
  have "unat (push_bit 4 w) = (unat w * 16) mod 16 ^ 8"
    by (simp add: push_bit_eq_mult unat_word_ariths)
  then have "nibs (push_bit 4 w) = digits 16 8 (unat w * 16)" by (simp only: digits_mod)
  also have "\<dots> = digits 16 (Suc 7) (unat w * 16)" by simp
  also have "\<dots> = digits 16 7 (unat w) @ [0]" by (simp only: digits.simps) simp
  finally show ?thesis .
qed

lemma unat_top_nibble: "unat (ucast (drop_bit 28 (w AND 0xF0000000)) :: u8) = unat (w :: u32) div 16 ^ 7"
proof -
  have "drop_bit 28 (w AND 0xF0000000) = drop_bit 28 w"
  proof -
    have "drop_bit 28 (0xF0000000 :: u32) = mask 4" by (simp add: mask_eq_decr_exp)
    then have "drop_bit 28 (w AND 0xF0000000) = drop_bit 28 w AND mask 4" by (simp only: drop_bit_and)
    also have "\<dots> = drop_bit 28 w"
      by (rule bit_word_eqI) (auto simp: bit_simps dest: bit_imp_le_length)
    finally show ?thesis .
  qed
  moreover have "unat (drop_bit 28 w) = unat w div 16 ^ 7"
    using unat_drop_bit_eq [of 28 w] by (simp only:) (simp add: drop_bit_eq_div)
  moreover have "unat w div 16 ^ 7 < 16" using unat_u32_less [of w] by (simp add: less_mult_imp_div_less)
  ultimately show ?thesis by (simp add: unsigned_ucast_eq take_bit_eq_mod)
qed

section \<open>The decoder reads nibbles\<close>

definition dec_nibbles :: "RvlDecoder \<Rightarrow> nat list" where
  "dec_nibbles d = take (rd_nibbles_remaining d) (nibs (rd_word d)) @ word_stream (drop (rd_offset d) (rd_input d))"

definition dec_ok :: "RvlDecoder \<Rightarrow> bool" where
  "dec_ok d \<longleftrightarrow> rd_nibbles_remaining d \<le> 8"

lemma dec_new [simp]: "dec_ok (rvl_decoder_new input)" "dec_nibbles (rvl_decoder_new input) = word_stream input"
  by (simp_all add: dec_ok_def dec_nibbles_def rvl_decoder_new_def)

lemma next_nibble_loaded:
  assumes "dec_ok d" "rd_nibbles_remaining d = Suc r"
  shows "\<exists>n d'. next_nibble d = Inr (n, d') \<and> dec_nibbles d = unat n # dec_nibbles d' \<and> dec_ok d'
           \<and> unat n < 16"
proof -
  let ?n = "ucast (drop_bit 28 (rd_word d AND 0xF0000000)) :: u8"
  let ?d = "d\<lparr>rd_word := push_bit 4 (rd_word d), rd_nibbles_remaining := r\<rparr>"
  have r: "r \<le> 7" using assms by (simp add: dec_ok_def)
  have "take (Suc r) (nibs (rd_word d)) = unat ?n # take r (digits 16 7 (unat (rd_word d)))"
    using digits8 [OF unat_u32_less [of "rd_word d"]] by (simp only: unat_top_nibble) simp
  moreover have "take r (nibs (push_bit 4 (rd_word d))) = take r (digits 16 7 (unat (rd_word d)))"
    using r by (simp add: nibs_shift del: digits.simps)
  ultimately have "dec_nibbles d = unat ?n # dec_nibbles ?d" using assms(2) by (simp add: dec_nibbles_def)
  moreover have "next_nibble d = Inr (?n, ?d)" using assms(2) by (simp add: next_nibble_def Let_def)
  moreover have "unat ?n < 16"
    using unat_u32_less [of "rd_word d"] by (simp only: unat_top_nibble) (simp add: less_mult_imp_div_less)
  ultimately show ?thesis using r by (auto simp: dec_ok_def)
qed

lemma next_nibble_refines:
  assumes "dec_ok d"
  shows "case next_nibble d of
      Inl e \<Rightarrow> e = UnexpectedEof \<and> dec_nibbles d = []
    | Inr (n, d') \<Rightarrow> dec_nibbles d = unat n # dec_nibbles d' \<and> dec_ok d' \<and> unat n < 16"
proof (cases "rd_nibbles_remaining d")
  case (Suc r)
  then show ?thesis using next_nibble_loaded [OF assms Suc] by auto
next
  case 0
  let ?rest = "drop (rd_offset d) (rd_input d)"
  show ?thesis
  proof (cases "length (rd_input d) < rd_offset d + 4")
    case True
    then show ?thesis using 0 by (simp add: next_nibble_def dec_nibbles_def word_stream_short)
  next
    case False
    let ?d = "d\<lparr>rd_word := read_u32_at (rd_input d) (rd_offset d), rd_offset := rd_offset d + 4,
                rd_nibbles_remaining := 8\<rparr>"
    have "4 \<le> length ?rest" using False by simp
    then obtain a b c e ys where rest: "?rest = a # b # c # e # ys" by (rule list_of_4)
    moreover have "drop (4 + rd_offset d) (rd_input d) = drop 4 ?rest" by (simp only: drop_drop)
    ultimately have "drop (rd_offset d + 4) (rd_input d) = ys" by (simp add: add.commute)
    then have "dec_nibbles ?d = dec_nibbles d"
      using 0 rest by (simp add: dec_nibbles_def read_u32_at_def)
    moreover have "next_nibble d = next_nibble ?d" using 0 False by (simp add: next_nibble_def)
    moreover have "dec_ok ?d" by (simp add: dec_ok_def)
    moreover have "rd_nibbles_remaining ?d = Suc 7" by simp
    ultimately show ?thesis using next_nibble_loaded [of ?d 7] by auto
  qed
qed

section \<open>Variable-length numbers\<close>

fun vle :: "nat \<Rightarrow> nat list" where
  "vle n = (if n < 8 then [n] else (n mod 8 + 8) # vle (n div 8))"

declare vle.simps [simp del]

lemma nibble_bits:
  assumes "unat (x :: u8) < 16"
  shows "(x AND 8 = 0) = (unat x < 8) \<and> unat (ucast (x AND 7) :: u32) = unat x mod 8"
proof -
  have x: "x = of_nat (unat x)" by simp
  have "unat x \<in> {0, 1, 2, 3, 4, 5, 6, 7, 8, 9, 10, 11, 12, 13, 14, 15}"
    using assms by (simp only: insert_iff empty_iff) arith
  then show ?thesis by (subst (1 3) x) (elim insertE emptyE; simp)
qed

lemma unat_or_push:
  assumes "unat a < 2 ^ s" "unat (a :: u32) + unat b * 2 ^ s < 2 ^ 32"
  shows "unat (a OR push_bit s b) = unat a + unat b * 2 ^ s"
proof -
  have a: "take_bit s (unat a) = unat a" using assms(1) by (simp add: take_bit_nat_eq_self_iff)
  have "unat b * 2 ^ s < 2 ^ 32" using assms(2) by simp
  then have "unat (push_bit s b) = push_bit s (unat b)"
    by (simp only: unsigned_push_bit_eq) (simp add: push_bit_eq_mult take_bit_nat_eq_self_iff)
  then have "unat (a OR push_bit s b) = unat a OR push_bit s (unat b)" by (simp add: unsigned_or_eq)
  also have "\<dots> = unat a + push_bit s (unat b)"
  proof (rule disjunctive_add_eq_or [symmetric])
    show "unat a AND push_bit s (unat b) = 0"
      by (subst a [symmetric], rule bit_eqI) (auto simp: bit_simps)
  qed
  finally show ?thesis by (simp add: push_bit_eq_mult)
qed

lemma decode_vle_loop_reads:
  assumes "dec_ok d" "dec_nibbles d = vle n @ ns" "unat v < 2 ^ s" "unat v + n * 2 ^ s < 2 ^ 32"
  shows "\<exists>d'. decode_vle_loop v s d = Inr (of_nat (unat v + n * 2 ^ s), d') \<and> dec_ok d' \<and> dec_nibbles d' = ns"
  using assms
proof (induction n arbitrary: v s d rule: vle.induct)
  case (1 n)
  let ?h = "if n < 8 then n else n mod 8 + 8" and ?t = "if n < 8 then [] else vle (n div 8)"
  have "vle n = ?h # ?t" by (simp add: vle.simps)
  then have stream: "dec_nibbles d = ?h # ?t @ ns" using 1 by simp
  obtain x d1 where x: "next_nibble d = Inr (x, d1)" "unat x = ?h" "dec_nibbles d1 = ?t @ ns" "dec_ok d1"
      "unat x < 16"
    using next_nibble_refines [OF 1(2)] stream by (auto split: sum.splits)
  let ?v = "v OR push_bit s (ucast (x AND 7))"
  have bits: "(x AND 8 = 0) = (n < 8)" "unat (ucast (x AND 7) :: u32) = n mod 8"
    using nibble_bits [OF x(5)] x(2) by (auto split: if_splits)
  have "n mod 8 * 2 ^ s \<le> n * 2 ^ s" by simp
  then have "unat v + n mod 8 * 2 ^ s < 2 ^ 32" using 1(5) by linarith
  then have v: "unat ?v = unat v + n mod 8 * 2 ^ s"
    using unat_or_push [of v s "ucast (x AND 7)"] 1(4) bits(2) by simp
  show ?case
  proof (cases "n < 8")
    case True
    then have "unat v + n * 2 ^ s = unat ?v" using v by simp
    then have "of_nat (unat v + n * 2 ^ s) = ?v" by (simp only: of_nat_unat ucast_id)
    then show ?thesis using x bits(1) True by (simp add: decode_vle_loop.simps [of v] Let_def)
  next
    case False
    have "unat v + (r + 8 * q) * 2 ^ s = unat v + r * 2 ^ s + q * 2 ^ (s + 3)" for r q :: nat
      by (simp add: algebra_simps power_add)
    from this [of "n mod 8" "n div 8"]
    have sum: "unat v + n * 2 ^ s = unat ?v + n div 8 * 2 ^ (s + 3)"
      unfolding v by (simp only: mod_mult_div_eq)
    have "unat ?v < (1 + n mod 8) * 2 ^ s" unfolding v using 1(4) by simp
    also have "\<dots> \<le> 8 * 2 ^ s" by (rule mult_le_mono1) (simp add: Suc_le_eq)
    finally have small: "unat ?v < 2 ^ (s + 3)" by (simp add: power_add)
    have "8 * 2 ^ s \<le> n * 2 ^ s" using False by (intro mult_le_mono1) simp
    moreover have "(2 :: nat) ^ (s + 3) = 8 * 2 ^ s" by (simp add: power_add)
    ultimately have "(2 :: nat) ^ (s + 3) < 2 ^ 32" using 1(5) by linarith
    then have shift: "s + 3 < 32" by (rule power_less_imp_less_exp [rotated]) simp
    obtain d' where "decode_vle_loop ?v (s + 3) d1 = Inr (of_nat (unat ?v + n div 8 * 2 ^ (s + 3)), d')"
        "dec_ok d'" "dec_nibbles d' = ns"
      using 1(1) [OF False x(4) _ small] x(3) False 1(5) by (auto simp: sum)
    then show ?thesis using x(1) bits False shift by (simp add: decode_vle_loop.simps [of v] Let_def sum)
  qed
qed

lemma decode_vle_reads:
  assumes "dec_ok d" "dec_nibbles d = vle n @ ns" "n < 2 ^ 32"
  shows "\<exists>d'. decode_vle d = Inr (of_nat n, d') \<and> dec_ok d' \<and> dec_nibbles d' = ns"
  using decode_vle_loop_reads [OF assms(1,2), of 0 0] assms(3) by (simp add: decode_vle_def)

section \<open>The encoder writes nibbles\<close>

definition enc_nibbles :: "RvlEncoder \<Rightarrow> nat list" where
  "enc_nibbles e = word_stream (re_buffer e) @ digits 16 (re_nibbles_written e) (unat (re_word e))"

definition enc_ok :: "RvlEncoder \<Rightarrow> bool" where
  "enc_ok e \<longleftrightarrow> 4 dvd length (re_buffer e) \<and> re_nibbles_written e < 8
     \<and> unat (re_word e) < 16 ^ re_nibbles_written e"

lemma enc_new [simp]: "enc_ok rvl_encoder_new" "enc_nibbles rvl_encoder_new = []"
  by (simp_all add: enc_ok_def enc_nibbles_def rvl_encoder_new_def)

lemma push_nibble_writes:
  assumes "enc_ok e" "unat x < 16"
  shows "enc_ok (push_nibble x e) \<and> enc_nibbles (push_nibble x e) = enc_nibbles e @ [unat x]"
proof -
  let ?k = "re_nibbles_written e" and ?w = "re_word e"
  let ?word = "push_bit 4 ?w OR ucast x"
  have x: "unat (ucast x :: u32) = unat x" using assms(2) by (simp add: unsigned_ucast_eq take_bit_nat_eq_self_iff)
  have "unat ?w * 16 + 16 \<le> 16 ^ ?k * 16" using assms(1) by (simp add: enc_ok_def)
  also have "\<dots> \<le> 16 ^ 8"
    using assms(1) power_increasing [of "Suc ?k" 8 "16 :: nat"] by (simp add: enc_ok_def)
  finally have "unat ?w * 16 + 16 \<le> 2 ^ 32" by simp
  then have word: "unat ?word = unat ?w * 16 + unat x"
    using unat_or_push [of "ucast x" 4 ?w] assms(2) x by (simp add: or.commute)
  have less: "unat ?word < 16 ^ Suc ?k" using assms unfolding word by (simp add: enc_ok_def)
  have digits: "digits 16 (Suc ?k) (unat ?word) = digits 16 ?k (unat ?w) @ [unat x]"
    unfolding word using assms(2) by simp
  show ?thesis
  proof (cases "Suc ?k = 8")
    case True
    have "word_stream (re_buffer e @ u32_to_le ?word) = word_stream (re_buffer e) @ nibs ?word"
      using assms(1) word_stream_word [of ?word "[]"] by (simp add: enc_ok_def word_stream_append)
    then show ?thesis using assms(1) True digits by (simp add: push_nibble_def enc_ok_def enc_nibbles_def)
  next
    case False
    then show ?thesis using assms(1) less digits by (simp add: push_nibble_def enc_ok_def enc_nibbles_def)
  qed
qed

lemma nibble_or:
  "unat (ucast (w AND 7 :: u32) :: u8) = unat w mod 8"
  "unat (ucast (w AND 7 :: u32) OR 8 :: u8) = unat w mod 8 + 8"
proof -
  have "w AND 7 = take_bit 3 w" by (simp add: take_bit_eq_mask mask_eq_decr_exp)
  moreover have "unat (take_bit 3 w) = unat w mod 8"
    by (simp only: unsigned_take_bit_eq) (simp add: take_bit_eq_mod)
  ultimately have "unat (w AND 7) = unat w mod 8" by simp
  moreover have "w AND 7 = of_nat (unat (w AND 7))" by (simp only: of_nat_unat ucast_id)
  ultimately have w: "w AND 7 = of_nat (unat w mod 8)" by simp
  have "unat w mod 8 \<in> {0, 1, 2, 3, 4, 5, 6, 7}"
    by (simp only: insert_iff empty_iff) arith
  then show "unat (ucast (w AND 7 :: u32) :: u8) = unat w mod 8"
    "unat (ucast (w AND 7 :: u32) OR 8 :: u8) = unat w mod 8 + 8"
    unfolding w by (elim insertE emptyE; simp)+
qed

lemma encode_vle_writes:
  assumes "enc_ok e"
  shows "enc_ok (encode_vle w e) \<and> enc_nibbles (encode_vle w e) = enc_nibbles e @ vle (unat w)"
  using assms
proof (induction w e rule: encode_vle.induct)
  case (1 w e)
  let ?x = "if drop_bit 3 w \<noteq> 0 then ucast (w AND 7) OR 8 else ucast (w AND 7) :: u8"
  have zero: "(drop_bit 3 w = 0) = (unat w < 8)"
    using unat_eq_0 [of "drop_bit 3 w"] by (simp only: unat_drop_bit3) auto
  have x: "unat ?x = (if unat w < 8 then unat w else unat w mod 8 + 8)"
    by (simp only: zero if_distrib [of unat] nibble_or if_not_P) simp
  then have pushed: "enc_ok (push_nibble ?x e)" "enc_nibbles (push_nibble ?x e) = enc_nibbles e @ [unat ?x]"
    using push_nibble_writes [OF 1(2), of ?x] by auto
  show ?case
  proof (cases "drop_bit 3 w = 0")
    case True
    then show ?thesis using pushed x zero by (simp add: encode_vle.simps vle.simps Let_def)
  next
    case False
    have "encode_vle w e = encode_vle (drop_bit 3 w) (push_nibble ?x e)"
      using False by (subst encode_vle.simps) (simp only: Let_def if_False)
    moreover have "vle (unat w) = unat ?x # vle (unat (drop_bit 3 w))"
      using False x by (subst vle.simps) (simp only: unat_drop_bit3 zero if_False)
    ultimately show ?thesis using 1(1) [OF refl refl refl refl False pushed(1)] pushed(2) by simp
  qed
qed

lemma finish_writes:
  assumes "enc_ok e"
  shows "\<exists>k. word_stream (finish_encoder e) = enc_nibbles e @ replicate k 0"
proof (cases "re_nibbles_written e")
  case 0
  then show ?thesis by (intro exI [of _ 0]) (simp add: finish_encoder_def enc_nibbles_def)
next
  case (Suc k)
  let ?k = "re_nibbles_written e" and ?w = "re_word e"
  let ?r = "8 - ?k"
  have k: "?k + ?r = 8" using assms by (simp add: enc_ok_def)
  have pow: "(2 :: nat) ^ (4 * ?r) = 16 ^ ?r" by (simp add: power_mult)
  have "unat ?w * 16 ^ ?r < 16 ^ ?k * 16 ^ ?r" using assms by (simp add: enc_ok_def)
  then have "unat ?w * 16 ^ ?r < 16 ^ 8" by (simp only: k flip: power_add)
  then have "unat (0 OR push_bit (4 * ?r) ?w) = unat (0 :: u32) + unat ?w * 2 ^ (4 * ?r)"
    by (intro unat_or_push) (simp_all add: pow)
  then have "unat (push_bit (4 * ?r) ?w) = unat ?w * 16 ^ ?r" by (simp add: pow)
  then have "nibs (push_bit (4 * ?r) ?w) = digits 16 (?k + ?r) (unat ?w * 16 ^ ?r)" by (simp only: k)
  also have "\<dots> = digits 16 ?k (unat ?w) @ digits 16 ?r (unat ?w * 16 ^ ?r mod 16 ^ ?r)"
    by (simp only: digits_append digits_mod) simp
  also have "digits 16 ?r (unat ?w * 16 ^ ?r mod 16 ^ ?r) = replicate ?r 0" by (simp add: digits_zero)
  finally have "nibs (push_bit (4 * ?r) ?w) = digits 16 ?k (unat ?w) @ replicate ?r 0" .
  then have "word_stream (finish_encoder e) = enc_nibbles e @ replicate ?r 0"
    using assms Suc word_stream_word [of "push_bit (4 * ?r) ?w" "[]"]
    by (simp add: finish_encoder_def enc_nibbles_def enc_ok_def word_stream_append)
  then show ?thesis by (rule exI)
qed

section \<open>Differences of pixels\<close>

lemma sint_u32_of_int: "- 200000 < y \<Longrightarrow> y < 200000 \<Longrightarrow> sint (word_of_int y :: u32) = y"
  by (simp add: sint_sbintrunc' signed_take_bit_int_eq_self)

lemma zigzag_inverse:
  assumes "- 65536 < sint \<delta>" "sint (\<delta> :: u32) < 65536"
  shows "zigzag_delta (zigzag \<delta>) = \<delta>"
proof -
  obtain x where x: "\<delta> = word_of_int x" "sint \<delta> = x" by (rule that [of "sint \<delta>"]) simp_all
  show ?thesis
  proof (cases "0 \<le> x")
    case True
    have "sint (signed_drop_bit 31 \<delta>) = 0"
      using assms True x(2) by (simp add: sint_signed_drop_bit_eq drop_bit_eq_div div_pos_pos_trivial)
    then have "signed_drop_bit 31 \<delta> = 0" by (intro signed_word_eqI) simp
    then have z: "zigzag \<delta> = 2 * \<delta>" by (simp add: zigzag_def push_bit_eq_mult mult.commute)
    have s: "sint (2 * \<delta>) = 2 * x"
      using assms True x(2) sint_u32_of_int [of "2 * x"] by (simp add: x(1))
    have "sint (signed_drop_bit 1 (2 * \<delta>)) = sint \<delta>"
      by (simp add: sint_signed_drop_bit_eq s x(2) drop_bit_eq_div)
    then have "signed_drop_bit 1 (2 * \<delta>) = \<delta>" by (rule signed_word_eqI)
    moreover have "2 * \<delta> AND 1 = 0" by (simp add: and_one_eq mod_2_eq_odd)
    ultimately show ?thesis by (simp add: z zigzag_delta_def)
  next
    case False
    have "sint (signed_drop_bit 31 \<delta>) = - 1"
      using assms False x(2) by (simp add: sint_signed_drop_bit_eq drop_bit_eq_div div_eq_minus1)
    then have "signed_drop_bit 31 \<delta> = - 1" by (intro signed_word_eqI) simp
    then have z: "zigzag \<delta> = NOT (2 * \<delta>)" by (simp add: zigzag_def push_bit_eq_mult mult.commute)
    have n: "NOT (2 * \<delta>) = 2 * NOT \<delta> + 1" by (simp add: not_eq_complement)
    have "2 * NOT \<delta> + 1 = word_of_int (- 2 * x - 1)" by (simp add: x(1) not_eq_complement)
    then have "sint (2 * NOT \<delta> + 1) = - 2 * x - 1"
      by (simp only:, intro sint_u32_of_int) (use assms False x(2) in linarith)+
    then have "sint (signed_drop_bit 1 (NOT (2 * \<delta>))) = - x - 1"
      unfolding n by (simp add: sint_signed_drop_bit_eq drop_bit_eq_div)
    moreover have "NOT \<delta> = word_of_int (- x - 1)" by (simp add: x(1) not_eq_complement)
    then have "sint (NOT \<delta>) = - x - 1"
      by (simp only:, intro sint_u32_of_int) (use assms False x(2) in linarith)+
    ultimately have "sint (signed_drop_bit 1 (NOT (2 * \<delta>))) = sint (NOT \<delta>)" by simp
    then have "signed_drop_bit 1 (NOT (2 * \<delta>)) = NOT \<delta>" by (rule signed_word_eqI)
    moreover have "NOT (2 * \<delta>) AND 1 = 1" unfolding n by (simp add: and_one_eq mod_2_eq_odd)
    ultimately show ?thesis by (simp add: z zigzag_delta_def)
  qed
qed

lemma pixel_uint: "0 \<le> uint (v :: u16)" "uint v < 65536"
  using unsigned_less [of v, where ?'a = int] by simp_all

lemma signed_take_bit_small: "- 65536 < x \<Longrightarrow> x < 65536 \<Longrightarrow> signed_take_bit 31 x = (x :: int)"
  by (simp add: signed_take_bit_int_eq_self)

lemma pixel_sint: "sint (ucast (v :: u16) :: u32) = uint v"
  by (simp add: signed_ucast_eq, rule signed_take_bit_small; use pixel_uint [of v] in linarith)

lemma pixel_delta:
  "zigzag_delta (zigzag (ucast (v :: u16) - ucast (q :: u16))) = ucast v - ucast q"
proof (rule zigzag_inverse)
  have "sint (ucast v - ucast q :: u32) = uint v - uint q"
    by (simp add: sint_word_ariths pixel_sint, rule signed_take_bit_small;
        use pixel_uint [of v] pixel_uint [of q] in linarith)
  then show "- 65536 < sint (ucast v - ucast q :: u32)" "sint (ucast v - ucast q :: u32) < 65536"
    using pixel_uint [of v] pixel_uint [of q] by linarith+
qed

section \<open>Runs\<close>

fun nonzeros_nibs :: "u16 list \<Rightarrow> u32 \<Rightarrow> nat list" where
  "nonzeros_nibs [] p = []"
| "nonzeros_nibs (v # vs) p = vle (unat (zigzag (ucast v - p))) @ nonzeros_nibs vs (ucast v)"

definition last_pixel :: "u16 list \<Rightarrow> u16 \<Rightarrow> u16" where
  "last_pixel vs q = (if vs = [] then q else last vs)"

lemma encode_nonzeros_writes:
  assumes "enc_ok e"
  shows "\<exists>e'. encode_nonzeros vs (ucast q) e = (ucast (last_pixel vs q), e') \<and> enc_ok e'
     \<and> enc_nibbles e' = enc_nibbles e @ nonzeros_nibs vs (ucast q)"
  using assms
proof (induction vs arbitrary: q e)
  case (Cons v vs)
  have "enc_ok (encode_vle (zigzag (ucast v - ucast q)) e)"
    using encode_vle_writes [OF Cons(2)] by blast
  from Cons(1) [OF this, of v] show ?case
    using encode_vle_writes [OF Cons(2)] by (auto simp: last_pixel_def)
qed (simp add: last_pixel_def)

lemma upt_slots:
  "[length pre ..< length pre + length (x # xs)]
     = length pre # [length (pre @ [y]) ..< length (pre @ [y]) + length xs]"
  by (simp add: upt_conv_Cons del: upt_Suc)

lemma decode_nonzeros_reads:
  assumes "dec_ok d" "dec_nibbles d = nonzeros_nibs vs (ucast (q :: u16)) @ ns" "length xs = length vs"
  shows "\<exists>d'. decode_nonzeros [length pre ..< length pre + length vs] d (ucast q) (pre @ xs @ post)
     = Inr (d', ucast (last_pixel vs q), pre @ vs @ post) \<and> dec_ok d' \<and> dec_nibbles d' = ns"
  using assms
proof (induction vs arbitrary: q d pre xs)
  case (Cons v vs)
  let ?z = "zigzag (ucast v - ucast q)"
  obtain x xs' where xs: "xs = x # xs'" "length xs' = length vs" using Cons(4) by (cases xs) auto
  have "unat ?z < 2 ^ 32" using unsigned_less [of ?z, where ?'a = nat] by simp
  with Cons(2,3) obtain d1 where d1: "decode_vle d = Inr (?z, d1)" "dec_ok d1"
      "dec_nibbles d1 = nonzeros_nibs vs (ucast v) @ ns"
    using decode_vle_reads [of d "unat ?z" "nonzeros_nibs vs (ucast v) @ ns"] by auto
  have "(ucast (ucast v :: u32) :: u16) = v"
    by (rule bit_word_eqI) (auto simp: bit_simps)
  moreover have "ucast q + zigzag_delta ?z = ucast v" by (simp add: pixel_delta)
  moreover have "\<not> (sint (ucast v :: u32) < 0 \<or> 65535 < sint (ucast v :: u32))"
    using pixel_uint [of v] unfolding pixel_sint by linarith
  moreover note upt_slots [of pre v vs v]
  ultimately have "decode_nonzeros [length pre ..< length pre + length (v # vs)] d (ucast q) (pre @ xs @ post)
      = decode_nonzeros [length (pre @ [v]) ..< length (pre @ [v]) + length vs] d1 (ucast v) ((pre @ [v]) @ xs' @ post)"
    using d1(1) xs by (simp add: Let_def)
  with Cons(1) [OF d1(2,3) xs(2), of "pre @ [v]"] show ?case by (auto simp: last_pixel_def)
qed (simp add: last_pixel_def)

lemma write_zeros_slots:
  assumes "length xs = k"
  shows "write_zeros (slots (length pre) k (pre @ xs @ post)) (pre @ xs @ post) = pre @ replicate k 0 @ post"
proof -
  have "fold (\<lambda>i out. out[i := 0]) [length pre ..< length pre + length xs] (pre @ xs @ post)
      = pre @ replicate (length xs) 0 @ post" for xs :: "u16 list"
  proof (induction xs arbitrary: pre)
    case (Cons x xs)
    from this [of "pre @ [0]"] show ?case unfolding upt_slots [of pre x xs 0] by (simp del: upt_Suc)
  qed simp
  then show ?thesis using assms by (auto simp: write_zeros_def slots_def)
qed

lemma decode_runs_step:
  assumes d: "dec_ok d" "dec_nibbles d = vle z @ vle n @ nonzeros_nibs nz (ucast (q :: u16)) @ ns"
    and len: "length nz = n" "length xs1 = z" "length xs2 = n" "length xs3 = k"
    and pos: "0 < z + n" and bound: "z + n + k < 2 ^ 32"
  shows "\<exists>d'. decode_runs (z + n + k) (length pre) (ucast q) d (pre @ xs1 @ xs2 @ xs3)
      = decode_runs k (length (pre @ replicate z 0 @ nz)) (ucast (last_pixel nz q)) d' ((pre @ replicate z 0 @ nz) @ xs3)
    \<and> dec_ok d' \<and> dec_nibbles d' = ns"
proof -
  have unat: "unat (of_nat z :: u32) = z" "unat (of_nat n :: u32) = n" using bound by (simp_all add: unat_of_nat)
  obtain d1 where d1: "decode_vle d = Inr (of_nat z, d1)" "dec_ok d1"
      "dec_nibbles d1 = vle n @ nonzeros_nibs nz (ucast q) @ ns"
    using decode_vle_reads [OF d] bound by auto
  obtain d2 where d2: "decode_vle d1 = Inr (of_nat n, d2)" "dec_ok d2"
      "dec_nibbles d2 = nonzeros_nibs nz (ucast q) @ ns"
    using decode_vle_reads [OF d1(2,3)] bound by auto
  let ?pre = "pre @ replicate z 0"
  have zeros: "write_zeros (slots (length pre) z (pre @ xs1 @ xs2 @ xs3)) (pre @ xs1 @ xs2 @ xs3) = ?pre @ xs2 @ xs3"
    using write_zeros_slots [OF len(2)] by simp
  have slots: "slots (length pre + z) n (?pre @ xs2 @ xs3) = [length ?pre ..< length ?pre + length nz]"
    using len by (simp add: slots_def)
  obtain d3 where d3: "decode_nonzeros [length ?pre ..< length ?pre + length nz] d2 (ucast q) (?pre @ xs2 @ xs3)
        = Inr (d3, ucast (last_pixel nz q), ?pre @ nz @ xs3)" "dec_ok d3" "dec_nibbles d3 = ns"
    using decode_nonzeros_reads [OF d2(2,3), of xs2 ?pre xs3] len by auto
  have nonzeros: "decode_nonzeros (slots (length pre + z) n (pre @ replicate z 0 @ xs2 @ xs3)) d2 (ucast q)
      (pre @ replicate z 0 @ xs2 @ xs3) = Inr (d3, ucast (last_pixel nz q), ?pre @ nz @ xs3)"
    using d3(1) unfolding slots [symmetric] append_assoc .
  have "decode_runs (z + n + k) (length pre) (ucast q) d (pre @ xs1 @ xs2 @ xs3)
      = decode_runs k (length pre + z + n) (ucast (last_pixel nz q)) d3 (?pre @ nz @ xs3)"
    using pos by (subst decode_runs.simps) (auto simp: d1(1) d2(1) unat zeros nonzeros Let_def)
  then show ?thesis using d3(2,3) len(1) by (intro exI [of _ d3]) (simp add: add.assoc)
qed

lemma runs_split:
  assumes "z = length (takeWhile (\<lambda>v. v = 0) vs)" "n = length (takeWhile (\<lambda>v. v \<noteq> 0) (drop z vs))"
  shows "vs = replicate z 0 @ take n (drop z vs) @ drop n (drop z vs)" "vs \<noteq> [] \<Longrightarrow> 0 < z + n"
proof -
  have "takeWhile (\<lambda>v. v = 0) vs = replicate z 0"
    unfolding assms(1) by (rule replicate_eqI) (auto dest: set_takeWhileD)
  then have "vs = replicate z 0 @ drop z vs"
    using takeWhile_dropWhile_id [of "\<lambda>v. v = 0" vs] assms(1) by (simp add: dropWhile_eq_drop)
  then show "vs = replicate z 0 @ take n (drop z vs) @ drop n (drop z vs)"
    by (simp only: append_take_drop_id)
  show "0 < z + n" if "vs \<noteq> []" using that assms by (cases vs; cases "hd vs = 0") auto
qed

lemma runs_read_back:
  assumes "enc_ok e" "length vs < 2 ^ 32"
  shows "\<exists>ns. enc_ok (encode_runs vs (ucast (q :: u16)) e)
    \<and> enc_nibbles (encode_runs vs (ucast q) e) = enc_nibbles e @ ns
    \<and> (\<forall>d pre xs rest. dec_ok d \<longrightarrow> dec_nibbles d = ns @ rest \<longrightarrow> length xs = length vs \<longrightarrow>
         (\<exists>d'. decode_runs (length vs) (length pre) (ucast q) d (pre @ xs) = Inr (d', pre @ vs)))"
  using assms
proof (induction vs arbitrary: q e rule: length_induct)
  case (1 vs)
  show ?case
  proof (cases "vs = []")
    case True
    then show ?thesis using 1(2) by (simp add: encode_runs.simps decode_runs.simps)
  next
    case False
    define z where "z = length (takeWhile (\<lambda>v. v = 0) vs)"
    define n where "n = length (takeWhile (\<lambda>v. v \<noteq> 0) (drop z vs))"
    define nz r where "nz = take n (drop z vs)" and "r = drop n (drop z vs)"
    note split = runs_split [OF z_def n_def, folded nz_def r_def]
    have nz: "length nz = n" unfolding nz_def n_def using length_takeWhile_le [of "\<lambda>v. v \<noteq> 0" "drop z vs"] by simp
    have len: "length vs = z + n + length r" by (subst split(1)) (simp add: nz)
    then have bound: "z + n + length r < 2 ^ 32" using 1(3) by simp
    have unat: "unat (of_nat z :: u32) = z" "unat (of_nat n :: u32) = n" using bound by (simp_all add: unat_of_nat)
    define e2 where "e2 = encode_vle (of_nat n) (encode_vle (of_nat z) e)"
    have e2: "enc_ok e2" "enc_nibbles e2 = enc_nibbles e @ vle z @ vle n"
      using encode_vle_writes [OF 1(2), of "of_nat z"] encode_vle_writes [of "encode_vle (of_nat z) e" "of_nat n"]
      by (simp_all add: e2_def unat)
    obtain e3 where e3: "encode_nonzeros nz (ucast q) e2 = (ucast (last_pixel nz q), e3)" "enc_ok e3"
        "enc_nibbles e3 = enc_nibbles e2 @ nonzeros_nibs nz (ucast q)"
      using encode_nonzeros_writes [OF e2(1)] by blast
    have step: "encode_runs vs (ucast q) e = encode_runs r (ucast (last_pixel nz q)) e3"
      using False e3(1) by (subst encode_runs.simps) (simp add: Let_def del: drop_drop flip: z_def n_def nz_def r_def e2_def)
    have "length r < length vs" using len split(2) [OF False] by simp
    from 1(1) [rule_format, OF this e3(2), of "last_pixel nz q"] bound
    obtain ns where ns: "enc_ok (encode_runs vs (ucast q) e)" "enc_nibbles (encode_runs vs (ucast q) e) = enc_nibbles e3 @ ns"
        "\<And>d pre xs rest. dec_ok d \<Longrightarrow> dec_nibbles d = ns @ rest \<Longrightarrow> length xs = length r \<Longrightarrow>
           \<exists>d'. decode_runs (length r) (length pre) (ucast (last_pixel nz q)) d (pre @ xs) = Inr (d', pre @ r)"
      unfolding step by auto
    let ?ns = "vle z @ vle n @ nonzeros_nibs nz (ucast q) @ ns"
    have "\<exists>d'. decode_runs (length vs) (length pre) (ucast q) d (pre @ xs) = Inr (d', pre @ vs)"
      if d: "dec_ok d" "dec_nibbles d = ?ns @ rest" "length xs = length vs" for d pre xs rest
    proof -
      have xs: "xs = take z xs @ take n (drop z xs) @ drop n (drop z xs)"
        by (simp only: append_take_drop_id)
      have lens: "length (take z xs) = z" "length (take n (drop z xs)) = n" "length (drop n (drop z xs)) = length r"
        using d(3) len by simp_all
      obtain d' where d': "decode_runs (length vs) (length pre) (ucast q) d (pre @ xs)
          = decode_runs (length r) (length (pre @ replicate z 0 @ nz)) (ucast (last_pixel nz q)) d'
              ((pre @ replicate z 0 @ nz) @ drop n (drop z xs))" "dec_ok d'" "dec_nibbles d' = ns @ rest"
        using decode_runs_step [OF d(1) _ nz lens split(2) [OF False] bound, of q "ns @ rest" pre] d(2) len xs by auto
      have read: "pre @ vs = (pre @ replicate z 0 @ nz) @ r" using split(1) by simp
      show ?thesis unfolding d'(1) read by (rule ns(3) [OF d'(2,3) lens(3)])
    qed
    then show ?thesis using ns(1,2) e3(3) e2(2) by (intro exI [of _ ?ns]) simp
  qed
qed

section \<open>The image reads back\<close>

lemma rvl_parse_message:
  assumes "w \<noteq> 0" "h \<noteq> 0"
  shows "rvl_parse (build_depth_message w h vs a b) = Inr
    \<lparr>md_width = w, md_height = h, md_depth_quant_a = a, md_depth_quant_b = b,
     md_payload_offset = 20, md_num_pixels = unat w * unat h\<rparr>"
proof -
  have "unat w * unat h < 2 ^ 32 * 2 ^ 32"
    using unsigned_less [of w, where ?'a = nat] unsigned_less [of h, where ?'a = nat] by (intro mult_strict_mono) auto
  then have "checked_mul_u64 (unat w) (unat h) = Some (unat w * unat h)" by (simp add: checked_mul_u64_def)
  then show ?thesis
    using assms by (simp add: rvl_parse_def build_depth_message_def read_u32_at_def Let_def
        CONFIG_HEADER_SIZE_def RESOLUTION_HEADER_SIZE_def)
qed

text \<open>Two errors of the parser never occur: a product of two \<open>u32\<close> fits, and the length was tested before.\<close>

lemma rvl_parse_unreachable_errors:
  "rvl_parse data \<noteq> Inl ResolutionOverflow \<and> rvl_parse data \<noteq> Inl (PayloadLengthMismatch w h)"
proof -
  have "unat (a :: u32) * unat (b :: u32) < 2 ^ 32 * 2 ^ 32" for a b
    using unsigned_less [of a, where ?'a = nat] unsigned_less [of b, where ?'a = nat] by (intro mult_strict_mono) auto
  then have "checked_mul_u64 (unat a) (unat b) = Some (unat a * unat b)" for a b :: u32
    by (simp add: checked_mul_u64_def)
  then show ?thesis by (auto simp: rvl_parse_def Let_def)
qed

text \<open>
  A number of eleven nibbles whose last one needs a bit beyond the word loses it: the nibbles of
  \<open>2 ^ 32\<close>, here in two words, decode to zero where \<open>ValueOverflow\<close> is meant.
\<close>

lemma vle_drops_high_bit:
  "vle (2 ^ 32) = [8, 8, 8, 8, 8, 8, 8, 8, 8, 8, 4]
   \<and> map_sum id fst (decode_vle (rvl_decoder_new [0x88, 0x88, 0x88, 0x88, 0, 0, 0x40, 0x88])) = Inr 0"
proof
  show "vle (2 ^ 32) = [8, 8, 8, 8, 8, 8, 8, 8, 8, 8, 4]" by (simp add: vle.simps)
  show "map_sum id fst (decode_vle (rvl_decoder_new [0x88, 0x88, 0x88, 0x88, 0, 0, 0x40, 0x88])) = Inr 0"
    by (simp add: decode_vle_def decode_vle_loop.simps next_nibble_def rvl_decoder_new_def read_u32_at_def
        u32_from_le_def from_le_bytes_def)
qed

text \<open>C36: an image written by the encoder reads back: the payload built for an image of any non-empty
  size parses to its metadata, and the decoder returns its pixels.
\<close>
theorem rvl_roundtrip:
  assumes "w \<noteq> 0" "h \<noteq> 0" "length disparity = unat w * unat h" "length disparity < 2 ^ 32"
  shows "\<exists>md. rvl_parse (build_depth_message w h disparity a b) = Inr md
    \<and> md_width md = w \<and> md_height md = h \<and> md_depth_quant_a md = a \<and> md_depth_quant_b md = b
    \<and> decode_rvl_without_quantization (build_depth_message w h disparity a b) md = Inr disparity"
proof -
  let ?msg = "build_depth_message w h disparity a b" and ?out = "replicate (unat w * unat h) 0 :: u16 list"
  let ?md = "\<lparr>md_width = w, md_height = h, md_depth_quant_a = a, md_depth_quant_b = b,
     md_payload_offset = 20, md_num_pixels = unat w * unat h\<rparr>"
  have payload: "rvl_payload ?md ?msg = Inr (encode_rvl disparity)"
    by (simp add: rvl_payload_def build_depth_message_def)
  obtain ns where ns: "enc_ok (encode_runs disparity 0 rvl_encoder_new)"
      "enc_nibbles (encode_runs disparity 0 rvl_encoder_new) = ns"
      "\<And>d pre xs rest. dec_ok d \<Longrightarrow> dec_nibbles d = ns @ rest \<Longrightarrow> length xs = length disparity \<Longrightarrow>
         \<exists>d'. decode_runs (length disparity) (length pre) 0 d (pre @ xs) = Inr (d', pre @ disparity)"
    using runs_read_back [of rvl_encoder_new disparity 0] assms(4) by auto
  obtain k where "word_stream (encode_rvl disparity) = ns @ replicate k 0"
    using finish_writes [OF ns(1)] ns(2) by (auto simp: encode_rvl_def)
  then obtain d' where "decode_into (rvl_decoder_new (encode_rvl disparity)) ?out = Inr (d', disparity)"
    using ns(3) [of "rvl_decoder_new (encode_rvl disparity)" "replicate k 0" ?out "[]"] assms(3)
    by (auto simp: decode_into_def)
  then have "decode_rvl_without_quantization ?msg ?md = Inr disparity"
    by (simp add: decode_rvl_without_quantization_def payload)
  then show ?thesis using rvl_parse_message [OF assms(1,2)] by simp
qed

end
