(* ===== verification/Codec_Examples.thy ===== *)
theory Codec_Examples
  imports Rvl_Props
begin

text \<open>A concrete depth image, which reads back.\<close>

theorem rvl_roundtrip_witness:
  "\<exists>md. rvl_parse (build_depth_message 5 1 [0, 1200, 1201, 0, 800] 0 0) = Inr md
    \<and> md_width md = 5 \<and> md_height md = 1 \<and> md_depth_quant_a md = 0 \<and> md_depth_quant_b md = 0
    \<and> decode_rvl_without_quantization (build_depth_message 5 1 [0, 1200, 1201, 0, 800] 0 0) md
        = Inr [0, 1200, 1201, 0, 800]"
  by (rule rvl_roundtrip) simp_all

end
