(* ===== verification/Quota_Channel.thy ===== *)
theory Quota_Channel
  imports Main "HOL-Library.Multiset"
begin

text \<open>
  The channel with a limit on the bytes in flight (\<open>utils/re_quota_channel/src/sync/mod.rs\<close>, on native
  platforms): any number of senders and receivers, each used by one thread at a time (a sender shared by
  threads is as good as its clones) and at a point of its code. An event lets one of
  them run to its next point; what runs in between holds a lock or touches nothing shared, so the
  interleavings of the threads are the lists of events. Byte counts (\<open>u64\<close>) are naturals.

  The unbounded channel below (\<open>crossbeam\<close>) is the parameter \<open>cb\<close>; that it is first in, first out
  is the hypothesis \<open>fifo\<close>. It refuses messages when its last receiver is gone, after the \<open>drop\<close> of the
  receiver has run. Locks and the condition variable are those of \<open>parking_lot\<close>: a lock has one holder,
  a wait may end at any time, and \<open>notify_all\<close> ends all waits.
\<close>

section \<open>State\<close>

record ('m, 'q) Crossbeam =
  cb_unbounded :: 'q
  cb_send :: "'m \<times> nat \<Rightarrow> 'q \<Rightarrow> 'q"
  cb_recv :: "'q \<Rightarrow> (('m \<times> nat) \<times> 'q) option"

definition fifo :: "('m, 'q) Crossbeam \<Rightarrow> ('q \<Rightarrow> ('m \<times> nat) list) \<Rightarrow> bool" where
  "fifo cb messages \<longleftrightarrow> messages (cb_unbounded cb) = []
     \<and> (\<forall>x q. messages (cb_send cb x q) = messages q @ [x])
     \<and> (\<forall>q. case cb_recv cb q of None \<Rightarrow> messages q = [] | Some (x, q') \<Rightarrow> messages q = x # messages q')"

text \<open>
  Where a sender is: outside, waiting for \<open>active_sender\<close>, about to test for room, waiting for a
  change of the state, or with its bytes counted and about to send. The flag tells \<open>send\<close> from
  \<open>try_send\<close>.
\<close>

datatype 'm sender_pc =
    SIdle | SLocking 'm nat bool | SChecking 'm nat bool | SAsleep 'm nat | SSending 'm nat bool

text \<open>
  Where a receiver is: outside, with a message whose bytes are still counted, about to notify, inside
  \<open>drop\<close> (as the last one or not), or gone.
\<close>

datatype receiver_pc = RIdle | RCounting nat | RNotifying | RDropping bool | RGone

text \<open>The last three fields are history: the messages sent and received, and bytes of messages that were refused.\<close>

record ('m, 'q) Channel =
  qc_capacity_bytes :: nat
  qc_bytes_in_flight :: nat
  qc_num_receivers :: nat
  qc_active_sender :: "nat option"
  qc_queue :: 'q
  qc_senders :: "'m sender_pc list"
  qc_receivers :: "receiver_pc list"
  qc_accepted :: "'m list"
  qc_delivered :: "'m list"
  qc_leaked :: "nat list"

definition channel_new :: "('m, 'q) Crossbeam \<Rightarrow> nat \<Rightarrow> ('m, 'q) Channel" where
  "channel_new cb capacity_bytes =
     \<lparr>qc_capacity_bytes = capacity_bytes, qc_bytes_in_flight = 0, qc_num_receivers = 1,
      qc_active_sender = None, qc_queue = cb_unbounded cb, qc_senders = [SIdle], qc_receivers = [RIdle],
      qc_accepted = [], qc_delivered = [], qc_leaked = []\<rparr>"

definition sender_at :: "nat \<Rightarrow> ('m, 'q) Channel \<Rightarrow> 'm sender_pc" where
  "sender_at i c = (if i < length (qc_senders c) then qc_senders c ! i else SIdle)"

definition receiver_at :: "nat \<Rightarrow> ('m, 'q) Channel \<Rightarrow> receiver_pc" where
  "receiver_at j c = (if j < length (qc_receivers c) then qc_receivers c ! j else RGone)"

definition set_sender :: "nat \<Rightarrow> 'm sender_pc \<Rightarrow> ('m, 'q) Channel \<Rightarrow> ('m, 'q) Channel" where
  "set_sender i p c = c\<lparr>qc_senders := (qc_senders c)[i := p]\<rparr>"

definition set_receiver :: "nat \<Rightarrow> receiver_pc \<Rightarrow> ('m, 'q) Channel \<Rightarrow> ('m, 'q) Channel" where
  "set_receiver j p c = c\<lparr>qc_receivers := (qc_receivers c)[j := p]\<rparr>"

section \<open>Senders\<close>

definition begin_send :: "nat \<Rightarrow> 'm \<Rightarrow> nat \<Rightarrow> bool \<Rightarrow> ('m, 'q) Channel \<Rightarrow> ('m, 'q) Channel" where
  "begin_send i m size_bytes blocking c =
     (case sender_at i c of SIdle \<Rightarrow> set_sender i (SLocking m size_bytes blocking) c | _ \<Rightarrow> c)"

definition lock_active_sender :: "nat \<Rightarrow> ('m, 'q) Channel \<Rightarrow> ('m, 'q) Channel" where
  "lock_active_sender i c =
     (case (sender_at i c, qc_active_sender c) of
        (SLocking m size_bytes blocking, None) \<Rightarrow>
          set_sender i (SChecking m size_bytes blocking) (c\<lparr>qc_active_sender := Some i\<rparr>)
      | _ \<Rightarrow> c)"

text \<open>The negated conditions of the loops of \<open>send_impl\<close>, and of the test of \<open>try_send\<close>.\<close>

definition send_has_room :: "nat \<Rightarrow> nat \<Rightarrow> nat \<Rightarrow> bool" where
  "send_has_room capacity bytes_in_flight size_bytes \<longleftrightarrow>
     (if size_bytes \<le> capacity then \<not> capacity < bytes_in_flight + size_bytes else \<not> 0 < bytes_in_flight)"

definition try_send_has_room :: "nat \<Rightarrow> nat \<Rightarrow> nat \<Rightarrow> bool" where
  "try_send_has_room capacity bytes_in_flight size_bytes \<longleftrightarrow>
     \<not> (capacity < bytes_in_flight + size_bytes \<and> 0 < bytes_in_flight)"

definition return_sender :: "nat \<Rightarrow> ('m, 'q) Channel \<Rightarrow> ('m, 'q) Channel" where
  "return_sender i c = set_sender i SIdle (c\<lparr>qc_active_sender := None\<rparr>)"

text \<open>
  One turn of the loop under the lock of the state: \<open>send_check\<close> counts the bytes, returns the
  message to its sender, or waits.
\<close>

definition send_check :: "nat \<Rightarrow> ('m, 'q) Channel \<Rightarrow> ('m, 'q) Channel" where
  "send_check i c =
     (case sender_at i c of
        SChecking m size_bytes True \<Rightarrow>
          if send_has_room (qc_capacity_bytes c) (qc_bytes_in_flight c) size_bytes
          then set_sender i (SSending m size_bytes True)
                 (c\<lparr>qc_bytes_in_flight := qc_bytes_in_flight c + size_bytes\<rparr>)
          else if qc_num_receivers c = 0 then return_sender i c
          else set_sender i (SAsleep m size_bytes) c
      | _ \<Rightarrow> c)"

definition try_send_check :: "nat \<Rightarrow> ('m, 'q) Channel \<Rightarrow> ('m, 'q) Channel" where
  "try_send_check i c =
     (case sender_at i c of
        SChecking m size_bytes False \<Rightarrow>
          if try_send_has_room (qc_capacity_bytes c) (qc_bytes_in_flight c) size_bytes
          then set_sender i (SSending m size_bytes False)
                 (c\<lparr>qc_bytes_in_flight := qc_bytes_in_flight c + size_bytes\<rparr>)
          else return_sender i c
      | _ \<Rightarrow> c)"

definition connected :: "('m, 'q) Channel \<Rightarrow> bool" where
  "connected c \<longleftrightarrow> list_ex (\<lambda>p. p \<noteq> RGone) (qc_receivers c)"

definition send_message :: "('m, 'q) Crossbeam \<Rightarrow> nat \<Rightarrow> ('m, 'q) Channel \<Rightarrow> ('m, 'q) Channel" where
  "send_message cb i c =
     (case sender_at i c of
        SSending m size_bytes _ \<Rightarrow>
          return_sender i
            (if connected c
             then c\<lparr>qc_queue := cb_send cb (m, size_bytes) (qc_queue c), qc_accepted := qc_accepted c @ [m]\<rparr>
             else c\<lparr>qc_leaked := size_bytes # qc_leaked c\<rparr>)
      | _ \<Rightarrow> c)"

definition wake_sender :: "'m sender_pc \<Rightarrow> 'm sender_pc" where
  "wake_sender p = (case p of SAsleep m size_bytes \<Rightarrow> SChecking m size_bytes True | _ \<Rightarrow> p)"

definition wait_ends :: "nat \<Rightarrow> ('m, 'q) Channel \<Rightarrow> ('m, 'q) Channel" where
  "wait_ends i c = set_sender i (wake_sender (sender_at i c)) c"

definition notify_all :: "('m, 'q) Channel \<Rightarrow> ('m, 'q) Channel" where
  "notify_all c = c\<lparr>qc_senders := map wake_sender (qc_senders c)\<rparr>"

definition clone_sender :: "('m, 'q) Channel \<Rightarrow> ('m, 'q) Channel" where
  "clone_sender c = c\<lparr>qc_senders := qc_senders c @ [SIdle]\<rparr>"

section \<open>Receivers\<close>

definition recv_message :: "('m, 'q) Crossbeam \<Rightarrow> nat \<Rightarrow> ('m, 'q) Channel \<Rightarrow> ('m, 'q) Channel" where
  "recv_message cb j c =
     (case (receiver_at j c, cb_recv cb (qc_queue c)) of
        (RIdle, Some ((m, size_bytes), q)) \<Rightarrow>
          set_receiver j (RCounting size_bytes) (c\<lparr>qc_queue := q, qc_delivered := qc_delivered c @ [m]\<rparr>)
      | _ \<Rightarrow> c)"

definition manual_on_receive :: "nat \<Rightarrow> ('m, 'q) Channel \<Rightarrow> ('m, 'q) Channel" where
  "manual_on_receive j c =
     (case receiver_at j c of
        RCounting size_bytes \<Rightarrow>
          set_receiver j RNotifying (c\<lparr>qc_bytes_in_flight := qc_bytes_in_flight c - size_bytes\<rparr>)
      | _ \<Rightarrow> c)"

definition receiver_notifies :: "nat \<Rightarrow> ('m, 'q) Channel \<Rightarrow> ('m, 'q) Channel" where
  "receiver_notifies j c =
     (case receiver_at j c of RNotifying \<Rightarrow> notify_all (set_receiver j RIdle c) | _ \<Rightarrow> c)"

definition clone_receiver :: "nat \<Rightarrow> ('m, 'q) Channel \<Rightarrow> ('m, 'q) Channel" where
  "clone_receiver j c =
     (case receiver_at j c of
        RIdle \<Rightarrow> c\<lparr>qc_num_receivers := qc_num_receivers c + 1, qc_receivers := qc_receivers c @ [RIdle]\<rparr>
      | _ \<Rightarrow> c)"

definition drop_receiver :: "nat \<Rightarrow> ('m, 'q) Channel \<Rightarrow> ('m, 'q) Channel" where
  "drop_receiver j c =
     (case receiver_at j c of
        RIdle \<Rightarrow> let num_receivers_left = qc_num_receivers c - 1
          in set_receiver j (RDropping (num_receivers_left = 0)) (c\<lparr>qc_num_receivers := num_receivers_left\<rparr>)
      | _ \<Rightarrow> c)"

definition drop_receiver_ends :: "nat \<Rightarrow> ('m, 'q) Channel \<Rightarrow> ('m, 'q) Channel" where
  "drop_receiver_ends j c =
     (case receiver_at j c of
        RDropping True \<Rightarrow> notify_all (set_receiver j RGone c)
      | RDropping False \<Rightarrow> set_receiver j RGone c
      | _ \<Rightarrow> c)"

section \<open>Runs\<close>

datatype 'm channel_event =
    BeginSend nat 'm nat bool | LockActiveSender nat | SendCheck nat | TrySendCheck nat | SendMessage nat
  | WaitEnds nat | CloneSender | RecvMessage nat | ManualOnReceive nat | ReceiverNotifies nat
  | CloneReceiver nat | DropReceiver nat | DropReceiverEnds nat

primrec channel_step :: "('m, 'q) Crossbeam \<Rightarrow> 'm channel_event \<Rightarrow> ('m, 'q) Channel \<Rightarrow> ('m, 'q) Channel" where
  "channel_step cb (BeginSend i m size_bytes blocking) = begin_send i m size_bytes blocking"
| "channel_step cb (LockActiveSender i) = lock_active_sender i"
| "channel_step cb (SendCheck i) = send_check i"
| "channel_step cb (TrySendCheck i) = try_send_check i"
| "channel_step cb (SendMessage i) = send_message cb i"
| "channel_step cb (WaitEnds i) = wait_ends i"
| "channel_step cb CloneSender = clone_sender"
| "channel_step cb (RecvMessage j) = recv_message cb j"
| "channel_step cb (ManualOnReceive j) = manual_on_receive j"
| "channel_step cb (ReceiverNotifies j) = receiver_notifies j"
| "channel_step cb (CloneReceiver j) = clone_receiver j"
| "channel_step cb (DropReceiver j) = drop_receiver j"
| "channel_step cb (DropReceiverEnds j) = drop_receiver_ends j"

definition channel_run :: "('m, 'q) Crossbeam \<Rightarrow> 'm channel_event list \<Rightarrow> ('m, 'q) Channel \<Rightarrow> ('m, 'q) Channel" where
  "channel_run cb events c = fold (channel_step cb) events c"

end
