(* ===== verification/Quota_Channel_Props.thy ===== *)
theory Quota_Channel_Props
  imports Quota_Channel
begin

text \<open>
  What the channel with a limit on bytes promises under every interleaving: an invariant of all runs,
  and that a sender that waits is never forgotten.
\<close>

named_theorems at_simps \<open>senders and receivers after an update\<close>

section \<open>Updates of one thread\<close>

lemma sum_list_update_eq:
  "k < length xs \<Longrightarrow>
     sum_list (map f (xs[k := y])) + f (xs ! k) = sum_list (map f xs) + (f y :: 'b :: comm_monoid_add)"
proof (induction xs arbitrary: k)
  case (Cons x xs)
  show ?case
  proof (cases k)
    case 0
    then show ?thesis by (simp add: ac_simps)
  next
    case (Suc l)
    then have "sum_list (map f (xs[l := y])) + f (xs ! l) = sum_list (map f xs) + f y" using Cons by simp
    then show ?thesis using Suc by (simp add: add.assoc)
  qed
qed simp

lemma sender_at_less: "sender_at i c \<noteq> SIdle \<Longrightarrow> i < length (qc_senders c)"
  by (auto simp: sender_at_def split: if_splits)

lemma receiver_at_less: "receiver_at j c \<noteq> RGone \<Longrightarrow> j < length (qc_receivers c)"
  by (auto simp: receiver_at_def split: if_splits)

lemma at_of_member:
  "p \<in> set (qc_senders c) \<Longrightarrow> \<exists>i. sender_at i c = p"
  "r \<in> set (qc_receivers c) \<Longrightarrow> \<exists>j. receiver_at j c = r"
  unfolding sender_at_def receiver_at_def by (metis in_set_conv_nth)+

lemma sender_at_set [at_simps]:
  "sender_at k (set_sender i p c) = (if k = i \<and> i < length (qc_senders c) then p else sender_at k c)"
  by (auto simp: sender_at_def set_sender_def)

lemma receiver_at_set [at_simps]:
  "receiver_at k (set_receiver j p c) = (if k = j \<and> j < length (qc_receivers c) then p else receiver_at k c)"
  by (auto simp: receiver_at_def set_receiver_def)

lemma set_sender_fields [at_simps]:
  "qc_capacity_bytes (set_sender i p c) = qc_capacity_bytes c"
  "qc_bytes_in_flight (set_sender i p c) = qc_bytes_in_flight c"
  "qc_num_receivers (set_sender i p c) = qc_num_receivers c"
  "qc_active_sender (set_sender i p c) = qc_active_sender c"
  "qc_queue (set_sender i p c) = qc_queue c" "qc_receivers (set_sender i p c) = qc_receivers c"
  "qc_accepted (set_sender i p c) = qc_accepted c" "qc_delivered (set_sender i p c) = qc_delivered c"
  "qc_leaked (set_sender i p c) = qc_leaked c" "length (qc_senders (set_sender i p c)) = length (qc_senders c)"
  "receiver_at j (set_sender i p c) = receiver_at j c"
  by (simp_all add: set_sender_def receiver_at_def)

lemma set_receiver_fields [at_simps]:
  "qc_capacity_bytes (set_receiver j r c) = qc_capacity_bytes c"
  "qc_bytes_in_flight (set_receiver j r c) = qc_bytes_in_flight c"
  "qc_num_receivers (set_receiver j r c) = qc_num_receivers c"
  "qc_active_sender (set_receiver j r c) = qc_active_sender c"
  "qc_queue (set_receiver j r c) = qc_queue c" "qc_senders (set_receiver j r c) = qc_senders c"
  "qc_accepted (set_receiver j r c) = qc_accepted c" "qc_delivered (set_receiver j r c) = qc_delivered c"
  "qc_leaked (set_receiver j r c) = qc_leaked c" "length (qc_receivers (set_receiver j r c)) = length (qc_receivers c)"
  "sender_at i (set_receiver j r c) = sender_at i c"
  by (simp_all add: set_receiver_def sender_at_def)

lemma notify_all_fields [at_simps]:
  "qc_capacity_bytes (notify_all c) = qc_capacity_bytes c"
  "qc_bytes_in_flight (notify_all c) = qc_bytes_in_flight c"
  "qc_num_receivers (notify_all c) = qc_num_receivers c"
  "qc_active_sender (notify_all c) = qc_active_sender c"
  "qc_queue (notify_all c) = qc_queue c" "qc_receivers (notify_all c) = qc_receivers c"
  "qc_accepted (notify_all c) = qc_accepted c" "qc_delivered (notify_all c) = qc_delivered c"
  "qc_leaked (notify_all c) = qc_leaked c" "receiver_at j (notify_all c) = receiver_at j c"
  "sender_at i (notify_all c) = wake_sender (sender_at i c)"
  by (simp_all add: notify_all_def receiver_at_def sender_at_def wake_sender_def)

lemma at_record [at_simps]:
  "sender_at i (c\<lparr>qc_bytes_in_flight := b\<rparr>) = sender_at i c"
  "sender_at i (c\<lparr>qc_active_sender := a\<rparr>) = sender_at i c"
  "sender_at i (c\<lparr>qc_num_receivers := n\<rparr>) = sender_at i c"
  "sender_at i (c\<lparr>qc_leaked := l\<rparr>) = sender_at i c"
  "sender_at i (c\<lparr>qc_queue := q, qc_accepted := ms\<rparr>) = sender_at i c"
  "sender_at i (c\<lparr>qc_queue := q, qc_delivered := ms\<rparr>) = sender_at i c"
  "receiver_at j (c\<lparr>qc_bytes_in_flight := b\<rparr>) = receiver_at j c"
  "receiver_at j (c\<lparr>qc_active_sender := a\<rparr>) = receiver_at j c"
  "receiver_at j (c\<lparr>qc_num_receivers := n\<rparr>) = receiver_at j c"
  "receiver_at j (c\<lparr>qc_leaked := l\<rparr>) = receiver_at j c"
  "receiver_at j (c\<lparr>qc_queue := q, qc_accepted := ms\<rparr>) = receiver_at j c"
  "receiver_at j (c\<lparr>qc_queue := q, qc_delivered := ms\<rparr>) = receiver_at j c"
  by (simp_all add: sender_at_def receiver_at_def)

section \<open>The invariant\<close>

fun sending_bytes :: "'m sender_pc \<Rightarrow> nat multiset" where
  "sending_bytes (SSending m size_bytes _) = {#size_bytes#}"
| "sending_bytes _ = {#}"

fun counting_bytes :: "receiver_pc \<Rightarrow> nat multiset" where
  "counting_bytes (RCounting size_bytes) = {#size_bytes#}"
| "counting_bytes _ = {#}"

fun holds_sender :: "'m sender_pc \<Rightarrow> bool" where
  "holds_sender (SChecking _ _ _) = True"
| "holds_sender (SAsleep _ _) = True"
| "holds_sender (SSending _ _ _) = True"
| "holds_sender _ = False"

fun live_receiver :: "receiver_pc \<Rightarrow> nat" where
  "live_receiver RGone = 0"
| "live_receiver (RDropping _) = 0"
| "live_receiver _ = 1"

text \<open>The sizes of the messages whose bytes are counted, wherever they are.\<close>

definition counted :: "('q \<Rightarrow> ('m \<times> nat) list) \<Rightarrow> ('m, 'q) Channel \<Rightarrow> nat multiset" where
  "counted messages c = mset (map snd (messages (qc_queue c)))
     + sum_list (map sending_bytes (qc_senders c)) + sum_list (map counting_bytes (qc_receivers c))
     + mset (qc_leaked c)"

definition will_notify :: "('m, 'q) Channel \<Rightarrow> bool" where
  "will_notify c \<longleftrightarrow> (\<exists>j. receiver_at j c = RNotifying \<or> receiver_at j c = RDropping True)"

definition channel_ok :: "('q \<Rightarrow> ('m \<times> nat) list) \<Rightarrow> ('m, 'q) Channel \<Rightarrow> bool" where
  "channel_ok messages c \<longleftrightarrow>
     qc_num_receivers c = sum_list (map live_receiver (qc_receivers c))
   \<and> (\<forall>i. holds_sender (sender_at i c) \<longleftrightarrow> qc_active_sender c = Some i)
   \<and> qc_bytes_in_flight c = sum_mset (counted messages c)
   \<and> (connected c \<longrightarrow> qc_leaked c = [])
   \<and> (qc_bytes_in_flight c \<le> qc_capacity_bytes c \<or> qc_bytes_in_flight c \<in># counted messages c)
   \<and> qc_accepted c = qc_delivered c @ map fst (messages (qc_queue c))
   \<and> (\<forall>i m s. sender_at i c = SAsleep m s \<longrightarrow>
        (\<not> send_has_room (qc_capacity_bytes c) (qc_bytes_in_flight c) s \<and> 0 < qc_num_receivers c) \<or> will_notify c)"

lemma channel_ok_new: "fifo cb messages \<Longrightarrow> channel_ok messages (channel_new cb capacity)"
  by (simp add: channel_ok_def channel_new_def fifo_def counted_def sender_at_def)

lemma counted_set_sender:
  assumes "i < length (qc_senders c)"
  shows "counted messages (set_sender i p c) + sending_bytes (sender_at i c) = counted messages c + sending_bytes p"
proof -
  have "sum_list (map sending_bytes ((qc_senders c)[i := p])) + sending_bytes (qc_senders c ! i)
      = sum_list (map sending_bytes (qc_senders c)) + sending_bytes p"
    using assms by (rule sum_list_update_eq)
  then show ?thesis using assms by (simp add: counted_def set_sender_def sender_at_def ac_simps)
qed

lemma counted_set_receiver:
  assumes "j < length (qc_receivers c)"
  shows "counted messages (set_receiver j r c) + counting_bytes (receiver_at j c) = counted messages c + counting_bytes r"
proof -
  have "sum_list (map counting_bytes ((qc_receivers c)[j := r])) + counting_bytes (qc_receivers c ! j)
      = sum_list (map counting_bytes (qc_receivers c)) + counting_bytes r"
    using assms by (rule sum_list_update_eq)
  then show ?thesis using assms by (simp add: counted_def set_receiver_def receiver_at_def ac_simps)
qed

lemma live_set_receiver:
  assumes "j < length (qc_receivers c)"
  shows "sum_list (map live_receiver (qc_receivers (set_receiver j r c))) + live_receiver (receiver_at j c)
    = sum_list (map live_receiver (qc_receivers c)) + live_receiver r"
  using sum_list_update_eq [OF assms, of live_receiver r] assms by (simp add: set_receiver_def receiver_at_def)

lemma connected_iff: "connected c \<longleftrightarrow> (\<exists>j. receiver_at j c \<noteq> RGone)"
proof -
  have "connected c \<longleftrightarrow> (\<exists>j < length (qc_receivers c). qc_receivers c ! j \<noteq> RGone)"
    unfolding connected_def list_ex_iff by (metis in_set_conv_nth)
  then show ?thesis unfolding receiver_at_def by (metis (full_types))
qed

lemma counted_fields [at_simps]:
  "counted messages (c\<lparr>qc_bytes_in_flight := b\<rparr>) = counted messages c"
  "counted messages (c\<lparr>qc_active_sender := a\<rparr>) = counted messages c"
  "counted messages (c\<lparr>qc_num_receivers := n\<rparr>) = counted messages c"
  "counted messages (c\<lparr>qc_leaked := s # qc_leaked c\<rparr>) = add_mset s (counted messages c)"
  by (simp_all add: counted_def)

lemma counted_notify_all [at_simps]: "counted messages (notify_all c) = counted messages (c :: ('m, 'q) Channel)"
proof -
  have "sending_bytes (wake_sender p) = sending_bytes p" for p :: "'m sender_pc"
    by (cases p) (simp_all add: wake_sender_def)
  then show ?thesis by (simp add: counted_def notify_all_def comp_def)
qed

lemma never_asleep_woken [simp]: "wake_sender p \<noteq> SAsleep m s"
  by (cases p) (simp_all add: wake_sender_def)

lemma holds_woken [simp]: "holds_sender (wake_sender p) = holds_sender p"
  by (cases p) (simp_all add: wake_sender_def)

lemma will_notify_fields [at_simps]:
  "will_notify (set_sender i p c) = will_notify c"
  "will_notify (c\<lparr>qc_bytes_in_flight := b\<rparr>) = will_notify c"
  "will_notify (c\<lparr>qc_active_sender := a\<rparr>) = will_notify c"
  "will_notify (c\<lparr>qc_num_receivers := n\<rparr>) = will_notify c"
  by (simp_all add: will_notify_def at_simps)

lemma connected_fields [at_simps]:
  "connected (set_sender i p c) = connected c" "connected (notify_all c) = connected c"
  "connected (c\<lparr>qc_bytes_in_flight := b\<rparr>) = connected c"
  "connected (c\<lparr>qc_active_sender := a\<rparr>) = connected c"
  "connected (c\<lparr>qc_num_receivers := n\<rparr>) = connected c"
  by (simp_all add: connected_iff at_simps)

lemma connected_set_receiver:
  "receiver_at j c \<noteq> RGone \<Longrightarrow> r \<noteq> RGone \<Longrightarrow> connected (set_receiver j r c) = connected c"
  "receiver_at j c \<noteq> RGone \<Longrightarrow> connected c"
  unfolding connected_iff at_simps by (metis receiver_at_less)+

lemma will_notify_set_receiver:
  "will_notify c \<Longrightarrow> receiver_at j c \<noteq> RNotifying \<Longrightarrow> receiver_at j c \<noteq> RDropping True
     \<Longrightarrow> will_notify (set_receiver j r c)"
  unfolding will_notify_def at_simps by metis

section \<open>Every event keeps the invariant\<close>

lemma ok_transfer:
  assumes ok: "channel_ok messages c"
    and same: "\<And>i. sender_at i d = sender_at i c" "qc_active_sender d = qc_active_sender c"
      "qc_capacity_bytes d = qc_capacity_bytes c" "qc_bytes_in_flight d = qc_bytes_in_flight c"
      "qc_leaked d = qc_leaked c" "counted messages d = counted messages c"
    and live: "qc_num_receivers d = sum_list (map live_receiver (qc_receivers d))"
    and receivers: "connected d \<Longrightarrow> connected c" "will_notify c \<Longrightarrow> will_notify d"
      "0 < qc_num_receivers c \<Longrightarrow> 0 < qc_num_receivers d \<or> will_notify d"
    and order: "qc_accepted d = qc_delivered d @ map fst (messages (qc_queue d))"
  shows "channel_ok messages d"
proof -
  have "(\<not> send_has_room (qc_capacity_bytes d) (qc_bytes_in_flight d) s \<and> 0 < qc_num_receivers d) \<or> will_notify d"
    if "sender_at i d = SAsleep m s" for i m s
  proof -
    have "(\<not> send_has_room (qc_capacity_bytes c) (qc_bytes_in_flight c) s \<and> 0 < qc_num_receivers c) \<or> will_notify c"
      using ok that unfolding channel_ok_def same(1) by blast
    then show ?thesis using receivers(2,3) unfolding same by blast
  qed
  then show ?thesis
    using ok live receivers(1) order unfolding channel_ok_def same by (intro conjI) blast+
qed

lemma ok_quiet_sender:
  assumes "channel_ok messages c" "sending_bytes p = sending_bytes (sender_at i c)"
    and "holds_sender p = holds_sender (sender_at i c)"
    and "\<And>m s. p = SAsleep m s \<Longrightarrow> \<not> send_has_room (qc_capacity_bytes c) (qc_bytes_in_flight c) s \<and> 0 < qc_num_receivers c"
  shows "channel_ok messages (set_sender i p c)"
proof (cases "i < length (qc_senders c)")
  case True
  then have "counted messages (set_sender i p c) = counted messages c"
    using counted_set_sender [OF True, of messages p] assms(2) by simp
  then show ?thesis using assms by (auto simp: channel_ok_def at_simps)
next
  case False
  then have "set_sender i p c = c" by (cases c) (simp add: set_sender_def list_update_beyond)
  then show ?thesis using assms(1) by simp
qed

lemma ok_begin_send: "channel_ok messages c \<Longrightarrow> channel_ok messages (begin_send i m s b c)"
  by (auto simp: begin_send_def intro: ok_quiet_sender split: sender_pc.split)

lemma ok_wait_ends: "channel_ok messages c \<Longrightarrow> channel_ok messages (wait_ends i c)"
  by (cases "sender_at i c") (auto simp: wait_ends_def wake_sender_def intro!: ok_quiet_sender)

lemma ok_lock: "channel_ok messages c \<Longrightarrow> channel_ok messages (lock_active_sender i c)"
proof (cases "\<exists>m s b. sender_at i c = SLocking m s b \<and> qc_active_sender c = None")
  case True
  then obtain m s b where i: "sender_at i c = SLocking m s b" "qc_active_sender c = None" by blast
  then have less: "i < length (qc_senders c)" by (intro sender_at_less) simp
  have step: "lock_active_sender i c = set_sender i (SChecking m s b) (c\<lparr>qc_active_sender := Some i\<rparr>)"
    using i by (simp add: lock_active_sender_def)
  have "counted messages (lock_active_sender i c) = counted messages c"
    using counted_set_sender [of i "c\<lparr>qc_active_sender := Some i\<rparr>" messages "SChecking m s b"] less i
    by (simp add: step at_simps)
  then show "channel_ok messages c \<Longrightarrow> channel_ok messages (lock_active_sender i c)"
    using i less by (auto simp: channel_ok_def step at_simps)
next
  case False
  then show "channel_ok messages c \<Longrightarrow> channel_ok messages (lock_active_sender i c)"
    by (auto simp: lock_active_sender_def split: sender_pc.split option.split)
qed

lemma alone:
  assumes "channel_ok messages c" "holds_sender (sender_at i c)" "holds_sender (sender_at k c)"
  shows "k = i"
  using assms by (metis channel_ok_def option.inject)

lemma ok_reserve:
  assumes ok: "channel_ok messages c" and i: "sender_at i c = SChecking m s b"
    and room: "qc_bytes_in_flight c + s \<le> qc_capacity_bytes c \<or> qc_bytes_in_flight c = 0"
  shows "channel_ok messages (set_sender i (SSending m s b) (c\<lparr>qc_bytes_in_flight := qc_bytes_in_flight c + s\<rparr>))"
    (is "channel_ok messages ?c")
proof -
  have less: "i < length (qc_senders c)" using i by (intro sender_at_less) simp
  then have counted: "counted messages ?c = add_mset s (counted messages c)"
    using counted_set_sender [of i "c\<lparr>qc_bytes_in_flight := qc_bytes_in_flight c + s\<rparr>" messages "SSending m s b"] i
    by (simp add: at_simps)
  have awake: "sender_at k c \<noteq> SAsleep m' s'" if "k \<noteq> i" for k m' s'
    using alone [OF ok, of i k] i that by auto
  show ?thesis
    using ok i less counted room awake by (auto simp: channel_ok_def at_simps)
qed

lemma ok_return:
  assumes ok: "channel_ok messages c" and i: "holds_sender (sender_at i c)" "sending_bytes (sender_at i c) = {#}"
  shows "channel_ok messages (return_sender i c)"
proof -
  have "sender_at i c \<noteq> SIdle" using i(1) by auto
  then have less: "i < length (qc_senders c)" by (rule sender_at_less)
  then have "counted messages (return_sender i c) = counted messages c"
    using counted_set_sender [of i "c\<lparr>qc_active_sender := None\<rparr>" messages SIdle] i(2)
    by (simp add: return_sender_def at_simps)
  moreover have "\<not> holds_sender (sender_at k c)" if "k \<noteq> i" for k using alone [OF ok i(1)] that by blast
  moreover have "\<not> holds_sender SIdle" by simp
  ultimately show ?thesis using ok less by (auto simp: channel_ok_def return_sender_def at_simps)
qed

lemma ok_send_check: "channel_ok messages c \<Longrightarrow> channel_ok messages (send_check i c)"
proof (cases "\<exists>m s. sender_at i c = SChecking m s True")
  case True
  assume ok: "channel_ok messages c"
  obtain m s where i: "sender_at i c = SChecking m s True" using True by blast
  show ?thesis
  proof (cases "send_has_room (qc_capacity_bytes c) (qc_bytes_in_flight c) s")
    case True
    then show ?thesis using ok_reserve [OF ok i] i by (auto simp: send_check_def send_has_room_def split: if_splits)
  next
    case full: False
    have "channel_ok messages (set_sender i (SAsleep m s) c)" if "0 < qc_num_receivers c"
      using ok i full that by (intro ok_quiet_sender) auto
    then show ?thesis using ok_return [OF ok, of i] i full by (auto simp: send_check_def)
  qed
qed (auto simp: send_check_def split: sender_pc.split bool.split)

lemma ok_try_send_check: "channel_ok messages c \<Longrightarrow> channel_ok messages (try_send_check i c)"
proof (cases "\<exists>m s. sender_at i c = SChecking m s False")
  case True
  assume ok: "channel_ok messages c"
  obtain m s where i: "sender_at i c = SChecking m s False" using True by blast
  show ?thesis
    using ok_reserve [OF ok i] ok_return [OF ok, of i] i
    by (auto simp: try_send_check_def try_send_has_room_def not_less)
qed (auto simp: try_send_check_def split: sender_pc.split bool.split)

lemma ok_send_message:
  assumes f: "fifo cb messages" and ok: "channel_ok messages c"
  shows "channel_ok messages (send_message cb i c)"
proof (cases "\<exists>m s b. sender_at i c = SSending m s b")
  case True
  then obtain m s b where i: "sender_at i c = SSending m s b" by blast
  then have less: "i < length (qc_senders c)" by (intro sender_at_less) simp
  have alone: "\<not> holds_sender (sender_at k c)" if "k \<noteq> i" for k using alone [OF ok, of i k] i that by auto
  have idle: "\<not> holds_sender SIdle" by simp
  have awake: "sender_at k c \<noteq> SAsleep m' s'" if "k \<noteq> i" for k m' s' using alone [OF that] by auto
  define c1 where "c1 = (if connected c
      then c\<lparr>qc_queue := cb_send cb (m, s) (qc_queue c), qc_accepted := qc_accepted c @ [m]\<rparr>
      else c\<lparr>qc_leaked := s # qc_leaked c\<rparr>)"
  have c1: "sender_at k c1 = sender_at k c" "receiver_at k c1 = receiver_at k c" "qc_receivers c1 = qc_receivers c"
      "qc_num_receivers c1 = qc_num_receivers c" "qc_bytes_in_flight c1 = qc_bytes_in_flight c"
      "qc_capacity_bytes c1 = qc_capacity_bytes c" "length (qc_senders c1) = length (qc_senders c)" for k
    by (simp_all add: c1_def at_simps)
  have "counted messages c1 = add_mset s (counted messages c)"
    using f by (simp add: c1_def fifo_def counted_def)
  then have counted: "counted messages (return_sender i c1) = counted messages c"
    using counted_set_sender [of i "c1\<lparr>qc_active_sender := None\<rparr>" messages SIdle] less i
    by (simp add: return_sender_def at_simps c1)
  have "connected (return_sender i c1) = connected c"
    unfolding connected_iff by (simp add: return_sender_def at_simps c1)
  moreover have "qc_leaked (return_sender i c1) = (if connected c then qc_leaked c else s # qc_leaked c)"
      "qc_accepted (return_sender i c1) = qc_delivered (return_sender i c1) @ map fst (messages (qc_queue (return_sender i c1)))"
    using f ok by (auto simp: return_sender_def at_simps c1_def fifo_def channel_ok_def)
  moreover have "send_message cb i c = return_sender i c1" using i by (simp add: send_message_def c1_def)
  ultimately show ?thesis
    using ok less alone idle awake counted
    by (auto simp: channel_ok_def return_sender_def at_simps c1)
next
  case False
  then show ?thesis using ok by (auto simp: send_message_def split: sender_pc.split)
qed

lemma ok_clone_sender: "channel_ok messages c \<Longrightarrow> channel_ok messages (clone_sender c)"
proof -
  assume ok: "channel_ok messages c"
  have at: "sender_at i (clone_sender c) = sender_at i c" for i by (simp add: sender_at_def clone_sender_def nth_append)
  have rest: "counted messages (clone_sender c) = counted messages c" "receiver_at j (clone_sender c) = receiver_at j c" for j
    by (simp_all add: counted_def clone_sender_def receiver_at_def)
  show ?thesis
    by (rule ok_transfer [OF ok]) (use ok in \<open>auto simp: at rest will_notify_def connected_iff channel_ok_def\<close>,
      auto simp: clone_sender_def)
qed

lemma ok_recv_message:
  assumes f: "fifo cb messages" and ok: "channel_ok messages c"
  shows "channel_ok messages (recv_message cb j c)"
proof (cases "receiver_at j c = RIdle \<and> cb_recv cb (qc_queue c) \<noteq> None")
  case True
  then obtain m s q where j: "receiver_at j c = RIdle" and q: "cb_recv cb (qc_queue c) = Some ((m, s), q)" by auto
  have less: "j < length (qc_receivers c)" using j by (intro receiver_at_less) simp
  have queue: "messages (qc_queue c) = (m, s) # messages q"
    using f q by (auto simp: fifo_def dest: spec [of _ "qc_queue c"])
  define c1 where "c1 = c\<lparr>qc_queue := q, qc_delivered := qc_delivered c @ [m]\<rparr>"
  have step: "recv_message cb j c = set_receiver j (RCounting s) c1" using j q by (simp add: recv_message_def c1_def)
  have "add_mset s (counted messages c1) = counted messages c" by (simp add: c1_def counted_def queue)
  then have counted: "counted messages (recv_message cb j c) = counted messages c"
    using counted_set_receiver [of j c1 messages "RCounting s"] less j by (simp add: step c1_def at_simps)
  have live: "sum_list (map live_receiver (qc_receivers (recv_message cb j c))) = sum_list (map live_receiver (qc_receivers c))"
    using live_set_receiver [of j c1 "RCounting s"] less j by (simp add: step c1_def at_simps)
  have "will_notify (recv_message cb j c)" if "will_notify c"
    using that j unfolding will_notify_def step c1_def at_simps by (metis receiver_pc.distinct(1,5) receiver_pc.distinct(3))
  moreover have "connected c" using connected_set_receiver(2) [of j c] j by simp
  ultimately show ?thesis
    by (intro ok_transfer [OF ok])
      (use ok counted live queue in \<open>auto simp: channel_ok_def step c1_def at_simps\<close>)
next
  case False
  then show ?thesis using ok by (auto simp: recv_message_def split: receiver_pc.split option.split)
qed

lemma ok_manual_on_receive: "channel_ok messages c \<Longrightarrow> channel_ok messages (manual_on_receive j c)"
proof (cases "\<exists>s. receiver_at j c = RCounting s")
  case True
  assume ok: "channel_ok messages c"
  obtain s where j: "receiver_at j c = RCounting s" using True by blast
  have less: "j < length (qc_receivers c)" using j by (intro receiver_at_less) simp
  define d where "d = set_receiver j RNotifying (c\<lparr>qc_bytes_in_flight := qc_bytes_in_flight c - s\<rparr>)"
  have counted: "counted messages c = add_mset s (counted messages d)"
    using counted_set_receiver [of j "c\<lparr>qc_bytes_in_flight := qc_bytes_in_flight c - s\<rparr>" messages RNotifying] less j
    by (simp add: d_def at_simps)
  have bytes: "qc_bytes_in_flight c = s + sum_mset (counted messages d)"
    using ok counted by (simp add: channel_ok_def)
  have large: "qc_bytes_in_flight c \<le> qc_capacity_bytes c \<or> qc_bytes_in_flight c = s
      \<or> qc_bytes_in_flight c \<in># counted messages d"
    using ok counted by (auto simp: channel_ok_def)
  have "sum_mset (counted messages d) \<in># counted messages d" if "qc_bytes_in_flight c \<in># counted messages d"
  proof -
    have "qc_bytes_in_flight c \<le> sum_mset (counted messages d)" using sum_mset.remove [OF that] by simp
    then have "s = 0" using bytes by simp
    then show ?thesis using that bytes by simp
  qed
  then have "sum_mset (counted messages d) \<le> qc_capacity_bytes c \<or> sum_mset (counted messages d) \<in># counted messages d"
    using large bytes by (metis add_cancel_left_right le_add2 le_trans zero_le)
  moreover have "will_notify d" using less unfolding will_notify_def d_def at_simps by auto
  moreover have "sum_list (map live_receiver (qc_receivers d)) = sum_list (map live_receiver (qc_receivers c))"
    using live_set_receiver [of j "c\<lparr>qc_bytes_in_flight := qc_bytes_in_flight c - s\<rparr>" RNotifying] less j
    by (simp add: d_def at_simps)
  moreover have "connected c" using connected_set_receiver(2) [of j c] j by simp
  moreover have "qc_bytes_in_flight d = sum_mset (counted messages d)" using bytes by (simp add: d_def at_simps)
  moreover have same: "sender_at i d = sender_at i c" "qc_active_sender d = qc_active_sender c"
      "qc_capacity_bytes d = qc_capacity_bytes c" "qc_leaked d = qc_leaked c"
      "qc_num_receivers d = qc_num_receivers c" "qc_accepted d = qc_accepted c"
      "qc_delivered d = qc_delivered c" "qc_queue d = qc_queue c" for i
    by (simp_all add: d_def at_simps)
  ultimately have "channel_ok messages d" using ok unfolding channel_ok_def same by simp
  then show ?thesis using j by (simp add: manual_on_receive_def d_def)
qed (auto simp: manual_on_receive_def split: receiver_pc.split)

text \<open>A receiver that changes its state without a message, perhaps with a notification.\<close>

lemma counted_quiet_receiver:
  assumes "j < length (qc_receivers c)" "counting_bytes (receiver_at j c) = {#}" "counting_bytes r = {#}"
  shows "counted messages (set_receiver j r c) = counted messages c"
  using counted_set_receiver [OF assms(1), of messages r] assms(2,3) by simp

lemma ok_notify:
  assumes ok: "channel_ok messages c" and j: "j < length (qc_receivers c)" "receiver_at j c \<noteq> RGone"
    and quiet: "counting_bytes (receiver_at j c) = {#}" "counting_bytes r = {#}"
    and live: "live_receiver r = live_receiver (receiver_at j c)"
  shows "channel_ok messages (notify_all (set_receiver j r c))"
proof -
  have "sum_list (map live_receiver (qc_receivers (set_receiver j r c))) = sum_list (map live_receiver (qc_receivers c))"
    using live_set_receiver [OF j(1), of r] live by simp
  moreover have "connected c" using connected_set_receiver(2) [OF j(2)] .
  ultimately show ?thesis
    using ok counted_quiet_receiver [OF j(1) quiet, of messages]
    by (auto simp: channel_ok_def at_simps)
qed

lemma ok_receiver_notifies: "channel_ok messages c \<Longrightarrow> channel_ok messages (receiver_notifies j c)"
  by (cases "receiver_at j c") (auto simp: receiver_notifies_def intro!: ok_notify receiver_at_less)

lemma ok_clone_receiver: "channel_ok messages c \<Longrightarrow> channel_ok messages (clone_receiver j c)"
proof (cases "receiver_at j c = RIdle")
  case True
  assume ok: "channel_ok messages c"
  let ?d = "c\<lparr>qc_num_receivers := qc_num_receivers c + 1, qc_receivers := qc_receivers c @ [RIdle]\<rparr>"
  have at: "sender_at i ?d = sender_at i c" for i by (simp add: sender_at_def)
  have counted: "counted messages ?d = counted messages c" by (simp add: counted_def)
  have "receiver_at k ?d = receiver_at k c" if "receiver_at k c \<noteq> RGone" for k
    using receiver_at_less [OF that] by (simp add: receiver_at_def nth_append)
  then have "receiver_at k ?d = p" if "receiver_at k c = p" "p \<noteq> RGone" for k p using that by simp
  then have "will_notify ?d" if "will_notify c" using that unfolding will_notify_def by blast
  moreover have "connected c" using connected_set_receiver(2) [of j c] True by simp
  ultimately have "channel_ok messages ?d"
    by (intro ok_transfer [OF ok]) (use ok at counted in \<open>auto simp: channel_ok_def\<close>)
  then show ?thesis using True by (simp add: clone_receiver_def)
qed (auto simp: clone_receiver_def split: receiver_pc.split)

lemma ok_drop_receiver: "channel_ok messages c \<Longrightarrow> channel_ok messages (drop_receiver j c)"
proof (cases "receiver_at j c = RIdle")
  case True
  assume ok: "channel_ok messages c"
  have less: "j < length (qc_receivers c)" using True by (intro receiver_at_less) simp
  let ?n = "qc_num_receivers c - 1"
  let ?c = "c\<lparr>qc_num_receivers := ?n\<rparr>"
  define d where "d = set_receiver j (RDropping (?n = 0)) ?c"
  have same: "sender_at i d = sender_at i c" "qc_active_sender d = qc_active_sender c"
      "qc_capacity_bytes d = qc_capacity_bytes c" "qc_bytes_in_flight d = qc_bytes_in_flight c"
      "qc_leaked d = qc_leaked c" "qc_num_receivers d = ?n" "qc_accepted d = qc_accepted c"
      "qc_delivered d = qc_delivered c" "qc_queue d = qc_queue c" for i
    by (simp_all add: d_def at_simps)
  have "sum_list (map live_receiver (qc_receivers d)) + 1 = sum_list (map live_receiver (qc_receivers c))"
    using live_set_receiver [of j ?c "RDropping (?n = 0)"] less True by (simp add: d_def at_simps)
  then have live: "qc_num_receivers d = sum_list (map live_receiver (qc_receivers d))"
    using ok by (simp add: channel_ok_def same)
  have counted: "counted messages d = counted messages c"
    using counted_quiet_receiver [of j ?c "RDropping (?n = 0)" messages] less True by (simp add: d_def at_simps)
  have notify: "will_notify d" if "will_notify c"
    using will_notify_set_receiver [of ?c j "RDropping (?n = 0)"] that True by (simp add: d_def at_simps)
  have "will_notify d" if "?n = 0"
    using less that unfolding will_notify_def d_def at_simps by auto
  then have last: "0 < qc_num_receivers d \<or> will_notify d" by (cases "?n = 0") (auto simp: same)
  have "connected c" using connected_set_receiver(2) [of j c] True by simp
  moreover have "qc_accepted d = qc_delivered d @ map fst (messages (qc_queue d))"
    using ok by (simp add: channel_ok_def same)
  ultimately have "channel_ok messages d"
    using live counted notify last by (intro ok_transfer [OF ok]) (simp_all add: same)
  then show ?thesis using True by (simp add: drop_receiver_def Let_def d_def)
qed (auto simp: drop_receiver_def split: receiver_pc.split)

lemma ok_drop_receiver_ends: "channel_ok messages c \<Longrightarrow> channel_ok messages (drop_receiver_ends j c)"
proof (cases "receiver_at j c")
  case (RDropping last)
  assume ok: "channel_ok messages c"
  have less: "j < length (qc_receivers c)" using RDropping by (intro receiver_at_less) simp
  show ?thesis
  proof (cases last)
    case True
    then have "channel_ok messages (notify_all (set_receiver j RGone c))"
      using RDropping ok less by (intro ok_notify) auto
    then show ?thesis using RDropping True by (simp add: drop_receiver_ends_def)
  next
    case False
    let ?d = "set_receiver j RGone c"
    have "counted messages ?d = counted messages c"
      using counted_quiet_receiver [of j c RGone messages] less RDropping by simp
    moreover have "sum_list (map live_receiver (qc_receivers ?d)) = sum_list (map live_receiver (qc_receivers c))"
      using live_set_receiver [OF less, of RGone] RDropping by simp
    moreover have "will_notify ?d" if "will_notify c"
      using will_notify_set_receiver [of c j RGone] that RDropping False by simp
    moreover have "connected c" using connected_set_receiver(2) [of j c] RDropping by simp
    ultimately have "channel_ok messages ?d"
      by (intro ok_transfer [OF ok]) (use ok in \<open>auto simp: channel_ok_def at_simps\<close>)
    then show ?thesis using RDropping False by (simp add: drop_receiver_ends_def)
  qed
qed (auto simp: drop_receiver_ends_def)

lemma channel_ok_step:
  assumes "fifo cb messages" "channel_ok messages c"
  shows "channel_ok messages (channel_step cb e c)"
  using assms
  by (cases e) (simp_all add: ok_begin_send ok_lock ok_send_check ok_try_send_check ok_send_message ok_wait_ends
      ok_clone_sender ok_recv_message ok_manual_on_receive ok_receiver_notifies ok_clone_receiver
      ok_drop_receiver ok_drop_receiver_ends)

lemma channel_ok_run:
  assumes "fifo cb messages" "channel_ok messages c"
  shows "channel_ok messages (channel_run cb events c)"
  using assms(2) unfolding channel_run_def
  by (induction events arbitrary: c) (simp_all add: channel_ok_step [OF assms(1)])

lemma capacity_step: "qc_capacity_bytes (channel_step cb e c) = qc_capacity_bytes c"
  by (cases e) (simp_all add: begin_send_def lock_active_sender_def send_check_def try_send_check_def
      send_message_def wait_ends_def clone_sender_def recv_message_def manual_on_receive_def
      receiver_notifies_def clone_receiver_def drop_receiver_def drop_receiver_ends_def return_sender_def
      Let_def at_simps split: sender_pc.split receiver_pc.split option.split bool.split)

lemma capacity_run: "qc_capacity_bytes (channel_run cb events c) = qc_capacity_bytes c"
  unfolding channel_run_def by (induction events arbitrary: c) (simp_all add: capacity_step)

lemma capacity_new: "qc_capacity_bytes (channel_new cb capacity) = capacity"
  by (simp add: channel_new_def)

section \<open>A sender that waits gets its turn\<close>

fun notifier :: "receiver_pc \<Rightarrow> nat" where
  "notifier RNotifying = 1"
| "notifier (RDropping True) = 1"
| "notifier _ = 0"

text \<open>What is left to do for the receivers: messages to take and count, and notifications.\<close>

definition pending_work :: "('q \<Rightarrow> ('m \<times> nat) list) \<Rightarrow> ('m, 'q) Channel \<Rightarrow> nat" where
  "pending_work messages c = 3 * size (counted messages c) + sum_list (map notifier (qc_receivers c))"

text \<open>The events that need no new call: the running steps of receivers, and the sender's own test.\<close>

fun drains :: "nat \<Rightarrow> 'm channel_event \<Rightarrow> bool" where
  "drains i (RecvMessage _) = True"
| "drains i (ManualOnReceive _) = True"
| "drains i (ReceiverNotifies _) = True"
| "drains i (DropReceiverEnds _) = True"
| "drains i (SendCheck k) = (k = i)"
| "drains i _ = False"

lemma notifier_set_receiver:
  assumes "j < length (qc_receivers c)"
  shows "sum_list (map notifier (qc_receivers (set_receiver j r c))) + notifier (receiver_at j c)
    = sum_list (map notifier (qc_receivers c)) + notifier r"
  using sum_list_update_eq [OF assms, of notifier r] assms by (simp add: set_receiver_def receiver_at_def)

lemma channel_run_simps [simp]:
  "channel_run cb [] c = c" "channel_run cb (e # es) c = channel_run cb es (channel_step cb e c)"
  "channel_run cb (es @ fs) c = channel_run cb fs (channel_run cb es c)"
  by (simp_all add: channel_run_def)

lemma notification_wakes:
  assumes "will_notify c" "sender_at i c = SAsleep m s"
  shows "\<exists>e. drains i e \<and> sender_at i (channel_step cb e c) = SChecking m s True
    \<and> pending_work messages (channel_step cb e c) < pending_work messages c"
proof -
  obtain j where j: "receiver_at j c = RNotifying \<or> receiver_at j c = RDropping True"
    using assms(1) by (auto simp: will_notify_def)
  then have less: "j < length (qc_receivers c)" by (intro receiver_at_less) auto
  let ?r = "if receiver_at j c = RNotifying then RIdle else RGone"
  let ?e = "if receiver_at j c = RNotifying then ReceiverNotifies j else DropReceiverEnds j"
  have step: "channel_step cb ?e c = notify_all (set_receiver j ?r c)"
    using j by (auto simp: receiver_notifies_def drop_receiver_ends_def)
  have "counted messages (set_receiver j ?r c) = counted messages c"
    using j by (intro counted_quiet_receiver [OF less]) auto
  moreover have "sum_list (map notifier (qc_receivers (set_receiver j ?r c))) < sum_list (map notifier (qc_receivers c))"
    using notifier_set_receiver [OF less, of ?r] j by auto
  ultimately have "pending_work messages (channel_step cb ?e c) < pending_work messages c"
    unfolding step pending_work_def by (simp add: at_simps)
  moreover have "sender_at i (channel_step cb ?e c) = SChecking m s True"
    unfolding step by (simp add: at_simps assms(2) wake_sender_def)
  ultimately show ?thesis by (intro exI [of _ ?e]) simp
qed

lemma counting_frees:
  assumes "receiver_at j c = RCounting s'"
  shows "sender_at i (manual_on_receive j c) = sender_at i c
    \<and> pending_work messages (manual_on_receive j c) < pending_work messages c"
proof -
  have less: "j < length (qc_receivers c)" using assms by (intro receiver_at_less) simp
  let ?c = "c\<lparr>qc_bytes_in_flight := qc_bytes_in_flight c - s'\<rparr>"
  have step: "manual_on_receive j c = set_receiver j RNotifying ?c" using assms by (simp add: manual_on_receive_def)
  have "counted messages c = add_mset s' (counted messages (set_receiver j RNotifying ?c))"
    using counted_set_receiver [of j ?c messages RNotifying] less assms by (simp add: at_simps)
  then have "size (counted messages c) = Suc (size (counted messages (set_receiver j RNotifying ?c)))" by simp
  moreover have "sum_list (map notifier (qc_receivers (set_receiver j RNotifying ?c))) = sum_list (map notifier (qc_receivers c)) + 1"
    using notifier_set_receiver [of j ?c RNotifying] less assms by (simp add: at_simps)
  ultimately show ?thesis unfolding step pending_work_def by (simp add: at_simps)
qed

lemma receiving_counts:
  assumes "fifo cb messages" "receiver_at j c = RIdle" "messages (qc_queue c) \<noteq> []"
  shows "\<exists>s'. receiver_at j (recv_message cb j c) = RCounting s' \<and> sender_at i (recv_message cb j c) = sender_at i c
    \<and> pending_work messages (recv_message cb j c) = pending_work messages c"
proof -
  have less: "j < length (qc_receivers c)" using assms(2) by (intro receiver_at_less) simp
  obtain m s q where q: "cb_recv cb (qc_queue c) = Some ((m, s), q)" "messages (qc_queue c) = (m, s) # messages q"
    using assms(1,3) by (auto simp: fifo_def dest!: spec [of _ "qc_queue c"] split: option.splits)
  let ?c = "c\<lparr>qc_queue := q, qc_delivered := qc_delivered c @ [m]\<rparr>"
  have step: "recv_message cb j c = set_receiver j (RCounting s) ?c" using assms(2) q by (simp add: recv_message_def)
  have "add_mset s (counted messages ?c) = counted messages c" by (simp add: counted_def q(2))
  then have "counted messages (set_receiver j (RCounting s) ?c) = counted messages c"
    using counted_set_receiver [of j ?c messages "RCounting s"] less assms(2) by (simp add: at_simps)
  moreover have "sum_list (map notifier (qc_receivers (set_receiver j (RCounting s) ?c))) = sum_list (map notifier (qc_receivers c))"
    using notifier_set_receiver [of j ?c "RCounting s"] less assms(2) by (simp add: at_simps)
  ultimately have "pending_work messages (recv_message cb j c) = pending_work messages c"
    unfolding step pending_work_def by simp
  then show ?thesis using less by (intro exI [of _ s]) (simp add: step at_simps)
qed

text \<open>Without a notification under way, a sender waits only while a receiver has something to take or to count.\<close>

lemma asleep_has_work:
  assumes f: "fifo cb messages" and ok: "channel_ok messages c" and i: "sender_at i c = SAsleep m s"
    and quiet: "\<not> will_notify c"
  shows "(\<exists>j s'. receiver_at j c = RCounting s') \<or> (messages (qc_queue c) \<noteq> [] \<and> (\<exists>j. receiver_at j c = RIdle))"
proof (rule ccontr)
  assume none: "\<not> ?thesis"
  have room: "\<not> send_has_room (qc_capacity_bytes c) (qc_bytes_in_flight c) s" and num: "0 < qc_num_receivers c"
    using ok i quiet unfolding channel_ok_def by blast+
  have "\<exists>r \<in> set (qc_receivers c). live_receiver r \<noteq> 0"
  proof (rule ccontr)
    assume "\<not> ?thesis"
    then have "sum_list (map live_receiver (qc_receivers c)) = 0" by simp
    moreover have "qc_num_receivers c = sum_list (map live_receiver (qc_receivers c))"
      using ok unfolding channel_ok_def by blast
    ultimately show False using num by linarith
  qed
  then obtain r where r: "r \<in> set (qc_receivers c)" "live_receiver r \<noteq> 0" by blast
  then obtain j where j: "receiver_at j c = r" using at_of_member(2) by blast
  have "r = RIdle" using r(2) j quiet none by (cases r) (auto simp: will_notify_def)
  then have queue: "messages (qc_queue c) = []" using none j by auto
  have "sending_bytes p = {#}" if "p \<in> set (qc_senders c)" for p
  proof -
    obtain k where k: "sender_at k c = p" using at_of_member(1) \<open>p \<in> set (qc_senders c)\<close> by blast
    show ?thesis using alone [OF ok, of i k] i k by (cases p) auto
  qed
  then have senders: "sum_list (map sending_bytes (qc_senders c)) = {#}" by (simp cong: map_cong)
  have "counting_bytes r = {#}" if "r \<in> set (qc_receivers c)" for r
  proof -
    obtain k where "receiver_at k c = r" using at_of_member(2) \<open>r \<in> set (qc_receivers c)\<close> by blast
    then show ?thesis using none by (cases r) auto
  qed
  then have receivers: "sum_list (map counting_bytes (qc_receivers c)) = {#}" by (simp cong: map_cong)
  have "connected c" using j \<open>r = RIdle\<close> unfolding connected_iff by (metis receiver_pc.distinct(7))
  then have "qc_leaked c = []" using ok by (simp add: channel_ok_def)
  then have "qc_bytes_in_flight c = 0" using ok by (simp add: channel_ok_def counted_def queue senders receivers)
  then show False using room by (simp add: send_has_room_def split: if_splits)
qed

lemma waiting_ends:
  assumes f: "fifo cb messages" and ok: "channel_ok messages c" and i: "sender_at i c = SAsleep m s"
  shows "\<exists>events. (\<forall>e \<in> set events. drains i e)
    \<and> (sender_at i (channel_run cb events c) = SSending m s True
       \<or> (sender_at i (channel_run cb events c) = SIdle \<and> qc_num_receivers (channel_run cb events c) = 0))"
  (is "?goal c")
  using ok i
proof (induction "pending_work messages c" arbitrary: c rule: less_induct)
  case less
  have later: "?goal c" if es: "\<forall>e \<in> set es. drains i e" and goal: "?goal (channel_run cb es c)" for es
  proof -
    obtain fs where "\<forall>e \<in> set fs. drains i e"
        "sender_at i (channel_run cb fs (channel_run cb es c)) = SSending m s True
         \<or> (sender_at i (channel_run cb fs (channel_run cb es c)) = SIdle
            \<and> qc_num_receivers (channel_run cb fs (channel_run cb es c)) = 0)"
      using goal by blast
    then show ?thesis using es by (intro exI [of _ "es @ fs"]) auto
  qed
  show ?case
  proof (cases "will_notify c")
    case True
    obtain e where e: "drains i e" "sender_at i (channel_step cb e c) = SChecking m s True"
        "pending_work messages (channel_step cb e c) < pending_work messages c"
      using notification_wakes [OF True less(3), of cb messages] by blast
    let ?c = "channel_step cb e c"
    let ?d = "channel_run cb [e, SendCheck i] c"
    have at: "i < length (qc_senders ?c)" using e(2) by (intro sender_at_less) simp
    have d: "?d = send_check i ?c" by simp
    have "sender_at i ?d = SSending m s True \<or> (sender_at i ?d = SIdle \<and> qc_num_receivers ?d = 0)
        \<or> ?d = set_sender i (SAsleep m s) ?c"
      unfolding d using e(2) at
      by (cases "send_has_room (qc_capacity_bytes ?c) (qc_bytes_in_flight ?c) s"; cases "qc_num_receivers ?c = 0")
        (simp_all add: send_check_def return_sender_def at_simps)
    then consider "sender_at i ?d = SSending m s True" | "sender_at i ?d = SIdle \<and> qc_num_receivers ?d = 0"
      | "?d = set_sender i (SAsleep m s) ?c" by blast
    then show ?thesis
    proof cases
      case 3
      have "counted messages ?d = counted messages ?c"
        unfolding 3 using counted_set_sender [OF at, of messages "SAsleep m s"] e(2) by simp
      then have "pending_work messages ?d = pending_work messages ?c"
        unfolding pending_work_def 3 by (simp add: at_simps)
      then have "pending_work messages ?d < pending_work messages c" using e(3) by simp
      moreover have "sender_at i ?d = SAsleep m s" unfolding 3 using at by (simp add: at_simps)
      ultimately have "?goal ?d" using less(1) [of ?d] channel_ok_run [OF f less(2)] by blast
      then show ?thesis using later [of "[e, SendCheck i]"] e(1) by auto
    qed (use e(1) in \<open>intro exI [of _ "[e, SendCheck i]"], simp\<close>)+
  next
    case False
    consider j s' where "receiver_at j c = RCounting s'"
      | j where "messages (qc_queue c) \<noteq> []" "receiver_at j c = RIdle"
      using asleep_has_work [OF f less(2,3) False] by blast
    then show ?thesis
    proof cases
      case (1 j s')
      let ?d = "channel_run cb [ManualOnReceive j] c"
      have "pending_work messages ?d < pending_work messages c" "sender_at i ?d = SAsleep m s"
        using counting_frees [OF 1, of i messages] less(3) by simp_all
      then have "?goal ?d" using less(1) [of ?d] channel_ok_run [OF f less(2)] by blast
      then show ?thesis using later [of "[ManualOnReceive j]"] by auto
    next
      case (2 j)
      obtain s' where s': "receiver_at j (recv_message cb j c) = RCounting s'"
          "sender_at i (recv_message cb j c) = SAsleep m s"
          "pending_work messages (recv_message cb j c) = pending_work messages c"
        using receiving_counts [OF f 2(2,1), of i] less(3) by auto
      let ?d = "channel_run cb [RecvMessage j, ManualOnReceive j] c"
      have "pending_work messages ?d < pending_work messages c" "sender_at i ?d = SAsleep m s"
        using counting_frees [OF s'(1), of i messages] s'(2,3) by simp_all
      then have "?goal ?d" using less(1) [of ?d] channel_ok_run [OF f less(2)] by blast
      then show ?thesis using later [of "[RecvMessage j, ManualOnReceive j]"] by auto
    qed
  qed
qed

section \<open>The properties\<close>


text \<open>C8: no notification is lost: in every reachable state a sender that waits for room reaches the
  point where its message is sent, or learns that no receiver is left, by steps of the receivers and
  its own tests alone, without a timeout and without anyone else giving up.
\<close>
theorem waiting_sender_proceeds:
  assumes "fifo cb messages" "c = channel_run cb history (channel_new cb capacity)"
    and "sender_at i c = SAsleep m s"
  shows "\<exists>events. (\<forall>e \<in> set events. drains i e)
    \<and> (sender_at i (channel_run cb events c) = SSending m s True
       \<or> (sender_at i (channel_run cb events c) = SIdle \<and> qc_num_receivers (channel_run cb events c) = 0))"
  using waiting_ends [OF assms(1) _ assms(3)] channel_ok_run [OF assms(1) channel_ok_new [OF assms(1)]] assms(2)
  by simp

end
