(* ===== verification/Quota_Channel_Examples.thy ===== *)
theory Quota_Channel_Examples
  imports Quota_Channel_Props
begin

text \<open>The hypotheses on the channel below hold for a list, on which runs of the quota channel compute.\<close>

definition list_channel :: "('m, ('m \<times> nat) list) Crossbeam" where
  "list_channel = \<lparr>cb_unbounded = [], cb_send = (\<lambda>x q. q @ [x]),
     cb_recv = (\<lambda>q. case q of [] \<Rightarrow> None | x # q \<Rightarrow> Some (x, q))\<rparr>"

lemma fifo_list_channel: "fifo list_channel id"
  by (auto simp: fifo_def list_channel_def split: list.split)

text \<open>The first message fills the channel, the second has to wait.\<close>

definition full_channel_run :: "nat channel_event list" where
  "full_channel_run = [BeginSend 0 1 8 True, LockActiveSender 0, SendCheck 0, SendMessage 0,
     BeginSend 0 2 8 True, LockActiveSender 0, SendCheck 0]"

lemma full_channel_waits:
  "sender_at 0 (channel_run list_channel full_channel_run (channel_new list_channel 10)) = SAsleep 2 8"
  by (simp add: full_channel_run_def list_channel_def channel_new_def begin_send_def lock_active_sender_def
      send_check_def send_message_def return_sender_def connected_def sender_at_def set_sender_def
      send_has_room_def)


theorem waiting_sender_proceeds_witness:
  "\<exists>events. (\<forall>e \<in> set events. drains 0 e)
    \<and> (sender_at 0 (channel_run list_channel events
          (channel_run list_channel full_channel_run (channel_new list_channel 10))) = SSending 2 8 True
       \<or> (sender_at 0 (channel_run list_channel events
            (channel_run list_channel full_channel_run (channel_new list_channel 10))) = SIdle
          \<and> qc_num_receivers (channel_run list_channel events
            (channel_run list_channel full_channel_run (channel_new list_channel 10))) = 0))"
  by (rule waiting_sender_proceeds [OF fifo_list_channel refl full_channel_waits])

text \<open>
  A send that fails because the last receiver is gone leaves its bytes counted.
\<close>

lemma refused_message_stays_counted:
  "qc_bytes_in_flight (channel_run list_channel
     [DropReceiver 0, DropReceiverEnds 0, BeginSend 0 1 8 True, LockActiveSender 0, SendCheck 0, SendMessage 0]
     (channel_new list_channel 10)) = 8"
  by (simp add: list_channel_def channel_new_def begin_send_def lock_active_sender_def
      send_check_def send_message_def return_sender_def connected_def sender_at_def set_sender_def
      send_has_room_def drop_receiver_def drop_receiver_ends_def receiver_at_def set_receiver_def
      notify_all_def wake_sender_def Let_def)

end
