(* ===== verification/Spec2Isabelle.thy ===== *)
theory Spec2Isabelle
  imports Path_Filter_Props Store_Index_Props Query_Examples Rrd_Examples Chunk_Batcher_Examples
    Query_Zip_Props Sorted_Range_Map Stable_Index_Deque Codec_Examples Quota_Channel_Examples
begin

text \<open>
  A model of the data model of Rerun (the Rust crates under \<open>src/crates/\<close>): how logged data is
  addressed (entity paths and filters over them), stamped (times, ranges of times, row ids) and
  stored (chunks: tables of rows with time columns and component columns), and how chunks are
  transformed and queried.

  Layers, from the bottom:

  \<^item> \<open>Rerun_Prelude\<close>: machine integers at their width and Rust's saturating arithmetic, results as
    sums; \<open>Ordered_Map\<close>: Rust's \<open>Ordering\<close>, the locale \<open>total_cmp\<close> of lawful comparisons, and ordered
    maps as association lists; \<open>Rust_Char\<close>: strings as lists of code points, number parsing and
    printing; \<open>Digits\<close>, \<open>Le_Bytes\<close>: fixed-width positional notation and little-endian bytes.
  \<^item> \<open>Time_Types\<close> (\<open>re_log_types/src/index\<close>): \<open>NonMinI64\<close>, \<open>TimeInt\<close> and \<open>AbsoluteTimeRange\<close>.
  \<^item> \<open>Path_Part\<close>, \<open>Entity_Path\<close>, \<open>Path_Filter\<close> (\<open>re_log_types/src/path\<close>): escaping and parsing of
    path parts, the tokenizer and parsers of paths, and filters of paths;
    \<open>Path_Filter_Props\<close> proves what the filter tests promise. The natural order of strings is
    vendored code: it is the parameter \<open>natcmp\<close>, under the locale \<open>natural_order\<close>; Unicode's
    alphanumeric test is the parameter \<open>ualnum\<close>.
  \<^item> \<open>Tuid_Id\<close> (\<open>re_tuid\<close>): time-based unique ids, which are the row and chunk ids.
  \<^item> \<open>Chunk_Data\<close>, \<open>Chunk_Ops\<close>, \<open>Chunk_Query\<close> (\<open>re_chunk\<close>): the chunk and the operations of its
    source files \<open>chunk.rs\<close>, \<open>slice.rs\<close>, \<open>shuffle.rs\<close>, \<open>split.rs\<close>, \<open>merge.rs\<close>, \<open>latest_at.rs\<close>
    and \<open>range.rs\<close>. A list array is the list of its rows' cells with the flag that it carries a
    null bitmap; the Arrow kernels filter, take and concatenate these lists, and whether the
    result of a kernel carries a bitmap is the parameter \<open>kb\<close>. Fresh ids are arguments.
  \<^item> \<open>Chunk_Rows\<close>: the invariant \<open>chunk_ok\<close>, which is what \<open>sanity_check\<close> tests in a debug build,
    and the abstract view \<open>chunk_rows\<close> of a chunk as the list of its rows. \<open>Chunk_Slices\<close>,
    \<open>Chunk_Merge\<close>, \<open>Chunk_Latest\<close> and \<open>Chunk_Range\<close> show that every operation keeps the invariant
    and commutes with that view; \<open>Chunk_Examples\<close> instantiates them and shows the corner cases in
    which the code does not do what its documentation says.

  \<^item> \<open>Chunk_Batcher\<close> (\<open>re_chunk/src/batcher.rs\<close>): the rows of log calls, the chunks they are turned into,
    and the batching thread as a function of the commands and clock ticks it selects.
    \<open>Chunk_Batcher_Rows\<close> follows the loop that builds chunks, \<open>Chunk_Batcher_Props\<close> shows that neither a
    batch nor the thread loses rows, and \<open>Chunk_Batcher_Examples\<close> where the hypotheses on datatypes are
    needed. The hash function is a parameter.

  \<^item> \<open>Store_Index\<close>, \<open>Store_Data\<close>, \<open>Store_Remove\<close>, \<open>Store_Write\<close>, \<open>Store_Query\<close> (\<open>re_chunk_store\<close>): the
    store of chunks. \<open>Store_Index\<close> has the index of chunk ids by start and end time with the locale
    \<open>time_index\<close> of what the store relies on; \<open>Store_Data\<close> the state of \<open>store.rs\<close>, the lineage of
    chunks, statistics and events; \<open>Store_Remove\<close> indexing, removal and garbage collection (\<open>gc.rs\<close>);
    \<open>Store_Write\<close> insertion (\<open>writes.rs\<close>) and \<open>drop_time_range.rs\<close>; \<open>Store_Query\<close> the queries of
    \<open>query.rs\<close>. \<open>Store_Index_Props\<close> shows the relevance walks complete, and where they are not.
  \<^item> \<open>Store_Indexing\<close>, \<open>Store_Inv\<close>: the invariant \<open>store_inv\<close> of the store: the loaded chunks are valid
    and sorted, the order of row ids and the statistics are those of the loaded chunks, and the indices
    represent the time intervals of the chunks (those of unloaded chunks are the parameter \<open>V\<close>).
    \<open>Store_Pieces\<close>, \<open>Store_Insert\<close>, \<open>Store_Insert_Props\<close> show that insertion with its splits and
    compactions keeps it and conserves the rows; \<open>Store_GC\<close>, \<open>Store_GC_Props\<close> the same of garbage
    collection, and what it selects; \<open>Store_Examples\<close> instantiates them.
  \<^item> \<open>Query_Cache\<close> (\<open>re_query\<close>): the latest-at and range caches per entity, timeline and component, the
    queries through them with the effect of \<open>Clear\<close>, and their invalidation by the events of the store.
    \<open>Store_Latest\<close> states what the answer of a latest-at query on a store is (\<open>is_answer\<close>);
    \<open>Query_Cache_Props\<close> shows that a query through a coherent cache gives it, and that events that
    tell of every change keep caches coherent; \<open>Query_GC\<close> that those of a garbage collection do.
    \<open>Query_Examples\<close> has a store with one chunk on which all this is instantiated.

  \<^item> \<open>Query_Zip\<close> (\<open>re_query/src/range_zip\<close>, \<open>clamped_zip\<close>): the iterators that join the components of a
    query; \<open>Query_Zip_Props\<close> gives what they yield as closed formulas. Only the narrower of these generated
    iterators are modelled.
  \<^item> \<open>Sorted_Range_Map\<close> (\<open>re_entity_db/src/sorted_range_map.rs\<close>): ranges sorted by start, with the queries
    for overlaps and their resumable iterator. \<open>Stable_Index_Deque\<close> (\<open>re_video\<close>): the deque of video samples,
    with the locale \<open>step_simulation\<close> in which it refines a partial map from indices.
  \<^item> \<open>Rvl_Codec\<close> (\<open>re_rvl\<close>): the run-length codec of depth images. \<open>Rvl_Props\<close> refines its decoder and
    encoder to lists of nibbles and shows that images read back; \<open>Codec_Examples\<close> has an image.

  \<^item> \<open>Quota_Channel\<close> (\<open>re_quota_channel/src/sync\<close>): the channel between threads with a limit on the bytes in
    flight. A thread is a point of its code, and a run is a list of events, each of which lets one thread
    go on to its next point; the queue below is a parameter. \<open>Quota_Channel_Props\<close> has the invariant of all
    runs and shows that no wake-up is lost; \<open>Quota_Channel_Examples\<close> has a run.

  \<^item> \<open>Crate_Version\<close> (\<open>re_build_info\<close>), \<open>Rrd_Frames\<close>, \<open>Rrd_Decoder\<close>, \<open>Rrd_Encoder\<close> (\<open>re_log_encoding/src/rrd\<close>):
    versions of builds, the frames of recording streams with the locale \<open>frame_codec\<close>, and the decoder and
    encoder of such streams. \<open>Rrd_Decoder_Props\<close> has the locale \<open>byte_source\<close> of what the state machine
    needs from the queue of byte chunks, refines the decoder to one that reads a single string of bytes, and
    shows that every read ends and that chunking does not matter; \<open>Rrd_Roundtrip\<close> that what is encoded is
    decoded again; \<open>Rrd_Examples\<close> instantiates them. The Protobuf code, Arrow manifests and the checksum
    are parameters.

  Loops are structural recursion or carry a measure. The loops of the store that follow chains of
  chunk ids, and the loop that splits until nothing changes, are partial functions with no result
  when they do not end, and so is \<open>try_read\<close>, which always ends. The recursion of \<open>insert_chunk_impl\<close> runs on fuel 2: a piece of a split is
  not split again, so it is two deep.

  Not modelled: the user interface, rendering, networking, importers, generated types and the
  Arrow memory layout (offsets, buffers, heap sizes); data frames and Arrow metadata, which are
  conversions to third-party tables; transforms, which are floating-point arithmetic over generated
  components; the entity database above the store, which is statistics and glue for the viewer.
\<close>

end
